(* ===== verification/Prelude.thy ===== *)
theory Prelude
  imports Main "HOL-Library.Word" "HOL-Library.Multiset"
begin

section \<open>Prelude: shared types, the fault monad, strings and lists\<close>

text \<open>
  What every component shares: the fixed-width integer types of \<^verbatim>\<open>src/src/common/Define.h\<close>,
  the result type of code that can stop the process (\<^verbatim>\<open>ASSERT\<close>, \<^verbatim>\<open>ABORT\<close>) or run into
  undefined behaviour, the string searches of the C++ standard library that the sources use
  (\<^verbatim>\<open>find\<close>, \<^verbatim>\<open>find_last_of\<close>, \<^verbatim>\<open>substr\<close>, \<^verbatim>\<open>starts_with\<close>), the ASCII case mapping, little-endian numbers, and generic list
  lemmas.  Sizes (\<^verbatim>\<open>size_t\<close>) are natural numbers: no container of the program comes near
  \<open>2 ^ 64\<close> elements; counters of a smaller width are words in the component that has them.
\<close>

named_theorems res_simps
named_theorems str_simps

type_synonym u8 = "8 word"
type_synonym u16 = "16 word"
type_synonym u32 = "32 word"
type_synonym u64 = "64 word"

subsection \<open>Code that may stop the process\<close>

text \<open>
  A failed \<^verbatim>\<open>ASSERT\<close> and an \<^verbatim>\<open>ABORT\<close> end the process; \<open>Undefined\<close> marks an operation the C++
  standard leaves undefined (an access out of range, \<^verbatim>\<open>pop\<close> of an empty queue).
\<close>

datatype fault = AssertFailure | Aborted | Undefined

type_synonym 'a res = "fault + 'a"

fun bind_res :: "'a res \<Rightarrow> ('a \<Rightarrow> 'b res) \<Rightarrow> 'b res" where
  "bind_res (Inl e) f = Inl e"
| "bind_res (Inr x) f = f x"

definition assert_res :: "bool \<Rightarrow> unit res" where
  "assert_res b = (if b then Inr () else Inl AssertFailure)"

lemma bind_res_assoc: "bind_res (bind_res m f) g = bind_res m (\<lambda>x. bind_res (f x) g)"
  by (cases m) simp_all

lemma bind_res_Inr [simp]: "bind_res m Inr = m"
  by (cases m) simp_all

lemma bind_res_eq_Inr: "bind_res m f = Inr y \<longleftrightarrow> (\<exists>x. m = Inr x \<and> f x = Inr y)"
  by (cases m) simp_all

lemma assert_res_True [simp]: "assert_res True = Inr ()"
  by (simp add: assert_res_def)

lemma assert_res_eq_Inr: "assert_res b = Inr u \<longleftrightarrow> b"
  by (simp add: assert_res_def)

lemmas res_elims [res_simps] = bind_res_eq_Inr assert_res_eq_Inr

subsection \<open>Searching in strings\<close>

primrec index_of :: "'a \<Rightarrow> 'a list \<Rightarrow> nat option" where
  "index_of c [] = None"
| "index_of c (x # xs) = (if x = c then Some 0 else map_option Suc (index_of c xs))"

text \<open>\<open>str.find(c, pos)\<close>: the least index not below \<open>pos\<close> that holds \<open>c\<close>; \<open>None\<close> is \<open>npos\<close>.\<close>

definition find_from :: "'a \<Rightarrow> 'a list \<Rightarrow> nat \<Rightarrow> nat option" where
  "find_from c s pos = (if pos \<le> length s then map_option (\<lambda>i. pos + i) (index_of c (drop pos s)) else None)"

text \<open>\<open>str.find_last_of(c)\<close>: the greatest index that holds \<open>c\<close>.\<close>

primrec last_index_of :: "'a \<Rightarrow> 'a list \<Rightarrow> nat option" where
  "last_index_of c [] = None"
| "last_index_of c (x # xs) =
     (case last_index_of c xs of Some i \<Rightarrow> Some (Suc i) | None \<Rightarrow> if x = c then Some 0 else None)"

text \<open>\<open>str.substr(pos, n)\<close> for \<open>pos \<le> str.length()\<close>.\<close>

definition substr :: "'a list \<Rightarrow> nat \<Rightarrow> nat \<Rightarrow> 'a list" where
  "substr s pos n = take n (drop pos s)"

text \<open>\<open>haystack.find(needle) != npos\<close>.\<close>

fun starts_with :: "'a list \<Rightarrow> 'a list \<Rightarrow> bool" where
  "starts_with xs [] = True"
| "starts_with [] (y # ys) = False"
| "starts_with (x # xs) (y # ys) = (x = y \<and> starts_with xs ys)"

fun contains_str :: "'a list \<Rightarrow> 'a list \<Rightarrow> bool" where
  "contains_str [] needle = (needle = [])"
| "contains_str (x # xs) needle = (starts_with (x # xs) needle \<or> contains_str xs needle)"

lemma index_of_None [simp]: "index_of c xs = None \<longleftrightarrow> c \<notin> set xs"
  by (induction xs) auto

lemma index_of_Some_less: "index_of c xs = Some i \<Longrightarrow> i < length xs"
  by (induction xs arbitrary: i) (auto split: if_splits)

lemma index_of_append_hit [simp]: "c \<notin> set ys \<Longrightarrow> index_of c (ys @ c # zs) = Some (length ys)"
  by (induction ys) auto

lemma index_of_SomeD: "index_of c xs = Some i \<Longrightarrow> c \<notin> set (take i xs) \<and> xs = take i xs @ c # drop (Suc i) xs"
  by (induction xs arbitrary: i) (auto split: if_splits)

lemma find_from_less: "find_from c s pos = Some i \<Longrightarrow> pos \<le> i \<and> i < length s"
  by (auto simp: find_from_def dest!: index_of_Some_less split: if_splits)

lemma last_index_of_None [simp]: "last_index_of c xs = None \<longleftrightarrow> c \<notin> set xs"
  by (induction xs) (auto split: option.splits)

lemma last_index_of_less: "last_index_of c xs = Some i \<Longrightarrow> i < length xs"
  by (induction xs arbitrary: i) (auto split: option.splits if_splits)

lemma starts_with_take: "starts_with xs ys \<longleftrightarrow> take (length ys) xs = ys"
  by (induction xs ys rule: starts_with.induct) auto

lemma starts_with_append [simp]: "starts_with (xs @ ys) xs"
  by (simp add: starts_with_take)

lemma contains_str_iff: "contains_str s needle \<longleftrightarrow> (\<exists>a b. s = a @ needle @ b)"
proof (induction s needle rule: contains_str.induct)
  case (1 needle)
  then show ?case by auto
next
  case (2 x xs needle)
  have "starts_with (x # xs) needle \<longleftrightarrow> (\<exists>b. x # xs = needle @ b)"
    by (metis append_take_drop_id starts_with_append starts_with_take)
  then show ?case using 2 by (auto simp: Cons_eq_append_conv)
qed

subsection \<open>ASCII characters\<close>

text \<open>
  \<open>std::tolower\<close> and \<open>std::isspace\<close> in the classic locale, on the codes of the characters.
\<close>

definition ascii_lower :: "char \<Rightarrow> char" where
  "ascii_lower c = (let n = of_char c :: nat in if 65 \<le> n \<and> n \<le> 90 then char_of (n + 32) else c)"

definition is_space :: "char \<Rightarrow> bool" where
  "is_space c = (let n = of_char c :: nat in n = 32 \<or> 9 \<le> n \<and> n \<le> 13)"

definition is_digit :: "char \<Rightarrow> bool" where
  "is_digit c = (let n = of_char c :: nat in 48 \<le> n \<and> n \<le> 57)"

lemma of_char_ascii_lower:
  "of_char (ascii_lower c) = (let n = of_char c :: nat in if 65 \<le> n \<and> n \<le> 90 then n + 32 else n)"
  by (simp add: ascii_lower_def Let_def of_char_of)

lemma ascii_lower_idem [simp]: "ascii_lower (ascii_lower c) = ascii_lower c"
proof -
  have "\<not> (65 \<le> (of_char (ascii_lower c) :: nat) \<and> of_char (ascii_lower c) \<le> (90 :: nat))"
    by (auto simp: of_char_ascii_lower Let_def)
  then show ?thesis
    by (auto simp: ascii_lower_def [of "ascii_lower c"] Let_def)
qed

subsection \<open>Splitting and joining\<close>

text \<open>The specification against which tokenizing is checked.\<close>

fun split_on :: "'a \<Rightarrow> 'a list \<Rightarrow> 'a list list" where
  "split_on c [] = [[]]"
| "split_on c (x # xs) =
     (if x = c then [] # split_on c xs
      else case split_on c xs of [] \<Rightarrow> [[x]] | t # ts \<Rightarrow> (x # t) # ts)"

fun join_with :: "'a \<Rightarrow> 'a list list \<Rightarrow> 'a list" where
  "join_with c [] = []"
| "join_with c [t] = t"
| "join_with c (t # u # ts) = t @ c # join_with c (u # ts)"

lemma split_on_not_Nil [simp]: "split_on c xs \<noteq> []"
  by (cases "(c, xs)" rule: split_on.cases) (auto split: list.splits)

lemma split_on_no_sep: "c \<notin> set xs \<Longrightarrow> split_on c xs = [xs]"
  by (induction xs) auto

lemma split_on_append_sep: "c \<notin> set xs \<Longrightarrow> split_on c (xs @ c # ys) = xs # split_on c ys"
  by (induction xs) auto

lemma join_with_Cons: "ts \<noteq> [] \<Longrightarrow> join_with c (t # ts) = t @ c # join_with c ts"
  by (cases ts) simp_all

lemma join_split [simp]: "join_with c (split_on c xs) = xs"
proof (induction xs)
  case Nil
  then show ?case by simp
next
  case (Cons x xs)
  obtain t ts where s: "split_on c xs = t # ts"
    by (cases "split_on c xs") auto
  with Cons have "join_with c (t # ts) = xs" by simp
  then show ?case using s by (cases ts) (auto simp: join_with_Cons)
qed

lemma split_join:
  assumes "ts \<noteq> []" and "\<And>t. t \<in> set ts \<Longrightarrow> c \<notin> set t"
  shows "split_on c (join_with c ts) = ts"
  using assms
proof (induction c ts rule: join_with.induct)
  case (2 c t)
  then show ?case by (simp add: split_on_no_sep)
next
  case (3 c t u ts)
  then show ?case by (simp add: split_on_append_sep)
qed simp

lemma split_on_parts: "t \<in> set (split_on c xs) \<Longrightarrow> c \<notin> set t"
proof (induction xs arbitrary: t)
  case Nil
  then show ?case by simp
next
  case (Cons x xs)
  obtain u us where s: "split_on c xs = u # us"
    by (cases "split_on c xs") auto
  then have "c \<notin> set u" and "\<And>v. v \<in> set us \<Longrightarrow> c \<notin> set v"
    using Cons.IH by auto
  with Cons.prems s show ?case by (auto split: if_splits)
qed

subsection \<open>Hash maps\<close>

text \<open>
  A \<^verbatim>\<open>std::unordered_map\<close> as the list of its bindings, in iteration order: \<open>emplace\<close> keeps a binding
  that is already there.
\<close>

definition emplace :: "'k \<Rightarrow> 'v \<Rightarrow> ('k \<times> 'v) list \<Rightarrow> ('k \<times> 'v) list" where
  "emplace k v m = (if map_of m k = None then m @ [(k, v)] else m)"

definition map_erase :: "'k \<Rightarrow> ('k \<times> 'v) list \<Rightarrow> ('k \<times> 'v) list" where
  "map_erase k m = filter (\<lambda>(k', v). k' \<noteq> k) m"

lemma map_erase_absent: "map_of m k = None \<Longrightarrow> map_erase k m = m"
  by (auto simp: map_erase_def map_of_eq_None_iff filter_id_conv image_iff)

lemma map_of_map_erase: "map_of (map_erase k m) n = (if n = k then None else map_of m n)"
  by (induction m) (auto simp: map_erase_def)

lemma map_of_emplace: "map_of (emplace k v m) n = (if n = k \<and> map_of m k = None then Some v else map_of m n)"
proof (cases "map_of m k")
  case None
  then show ?thesis by (induction m) (auto simp: emplace_def split: if_splits)
qed (simp add: emplace_def)

lemma distinct_emplace: "distinct (map fst m) \<Longrightarrow> distinct (map fst (emplace k v m))"
  by (auto simp: emplace_def map_of_eq_None_iff)

lemma distinct_map_erase: "distinct (map fst m) \<Longrightarrow> distinct (map fst (map_erase k m))"
  by (auto simp: map_erase_def intro: distinct_map_filter)

lemma set_emplace: "set (map fst (emplace k v m)) = insert k (set (map fst m))"
  by (auto simp: emplace_def map_of_eq_None_iff)

subsection \<open>Bytes and little-endian numbers\<close>

definition string_bytes :: "string \<Rightarrow> u8 list" where
  "string_bytes s = map of_char s"

definition le_bytes :: "nat \<Rightarrow> nat \<Rightarrow> u8 list" where
  "le_bytes n v = map (\<lambda>i. of_nat (v div 256 ^ i)) [0..<n]"

fun le_value :: "u8 list \<Rightarrow> nat" where
  "le_value [] = 0"
| "le_value (b # bs) = unat b + 256 * le_value bs"

lemma length_le_bytes [simp]: "length (le_bytes n v) = n"
  by (simp add: le_bytes_def)

lemma le_bytes_Suc: "le_bytes (Suc n) v = of_nat v # le_bytes n (v div 256)"
  by (simp add: le_bytes_def upt_conv_Cons map_Suc_upt [symmetric] div_mult2_eq del: upt_Suc)

lemma le_value_le_bytes: "v < 256 ^ n \<Longrightarrow> le_value (le_bytes n v) = v"
proof (induction n arbitrary: v)
  case 0
  then show ?case by (simp add: le_bytes_def)
next
  case (Suc n)
  then have "v div 256 < 256 ^ n" by (simp add: less_mult_imp_div_less mult.commute)
  with Suc.IH show ?case
    by (simp add: le_bytes_Suc unsigned_of_nat take_bit_eq_mod mod_mult_div_eq)
qed

lemma le_value_bound: "le_value bs < 256 ^ length bs"
proof (induction bs)
  case (Cons b bs)
  have "unat b < 256" using unsigned_less [where ?'a = nat, of b] by simp
  moreover have "256 * le_value bs + 256 \<le> 256 * 256 ^ length bs" using Cons by simp
  ultimately show ?case by (simp del: mult_Suc_right)
qed simp

lemma le_bytes_le_value: "le_bytes (length bs) (le_value bs) = bs"
proof (induction bs)
  case (Cons b bs)
  have "unat b < 256" using unsigned_less [where ?'a = nat, of b] by simp
  moreover have "(of_nat (unat b + 256 * le_value bs) :: u8) = b"
    using calculation by (simp only: word_unat_eq_iff unat_of_nat) simp
  ultimately show ?case using Cons by (simp add: le_bytes_Suc)
qed (simp add: le_bytes_def)

lemma or_disjoint: "(a::nat) < 2 ^ k \<Longrightarrow> or a (c * 2 ^ k) = a + c * 2 ^ k"
proof -
  assume "a < 2 ^ k"
  then have "and a (push_bit k c) = and (take_bit k a) (push_bit k c)"
    by (simp add: take_bit_nat_eq_self)
  also have "\<dots> = 0" by (rule bit_eqI) (simp add: bit_and_iff bit_take_bit_iff bit_push_bit_iff)
  finally have "and a (push_bit k c) = 0" .
  from disjunctive_add_eq_or [OF this] show ?thesis by (simp add: push_bit_eq_mult)
qed

end
