(* ===== verification/Interfaces.thy ===== *)
theory Interfaces
  imports Prelude
begin

section \<open>Interfaces between the components\<close>

text \<open>
  The contracts the components rely on, each as a locale: a FIFO queue (the asynchronous
  operation queues), a queue ordered by a key (the task queue of the scheduler) and a keyed store
  (the option table of the configuration, the pending requests of the bot, the logger tables).
  The client lemmas are proved here once; every theory that provides such a structure interprets
  the locale on its own operations.
\<close>

subsection \<open>FIFO queues\<close>

locale fifo_queue =
  fixes empty :: 'q
    and push :: "'a \<Rightarrow> 'q \<Rightarrow> 'q"
    and pop :: "'q \<Rightarrow> ('a \<times> 'q) option"
    and elems :: "'q \<Rightarrow> 'a list"
    and ok :: "'q \<Rightarrow> bool"
  assumes ok_empty: "ok empty"
    and elems_empty: "elems empty = []"
    and ok_push: "ok q \<Longrightarrow> ok (push x q)"
    and elems_push: "ok q \<Longrightarrow> elems (push x q) = elems q @ [x]"
    and pop_None: "ok q \<Longrightarrow> pop q = None \<longleftrightarrow> elems q = []"
    and pop_Some: "ok q \<Longrightarrow> pop q = Some (x, q') \<Longrightarrow> ok q' \<and> elems q = x # elems q'"
begin

definition push_all :: "'a list \<Rightarrow> 'q \<Rightarrow> 'q" where
  "push_all xs q = fold push xs q"

primrec pop_n :: "nat \<Rightarrow> 'q \<Rightarrow> 'a list \<times> 'q" where
  "pop_n 0 q = ([], q)"
| "pop_n (Suc n) q =
     (case pop q of None \<Rightarrow> ([], q) | Some (x, q') \<Rightarrow> (let (xs, r) = pop_n n q' in (x # xs, r)))"

lemma push_all_ok: "ok q \<Longrightarrow> ok (push_all xs q) \<and> elems (push_all xs q) = elems q @ xs"
  by (induction xs arbitrary: q) (auto simp: push_all_def ok_push elems_push)

lemma pop_n_take: "ok q \<Longrightarrow> fst (pop_n n q) = take n (elems q)"
proof (induction n arbitrary: q)
  case 0
  then show ?case by simp
next
  case (Suc n)
  show ?case
  proof (cases "pop q")
    case None
    then show ?thesis using pop_None [OF Suc.prems] by simp
  next
    case (Some p)
    obtain x q' where p: "p = (x, q')" by (cases p)
    with Some Suc.prems have "ok q'" "elems q = x # elems q'" by (auto dest: pop_Some)
    with Suc.IH [of q'] Some p show ?thesis by (simp add: case_prod_beta Let_def)
  qed
qed

text \<open>What is pushed comes out in the order it went in, after what was there before.\<close>

lemma fifo_order: "ok q \<Longrightarrow> fst (pop_n (length (elems q) + length xs) (push_all xs q)) = elems q @ xs"
  using push_all_ok [of q xs] by (simp add: pop_n_take)

end

subsection \<open>Queues ordered by a key\<close>

locale keyed_queue =
  fixes key :: "'a \<Rightarrow> 'k :: linorder"
    and push :: "'a \<Rightarrow> 'q \<Rightarrow> 'q"
    and pop :: "'q \<Rightarrow> ('a \<times> 'q) option"
    and elems :: "'q \<Rightarrow> 'a list"
  assumes mset_push: "mset (elems (push x q)) = add_mset x (mset (elems q))"
    and sorted_push: "sorted (map key (elems q)) \<Longrightarrow> sorted (map key (elems (push x q)))"
    and pop_None: "pop q = None \<longleftrightarrow> elems q = []"
    and pop_Some: "pop q = Some (x, q') \<Longrightarrow> elems q = x # elems q'"
begin

lemma set_push: "set (elems (push x q)) = insert x (set (elems q))"
  using mset_push [of x q] by (metis set_mset_add_mset_insert set_mset_mset)

lemma length_push: "length (elems (push x q)) = Suc (length (elems q))"
  using mset_push [of x q] by (metis size_add_mset size_mset)

lemma distinct_push: "distinct (elems (push x q)) \<longleftrightarrow> x \<notin> set (elems q) \<and> distinct (elems q)"
  using mset_eq_imp_distinct_iff [of "elems (push x q)" "x # elems q"] mset_push [of x q] by simp

lemma sorted_push_all:
  "sorted (map key (elems q)) \<Longrightarrow> sorted (map key (elems (fold push xs q)))"
  by (induction xs arbitrary: q) (auto simp: sorted_push)

lemma mset_push_all: "mset (elems (fold push xs q)) = mset (elems q) + mset xs"
  by (induction xs arbitrary: q) (auto simp: mset_push)

text \<open>An ordered queue gives out an element of least key.\<close>

lemma pop_least:
  assumes "sorted (map key (elems q))" and "pop q = Some (x, q')"
  shows "sorted (map key (elems q')) \<and> (\<forall>y \<in> set (elems q). key x \<le> key y)"
  using pop_Some [OF assms(2)] assms(1) by auto

end

subsection \<open>Keyed stores\<close>

locale keyed_store =
  fixes lookup :: "'m \<Rightarrow> 'k \<Rightarrow> 'v option"
    and put :: "'k \<Rightarrow> 'v \<Rightarrow> 'm \<Rightarrow> 'm"
    and erase :: "'k \<Rightarrow> 'm \<Rightarrow> 'm"
  assumes lookup_put: "lookup (put k v m) k' = (if k' = k then Some v else lookup m k')"
    and lookup_erase: "lookup (erase k m) k' = (if k' = k then None else lookup m k')"
begin

lemma lookup_put_same [simp]: "lookup (put k v m) k = Some v"
  and lookup_put_other: "k' \<noteq> k \<Longrightarrow> lookup (put k v m) k' = lookup m k'"
  by (simp_all add: lookup_put)

lemma put_put: "lookup (put k w (put k v m)) = lookup (put k w m)"
  by (rule ext) (simp add: lookup_put)

lemma erase_put: "lookup (erase k (put k v m)) = lookup (erase k m)"
  by (rule ext) (simp add: lookup_put lookup_erase)

text \<open>Storing a list of bindings: the last binding of a key wins.\<close>

lemma lookup_fold_put:
  "lookup (fold (\<lambda>(k, v). put k v) kvs m) k =
     (case map_of (rev kvs) k of Some v \<Rightarrow> Some v | None \<Rightarrow> lookup m k)"
proof (induction kvs arbitrary: m)
  case Nil
  then show ?case by simp
next
  case (Cons kv kvs)
  then show ?case by (cases kv) (auto simp: lookup_put map_add_def split: option.splits)
qed

end

end
