(* ===== verification/StrUtil.thy ===== *)
theory StrUtil
  imports Prelude
begin

section \<open>String utilities\<close>

text \<open>
  \<^verbatim>\<open>src/src/common/Utilities\<close>: \<^verbatim>\<open>Tokenize.cpp\<close> (\<open>Tokenize\<close>), \<^verbatim>\<open>StringFormat.cpp\<close> (\<open>Trim\<close>,
  \<open>TrimLeft\<close>, \<open>TrimRight\<close>), \<^verbatim>\<open>Util.cpp\<close> (\<open>StringEqualI\<close>, \<open>ByteArrayToHexStr\<close>,
  \<open>HexStrToByteArray\<close>) and \<^verbatim>\<open>StringConvert.h\<close> (\<open>FromString\<close>, \<open>ToString\<close> for the integral types
  and for \<open>bool\<close>).  A \<^verbatim>\<open>string_view\<close> is the list of its characters; loops over iterators and
  indices are recursions over the same positions.  The locale of \<open>Trim\<close> is the classic one: the
  program never installs another.
\<close>

subsection \<open>Tokenize\<close>

function tokenize_from :: "string \<Rightarrow> char \<Rightarrow> bool \<Rightarrow> nat \<Rightarrow> string list" where
  "tokenize_from str sep keepEmpty start =
     (case find_from sep str start of
        Some end_pos \<Rightarrow>
          (if keepEmpty \<or> start < end_pos then [substr str start (end_pos - start)] else [])
            @ tokenize_from str sep keepEmpty (end_pos + 1)
      | None \<Rightarrow> if keepEmpty \<or> start < length str then [drop start str] else [])"
  by pat_completeness auto
termination
  by (relation "measure (\<lambda>(str, sep, keepEmpty, start). length str - start)")
    (auto dest: find_from_less)

definition Tokenize :: "string \<Rightarrow> char \<Rightarrow> bool \<Rightarrow> string list" where
  "Tokenize str sep keepEmpty = tokenize_from str sep keepEmpty 0"

subsection \<open>Trimming\<close>

definition Trim :: "string \<Rightarrow> string" where
  "Trim s =
     (let first = length (takeWhile is_space s);
          last_end = length (dropWhile is_space (rev s))
      in if first = length s then []
         else if first \<noteq> 0 \<or> last_end \<noteq> length s then drop first (take last_end s)
         else s)"

fun TrimLeft :: "string \<Rightarrow> string" where
  "TrimLeft [] = []"
| "TrimLeft (c # s) = (if c = CHR '' '' then TrimLeft s else c # s)"

function TrimRight :: "string \<Rightarrow> string" where
  "TrimRight s = (if s \<noteq> [] \<and> last s = CHR '' '' then TrimRight (butlast s) else s)"
  by pat_completeness auto
termination
  by (relation "measure length") auto

subsection \<open>Case-insensitive comparison\<close>

definition StringEqualI :: "string \<Rightarrow> string \<Rightarrow> bool" where
  "StringEqualI a b = list_all2 (\<lambda>c1 c2. ascii_lower c1 = ascii_lower c2) a b"

subsection \<open>Integers: \<open>std::from_chars\<close>, \<open>std::to_chars\<close> and their wrappers\<close>

text \<open>An integral type is its signedness and its width; values are integers in its range.\<close>

record int_type =
  it_signed :: bool
  it_bits :: nat

definition int_min :: "int_type \<Rightarrow> int" where
  "int_min ty = (if it_signed ty then - (2 ^ (it_bits ty - 1)) else 0)"

definition int_max :: "int_type \<Rightarrow> int" where
  "int_max ty = (if it_signed ty then 2 ^ (it_bits ty - 1) - 1 else 2 ^ it_bits ty - 1)"

definition in_range :: "int_type \<Rightarrow> int \<Rightarrow> bool" where
  "in_range ty v \<longleftrightarrow> int_min ty \<le> v \<and> v \<le> int_max ty"

abbreviation uint_ty :: "nat \<Rightarrow> int_type" where
  "uint_ty n \<equiv> \<lparr>it_signed = False, it_bits = n\<rparr>"

abbreviation sint_ty :: "nat \<Rightarrow> int_type" where
  "sint_ty n \<equiv> \<lparr>it_signed = True, it_bits = n\<rparr>"

definition digit_val :: "nat \<Rightarrow> char \<Rightarrow> nat option" where
  "digit_val base c =
     (let n = of_char c :: nat;
          v = if 48 \<le> n \<and> n \<le> 57 then Some (n - 48)
              else if 97 \<le> n \<and> n \<le> 122 then Some (n - 87)
              else if 65 \<le> n \<and> n \<le> 90 then Some (n - 55)
              else None
      in case v of Some d \<Rightarrow> if d < base then Some d else None | None \<Rightarrow> None)"

fun from_digits :: "nat \<Rightarrow> nat \<Rightarrow> string \<Rightarrow> nat \<times> string" where
  "from_digits base acc [] = (acc, [])"
| "from_digits base acc (c # s) =
     (case digit_val base c of
        Some d \<Rightarrow> from_digits base (acc * base + d) s
      | None \<Rightarrow> (acc, c # s))"

datatype errc = NoError | InvalidArgument | ResultOutOfRange

text \<open>The value, the characters left after the matched prefix, and the error code.\<close>

definition from_chars :: "int_type \<Rightarrow> nat \<Rightarrow> string \<Rightarrow> int \<times> string \<times> errc" where
  "from_chars ty base s =
     (let neg = it_signed ty \<and> s \<noteq> [] \<and> hd s = CHR ''-'';
          body = if neg then tl s else s
      in if body = [] \<or> digit_val base (hd body) = None then (0, s, InvalidArgument)
         else let (n, rest) = from_digits base 0 body;
                  v = if neg then - int n else int n
              in if in_range ty v then (v, rest, NoError) else (0, rest, ResultOutOfRange))"

definition FromString :: "int_type \<Rightarrow> string \<Rightarrow> nat \<Rightarrow> int option" where
  "FromString ty str0 base0 =
     (let (base, str, proceed) =
        (if base0 = 0 then
           let (b, s) =
             (if StringEqualI (substr str0 0 2) ''0x'' then (16, drop 2 str0)
              else if StringEqualI (substr str0 0 2) ''0b'' then (2, drop 2 str0)
              else (10, str0))
           in (b, s, s \<noteq> [])
         else (base0, str0, True))
      in if \<not> proceed then None
         else let (val, rest, ec) = from_chars ty base str
              in if rest = [] \<and> ec = NoError then Some val else None)"

definition digit_char :: "nat \<Rightarrow> char" where
  "digit_char d = char_of (48 + d)"

fun show_nat :: "nat \<Rightarrow> string" where
  "show_nat n = (if n < 10 then [digit_char n] else show_nat (n div 10) @ [digit_char (n mod 10)])"

declare show_nat.simps [simp del]

definition show_int :: "int \<Rightarrow> string" where
  "show_int v = (if v < 0 then CHR ''-'' # show_nat (nat (- v)) else show_nat (nat v))"

text \<open>\<open>std::to_chars\<close> into a buffer of \<open>cap\<close> characters; \<open>None\<close> is \<open>errc::value_too_large\<close>.\<close>

definition to_chars :: "nat \<Rightarrow> int \<Rightarrow> string option" where
  "to_chars cap v = (let t = show_int v in if length t \<le> cap then Some t else None)"

definition ToString :: "int \<Rightarrow> string res" where
  "ToString val = (case to_chars 20 val of Some buf \<Rightarrow> Inr buf | None \<Rightarrow> Inl AssertFailure)"

text \<open>The specialisation for \<open>bool\<close>.\<close>

definition BoolFromString :: "string \<Rightarrow> bool \<Rightarrow> bool option" where
  "BoolFromString str strict =
     (if strict then
        if str = ''1'' then Some True
        else if str = ''0'' then Some False
        else None
      else
        if str = ''1'' \<or> StringEqualI str ''y'' \<or> StringEqualI str ''on'' \<or> StringEqualI str ''yes''
             \<or> StringEqualI str ''true''
        then Some True
        else if str = ''0'' \<or> StringEqualI str ''n'' \<or> StringEqualI str ''off'' \<or> StringEqualI str ''no''
             \<or> StringEqualI str ''false''
        then Some False
        else None)"

definition BoolToString :: "bool \<Rightarrow> string" where
  "BoolToString val = (if val then ''1'' else ''0'')"

subsection \<open>Hexadecimal encoding of byte arrays\<close>

definition hex_digit :: "nat \<Rightarrow> char" where
  "hex_digit d = (if d < 10 then char_of (48 + d) else char_of (55 + d))"

text \<open>\<open>sprintf(buffer, "%02X", b)\<close>.\<close>

definition hex_byte :: "u8 \<Rightarrow> string" where
  "hex_byte b = [hex_digit (unat b div 16), hex_digit (unat b mod 16)]"

text \<open>The loop \<open>for (i = init; i != end; i += op)\<close>; reading outside the array is undefined.\<close>

function to_hex_loop :: "u8 list \<Rightarrow> bool \<Rightarrow> int \<Rightarrow> string res" where
  "to_hex_loop bytes rev_order i =
     (if i = (if rev_order then - 1 else int (length bytes)) then Inr []
      else if i < 0 \<or> int (length bytes) \<le> i then Inl Undefined
      else bind_res (to_hex_loop bytes rev_order (if rev_order then i - 1 else i + 1))
             (\<lambda>t. Inr (hex_byte (bytes ! nat i) @ t)))"
  by pat_completeness auto
termination
  by (relation "measure (\<lambda>(bytes, r, i). if r then nat (i + 1) else nat (int (length bytes) - i))") auto

definition ByteArrayToHexStr :: "u8 list \<Rightarrow> bool \<Rightarrow> string res" where
  "ByteArrayToHexStr bytes rev_order =
     to_hex_loop bytes rev_order (if rev_order then int (length bytes) - 1 else 0)"

text \<open>\<open>strtoul(buffer, nullptr, 16)\<close> and the conversion of its result to \<open>uint8\<close>.\<close>

definition strtoul16 :: "string \<Rightarrow> u64" where
  "strtoul16 s =
     (let s1 = dropWhile is_space s;
          neg = s1 \<noteq> [] \<and> hd s1 = CHR ''-'';
          s2 = if s1 \<noteq> [] \<and> (hd s1 = CHR ''-'' \<or> hd s1 = CHR ''+'') then tl s1 else s1;
          s3 = if length s2 > 2 \<and> StringEqualI (take 2 s2) ''0x'' \<and> digit_val 16 (s2 ! 2) \<noteq> None
               then drop 2 s2 else s2;
          n = fst (from_digits 16 0 s3)
      in if neg then - of_nat n else of_nat n)"

function from_hex_loop :: "string \<Rightarrow> bool \<Rightarrow> int \<Rightarrow> nat \<Rightarrow> u8 list \<Rightarrow> u8 list res" where
  "from_hex_loop str rev_order i j out =
     (if i = (if rev_order then - 2 else int (length str)) then Inr out
      else if i < 0 \<or> int (length str) \<le> i + 1 \<or> length out \<le> j then Inl Undefined
      else from_hex_loop str rev_order (if rev_order then i - 2 else i + 2) (j + 1)
             (out[j := ucast (strtoul16 [str ! nat i, str ! nat (i + 1)])]))"
  by pat_completeness auto
termination
  by (relation "measure (\<lambda>(str, r, i, j, out). if r then nat (i + 2) else nat (int (length str) - i))") auto

definition HexStrToByteArray :: "string \<Rightarrow> u8 list \<Rightarrow> bool \<Rightarrow> u8 list res" where
  "HexStrToByteArray str out rev_order =
     from_hex_loop str rev_order (if rev_order then int (length str) - 2 else 0) 0 out"

declare tokenize_from.simps [simp del] TrimRight.simps [simp del] to_hex_loop.simps [simp del]
  from_hex_loop.simps [simp del]

subsection \<open>Tokenizing is splitting\<close>

lemma drop_find_from:
  "find_from c s pos = Some i \<Longrightarrow>
     drop pos s = substr s pos (i - pos) @ c # drop (Suc i) s \<and> c \<notin> set (substr s pos (i - pos))"
proof -
  assume a: "find_from c s pos = Some i"
  then obtain k where k: "index_of c (drop pos s) = Some k" "i = pos + k"
    by (auto simp: find_from_def split: if_splits)
  then show ?thesis
    using index_of_SomeD [OF k(1)] by (simp add: substr_def add.commute)
qed

lemma tokenize_from_split:
  "start \<le> length str \<Longrightarrow>
     tokenize_from str sep keep start
       = (if keep then split_on sep (drop start str)
          else filter (\<lambda>t. t \<noteq> []) (split_on sep (drop start str)))"
proof (induction str sep keep start rule: tokenize_from.induct)
  case (1 str sep keep start)
  show ?case
  proof (cases "find_from sep str start")
    case None
    then have "sep \<notin> set (drop start str)"
      using "1.prems" by (simp add: find_from_def)
    with None show ?thesis
      by (simp add: tokenize_from.simps [of str sep keep start] split_on_no_sep)
  next
    case (Some i)
    have le: "i + 1 \<le> length str" and si: "start \<le> i"
      using find_from_less [OF Some] by auto
    note IH = "1.IH" [OF Some le]
    have d: "drop start str = substr str start (i - start) @ sep # drop (Suc i) str"
      and n: "sep \<notin> set (substr str start (i - start))"
      using drop_find_from [OF Some] by auto
    have e: "substr str start (i - start) = [] \<longleftrightarrow> \<not> start < i"
      using le by (auto simp: substr_def)
    show ?thesis
      using IH Some e by (simp add: tokenize_from.simps [of str sep keep start] d split_on_append_sep [OF n])
  qed
qed

lemma Tokenize_split:
  "Tokenize str sep keep =
     (if keep then split_on sep str else filter (\<lambda>t. t \<noteq> []) (split_on sep str))"
  by (simp add: Tokenize_def tokenize_from_split)

text \<open>
  \<open>Tokenize\<close> with \<open>keepEmpty\<close> cuts the string at every separator and loses nothing: joining
  the tokens with the separator gives the string back, and no token contains the separator.
  Without \<open>keepEmpty\<close> the result is the same list with the empty tokens left out.
\<close>

theorem tokenize_lossless:
  "join_with sep (Tokenize str sep True) = str \<and>
   list_all (\<lambda>t. sep \<notin> set t) (Tokenize str sep True) \<and>
   Tokenize str sep False = filter (\<lambda>t. t \<noteq> []) (Tokenize str sep True)"
  by (auto simp: Tokenize_split list_all_iff dest: split_on_parts)

lemma Tokenize_join:
  "ts \<noteq> [] \<Longrightarrow> list_all (\<lambda>t. sep \<notin> set t) ts \<Longrightarrow> Tokenize (join_with sep ts) sep True = ts"
  by (simp add: Tokenize_split split_join list_all_iff)

subsection \<open>Trimming\<close>

lemma Trim_eq: "Trim s = rev (dropWhile is_space (rev (dropWhile is_space s)))"
proof -
  let ?a = "takeWhile is_space s" and ?b = "dropWhile is_space s"
  have s: "s = ?a @ ?b" by simp
  show ?thesis
  proof (cases "?b = []")
    case True
    then have "length ?a = length s" by (metis append_Nil2 takeWhile_dropWhile_id)
    then show ?thesis unfolding Trim_def Let_def True by simp
  next
    case False
    then have ne: "length ?a \<noteq> length s"
      by (metis append_eq_conv_conj drop_all order_refl takeWhile_dropWhile_id)
    have ex: "\<exists>x \<in> set (rev ?b). \<not> is_space x"
      using hd_dropWhile [OF False] hd_in_set [OF False] by (metis set_rev)
    have r: "dropWhile is_space (rev s) = dropWhile is_space (rev ?b) @ rev ?a"
      using ex by (subst s, simp only: rev_append) (auto simp: dropWhile_append1)
    let ?c = "rev (dropWhile is_space (rev ?b))"
    have len: "length (dropWhile is_space (rev s)) = length ?a + length ?c"
      by (simp add: r)
    have "prefix_len_ok": "take (length ?c) ?b = ?c"
      by (metis append_eq_conv_conj rev_append rev_rev_ident takeWhile_dropWhile_id)
    have "drop (length ?a) (take (length ?a + length ?c) s) = take (length ?c) (drop (length ?a) s)"
      by (simp add: drop_take)
    also have "drop (length ?a) s = ?b"
      by (simp add: dropWhile_eq_drop)
    finally have d: "drop (length ?a) (take (length ?a + length ?c) s) = ?c"
      using prefix_len_ok by simp
    show ?thesis
    proof (cases "length ?a \<noteq> 0 \<or> length ?a + length ?c \<noteq> length s")
      case True
      with ne d show ?thesis by (simp only: Trim_def Let_def len if_False if_True)
    next
      case F: False
      with d have "?c = s" by simp
      with F ne show ?thesis by (simp only: Trim_def Let_def len if_False if_True)
    qed
  qed
qed


lemma Trim_decomp: "\<exists>a b. s = a @ Trim s @ b \<and> list_all is_space a \<and> list_all is_space b"
proof -
  let ?b = "dropWhile is_space s"
  have "?b = Trim s @ rev (takeWhile is_space (rev ?b))"
    by (metis Trim_eq rev_append rev_rev_ident takeWhile_dropWhile_id)
  then have "s = takeWhile is_space s @ Trim s @ rev (takeWhile is_space (rev ?b))"
    by (metis takeWhile_dropWhile_id)
  moreover have "list_all is_space (takeWhile is_space s)"
    "list_all is_space (rev (takeWhile is_space (rev ?b)))"
    by (auto simp: list_all_iff dest: set_takeWhileD)
  ultimately show ?thesis by blast
qed

lemma Trim_last: "Trim s \<noteq> [] \<Longrightarrow> \<not> is_space (last (Trim s))"
  by (metis Trim_eq hd_dropWhile hd_rev last_rev rev_is_Nil_conv rev_rev_ident)

lemma Trim_hd: "Trim s \<noteq> [] \<Longrightarrow> \<not> is_space (hd (Trim s))"
proof -
  assume ne: "Trim s \<noteq> []"
  let ?b = "dropWhile is_space s"
  have b: "?b = Trim s @ rev (takeWhile is_space (rev ?b))"
    by (metis Trim_eq rev_append rev_rev_ident takeWhile_dropWhile_id)
  with ne have "?b \<noteq> []" by (metis append_is_Nil_conv)
  then have "\<not> is_space (hd ?b)" by (rule hd_dropWhile)
  with b ne show ?thesis by (metis hd_append2)
qed

lemma Trim_id: "s \<noteq> [] \<Longrightarrow> \<not> is_space (hd s) \<Longrightarrow> \<not> is_space (last s) \<Longrightarrow> Trim s = s"
proof -
  assume ne: "s \<noteq> []" and h: "\<not> is_space (hd s)" and l: "\<not> is_space (last s)"
  have "dropWhile is_space s = s" using ne h by (cases s) auto
  moreover have "dropWhile is_space (rev s) = rev s" using ne l by (cases s rule: rev_cases) auto
  ultimately show ?thesis by (simp add: Trim_eq)
qed

lemma Trim_idem [simp]: "Trim (Trim s) = Trim s"
  by (cases "Trim s = []") (simp_all add: Trim_eq [of "[]"] Trim_id Trim_hd Trim_last)

lemma set_Trim: "set (Trim s) \<subseteq> set s"
  by (auto simp: Trim_eq dest!: set_dropWhileD)

lemma TrimRight_append_space [simp]: "TrimRight (s @ [CHR '' '']) = TrimRight s"
  by (simp add: TrimRight.simps [of "s @ [CHR '' '']"])

lemma TrimRight_id: "s = [] \<or> last s \<noteq> CHR '' '' \<Longrightarrow> TrimRight s = s"
  by (subst TrimRight.simps) auto

subsection \<open>Case-insensitive equality is an equivalence\<close>

lemma StringEqualI_map: "StringEqualI a b \<longleftrightarrow> map ascii_lower a = map ascii_lower b"
  unfolding StringEqualI_def by (induction a arbitrary: b) (auto simp: list_all2_Cons1 Cons_eq_map_conv)

lemma StringEqualI_refl [simp]: "StringEqualI a a"
  and StringEqualI_sym: "StringEqualI a b \<Longrightarrow> StringEqualI b a"
  and StringEqualI_trans: "StringEqualI a b \<Longrightarrow> StringEqualI b c \<Longrightarrow> StringEqualI a c"
  by (simp_all add: StringEqualI_map)

subsection \<open>Decimal printing and parsing\<close>

lemma of_char_digit_char: "d < 10 \<Longrightarrow> of_char (digit_char d) = 48 + d"
  by (simp add: digit_char_def of_char_of)

lemma digit_val_digit_char: "d < 10 \<Longrightarrow> digit_val 10 (digit_char d) = Some d"
  by (simp add: digit_val_def of_char_digit_char)

lemma show_nat_not_Nil [simp]: "show_nat n \<noteq> []"
  by (subst show_nat.simps) simp

lemma from_digits_snoc:
  "from_digits b acc s = (n, []) \<Longrightarrow> digit_val b c = Some d \<Longrightarrow> from_digits b acc (s @ [c]) = (n * b + d, [])"
  by (induction b acc s rule: from_digits.induct) (auto split: option.splits)

lemma from_digits_show_nat: "from_digits 10 0 (show_nat n) = (n, [])"
proof (induction n rule: show_nat.induct)
  case (1 n)
  show ?case
  proof (cases "n < 10")
    case True
    then show ?thesis by (simp add: show_nat.simps [of n] digit_val_digit_char)
  next
    case False
    with 1 have "from_digits 10 0 (show_nat (n div 10)) = (n div 10, [])" by simp
    from from_digits_snoc [OF this digit_val_digit_char, of "n mod 10"] show ?thesis
      using False by (simp add: show_nat.simps [of n])
  qed
qed

lemma hd_show_nat: "\<exists>d < 10. hd (show_nat n) = digit_char d"
proof (induction n rule: show_nat.induct)
  case (1 n)
  then show ?case by (cases "n < 10") (auto simp: show_nat.simps [of n] hd_append)
qed

lemma digit_val_hd_show_nat: "digit_val 10 (hd (show_nat n)) \<noteq> None"
  using hd_show_nat [of n] by (auto simp: digit_val_digit_char)

lemma hd_show_nat_not_minus: "hd (show_nat n) \<noteq> CHR ''-''"
proof -
  obtain d where "d < 10" "hd (show_nat n) = digit_char d" using hd_show_nat by blast
  then have "of_char (hd (show_nat n)) = 48 + d" by (simp add: of_char_digit_char)
  then show ?thesis by auto
qed

lemma length_show_nat: "n < 10 ^ k \<Longrightarrow> 0 < k \<Longrightarrow> length (show_nat n) \<le> k"
proof (induction n arbitrary: k rule: show_nat.induct)
  case (1 n)
  show ?case
  proof (cases "n < 10")
    case True
    with "1.prems" show ?thesis by (simp add: show_nat.simps [of n])
  next
    case False
    with "1.prems" obtain m where k: "k = Suc m" and m: "0 < m"
      by (cases k; cases "k - 1") auto
    with "1.prems" have "n div 10 < 10 ^ m" by (simp add: div_less_iff_less_mult mult.commute)
    with 1 False m have "length (show_nat (n div 10)) \<le> m" by simp
    with False k show ?thesis by (simp add: show_nat.simps [of n])
  qed
qed

lemma from_chars_show_int:
  assumes "in_range ty v"
  shows "from_chars ty 10 (show_int v) = (v, [], NoError)"
proof (cases "v < 0")
  case True
  with assms have "it_signed ty" by (cases "it_signed ty") (auto simp: in_range_def int_min_def)
  then show ?thesis using True assms digit_val_hd_show_nat [of "nat (- v)"]
    by (simp add: from_chars_def show_int_def from_digits_show_nat del: not_None_eq)
next
  case False
  then show ?thesis
    using assms digit_val_hd_show_nat [of "nat v"] hd_show_nat_not_minus [of "nat v"]
    by (simp add: from_chars_def show_int_def from_digits_show_nat del: not_None_eq)
qed

lemma FromString_show_int: "in_range ty v \<Longrightarrow> FromString ty (show_int v) 10 = Some v"
  by (simp add: FromString_def from_chars_show_int)

lemma in_range_bound:
  assumes "in_range ty v" and "it_bits ty \<le> 64"
  shows "- (2 ^ 63) \<le> v" and "v < 2 ^ 64"
proof -
  have "(2::int) ^ (it_bits ty - 1) \<le> 2 ^ 63" and "(2::int) ^ it_bits ty \<le> 2 ^ 64"
    using assms(2) by (intro power_increasing; simp)+
  then show "- (2 ^ 63) \<le> v" "v < 2 ^ 64"
    using assms(1) by (auto simp: in_range_def int_min_def int_max_def split: if_splits)
qed

lemma length_show_int:
  assumes "- (2 ^ 63) \<le> v" and "v < 2 ^ 64"
  shows "length (show_int v) \<le> 20"
proof (cases "v < 0")
  case True
  with assms have "nat (- v) < 10 ^ 19" by simp
  then have "length (show_nat (nat (- v))) \<le> 19" by (rule length_show_nat) simp
  with True show ?thesis by (simp add: show_int_def)
next
  case False
  with assms have "nat v < 10 ^ 20" by simp
  then have "length (show_nat (nat v)) \<le> 20" by (rule length_show_nat) simp
  with False show ?thesis by (simp add: show_int_def)
qed

text \<open>
  For every integral type of at most 64 bits and every value of it, \<open>ToString\<close> fits its
  20-character buffer, so its \<open>ASSERT\<close> holds, and \<open>FromString\<close> in base 10 reads the value back.
\<close>

theorem string_convert_roundtrip:
  assumes "in_range ty v" and "it_bits ty \<le> 64"
  shows "\<exists>s. ToString v = Inr s \<and> length s \<le> 20 \<and> FromString ty s 10 = Some v"
  using length_show_int [OF in_range_bound [OF assms]] FromString_show_int [OF assms(1)]
  by (simp add: ToString_def to_chars_def)

theorem string_convert_roundtrip_witness:
  "in_range (sint_ty 64) (- (2 ^ 63)) \<and>
   (\<exists>s. ToString (- (2 ^ 63)) = Inr s \<and> length s \<le> 20 \<and> FromString (sint_ty 64) s 10 = Some (- (2 ^ 63)))"
proof -
  have r: "in_range (sint_ty 64) (- (2 ^ 63))"
    by (simp add: in_range_def int_min_def int_max_def)
  show ?thesis using r string_convert_roundtrip [OF r] by simp
qed

lemma FromString_in_range: "FromString ty s b = Some v \<Longrightarrow> in_range ty v"
  by (auto simp: FromString_def from_chars_def Let_def split: if_splits prod.splits)

subsection \<open>Hexadecimal round trip\<close>

definition dec_pair :: "string \<Rightarrow> nat \<Rightarrow> u8" where
  "dec_pair str p = ucast (strtoul16 [str ! (2 * p), str ! (2 * p + 1)])"

definition hex_pos :: "bool \<Rightarrow> nat \<Rightarrow> nat \<Rightarrow> int" where
  "hex_pos r n j = (if r then 2 * (int n - 1 - int j) else 2 * int j)"

lemma from_hex_loop_even:
  assumes "length str = 2 * n" and "n \<le> length out" and "j \<le> n"
  shows "from_hex_loop str r (hex_pos r n j) j out
    = Inr (take j out @ map (\<lambda>k. dec_pair str (if r then n - 1 - k else k)) [j..<n] @ drop n out)"
  using assms
proof (induction "n - j" arbitrary: j out)
  case 0
  then have "hex_pos r n j = (if r then - 2 else int (length str))" by (auto simp: hex_pos_def)
  then have "from_hex_loop str r (hex_pos r n j) j out = Inr out"
    by (subst from_hex_loop.simps) simp
  then show ?case using 0 by simp
next
  case (Suc d)
  let ?p = "if r then n - 1 - j else j"
  let ?out = "out[j := dec_pair str ?p]"
  have j: "j < n" using Suc.hyps by simp
  have p: "nat (hex_pos r n j) = 2 * ?p" "nat (hex_pos r n j + 1) = 2 * ?p + 1"
    "\<not> hex_pos r n j < 0" "\<not> int (length str) \<le> hex_pos r n j + 1"
    "hex_pos r n j \<noteq> (if r then - 2 else int (length str))"
    "(if r then hex_pos r n j - 2 else hex_pos r n j + 2) = hex_pos r n (Suc j)"
    using j Suc.prems(1) by (auto simp: hex_pos_def)
  have "from_hex_loop str r (hex_pos r n j) j out = from_hex_loop str r (hex_pos r n (Suc j)) (Suc j) ?out"
    using j Suc.prems(2) p by (simp add: from_hex_loop.simps [of _ _ "hex_pos r n j"] dec_pair_def)
  also have "\<dots> = Inr (take (Suc j) ?out @ map (\<lambda>k. dec_pair str (if r then n - 1 - k else k)) [Suc j..<n] @ drop n ?out)"
    using Suc.hyps(1) [of "Suc j" ?out] Suc.hyps(2) Suc.prems j by simp
  also have "take (Suc j) ?out = take j out @ [dec_pair str ?p]"
    using j Suc.prems(2) by (simp add: take_Suc_conv_app_nth)
  finally show ?case using j by (simp add: upt_conv_Cons)
qed

lemma hex_pos_start: "length str = 2 * n \<Longrightarrow> (if r then int (length str) - 2 else 0) = hex_pos r n 0"
  by (simp add: hex_pos_def)

lemma HexStrToByteArray_even:
  assumes "length str = 2 * n" and "n \<le> length out"
  shows "HexStrToByteArray str out r
    = Inr (map (\<lambda>k. dec_pair str (if r then n - 1 - k else k)) [0..<n] @ drop n out)"
  using from_hex_loop_even [OF assms, of 0 r] hex_pos_start [OF assms(1), of r]
  by (simp add: HexStrToByteArray_def)

lemma from_hex_loop_undefined:
  assumes "odd (length str) \<or> 2 * length out < length str" and "j \<le> length out"
    and "i + (if r then 2 else - 2) * int j = (if r then int (length str) - 2 else 0)"
  shows "from_hex_loop str r i j out = Inl Undefined"
  using assms
proof (induction str r i j out rule: from_hex_loop.induct)
  case (1 str r i j out)
  have "i \<noteq> (if r then - 2 else int (length str))"
  proof
    assume "i = (if r then - 2 else int (length str))"
    then have "int (length str) = 2 * int j" using "1.prems"(3) by (auto split: if_splits)
    then have "length str = 2 * j" by linarith
    then show False using "1.prems"(1,2) by auto
  qed
  moreover have "(if r then i - 2 else i + 2) + (if r then 2 else - 2) * int (j + 1)
      = (if r then int (length str) - 2 else 0)"
    using "1.prems"(3) by (auto split: if_splits)
  ultimately show ?case
    using "1.IH" "1.prems" by (subst from_hex_loop.simps) auto
qed

lemma HexStrToByteArray_undefined:
  "odd (length str) \<or> 2 * length out < length str \<Longrightarrow> HexStrToByteArray str out r = Inl Undefined"
  unfolding HexStrToByteArray_def by (rule from_hex_loop_undefined) simp_all

text \<open>
  The commented-out \<open>ASSERT(str.size() == 2 * outlen)\<close> of \<open>HexStrToByteArray\<close> is needed: the
  loop stays inside both buffers exactly when the string has an even length and at most two
  characters per byte of the output buffer; on any other input it runs into undefined behaviour.
\<close>

theorem hex_decode_defined_iff:
  "(\<exists>bytes. HexStrToByteArray str out r = Inr bytes) \<longleftrightarrow> even (length str) \<and> length str \<le> 2 * length out"
proof (cases "even (length str) \<and> length str \<le> 2 * length out")
  case True
  then obtain n where "length str = 2 * n" "n \<le> length out" by (auto elim!: evenE)
  then show ?thesis using True by (simp add: HexStrToByteArray_even)
next
  case False
  then show ?thesis using HexStrToByteArray_undefined [of str out r] by auto
qed

lemma digit_val_hex_digit: "d < 16 \<Longrightarrow> digit_val 16 (hex_digit d) = Some d"
  by (cases "d < 10") (auto simp: digit_val_def hex_digit_def of_char_of Let_def)

lemma hex_digit_plain:
  assumes "d < 16"
  shows "\<not> is_space (hex_digit d)" and "hex_digit d \<noteq> CHR ''-''" and "hex_digit d \<noteq> CHR ''+''"
proof -
  have c: "of_char (hex_digit d) = (if d < 10 then 48 + d else 55 + d)"
    using assms by (simp add: hex_digit_def of_char_of)
  show "\<not> is_space (hex_digit d)" by (simp add: is_space_def c)
  show "hex_digit d \<noteq> CHR ''-''" and "hex_digit d \<noteq> CHR ''+''" using c by (auto split: if_splits)
qed

lemma strtoul16_hex_byte: "ucast (strtoul16 (hex_byte b)) = b"
proof -
  have lo: "unat b mod 16 < 16" and hi: "unat b div 16 < 16"
    using unsigned_less [of b] by (auto simp: div_less_iff_less_mult)
  have "strtoul16 (hex_byte b) = of_nat (unat b div 16 * 16 + unat b mod 16)"
    using hex_digit_plain [OF hi] digit_val_hex_digit [OF hi] digit_val_hex_digit [OF lo]
    by (simp add: strtoul16_def hex_byte_def)
  also have "\<dots> = of_nat (unat b)" by simp
  finally show ?thesis by (simp add: unsigned_ucast_eq take_bit_word_eq_self)
qed

lemma concat_hex_nth:
  "p < length bs \<Longrightarrow>
     [concat (map hex_byte bs) ! (2 * p), concat (map hex_byte bs) ! (2 * p + 1)] = hex_byte (bs ! p)"
proof (induction bs arbitrary: p)
  case Nil
  then show ?case by simp
next
  case (Cons b bs)
  then show ?case by (cases p) (auto simp: hex_byte_def)
qed

lemma length_concat_hex [simp]: "length (concat (map hex_byte bs)) = 2 * length bs"
  by (induction bs) (auto simp: hex_byte_def)

lemma dec_pair_concat: "p < length bs \<Longrightarrow> dec_pair (concat (map hex_byte bs)) p = bs ! p"
  by (simp only: dec_pair_def concat_hex_nth strtoul16_hex_byte)

lemma to_hex_loop_forward:
  "k \<le> length bs \<Longrightarrow> to_hex_loop bs False (int k) = Inr (concat (map hex_byte (drop k bs)))"
proof (induction "length bs - k" arbitrary: k)
  case 0
  then show ?case by (simp add: to_hex_loop.simps)
next
  case (Suc d)
  then have "to_hex_loop bs False (int (Suc k)) = Inr (concat (map hex_byte (drop (Suc k) bs)))"
    by (intro Suc.hyps) auto
  moreover have "k < length bs" using Suc.hyps(2) by simp
  ultimately show ?case
    by (simp add: to_hex_loop.simps [of bs False "int k"] Cons_nth_drop_Suc [symmetric] add.commute)
qed

lemma to_hex_loop_backward:
  "k \<le> length bs \<Longrightarrow> to_hex_loop bs True (int k - 1) = Inr (concat (map hex_byte (rev (take k bs))))"
proof (induction k)
  case 0
  then show ?case by (simp add: to_hex_loop.simps)
next
  case (Suc k)
  then show ?case
    by (simp add: to_hex_loop.simps [of bs True "int k"] take_Suc_conv_app_nth)
qed

lemma ByteArrayToHexStr_eq:
  "ByteArrayToHexStr bs r = Inr (concat (map hex_byte (if r then rev bs else bs)))"
  using to_hex_loop_forward [of 0 bs] to_hex_loop_backward [of "length bs" bs]
  by (simp add: ByteArrayToHexStr_def)

text \<open>
  Encoding a byte array as hexadecimal digits never reads outside the array and gives two
  characters per byte; decoding the result in the same direction into a buffer of the array's
  size gives the bytes back.
\<close>

theorem hex_roundtrip:
  assumes "length out = length bytes"
  shows "\<exists>s. ByteArrayToHexStr bytes r = Inr s \<and> length s = 2 * length bytes
           \<and> HexStrToByteArray s out r = Inr bytes"
proof -
  let ?bs = "if r then rev bytes else bytes"
  let ?s = "concat (map hex_byte ?bs)"
  let ?n = "length bytes"
  have "HexStrToByteArray ?s out r = Inr (map (\<lambda>k. dec_pair ?s (if r then ?n - 1 - k else k)) [0..<?n])"
    using HexStrToByteArray_even [of ?s ?n out r] assms by simp
  also have "map (\<lambda>k. dec_pair ?s (if r then ?n - 1 - k else k)) [0..<?n] = map ((!) bytes) [0..<?n]"
    by (auto simp: dec_pair_concat rev_nth)
  finally show ?thesis by (simp add: ByteArrayToHexStr_eq map_nth)
qed

theorem hex_roundtrip_witness:
  "\<exists>s. ByteArrayToHexStr [0x0A, 0xFF] True = Inr s \<and> length s = 4 \<and> HexStrToByteArray s [0, 0] True = Inr [0x0A, 0xFF]"
  using hex_roundtrip [of "[0, 0]" "[0x0A, 0xFF]" True] by simp

end
