(* ===== verification/Scheduler.thy ===== *)
theory Scheduler
  imports Interfaces
begin

section \<open>The task scheduler\<close>

text \<open>
  \<^verbatim>\<open>src/src/common/Utilities/TaskScheduler.h\<close> and \<^verbatim>\<open>TaskScheduler.cpp\<close>.  Tasks are shared
  objects that the queue and the contexts point to, so the scheduler state has a heap of tasks and
  the queue holds their addresses.  The \<open>std::multiset\<close> ordered by \<open>_end\<close> is the list of the
  addresses in iteration order: \<open>insert\<close> puts an element after all elements that are not greater.
  Time points and durations are integers (ticks of the steady clock), groups and repeat counters
  are 32-bit words.

  The callbacks are user code.  A callback can only act on the scheduler through its public
  operations, so a task handler is a program of \<open>TaskContext\<close> operations that may depend on the
  task it is called for, an asynchronous callable is a program of \<open>TaskScheduler\<close> operations, and
  a validator is a predicate on what has happened so far.  The field \<open>out\<close> records the calls
  the scheduler makes.  The two loops of \<open>Dispatch\<close> need not end (a handler may repeat itself
  without delay), so they take fuel; \<open>None\<close> is ``not finished within the fuel''.
\<close>

subsection \<open>State\<close>

record task =
  end_time :: int
  duration :: int
  group :: "u32 option"
  repeated :: u32
  handler :: nat

datatype event = EvTask nat int | EvAsync nat | EvFinish

record sched =
  now :: int
  heap :: "nat \<Rightarrow> task"
  next_id :: nat
  task_holder :: "nat list"
  async_holder :: "nat list"
  predicate :: "nat option"
  out :: "event list"

record task_ctx =
  ctx_task :: nat
  ctx_alive :: bool
  ctx_consumed :: bool

datatype sched_op =
    OpAsync nat
  | OpSchedule int "u32 option" nat
  | OpCancelAll
  | OpCancelGroup u32
  | OpCancelGroupsOf "u32 list"
  | OpDelayAll int
  | OpDelayGroup u32 int
  | OpRescheduleAll int
  | OpRescheduleGroup u32 int
  | OpSetValidator nat
  | OpClearValidator

datatype task_op =
    CtxRepeat int
  | CtxRepeatSame
  | CtxAsync nat
  | CtxSchedule int "u32 option" nat
  | CtxCancelAll
  | CtxCancelGroup u32
  | CtxCancelGroupsOf "u32 list"
  | CtxDelayAll int
  | CtxDelayGroup u32 int
  | CtxRescheduleAll int
  | CtxRescheduleGroup u32 int
  | CtxSetGroup u32
  | CtxClearGroup

record callbacks =
  task_prog :: "nat \<Rightarrow> task \<Rightarrow> task_op list"
  async_prog :: "nat \<Rightarrow> sched_op list"
  valid :: "nat \<Rightarrow> event list \<Rightarrow> bool"

abbreviation due :: "sched \<Rightarrow> nat \<Rightarrow> int" where
  "due s i \<equiv> end_time (heap s i)"

definition Task_IsInGroup :: "task \<Rightarrow> u32 \<Rightarrow> bool" where
  "Task_IsInGroup t g = (group t = Some g)"

subsection \<open>The task queue\<close>

fun insert_by_key :: "('a \<Rightarrow> 'k :: linorder) \<Rightarrow> 'a \<Rightarrow> 'a list \<Rightarrow> 'a list" where
  "insert_by_key k x [] = [x]"
| "insert_by_key k x (y # ys) = (if k x < k y then x # y # ys else y # insert_by_key k x ys)"

definition TaskQueue_Push :: "(nat \<Rightarrow> task) \<Rightarrow> nat \<Rightarrow> nat list \<Rightarrow> nat list" where
  "TaskQueue_Push h i q = insert_by_key (\<lambda>j. end_time (h j)) i q"

definition TaskQueue_Pop :: "nat list \<Rightarrow> (nat \<times> nat list) option" where
  "TaskQueue_Pop q = (case q of [] \<Rightarrow> None | i # r \<Rightarrow> Some (i, r))"

definition TaskQueue_First :: "nat list \<Rightarrow> nat option" where
  "TaskQueue_First q = (case q of [] \<Rightarrow> None | i # r \<Rightarrow> Some i)"

definition TaskQueue_IsEmpty :: "nat list \<Rightarrow> bool" where
  "TaskQueue_IsEmpty q = (q = [])"

definition TaskQueue_Clear :: "nat list \<Rightarrow> nat list" where
  "TaskQueue_Clear q = []"

fun TaskQueue_RemoveIf :: "(nat \<Rightarrow> task) \<Rightarrow> (task \<Rightarrow> bool) \<Rightarrow> nat list \<Rightarrow> nat list" where
  "TaskQueue_RemoveIf h P [] = []"
| "TaskQueue_RemoveIf h P (i # q) =
     (if P (h i) then TaskQueue_RemoveIf h P q else i # TaskQueue_RemoveIf h P q)"

text \<open>
  The filter of \<open>ModifyIf\<close> may change the task it is asked about: \<open>f t = Some t'\<close> means it
  answered true and left the task as \<open>t'\<close>.  The loop moves those tasks to \<open>cache\<close> and inserts
  them again at the end, in the order they were found.
\<close>

fun modify_loop ::
  "(task \<Rightarrow> task option) \<Rightarrow> (nat \<Rightarrow> task) \<Rightarrow> nat list \<Rightarrow> (nat \<Rightarrow> task) \<times> nat list \<times> nat list" where
  "modify_loop f h [] = (h, [], [])"
| "modify_loop f h (i # q) =
     (case f (h i) of
        Some t' \<Rightarrow> let (h', keep, cache) = modify_loop f (h(i := t')) q in (h', keep, i # cache)
      | None \<Rightarrow> let (h', keep, cache) = modify_loop f h q in (h', i # keep, cache))"

definition TaskQueue_ModifyIf :: "(task \<Rightarrow> task option) \<Rightarrow> (nat \<Rightarrow> task) \<Rightarrow> nat list \<Rightarrow> (nat \<Rightarrow> task) \<times> nat list" where
  "TaskQueue_ModifyIf f h q =
     (let (h', keep, cache) = modify_loop f h q in (h', fold (TaskQueue_Push h') cache keep))"

subsection \<open>Operations of the scheduler\<close>

definition TaskScheduler_new :: "int \<Rightarrow> sched" where
  "TaskScheduler_new t =
     \<lparr>now = t, heap = (\<lambda>_. \<lparr>end_time = 0, duration = 0, group = None, repeated = 0, handler = 0\<rparr>),
      next_id = 0, task_holder = [], async_holder = [], predicate = None, out = []\<rparr>"

definition SetValidator :: "nat \<Rightarrow> sched \<Rightarrow> sched" where
  "SetValidator v s = s\<lparr>predicate := Some v\<rparr>"

definition ClearValidator :: "sched \<Rightarrow> sched" where
  "ClearValidator s = s\<lparr>predicate := None\<rparr>"

definition TaskScheduler_Async :: "nat \<Rightarrow> sched \<Rightarrow> sched" where
  "TaskScheduler_Async c s = s\<lparr>async_holder := async_holder s @ [c]\<rparr>"

definition InsertTask :: "nat \<Rightarrow> sched \<Rightarrow> sched" where
  "InsertTask i s = s\<lparr>task_holder := TaskQueue_Push (heap s) i (task_holder s)\<rparr>"

definition ScheduleAt :: "int \<Rightarrow> int \<Rightarrow> u32 option \<Rightarrow> nat \<Rightarrow> sched \<Rightarrow> sched" where
  "ScheduleAt end_at time g h s =
     (let i = next_id s;
          t = \<lparr>end_time = end_at + time, duration = time, group = g, repeated = 0, handler = h\<rparr>
      in InsertTask i (s\<lparr>heap := (heap s)(i := t), next_id := Suc i\<rparr>))"

definition TaskScheduler_Schedule :: "int \<Rightarrow> u32 option \<Rightarrow> nat \<Rightarrow> sched \<Rightarrow> sched" where
  "TaskScheduler_Schedule time g h s = ScheduleAt (now s) time g h s"

definition TaskScheduler_CancelAll :: "sched \<Rightarrow> sched" where
  "TaskScheduler_CancelAll s = s\<lparr>task_holder := TaskQueue_Clear (task_holder s), async_holder := []\<rparr>"

definition TaskScheduler_CancelGroup :: "u32 \<Rightarrow> sched \<Rightarrow> sched" where
  "TaskScheduler_CancelGroup g s =
     s\<lparr>task_holder := TaskQueue_RemoveIf (heap s) (\<lambda>t. Task_IsInGroup t g) (task_holder s)\<rparr>"

definition TaskScheduler_CancelGroupsOf :: "u32 list \<Rightarrow> sched \<Rightarrow> sched" where
  "TaskScheduler_CancelGroupsOf gs s = fold TaskScheduler_CancelGroup gs s"

definition modify_tasks :: "(task \<Rightarrow> task option) \<Rightarrow> sched \<Rightarrow> sched" where
  "modify_tasks f s =
     (let (h', q') = TaskQueue_ModifyIf f (heap s) (task_holder s) in s\<lparr>heap := h', task_holder := q'\<rparr>)"

definition DelayAll :: "int \<Rightarrow> sched \<Rightarrow> sched" where
  "DelayAll d s = modify_tasks (\<lambda>t. Some (t\<lparr>end_time := end_time t + d\<rparr>)) s"

definition DelayGroup :: "u32 \<Rightarrow> int \<Rightarrow> sched \<Rightarrow> sched" where
  "DelayGroup g d s =
     modify_tasks (\<lambda>t. if Task_IsInGroup t g then Some (t\<lparr>end_time := end_time t + d\<rparr>) else None) s"

definition RescheduleAll :: "int \<Rightarrow> sched \<Rightarrow> sched" where
  "RescheduleAll d s = (let e = now s + d in modify_tasks (\<lambda>t. Some (t\<lparr>end_time := e\<rparr>)) s)"

definition RescheduleGroup :: "u32 \<Rightarrow> int \<Rightarrow> sched \<Rightarrow> sched" where
  "RescheduleGroup g d s =
     (let e = now s + d
      in modify_tasks (\<lambda>t. if Task_IsInGroup t g then Some (t\<lparr>end_time := e\<rparr>) else None) s)"

fun run_sched_op :: "sched_op \<Rightarrow> sched \<Rightarrow> sched" where
  "run_sched_op (OpAsync c) s = TaskScheduler_Async c s"
| "run_sched_op (OpSchedule d g h) s = TaskScheduler_Schedule d g h s"
| "run_sched_op OpCancelAll s = TaskScheduler_CancelAll s"
| "run_sched_op (OpCancelGroup g) s = TaskScheduler_CancelGroup g s"
| "run_sched_op (OpCancelGroupsOf gs) s = TaskScheduler_CancelGroupsOf gs s"
| "run_sched_op (OpDelayAll d) s = DelayAll d s"
| "run_sched_op (OpDelayGroup g d) s = DelayGroup g d s"
| "run_sched_op (OpRescheduleAll d) s = RescheduleAll d s"
| "run_sched_op (OpRescheduleGroup g d) s = RescheduleGroup g d s"
| "run_sched_op (OpSetValidator v) s = SetValidator v s"
| "run_sched_op OpClearValidator s = ClearValidator s"

subsection \<open>Operations of a task context\<close>

text \<open>\<open>TaskContext::Dispatch\<close> applies an action only while the owner is alive.\<close>

definition TaskContext_Dispatch :: "(sched \<Rightarrow> sched) \<Rightarrow> task_ctx \<Rightarrow> sched \<Rightarrow> sched" where
  "TaskContext_Dispatch apply_op c s = (if ctx_alive c then apply_op s else s)"

definition TaskContext_IsExpired :: "task_ctx \<Rightarrow> bool" where
  "TaskContext_IsExpired c = (\<not> ctx_alive c)"

definition TaskContext_IsInGroup :: "u32 \<Rightarrow> task_ctx \<Rightarrow> sched \<Rightarrow> bool" where
  "TaskContext_IsInGroup g c s = Task_IsInGroup (heap s (ctx_task c)) g"

definition GetRepeatCounter :: "task_ctx \<Rightarrow> sched \<Rightarrow> u32" where
  "GetRepeatCounter c s = repeated (heap s (ctx_task c))"

definition SetGroup :: "u32 \<Rightarrow> task_ctx \<Rightarrow> sched \<Rightarrow> sched" where
  "SetGroup g c s = s\<lparr>heap := (heap s)(ctx_task c := (heap s (ctx_task c))\<lparr>group := Some g\<rparr>)\<rparr>"

definition ClearGroup :: "task_ctx \<Rightarrow> sched \<Rightarrow> sched" where
  "ClearGroup c s = s\<lparr>heap := (heap s)(ctx_task c := (heap s (ctx_task c))\<lparr>group := None\<rparr>)\<rparr>"

definition AssertOnConsumed :: "task_ctx \<Rightarrow> unit res" where
  "AssertOnConsumed c = assert_res (\<not> ctx_consumed c)"

definition TaskContext_Repeat :: "int \<Rightarrow> task_ctx \<Rightarrow> sched \<Rightarrow> (task_ctx \<times> sched) res" where
  "TaskContext_Repeat d c s =
     bind_res (AssertOnConsumed c) (\<lambda>_.
       let i = ctx_task c;
           t = heap s i;
           t' = t\<lparr>duration := d, end_time := end_time t + d, repeated := repeated t + 1\<rparr>;
           c' = c\<lparr>ctx_consumed := True\<rparr>
       in Inr (c', TaskContext_Dispatch (InsertTask i) c' (s\<lparr>heap := (heap s)(i := t')\<rparr>)))"

definition TaskContext_Schedule :: "int \<Rightarrow> u32 option \<Rightarrow> nat \<Rightarrow> task_ctx \<Rightarrow> sched \<Rightarrow> sched" where
  "TaskContext_Schedule time g h c s =
     (let e = due s (ctx_task c) in TaskContext_Dispatch (ScheduleAt e time g h) c s)"

fun run_task_op :: "task_op \<Rightarrow> task_ctx \<Rightarrow> sched \<Rightarrow> (task_ctx \<times> sched) res" where
  "run_task_op (CtxRepeat d) c s = TaskContext_Repeat d c s"
| "run_task_op CtxRepeatSame c s = TaskContext_Repeat (duration (heap s (ctx_task c))) c s"
| "run_task_op (CtxAsync a) c s = Inr (c, TaskContext_Dispatch (TaskScheduler_Async a) c s)"
| "run_task_op (CtxSchedule d g h) c s = Inr (c, TaskContext_Schedule d g h c s)"
| "run_task_op CtxCancelAll c s = Inr (c, TaskContext_Dispatch TaskScheduler_CancelAll c s)"
| "run_task_op (CtxCancelGroup g) c s = Inr (c, TaskContext_Dispatch (TaskScheduler_CancelGroup g) c s)"
| "run_task_op (CtxCancelGroupsOf gs) c s = Inr (c, TaskContext_Dispatch (TaskScheduler_CancelGroupsOf gs) c s)"
| "run_task_op (CtxDelayAll d) c s = Inr (c, TaskContext_Dispatch (DelayAll d) c s)"
| "run_task_op (CtxDelayGroup g d) c s = Inr (c, TaskContext_Dispatch (DelayGroup g d) c s)"
| "run_task_op (CtxRescheduleAll d) c s = Inr (c, TaskContext_Dispatch (RescheduleAll d) c s)"
| "run_task_op (CtxRescheduleGroup g d) c s = Inr (c, TaskContext_Dispatch (RescheduleGroup g d) c s)"
| "run_task_op (CtxSetGroup g) c s = Inr (c, SetGroup g c s)"
| "run_task_op CtxClearGroup c s = Inr (c, ClearGroup c s)"

fun run_task_ops :: "task_op list \<Rightarrow> task_ctx \<Rightarrow> sched \<Rightarrow> (task_ctx \<times> sched) res" where
  "run_task_ops [] c s = Inr (c, s)"
| "run_task_ops (x # xs) c s = bind_res (run_task_op x c s) (\<lambda>(c', s'). run_task_ops xs c' s')"

definition TaskContext_Invoke :: "callbacks \<Rightarrow> task_ctx \<Rightarrow> sched \<Rightarrow> (task_ctx \<times> sched) res" where
  "TaskContext_Invoke E c s =
     (let t = heap s (ctx_task c)
      in run_task_ops (task_prog E (handler t) t) c (s\<lparr>out := out s @ [EvTask (handler t) (end_time t)]\<rparr>))"

subsection \<open>Dispatching\<close>

definition call_predicate :: "callbacks \<Rightarrow> sched \<Rightarrow> bool" where
  "call_predicate E s = (case predicate s of None \<Rightarrow> True | Some v \<Rightarrow> valid E v (out s))"

text \<open>
  The first loop.  The front callable runs and is popped afterwards; popping an empty queue is
  undefined.  The result says whether dispatching goes on.
\<close>

fun dispatch_asyncs :: "callbacks \<Rightarrow> nat \<Rightarrow> sched \<Rightarrow> (bool \<times> sched) res option" where
  "dispatch_asyncs E 0 s = None"
| "dispatch_asyncs E (Suc n) s =
     (case async_holder s of
        [] \<Rightarrow> Some (Inr (True, s))
      | a # _ \<Rightarrow>
          let s1 = fold run_sched_op (async_prog E a) (s\<lparr>out := out s @ [EvAsync a]\<rparr>)
          in case async_holder s1 of
               [] \<Rightarrow> Some (Inl Undefined)
             | _ # rest \<Rightarrow>
                 let s2 = s1\<lparr>async_holder := rest\<rparr>
                 in if call_predicate E s2 then dispatch_asyncs E n s2 else Some (Inr (False, s2)))"

fun dispatch_tasks :: "callbacks \<Rightarrow> nat \<Rightarrow> sched \<Rightarrow> (bool \<times> sched) res option" where
  "dispatch_tasks E 0 s = None"
| "dispatch_tasks E (Suc n) s =
     (case TaskQueue_Pop (task_holder s) of
        None \<Rightarrow> Some (Inr (True, s))
      | Some (i, rest) \<Rightarrow>
          if due s i > now s then Some (Inr (True, s))
          else case TaskContext_Invoke E \<lparr>ctx_task = i, ctx_alive = True, ctx_consumed = False\<rparr>
                      (s\<lparr>task_holder := rest\<rparr>) of
                 Inl e \<Rightarrow> Some (Inl e)
               | Inr (c, s1) \<Rightarrow>
                   if call_predicate E s1 then dispatch_tasks E n s1 else Some (Inr (False, s1)))"

definition TaskScheduler_Dispatch :: "callbacks \<Rightarrow> nat \<Rightarrow> sched \<Rightarrow> sched res option" where
  "TaskScheduler_Dispatch E n s =
     (if \<not> call_predicate E s then Some (Inr s)
      else case dispatch_asyncs E n s of
             None \<Rightarrow> None
           | Some (Inl e) \<Rightarrow> Some (Inl e)
           | Some (Inr (go, s1)) \<Rightarrow>
               if \<not> go then Some (Inr s1)
               else case dispatch_tasks E n s1 of
                      None \<Rightarrow> None
                    | Some (Inl e) \<Rightarrow> Some (Inl e)
                    | Some (Inr (go', s2)) \<Rightarrow>
                        Some (Inr (if go' then s2\<lparr>out := out s2 @ [EvFinish]\<rparr> else s2)))"

text \<open>\<open>Update()\<close> sets the clock, \<open>Update(difftime)\<close> advances it; both then dispatch.\<close>

definition UpdateToNow :: "callbacks \<Rightarrow> nat \<Rightarrow> int \<Rightarrow> sched \<Rightarrow> sched res option" where
  "UpdateToNow E n clock_now s = TaskScheduler_Dispatch E n (s\<lparr>now := clock_now\<rparr>)"

definition UpdateBy :: "callbacks \<Rightarrow> nat \<Rightarrow> int \<Rightarrow> sched \<Rightarrow> sched res option" where
  "UpdateBy E n diff s = TaskScheduler_Dispatch E n (s\<lparr>now := now s + diff\<rparr>)"

subsection \<open>The task queue is a queue ordered by due time\<close>

lemma mset_insert_by_key: "mset (insert_by_key k x xs) = add_mset x (mset xs)"
  by (induction xs) auto

lemma sorted_insert_by_key: "sorted (map k xs) \<Longrightarrow> sorted (map k (insert_by_key k x xs))"
proof (induction xs)
  case Nil
  then show ?case by simp
next
  case (Cons y ys)
  have "set (insert_by_key k x ys) = insert x (set ys)"
    by (metis mset_insert_by_key set_mset_add_mset_insert set_mset_mset)
  with Cons show ?case by auto
qed

interpretation tq: keyed_queue "\<lambda>j. end_time (h j)" "TaskQueue_Push h" TaskQueue_Pop "\<lambda>q. q" for h
  by unfold_locales
    (auto simp: TaskQueue_Push_def TaskQueue_Pop_def mset_insert_by_key sorted_insert_by_key
      split: list.splits)

lemma RemoveIf_filter: "TaskQueue_RemoveIf h P q = filter (\<lambda>i. \<not> P (h i)) q"
  by (induction q) auto

definition modified :: "(task \<Rightarrow> task option) \<Rightarrow> (nat \<Rightarrow> task) \<Rightarrow> nat list \<Rightarrow> nat \<Rightarrow> task" where
  "modified f h q = (\<lambda>i. if i \<in> set q then (case f (h i) of Some t \<Rightarrow> t | None \<Rightarrow> h i) else h i)"

lemma modify_loop_eq:
  "distinct q \<Longrightarrow> modify_loop f h q =
     (modified f h q, filter (\<lambda>i. f (h i) = None) q, filter (\<lambda>i. f (h i) \<noteq> None) q)"
proof (induction q arbitrary: h)
  case Nil
  then show ?case by (simp add: modified_def)
next
  case (Cons i q)
  then have iq: "i \<notin> set q" by simp
  show ?case
  proof (cases "f (h i)")
    case None
    then have "modified f h q = modified f h (i # q)" by (auto simp: modified_def)
    with None Cons show ?thesis by (simp add: Let_def)
  next
    case (Some t)
    then have "modified f (h(i := t)) q = modified f h (i # q)"
      using iq by (intro ext) (auto simp: modified_def split: option.splits)
    moreover have "filter (\<lambda>j. f ((h(i := t)) j) = None) q = filter (\<lambda>j. f (h j) = None) q"
      "filter (\<lambda>j. f ((h(i := t)) j) \<noteq> None) q = filter (\<lambda>j. f (h j) \<noteq> None) q"
      using iq by (auto intro!: filter_cong)
    ultimately show ?thesis using Some Cons by (simp add: Let_def del: fun_upd_apply)
  qed
qed

subsection \<open>The invariant\<close>

text \<open>
  The queue holds every task at most once, in the order of the due times, and only tasks that
  were created.
\<close>

definition sched_inv :: "sched \<Rightarrow> bool" where
  "sched_inv s \<longleftrightarrow> distinct (task_holder s) \<and> sorted (map (due s) (task_holder s))
     \<and> (\<forall>i \<in> set (task_holder s). i < next_id s)"

definition ctx_inv :: "task_ctx \<Rightarrow> sched \<Rightarrow> bool" where
  "ctx_inv c s \<longleftrightarrow> ctx_task c < next_id s \<and> (\<not> ctx_consumed c \<longrightarrow> ctx_task c \<notin> set (task_holder s))"

lemma sched_inv_new: "sched_inv (TaskScheduler_new t)"
  by (simp add: sched_inv_def TaskScheduler_new_def)

lemma sched_inv_frame:
  assumes "sched_inv s" and "task_holder s' = task_holder s" and "next_id s \<le> next_id s'"
    and "\<And>i. i \<in> set (task_holder s) \<Longrightarrow> due s' i = due s i"
  shows "sched_inv s'"
proof -
  have "map (due s') (task_holder s) = map (due s) (task_holder s)" using assms(4) by simp
  then show ?thesis using assms(1-3) unfolding sched_inv_def by (metis order_less_le_trans)
qed

lemma InsertTask_inv:
  assumes "sched_inv s" and "i < next_id s" and "i \<notin> set (task_holder s)"
  shows "sched_inv (InsertTask i s)"
proof -
  let ?q = "TaskQueue_Push (heap s) i (task_holder s)"
  have "distinct ?q" using assms tq.distinct_push [of "heap s" i "task_holder s"] by (simp add: sched_inv_def)
  moreover have "sorted (map (due s) ?q)"
    using assms(1) tq.sorted_push [of "heap s" "task_holder s" i] by (simp add: sched_inv_def)
  moreover have "set ?q = insert i (set (task_holder s))" by (rule tq.set_push)
  ultimately show ?thesis using assms by (simp add: sched_inv_def InsertTask_def)
qed

lemma set_InsertTask [simp]: "set (task_holder (InsertTask i s)) = insert i (set (task_holder s))"
  using tq.set_push [of "heap s" i "task_holder s"] by (simp add: InsertTask_def)

lemma InsertTask_frame [simp]:
  "heap (InsertTask i s) = heap s" "now (InsertTask i s) = now s" "out (InsertTask i s) = out s"
  "next_id (InsertTask i s) = next_id s" "async_holder (InsertTask i s) = async_holder s"
  "predicate (InsertTask i s) = predicate s"
  by (simp_all add: InsertTask_def)

lemma ScheduleAt_inv:
  assumes "sched_inv s"
  shows "sched_inv (ScheduleAt e d g h s)"
proof -
  let ?t = "\<lparr>end_time = e + d, duration = d, group = g, repeated = 0, handler = h\<rparr>"
  let ?s = "s\<lparr>heap := (heap s)(next_id s := ?t), next_id := Suc (next_id s)\<rparr>"
  have fresh: "next_id s \<notin> set (task_holder s)" using assms by (auto simp: sched_inv_def)
  have "sched_inv ?s" by (rule sched_inv_frame [OF assms]) (use fresh in auto)
  then have "sched_inv (InsertTask (next_id s) ?s)" by (rule InsertTask_inv) (use fresh in auto)
  then show ?thesis by (simp add: ScheduleAt_def Let_def)
qed

lemma CancelAll_inv: "sched_inv s \<Longrightarrow> sched_inv (TaskScheduler_CancelAll s)"
  by (simp add: sched_inv_def TaskScheduler_CancelAll_def TaskQueue_Clear_def)

lemma CancelGroup_inv: "sched_inv s \<Longrightarrow> sched_inv (TaskScheduler_CancelGroup g s)"
  by (auto simp: sched_inv_def TaskScheduler_CancelGroup_def RemoveIf_filter sorted_filter)

lemma CancelGroupsOf_inv: "sched_inv s \<Longrightarrow> sched_inv (TaskScheduler_CancelGroupsOf gs s)"
  unfolding TaskScheduler_CancelGroupsOf_def by (induction gs arbitrary: s) (auto simp: CancelGroup_inv)

lemma modify_tasks_eq:
  assumes "distinct (task_holder s)"
  shows "modify_tasks f s =
    s\<lparr>heap := modified f (heap s) (task_holder s),
      task_holder := fold (TaskQueue_Push (modified f (heap s) (task_holder s)))
         (filter (\<lambda>i. f (heap s i) \<noteq> None) (task_holder s))
         (filter (\<lambda>i. f (heap s i) = None) (task_holder s))\<rparr>"
  by (simp only: modify_tasks_def TaskQueue_ModifyIf_def modify_loop_eq [OF assms] Let_def prod.case)

lemma mset_modify_tasks:
  assumes "distinct (task_holder s)"
  shows "mset (task_holder (modify_tasks f s)) = mset (task_holder s)"
  using tq.mset_push_all [of "modified f (heap s) (task_holder s)"]
  by (simp add: modify_tasks_eq [OF assms])

lemma modify_tasks_inv:
  assumes "sched_inv s"
  shows "sched_inv (modify_tasks f s)"
proof -
  let ?q = "task_holder s" and ?h = "modified f (heap s) (task_holder s)"
  have d: "distinct ?q" using assms by (simp add: sched_inv_def)
  have "map (\<lambda>i. end_time (?h i)) (filter (\<lambda>i. f (heap s i) = None) ?q)
      = map (due s) (filter (\<lambda>i. f (heap s i) = None) ?q)"
    by (auto simp: modified_def)
  then have "sorted (map (\<lambda>i. end_time (?h i)) (filter (\<lambda>i. f (heap s i) = None) ?q))"
    using assms by (simp only: sched_inv_def) (simp add: sorted_filter)
  then have "sorted (map (due (modify_tasks f s)) (task_holder (modify_tasks f s)))"
    by (simp add: modify_tasks_eq [OF d] tq.sorted_push_all)
  moreover have "distinct (task_holder (modify_tasks f s))"
    using mset_eq_imp_distinct_iff [OF mset_modify_tasks [OF d]] d by simp
  moreover have "set (task_holder (modify_tasks f s)) = set ?q"
    using mset_modify_tasks [OF d] by (metis set_mset_mset)
  ultimately show ?thesis
    using assms by (simp add: sched_inv_def) (simp add: modify_tasks_eq [OF d])
qed

lemma set_modify_tasks: "sched_inv s \<Longrightarrow> set (task_holder (modify_tasks f s)) = set (task_holder s)"
  using mset_modify_tasks [of s f] by (metis sched_inv_def set_mset_mset)

lemma modify_tasks_frame:
  assumes "sched_inv s"
  shows "heap (modify_tasks f s) = modified f (heap s) (task_holder s)"
    and "now (modify_tasks f s) = now s" and "out (modify_tasks f s) = out s"
    and "next_id (modify_tasks f s) = next_id s" and "async_holder (modify_tasks f s) = async_holder s"
  using assms by (simp_all add: modify_tasks_eq sched_inv_def)

lemmas modify_defs = DelayAll_def DelayGroup_def RescheduleAll_def RescheduleGroup_def Let_def

lemma run_sched_op_inv: "sched_inv s \<Longrightarrow> sched_inv (run_sched_op x s)"
  by (cases x)
    (auto simp: modify_defs modify_tasks_inv CancelAll_inv CancelGroup_inv CancelGroupsOf_inv
      TaskScheduler_Schedule_def ScheduleAt_inv TaskScheduler_Async_def SetValidator_def ClearValidator_def
      intro: sched_inv_frame)

lemma run_sched_ops_inv: "sched_inv s \<Longrightarrow> sched_inv (fold run_sched_op xs s)"
  by (induction xs arbitrary: s) (auto simp: run_sched_op_inv)

lemma ScheduleAt_frame:
  "set (task_holder (ScheduleAt e d g h s)) = insert (next_id s) (set (task_holder s))"
  "next_id (ScheduleAt e d g h s) = Suc (next_id s)" "now (ScheduleAt e d g h s) = now s"
  "out (ScheduleAt e d g h s) = out s"
  "heap (ScheduleAt e d g h s) = (heap s)(next_id s :=
     \<lparr>end_time = e + d, duration = d, group = g, repeated = 0, handler = h\<rparr>)"
  by (simp_all add: ScheduleAt_def Let_def)

lemma CancelGroup_frame:
  "task_holder (TaskScheduler_CancelGroup g s) = filter (\<lambda>i. \<not> Task_IsInGroup (heap s i) g) (task_holder s)"
  "heap (TaskScheduler_CancelGroup g s) = heap s" "now (TaskScheduler_CancelGroup g s) = now s"
  "out (TaskScheduler_CancelGroup g s) = out s" "next_id (TaskScheduler_CancelGroup g s) = next_id s"
  by (simp_all add: TaskScheduler_CancelGroup_def RemoveIf_filter)

lemma CancelGroupsOf_frame:
  "task_holder (TaskScheduler_CancelGroupsOf gs s)
     = filter (\<lambda>i. list_all (\<lambda>g. \<not> Task_IsInGroup (heap s i) g) gs) (task_holder s)"
  "heap (TaskScheduler_CancelGroupsOf gs s) = heap s" "now (TaskScheduler_CancelGroupsOf gs s) = now s"
  "out (TaskScheduler_CancelGroupsOf gs s) = out s" "next_id (TaskScheduler_CancelGroupsOf gs s) = next_id s"
  unfolding TaskScheduler_CancelGroupsOf_def
  by (induction gs arbitrary: s) (simp_all add: CancelGroup_frame conj_commute)

lemma CancelAll_frame:
  "task_holder (TaskScheduler_CancelAll s) = []" "heap (TaskScheduler_CancelAll s) = heap s"
  "now (TaskScheduler_CancelAll s) = now s" "out (TaskScheduler_CancelAll s) = out s"
  "next_id (TaskScheduler_CancelAll s) = next_id s"
  by (simp_all add: TaskScheduler_CancelAll_def TaskQueue_Clear_def)

lemma Async_frame:
  "task_holder (TaskScheduler_Async a s) = task_holder s" "heap (TaskScheduler_Async a s) = heap s"
  "now (TaskScheduler_Async a s) = now s" "out (TaskScheduler_Async a s) = out s"
  "next_id (TaskScheduler_Async a s) = next_id s"
  by (simp_all add: TaskScheduler_Async_def)

lemmas sched_frames = ScheduleAt_frame CancelGroup_frame CancelGroupsOf_frame CancelAll_frame Async_frame

subsection \<open>One operation of a handler\<close>

text \<open>
  What one operation of a handler does to the queue: apart from one task \<open>j\<close>, which is due no
  earlier than \<open>e\<close>, only tasks that were queued before are queued, and each is due no earlier than
  before or at least \<open>\<delta>\<close> after the present.
\<close>

definition holder_step :: "int \<Rightarrow> int \<Rightarrow> sched \<Rightarrow> sched \<Rightarrow> bool" where
  "holder_step \<delta> e s s' \<longleftrightarrow> now s' = now s \<and> out s' = out s \<and> next_id s \<le> next_id s' \<and>
     (\<exists>j. \<forall>i \<in> set (task_holder s'). (i = j \<and> e \<le> due s' i) \<or>
        (i \<in> set (task_holder s) \<and> (due s i \<le> due s' i \<or> now s + \<delta> \<le> due s' i)))"

definition durations_ok :: "int \<Rightarrow> sched \<Rightarrow> bool" where
  "durations_ok \<delta> s \<longleftrightarrow> (\<forall>i < next_id s. \<delta> \<le> duration (heap s i))"

fun op_durations :: "int \<Rightarrow> task_op \<Rightarrow> bool" where
  "op_durations \<delta> (CtxRepeat d) = (\<delta> \<le> d)"
| "op_durations \<delta> (CtxSchedule d g h) = (\<delta> \<le> d)"
| "op_durations \<delta> (CtxDelayAll d) = (0 \<le> d)"
| "op_durations \<delta> (CtxDelayGroup g d) = (0 \<le> d)"
| "op_durations \<delta> (CtxRescheduleAll d) = (\<delta> \<le> d)"
| "op_durations \<delta> (CtxRescheduleGroup g d) = (\<delta> \<le> d)"
| "op_durations \<delta> _ = True"

lemma modify_step:
  assumes "sched_inv s" and "\<And>t t'. f t = Some t' \<Longrightarrow> end_time t \<le> end_time t' \<or> now s + \<delta> \<le> end_time t'"
  shows "holder_step \<delta> e s (modify_tasks f s)"
  using assms(2)
  by (auto simp: holder_step_def modify_tasks_frame [OF assms(1)] set_modify_tasks [OF assms(1)] modified_def
      split: option.splits)

lemma modify_tasks_due_le:
  assumes "sched_inv s" and "\<And>t t'. f t = Some t' \<Longrightarrow> end_time t \<le> end_time t' \<or> now s + \<delta> \<le> end_time t'"
    and "e \<le> due s i" and "e \<le> now s" and "0 \<le> \<delta>"
  shows "e \<le> due (modify_tasks f s) i"
  using assms(2-5) by (fastforce simp: modify_tasks_frame [OF assms(1)] modified_def split: option.splits)

lemma modify_tasks_durations:
  assumes "sched_inv s" and "\<And>t t'. f t = Some t' \<Longrightarrow> duration t' = duration t" and "durations_ok \<delta> s"
  shows "durations_ok \<delta> (modify_tasks f s)"
  using assms(2,3)
  by (auto simp: durations_ok_def modify_tasks_frame [OF assms(1)] modified_def split: option.splits)

lemma modify_tasks_ctx_inv: "sched_inv s \<Longrightarrow> ctx_inv c s \<Longrightarrow> ctx_inv c (modify_tasks f s)"
  by (simp add: ctx_inv_def modify_tasks_frame set_modify_tasks)

lemmas ctx_op_defs = TaskContext_Dispatch_def modify_defs TaskContext_Schedule_def SetGroup_def ClearGroup_def

lemma TaskContext_Repeat_cases:
  assumes "TaskContext_Repeat d c s = Inr (c', s')"
  obtains s0 where "\<not> ctx_consumed c" and "c' = c\<lparr>ctx_consumed := True\<rparr>"
    and "s0 = s\<lparr>heap := (heap s)(ctx_task c := (heap s (ctx_task c))\<lparr>duration := d,
           end_time := due s (ctx_task c) + d, repeated := repeated (heap s (ctx_task c)) + 1\<rparr>)\<rparr>"
    and "s' = (if ctx_alive c then InsertTask (ctx_task c) s0 else s0)"
  using assms by (auto simp: TaskContext_Repeat_def AssertOnConsumed_def TaskContext_Dispatch_def res_simps Let_def)

lemma TaskContext_Repeat_inv:
  assumes "sched_inv s" and "ctx_inv c s" and "TaskContext_Repeat d c s = Inr (c', s')"
  shows "sched_inv s' \<and> ctx_inv c' s' \<and> ctx_task c' = ctx_task c"
  using assms(3)
proof (rule TaskContext_Repeat_cases)
  fix s0
  assume nc: "\<not> ctx_consumed c" and c': "c' = c\<lparr>ctx_consumed := True\<rparr>"
    and s0: "s0 = s\<lparr>heap := (heap s)(ctx_task c := (heap s (ctx_task c))\<lparr>duration := d,
           end_time := due s (ctx_task c) + d, repeated := repeated (heap s (ctx_task c)) + 1\<rparr>)\<rparr>"
    and s': "s' = (if ctx_alive c then InsertTask (ctx_task c) s0 else s0)"
  have fresh: "ctx_task c \<notin> set (task_holder s)" and lt: "ctx_task c < next_id s"
    using nc assms(2) by (auto simp: ctx_inv_def)
  have "sched_inv s0" by (rule sched_inv_frame [OF assms(1)]) (use fresh s0 in auto)
  moreover from this have "sched_inv (InsertTask (ctx_task c) s0)"
    by (rule InsertTask_inv) (use fresh lt s0 in auto)
  ultimately show ?thesis using s' c' lt s0 by (simp add: ctx_inv_def)
qed

lemma run_task_op_inv:
  assumes "sched_inv s" and "ctx_inv c s" and "run_task_op x c s = Inr (c', s')"
  shows "sched_inv s' \<and> ctx_inv c' s' \<and> ctx_task c' = ctx_task c"
proof (cases "(\<exists>d. x = CtxRepeat d) \<or> x = CtxRepeatSame")
  case True
  then show ?thesis using TaskContext_Repeat_inv [OF assms(1,2)] assms(3) by auto
next
  case False
  have upd: "sched_inv (s\<lparr>heap := (heap s)(ctx_task c := (heap s (ctx_task c))\<lparr>group := g\<rparr>)\<rparr>)" for g
    by (rule sched_inv_frame [OF assms(1)]) auto
  have as: "sched_inv (TaskScheduler_Async a s)" for a
    by (rule sched_inv_frame [OF assms(1)]) (auto simp: sched_frames)
  from False assms upd as show ?thesis
    by (cases x) (auto simp: ctx_op_defs modify_tasks_inv modify_tasks_frame set_modify_tasks
        CancelAll_inv CancelGroup_inv CancelGroupsOf_inv ScheduleAt_inv ctx_inv_def sched_frames
        split: if_splits)
qed

lemma holder_step_refl: "holder_step \<delta> e s s"
  by (auto simp: holder_step_def)

lemma holder_step_schedule: "sched_inv s \<Longrightarrow> e \<le> t + d \<Longrightarrow> holder_step \<delta> e s (ScheduleAt t d g h s)"
  by (auto simp: holder_step_def sched_frames sched_inv_def)

lemma holder_step_cancel:
  "holder_step \<delta> e s (TaskScheduler_CancelAll s)"
  "holder_step \<delta> e s (TaskScheduler_CancelGroup g s)"
  "holder_step \<delta> e s (TaskScheduler_CancelGroupsOf gs s)"
  "holder_step \<delta> e s (TaskScheduler_Async a s)"
  by (auto simp: holder_step_def sched_frames)

lemma holder_step_group:
  "holder_step \<delta> e s (s\<lparr>heap := (heap s)(i := (heap s i)\<lparr>group := g\<rparr>)\<rparr>)"
  by (auto simp: holder_step_def)

lemma durations_frames:
  "durations_ok \<delta> s \<Longrightarrow> \<delta> \<le> d \<Longrightarrow> durations_ok \<delta> (ScheduleAt e d g h s)"
  "durations_ok \<delta> (TaskScheduler_CancelAll s) = durations_ok \<delta> s"
  "durations_ok \<delta> (TaskScheduler_CancelGroup k s) = durations_ok \<delta> s"
  "durations_ok \<delta> (TaskScheduler_CancelGroupsOf ks s) = durations_ok \<delta> s"
  "durations_ok \<delta> (TaskScheduler_Async a s) = durations_ok \<delta> s"
  "durations_ok \<delta> (s\<lparr>heap := (heap s)(i := (heap s i)\<lparr>group := og\<rparr>)\<rparr>) = durations_ok \<delta> s"
  by (auto simp: durations_ok_def sched_frames less_Suc_eq)

lemma run_task_op_step:
  assumes "sched_inv s" and "ctx_inv c s" and "run_task_op x c s = Inr (c', s')"
    and "op_durations \<delta> x" and "durations_ok \<delta> s" and "0 \<le> \<delta>"
    and "e \<le> due s (ctx_task c)" and "e \<le> now s"
  shows "holder_step \<delta> (e + \<delta>) s s' \<and> durations_ok \<delta> s' \<and> e \<le> due s' (ctx_task c)"
proof (cases "(\<exists>d. x = CtxRepeat d) \<or> x = CtxRepeatSame")
  case True
  have "\<delta> \<le> duration (heap s (ctx_task c))"
    using assms(2,5) by (simp add: durations_ok_def ctx_inv_def)
  with True obtain d where d: "TaskContext_Repeat d c s = Inr (c', s')" "\<delta> \<le> d"
    using assms(3,4) by (cases x) auto
  from d(1) show ?thesis
    by (rule TaskContext_Repeat_cases)
      (use d(2) assms in \<open>auto simp: holder_step_def durations_ok_def ctx_inv_def\<close>)
next
  case False
  note m = modify_step [OF assms(1), of _ \<delta>] modify_tasks_durations [OF assms(1) _ assms(5)]
  have "holder_step \<delta> (e + \<delta>) s s'"
    using False assms(1-4,6-8)
    by (cases x) (auto simp: ctx_op_defs holder_step_refl holder_step_cancel holder_step_group
        split: if_splits intro!: m(1) holder_step_schedule)
  moreover have "durations_ok \<delta> s'"
    using False assms(1-5)
    by (cases x) (auto simp: ctx_op_defs durations_frames split: if_splits intro!: m(2))
  moreover have "e \<le> due s' (ctx_task c)"
    using False assms(1-4,6-8)
    by (cases x) (auto simp: ctx_op_defs sched_frames ctx_inv_def split: if_splits
        intro!: modify_tasks_due_le [where \<delta> = \<delta>])
  ultimately show ?thesis by blast
qed

subsection \<open>Running a handler\<close>

lemma run_task_ops_inv:
  "sched_inv s \<Longrightarrow> ctx_inv c s \<Longrightarrow> run_task_ops xs c s = Inr (c', s') \<Longrightarrow> sched_inv s'"
proof (induction xs arbitrary: c s)
  case Nil
  then show ?case by simp
next
  case (Cons x xs)
  then obtain c1 s1 where 1: "run_task_op x c s = Inr (c1, s1)" "run_task_ops xs c1 s1 = Inr (c', s')"
    by (auto simp: res_simps)
  then show ?case using Cons run_task_op_inv [OF Cons.prems(1,2) 1(1)] by blast
qed

lemma run_task_ops_frame:
  "sched_inv s \<Longrightarrow> ctx_inv c s \<Longrightarrow> run_task_ops xs c s = Inr (c', s') \<Longrightarrow> now s' = now s \<and> out s' = out s"
proof (induction xs arbitrary: c s)
  case Nil
  then show ?case by simp
next
  case (Cons x xs)
  then obtain c1 s1 where 1: "run_task_op x c s = Inr (c1, s1)" "run_task_ops xs c1 s1 = Inr (c', s')"
    by (auto simp: res_simps)
  have "now s1 = now s \<and> out s1 = out s"
  proof (cases "(\<exists>d. x = CtxRepeat d) \<or> x = CtxRepeatSame")
    case True
    then obtain d where "TaskContext_Repeat d c s = Inr (c1, s1)" using 1(1) by auto
    then show ?thesis by (rule TaskContext_Repeat_cases) auto
  next
    case False
    then show ?thesis using 1(1) Cons.prems(1)
      by (cases x) (auto simp: ctx_op_defs sched_frames modify_tasks_frame split: if_splits)
  qed
  then show ?case using Cons 1 run_task_op_inv [OF Cons.prems(1,2) 1(1)] by auto
qed

text \<open>The state in which the handler of the front task starts.\<close>

definition popped :: "sched \<Rightarrow> nat \<Rightarrow> nat list \<Rightarrow> sched" where
  "popped s i rest = s\<lparr>task_holder := rest, out := out s @ [EvTask (handler (heap s i)) (due s i)]\<rparr>"

definition fresh_ctx :: "nat \<Rightarrow> task_ctx" where
  "fresh_ctx i = \<lparr>ctx_task = i, ctx_alive = True, ctx_consumed = False\<rparr>"

lemma popped_inv:
  assumes "sched_inv s" and "task_holder s = i # rest"
  shows "sched_inv (popped s i rest)" and "ctx_inv (fresh_ctx i) (popped s i rest)"
    and "\<forall>j \<in> set rest. due s i \<le> due s j"
  using assms by (auto simp: sched_inv_def popped_def fresh_ctx_def ctx_inv_def)

lemma dispatch_tasks_unfold:
  "dispatch_tasks E (Suc n) s =
     (case task_holder s of
        [] \<Rightarrow> Some (Inr (True, s))
      | i # rest \<Rightarrow>
          if now s < due s i then Some (Inr (True, s))
          else case run_task_ops (task_prog E (handler (heap s i)) (heap s i)) (fresh_ctx i) (popped s i rest) of
                 Inl e \<Rightarrow> Some (Inl e)
               | Inr (c, s1) \<Rightarrow> if call_predicate E s1 then dispatch_tasks E n s1 else Some (Inr (False, s1)))"
  by (simp add: TaskQueue_Pop_def TaskContext_Invoke_def popped_def fresh_ctx_def Let_def split: list.splits)

lemma dispatch_tasks_cases:
  assumes "dispatch_tasks E (Suc n) s = Some (Inr (b, s'))"
  obtains (finish) "b" "s' = s" "\<forall>i \<in> set (take 1 (task_holder s)). now s < due s i"
  | (step) i rest c s1 where "task_holder s = i # rest" "due s i \<le> now s"
      "run_task_ops (task_prog E (handler (heap s i)) (heap s i)) (fresh_ctx i) (popped s i rest) = Inr (c, s1)"
      "call_predicate E s1" "dispatch_tasks E n s1 = Some (Inr (b, s'))"
  | (stop) i rest c where "task_holder s = i # rest" "due s i \<le> now s"
      "run_task_ops (task_prog E (handler (heap s i)) (heap s i)) (fresh_ctx i) (popped s i rest) = Inr (c, s')"
      "\<not> b"
  using assms unfolding dispatch_tasks_unfold
  by (auto split: list.splits if_splits sum.splits)

lemma due_all_if_first:
  assumes "sched_inv s" and "\<forall>i \<in> set (take 1 (task_holder s)). now s < due s i"
  shows "\<forall>i \<in> set (task_holder s). now s < due s i"
  using assms by (cases "task_holder s") (auto simp: sched_inv_def)

lemma dispatch_tasks_inv:
  "sched_inv s \<Longrightarrow> dispatch_tasks E n s = Some (Inr (b, s')) \<Longrightarrow>
     sched_inv s' \<and> now s' = now s \<and> (b \<longrightarrow> (\<forall>i \<in> set (task_holder s'). now s < due s' i))"
proof (induction n arbitrary: s)
  case 0
  then show ?case by simp
next
  case (Suc n)
  from Suc.prems(2) show ?case
  proof (cases rule: dispatch_tasks_cases)
    case finish
    then show ?thesis using Suc.prems due_all_if_first by auto
  next
    case (step i rest c s1)
    note p = popped_inv [OF Suc.prems(1) step(1)]
    have "sched_inv s1" by (rule run_task_ops_inv [OF p(1,2) step(3)])
    then show ?thesis
      using Suc.IH [OF _ step(5)] run_task_ops_frame [OF p(1,2) step(3)] by (simp add: popped_def)
  next
    case (stop i rest c)
    note p = popped_inv [OF Suc.prems(1) stop(1)]
    then show ?thesis
      using stop run_task_ops_inv [OF p(1,2) stop(3)] run_task_ops_frame [OF p(1,2) stop(3)]
      by (simp add: popped_def)
  qed
qed

lemma run_sched_ops_frame: "sched_inv s \<Longrightarrow> now (fold run_sched_op xs s) = now s \<and> out (fold run_sched_op xs s) = out s"
proof (induction xs arbitrary: s)
  case Nil
  then show ?case by simp
next
  case (Cons x xs)
  have "now (run_sched_op x s) = now s \<and> out (run_sched_op x s) = out s"
    using Cons.prems
    by (cases x) (simp_all add: modify_defs modify_tasks_frame sched_frames TaskScheduler_Schedule_def
        SetValidator_def ClearValidator_def)
  then show ?case using Cons run_sched_op_inv by simp
qed

text \<open>The calls a phase of \<open>Dispatch\<close> makes: callbacks, and not yet the success callback.\<close>

definition calls :: "sched \<Rightarrow> event list \<Rightarrow> sched \<Rightarrow> bool" where
  "calls s evs s' \<longleftrightarrow> out s' = out s @ evs \<and> EvFinish \<notin> set evs"

lemma calls_trans: "calls s a t \<Longrightarrow> calls t b u \<Longrightarrow> calls s (a @ b) u"
  by (auto simp: calls_def)

lemma dispatch_asyncs_inv:
  "sched_inv s \<Longrightarrow> dispatch_asyncs E n s = Some (Inr (b, s')) \<Longrightarrow>
     sched_inv s' \<and> now s' = now s \<and> (\<exists>evs. calls s evs s')"
proof (induction n arbitrary: s)
  case 0
  then show ?case by simp
next
  case (Suc n)
  show ?case
  proof (cases "async_holder s")
    case Nil
    then show ?thesis using Suc.prems by (auto simp: calls_def)
  next
    case (Cons a as)
    let ?s0 = "s\<lparr>out := out s @ [EvAsync a]\<rparr>"
    let ?s1 = "fold run_sched_op (async_prog E a) ?s0"
    have i0: "sched_inv ?s0" by (rule sched_inv_frame [OF Suc.prems(1)]) auto
    note i1 = run_sched_ops_inv [OF i0, of "async_prog E a"] and f1 = run_sched_ops_frame [OF i0, of "async_prog E a"]
    have i2: "sched_inv (?s1\<lparr>async_holder := r\<rparr>)" for r by (rule sched_inv_frame [OF i1]) auto
    obtain r0 r where "async_holder ?s1 = r0 # r"
      and d: "(if call_predicate E (?s1\<lparr>async_holder := r\<rparr>) then dispatch_asyncs E n (?s1\<lparr>async_holder := r\<rparr>)
          else Some (Inr (False, ?s1\<lparr>async_holder := r\<rparr>))) = Some (Inr (b, s'))"
      using Suc.prems(2) Cons by (auto simp: Let_def split: list.splits)
    moreover have c1: "calls s [EvAsync a] (?s1\<lparr>async_holder := r\<rparr>)"
      using f1 by (simp add: calls_def)
    ultimately show ?thesis
      using Suc.IH [OF i2, of r] i2 [of r] f1 calls_trans [OF c1] by (auto split: if_splits)
  qed
qed

lemma dispatch_tasks_calls:
  "sched_inv s \<Longrightarrow> dispatch_tasks E n s = Some (Inr (b, s')) \<Longrightarrow> \<exists>evs. calls s evs s'"
proof (induction n arbitrary: s)
  case 0
  then show ?case by simp
next
  case (Suc n)
  from Suc.prems(2) show ?case
  proof (cases rule: dispatch_tasks_cases)
    case finish
    then show ?thesis by (auto simp: calls_def)
  next
    case (step i rest c s1)
    note p = popped_inv [OF Suc.prems(1) step(1)]
    obtain evs where "calls s1 evs s'"
      using Suc.IH [OF run_task_ops_inv [OF p(1,2) step(3)] step(5)] by blast
    then show ?thesis
      using run_task_ops_frame [OF p(1,2) step(3)] by (auto simp: calls_def popped_def)
  next
    case (stop i rest c)
    note p = popped_inv [OF Suc.prems(1) stop(1)]
    then show ?thesis
      using run_task_ops_frame [OF p(1,2) stop(3)] by (auto simp: calls_def popped_def)
  qed
qed

text \<open>
  C8: A call of \<open>Update\<close> keeps the invariant of the task queue (no task twice, ordered by due time)
  whatever the callbacks do; and when it runs to its end and calls the success callback, no task
  that is due is left in the queue.
\<close>

theorem update_leaves_no_due_task:
  assumes "sched_inv s" and "UpdateBy E n diff s = Some (Inr s')"
  shows "sched_inv s' \<and> now s' = now s + diff \<and>
    ((\<exists>evs. out s' = out s @ evs @ [EvFinish]) \<longrightarrow> (\<forall>i \<in> set (task_holder s'). now s' < due s' i))"
proof -
  let ?s = "s\<lparr>now := now s + diff\<rparr>"
  have i: "sched_inv ?s" by (rule sched_inv_frame [OF assms(1)]) auto
  have fr: "sched_inv (t\<lparr>out := x\<rparr>)" if "sched_inv t" for t x by (rule sched_inv_frame [OF that]) auto
  consider "s' = ?s" | s1 where "dispatch_asyncs E n ?s = Some (Inr (False, s1))" "s' = s1"
    | s1 s2 where "dispatch_asyncs E n ?s = Some (Inr (True, s1))"
        "dispatch_tasks E n s1 = Some (Inr (False, s2))" "s' = s2"
    | s1 s2 where "dispatch_asyncs E n ?s = Some (Inr (True, s1))"
        "dispatch_tasks E n s1 = Some (Inr (True, s2))" "s' = s2\<lparr>out := out s2 @ [EvFinish]\<rparr>"
    using assms(2) unfolding UpdateBy_def TaskScheduler_Dispatch_def
    by (auto split: if_splits option.splits sum.splits prod.splits)
  then show ?thesis
  proof cases
    case 1
    then show ?thesis using i by auto
  next
    case (2 s1)
    then show ?thesis using dispatch_asyncs_inv [OF i 2(1)] by (auto simp: calls_def)
  next
    case (3 s1 s2)
    note a = dispatch_asyncs_inv [OF i 3(1)]
    obtain e1 e2 where "calls ?s e1 s1" "calls s1 e2 s2"
      using a dispatch_tasks_calls [OF _ 3(2)] by blast
    then have "out s' \<noteq> out s @ evs @ [EvFinish]" for evs
      using 3(3) by (auto simp: calls_def)
        (metis UnCI append_assoc last_appendR last_in_set last_snoc self_append_conv set_append snoc_eq_iff_butlast)
    then show ?thesis using 3(3) dispatch_tasks_inv [OF _ 3(2)] a by auto
  next
    case (4 s1 s2)
    note a = dispatch_asyncs_inv [OF i 4(1)]
    then show ?thesis using 4(3) dispatch_tasks_inv [OF _ 4(2)] fr by auto
  qed
qed

theorem update_leaves_no_due_task_witness:
  "\<exists>s' evs. UpdateBy \<lparr>task_prog = (\<lambda>h t. []), async_prog = (\<lambda>a. []), valid = (\<lambda>v e. True)\<rparr> 3 7
       (TaskScheduler_Schedule 5 None 1 (TaskScheduler_new 0)) = Some (Inr s')
     \<and> out s' = evs @ [EvFinish] \<and> (\<forall>i \<in> set (task_holder s'). now s' < due s' i)"
proof -
  let ?E = "\<lparr>task_prog = (\<lambda>h t. []), async_prog = (\<lambda>a. []), valid = (\<lambda>v e. True)\<rparr>"
  let ?s = "TaskScheduler_Schedule 5 None 1 (TaskScheduler_new 0)"
  have i: "sched_inv ?s" unfolding TaskScheduler_Schedule_def by (rule ScheduleAt_inv [OF sched_inv_new])
  obtain s' where u: "UpdateBy ?E 3 7 ?s = Some (Inr s')"
    and o: "out s' = out ?s @ [EvTask 1 5] @ [EvFinish]"
    by (simp add: UpdateBy_def TaskScheduler_Dispatch_def TaskScheduler_Schedule_def ScheduleAt_def InsertTask_def
        TaskScheduler_new_def TaskQueue_Push_def TaskQueue_Pop_def call_predicate_def TaskContext_Invoke_def
        Let_def numeral_3_eq_3)
  have "out ?s = []" by (simp add: TaskScheduler_Schedule_def sched_frames TaskScheduler_new_def)
  then have "out s' = [EvTask 1 5] @ [EvFinish]" using o by simp
  moreover have "\<forall>i \<in> set (task_holder s'). now s' < due s' i"
    using update_leaves_no_due_task [OF i u] o by blast
  ultimately show ?thesis using u by (intro exI [of _ s'] exI [of _ "[EvTask 1 5]"] conjI)
qed

subsection \<open>Tasks run in the order of their due times\<close>

definition callbacks_ok :: "int \<Rightarrow> nat \<Rightarrow> callbacks \<Rightarrow> bool" where
  "callbacks_ok \<delta> K E \<longleftrightarrow>
     (\<forall>h t. list_all (op_durations \<delta>) (task_prog E h t) \<and> length (task_prog E h t) \<le> K)"

definition lower_bound :: "int \<Rightarrow> sched \<Rightarrow> bool" where
  "lower_bound e s \<longleftrightarrow> (\<forall>i \<in> set (task_holder s). e \<le> due s i)"

lemma lower_bound_step:
  "holder_step \<delta> (e + \<delta>) s s' \<Longrightarrow> 0 \<le> \<delta> \<Longrightarrow> e \<le> now s \<Longrightarrow> lower_bound e s \<Longrightarrow> lower_bound e s'"
  unfolding holder_step_def lower_bound_def by force

lemma run_task_ops_step:
  assumes "run_task_ops xs c s = Inr (c', s')" and "sched_inv s" and "ctx_inv c s"
    and "list_all (op_durations \<delta>) xs" and "durations_ok \<delta> s" and "0 \<le> \<delta>"
    and "e \<le> due s (ctx_task c)" and "e \<le> now s" and "lower_bound e s"
  shows "durations_ok \<delta> s' \<and> lower_bound e s'"
  using assms
proof (induction xs arbitrary: c s)
  case Nil
  then show ?case by simp
next
  case (Cons x xs)
  from Cons.prems(1) obtain c1 s1 where x: "run_task_op x c s = Inr (c1, s1)"
    and xs: "run_task_ops xs c1 s1 = Inr (c', s')"
    by (auto simp: res_simps)
  have dx: "op_durations \<delta> x" and dxs: "list_all (op_durations \<delta>) xs" using Cons.prems(4) by auto
  note i = run_task_op_inv [OF Cons.prems(2,3) x]
  note st = run_task_op_step [OF Cons.prems(2,3) x dx Cons.prems(5-8)]
  have "lower_bound e s1" using st Cons.prems(6,8,9) by (blast intro: lower_bound_step)
  moreover have "now s1 = now s" using st by (simp add: holder_step_def)
  ultimately show ?case using Cons.IH [OF xs] i st dxs Cons.prems(6,8) by simp
qed

lemma dispatch_tasks_sorted:
  assumes "dispatch_tasks E n s = Some (Inr (b, s'))" and "sched_inv s" and "callbacks_ok 0 K E"
    and "durations_ok 0 s" and "lower_bound e s"
  shows "\<exists>evs. out s' = out s @ map (\<lambda>(h, t). EvTask h t) evs \<and> sorted (map snd evs)
           \<and> (\<forall>t \<in> set (map snd evs). e \<le> t \<and> t \<le> now s)"
  using assms
proof (induction n arbitrary: s e)
  case 0
  then show ?case by simp
next
  case (Suc n)
  have run: "out s1 = out s @ [EvTask (handler (heap s i)) (due s i)] \<and> durations_ok 0 s1
      \<and> lower_bound (due s i) s1 \<and> sched_inv s1 \<and> now s1 = now s \<and> e \<le> due s i"
    if "task_holder s = i # rest" "due s i \<le> now s"
      "run_task_ops (task_prog E (handler (heap s i)) (heap s i)) (fresh_ctx i) (popped s i rest) = Inr (c, s1)"
    for i rest c s1
  proof -
    note p = popped_inv [OF Suc.prems(2) that(1)]
    have "durations_ok 0 s1 \<and> lower_bound (due s i) s1"
      by (rule run_task_ops_step [OF that(3) p(1,2)])
        (use Suc.prems(3,4) that(2) p(3) in
          \<open>auto simp: callbacks_ok_def durations_ok_def popped_def fresh_ctx_def lower_bound_def\<close>)
    then show ?thesis
      using run_task_ops_frame [OF p(1,2) that(3)] run_task_ops_inv [OF p(1,2) that(3)] that(1) Suc.prems(5)
      by (auto simp: popped_def lower_bound_def)
  qed
  from Suc.prems(1) show ?case
  proof (cases rule: dispatch_tasks_cases)
    case finish
    then show ?thesis by (intro exI [of _ "[]"]) simp
  next
    case (step i rest c s1)
    note r = run [OF step(1-3)]
    then have "sched_inv s1" "durations_ok 0 s1" "lower_bound (due s i) s1" by auto
    from Suc.IH [OF step(5) this(1) Suc.prems(3) this(2,3)]
    obtain evs where "out s' = out s1 @ map (\<lambda>(h, t). EvTask h t) evs" "sorted (map snd evs)"
      "\<forall>t \<in> set (map snd evs). due s i \<le> t \<and> t \<le> now s1"
      by blast
    then show ?thesis using r step(2)
      by (intro exI [of _ "(handler (heap s i), due s i) # evs"]) auto
  next
    case (stop i rest c)
    then show ?thesis using run [OF stop(1-3)]
      by (intro exI [of _ "[(handler (heap s i), due s i)]"]) auto
  qed
qed

text \<open>
  If no callback uses a negative duration, the task loop of \<open>Dispatch\<close> runs the tasks in the
  order of their due times and runs only tasks that are due: the calls it makes are task
  invocations with non-decreasing due times, none of them in the future.
\<close>

theorem dispatch_runs_in_due_order:
  assumes "sched_inv s" and "callbacks_ok 0 K E" and "durations_ok 0 s"
    and "dispatch_tasks E n s = Some (Inr (b, s'))"
  shows "\<exists>evs. out s' = out s @ map (\<lambda>(h, t). EvTask h t) evs \<and> sorted (map snd evs)
           \<and> list_all (\<lambda>t. t \<le> now s) (map snd evs)"
proof -
  have "lower_bound (Min (insert 0 (due s ` set (task_holder s)))) s" by (simp add: lower_bound_def)
  from dispatch_tasks_sorted [OF assms(4,1,2,3) this] show ?thesis by (auto simp: list_all_iff)
qed

theorem dispatch_runs_in_due_order_witness:
  "\<exists>s' evs. dispatch_tasks \<lparr>task_prog = (\<lambda>h t. [CtxSchedule 2 None 9]), async_prog = (\<lambda>a. []), valid = (\<lambda>v e. True)\<rparr> 9
      ((TaskScheduler_Schedule 5 None 1 (TaskScheduler_new 0))\<lparr>now := 8\<rparr>) = Some (Inr (True, s'))
     \<and> out s' = map (\<lambda>(h, t). EvTask h t) evs \<and> sorted (map snd evs) \<and> list_all (\<lambda>t. t \<le> 8) (map snd evs)"
proof -
  let ?E = "\<lparr>task_prog = (\<lambda>h t. [CtxSchedule 2 None 9]), async_prog = (\<lambda>a. []), valid = (\<lambda>v e. True)\<rparr>"
  let ?s = "(TaskScheduler_Schedule 5 None 1 (TaskScheduler_new 0))\<lparr>now := 8\<rparr>"
  have i: "sched_inv ?s"
    unfolding TaskScheduler_Schedule_def by (rule sched_inv_frame [OF ScheduleAt_inv [OF sched_inv_new]]) auto
  have c: "callbacks_ok 0 1 ?E" by (simp add: callbacks_ok_def)
  have d: "durations_ok 0 ?s"
    by (simp add: durations_ok_def TaskScheduler_Schedule_def sched_frames TaskScheduler_new_def)
  obtain s' where u: "dispatch_tasks ?E 9 ?s = Some (Inr (True, s'))"
    by (simp add: TaskScheduler_Schedule_def ScheduleAt_def InsertTask_def TaskContext_Dispatch_def
        TaskScheduler_new_def TaskQueue_Push_def TaskQueue_Pop_def call_predicate_def TaskContext_Invoke_def
        TaskContext_Schedule_def Let_def eval_nat_numeral)
  have e: "out ?s = []" "now ?s = 8"
    by (simp_all add: TaskScheduler_Schedule_def sched_frames TaskScheduler_new_def)
  show ?thesis using dispatch_runs_in_due_order [OF i c d u] u unfolding e by (metis append_Nil)
qed

subsection \<open>Dispatching ends when every repetition is delayed\<close>

text \<open>
  The weight of a due task bounds the work it can still cause: with at most \<open>K\<close> operations per
  handler and durations of at least one tick, the tasks it creates together weigh less.
\<close>

definition weight :: "nat \<Rightarrow> sched \<Rightarrow> nat \<Rightarrow> nat" where
  "weight K s i = (if due s i \<le> now s then (K + 1) ^ (nat (now s - due s i) + 1) else 0)"

definition load :: "nat \<Rightarrow> sched \<Rightarrow> nat" where
  "load K s = (\<Sum>i \<in> set (task_holder s). weight K s i)"

lemma weight_mono:
  assumes "now s' = now s" and "due s i \<le> due s' i \<or> now s + 1 \<le> due s' i"
  shows "weight K s' i \<le> weight K s i"
proof (cases "due s' i \<le> now s")
  case True
  then have "due s i \<le> now s" "nat (now s - due s' i) + 1 \<le> nat (now s - due s i) + 1"
    using assms(2) by auto
  moreover from this(2) have "(K + 1) ^ (nat (now s - due s' i) + 1) \<le> (K + 1) ^ (nat (now s - due s i) + 1)"
    by (rule power_increasing) simp
  ultimately show ?thesis using True assms(1) by (simp add: weight_def)
next
  case False
  then show ?thesis using assms(1) by (simp add: weight_def)
qed

lemma weight_late:
  assumes "now s' = now s" and "e + 1 \<le> due s' j"
  shows "weight K s' j \<le> (K + 1) ^ nat (now s - e)"
proof (cases "due s' j \<le> now s")
  case True
  then have "nat (now s - due s' j) + 1 \<le> nat (now s - e)" using assms(2) by linarith
  then have "(K + 1) ^ (nat (now s - due s' j) + 1) \<le> (K + 1) ^ nat (now s - e)"
    by (rule power_increasing) simp
  then show ?thesis using True assms(1) by (simp add: weight_def)
next
  case False
  then show ?thesis using assms(1) by (simp add: weight_def)
qed

lemma load_step:
  assumes "holder_step 1 (e + 1) s s'"
  shows "load K s' \<le> load K s + (K + 1) ^ nat (now s - e)"
proof -
  let ?A = "set (task_holder s)" and ?B = "set (task_holder s')"
  from assms obtain j where n: "now s' = now s"
    and j: "\<And>i. i \<in> ?B \<Longrightarrow> (i = j \<and> e + 1 \<le> due s' i) \<or> (i \<in> ?A \<and> (due s i \<le> due s' i \<or> now s + 1 \<le> due s' i))"
    unfolding holder_step_def by blast
  define C where "C = {i \<in> ?B. i \<in> ?A \<and> (due s i \<le> due s' i \<or> now s + 1 \<le> due s' i)}"
  have "(\<Sum>i \<in> C. weight K s' i) \<le> (\<Sum>i \<in> C. weight K s i)"
    using n by (intro sum_mono weight_mono) (auto simp: C_def)
  also have "\<dots> \<le> load K s" unfolding load_def by (rule sum_mono2) (auto simp: C_def)
  finally have c: "(\<Sum>i \<in> C. weight K s' i) \<le> load K s" .
  have d: "(\<Sum>i \<in> ?B - C. weight K s' i) \<le> (K + 1) ^ nat (now s - e)"
  proof (cases "?B - C = {}")
    case True
    then show ?thesis by (simp only: sum.empty le0)
  next
    case False
    then have "?B - C = {j}" "e + 1 \<le> due s' j" using j unfolding C_def by blast+
    then show ?thesis using weight_late [OF n] by simp
  qed
  have "C \<subseteq> ?B" by (auto simp: C_def)
  then have "load K s' = (\<Sum>i \<in> ?B - C. weight K s' i) + (\<Sum>i \<in> C. weight K s' i)"
    unfolding load_def by (rule sum.subset_diff) simp
  then show ?thesis using c d by simp
qed

lemma run_task_ops_load:
  assumes "run_task_ops xs c s = Inr (c', s')" and "sched_inv s" and "ctx_inv c s"
    and "list_all (op_durations 1) xs" and "durations_ok 1 s"
    and "e \<le> due s (ctx_task c)" and "e \<le> now s"
  shows "load K s' \<le> load K s + length xs * (K + 1) ^ nat (now s - e) \<and> durations_ok 1 s'"
  using assms
proof (induction xs arbitrary: c s)
  case Nil
  then show ?case by simp
next
  case (Cons x xs)
  from Cons.prems(1) obtain c1 s1 where x: "run_task_op x c s = Inr (c1, s1)"
    and xs: "run_task_ops xs c1 s1 = Inr (c', s')"
    by (auto simp: res_simps)
  have dx: "op_durations 1 x" and dxs: "list_all (op_durations 1) xs" using Cons.prems(4) by auto
  note i = run_task_op_inv [OF Cons.prems(2,3) x]
  have st: "holder_step 1 (e + 1) s s1 \<and> durations_ok 1 s1 \<and> e \<le> due s1 (ctx_task c)"
    by (rule run_task_op_step [OF Cons.prems(2,3) x dx Cons.prems(5) _ Cons.prems(6,7)]) simp
  then have n: "now s1 = now s" by (simp add: holder_step_def)
  have "load K s' \<le> load K s1 + length xs * (K + 1) ^ nat (now s - e) \<and> durations_ok 1 s'"
    using Cons.IH [OF xs] i st n dxs Cons.prems(7) by simp
  moreover have "load K s1 \<le> load K s + (K + 1) ^ nat (now s - e)"
    using st by (blast intro: load_step)
  ultimately show ?case by simp
qed

lemma load_popped:
  assumes "sched_inv s" and "task_holder s = i # rest"
  shows "load K s = weight K s i + load K (popped s i rest)"
proof -
  have "i \<notin> set rest" using assms by (simp add: sched_inv_def)
  moreover have "weight K (popped s i rest) = weight K s"
    by (rule ext) (simp add: weight_def popped_def)
  ultimately show ?thesis using assms(2) by (simp add: load_def) (simp add: popped_def)
qed

lemma dispatch_tasks_ends:
  assumes "load K s < n" and "sched_inv s" and "callbacks_ok 1 K E" and "durations_ok 1 s"
  shows "\<exists>r. dispatch_tasks E n s = Some r"
  using assms
proof (induction n arbitrary: s)
  case 0
  then show ?case by simp
next
  case (Suc n)
  show ?case
  proof (cases "\<exists>i rest c s1. task_holder s = i # rest \<and> due s i \<le> now s \<and>
      run_task_ops (task_prog E (handler (heap s i)) (heap s i)) (fresh_ctx i) (popped s i rest) = Inr (c, s1)")
    case False
    then show ?thesis
      unfolding dispatch_tasks_unfold by (auto split: list.splits sum.splits)
  next
    case True
    then obtain i rest c s1 where 1: "task_holder s = i # rest" "due s i \<le> now s"
      "run_task_ops (task_prog E (handler (heap s i)) (heap s i)) (fresh_ctx i) (popped s i rest) = Inr (c, s1)"
      by blast
    let ?p = "task_prog E (handler (heap s i)) (heap s i)" and ?B = "(K + 1) ^ nat (now s - due s i)"
    note p = popped_inv [OF Suc.prems(2) 1(1)]
    have "load K s1 \<le> load K (popped s i rest) + length ?p * (K + 1) ^ nat (now (popped s i rest) - due s i)
        \<and> durations_ok 1 s1"
      by (rule run_task_ops_load [OF 1(3) p(1,2)])
        (use Suc.prems(3,4) 1(2) in \<open>auto simp: callbacks_ok_def durations_ok_def popped_def fresh_ctx_def\<close>)
    then have l: "load K s1 \<le> load K (popped s i rest) + length ?p * ?B" and d: "durations_ok 1 s1"
      by (simp_all add: popped_def)
    have "length ?p * ?B \<le> K * ?B" using Suc.prems(3) by (simp add: callbacks_ok_def)
    also have "\<dots> < weight K s i" using 1(2) by (simp add: weight_def)
    finally have "load K s1 < load K s" using l load_popped [OF Suc.prems(2) 1(1), of K] by simp
    then have "\<exists>r. dispatch_tasks E n s1 = Some r"
      using Suc.IH run_task_ops_inv [OF p(1,2) 1(3)] Suc.prems(1,3) d by simp
    then show ?thesis using 1 unfolding dispatch_tasks_unfold by simp
  qed
qed

text \<open>Asynchronous callables that neither enqueue further callables nor cancel everything.\<close>

fun sched_op_plain :: "sched_op \<Rightarrow> bool" where
  "sched_op_plain (OpAsync a) = False"
| "sched_op_plain OpCancelAll = False"
| "sched_op_plain (OpSchedule d g h) = (1 \<le> d)"
| "sched_op_plain _ = True"

definition asyncs_plain :: "callbacks \<Rightarrow> bool" where
  "asyncs_plain E \<longleftrightarrow> (\<forall>a. list_all sched_op_plain (async_prog E a))"

lemma CancelGroupsOf_async: "async_holder (TaskScheduler_CancelGroupsOf gs s) = async_holder s"
  unfolding TaskScheduler_CancelGroupsOf_def
  by (induction gs arbitrary: s) (simp_all add: TaskScheduler_CancelGroup_def)

lemma run_sched_ops_plain:
  "list_all sched_op_plain xs \<Longrightarrow> sched_inv s \<Longrightarrow> durations_ok 1 s \<Longrightarrow>
     async_holder (fold run_sched_op xs s) = async_holder s \<and> durations_ok 1 (fold run_sched_op xs s)"
proof (induction xs arbitrary: s)
  case Nil
  then show ?case by simp
next
  case (Cons x xs)
  have "async_holder (run_sched_op x s) = async_holder s"
    using Cons.prems
    by (cases x) (auto simp: modify_defs modify_tasks_frame TaskScheduler_Schedule_def SetValidator_def
        ClearValidator_def CancelGroupsOf_async ScheduleAt_def TaskScheduler_CancelGroup_def)
  moreover have "durations_ok 1 (s\<lparr>predicate := v\<rparr>)" for v
    using Cons.prems(3) by (simp add: durations_ok_def)
  then have "durations_ok 1 (run_sched_op x s)"
    using Cons.prems
    by (cases x) (auto simp: modify_defs TaskScheduler_Schedule_def SetValidator_def ClearValidator_def
        durations_frames split: if_splits intro!: modify_tasks_durations)
  ultimately show ?case using Cons run_sched_op_inv by simp
qed

lemma dispatch_asyncs_ends:
  assumes "length (async_holder s) < n" and "sched_inv s" and "asyncs_plain E" and "durations_ok 1 s"
  shows "\<exists>b s'. (\<forall>m \<ge> n. dispatch_asyncs E m s = Some (Inr (b, s'))) \<and> durations_ok 1 s'"
  using assms
proof (induction n arbitrary: s)
  case 0
  then show ?case by simp
next
  case (Suc n)
  have m: "(\<forall>m \<ge> Suc n. P m) \<longleftrightarrow> (\<forall>m \<ge> n. P (Suc m))" for P :: "nat \<Rightarrow> bool"
    by (metis Suc_le_D Suc_le_mono)
  show ?case
  proof (cases "async_holder s")
    case Nil
    then show ?thesis using Suc.prems(4) unfolding m by auto
  next
    case (Cons a as)
    let ?s0 = "s\<lparr>out := out s @ [EvAsync a]\<rparr>"
    let ?s2 = "(fold run_sched_op (async_prog E a) ?s0)\<lparr>async_holder := as\<rparr>"
    have i0: "sched_inv ?s0" by (rule sched_inv_frame [OF Suc.prems(2)]) auto
    have d0: "durations_ok 1 ?s0" using Suc.prems(4) by (simp add: durations_ok_def)
    have p: "list_all sched_op_plain (async_prog E a)" using Suc.prems(3) by (simp add: asyncs_plain_def)
    note r = run_sched_ops_plain [OF p i0 d0]
    have i2: "sched_inv ?s2" by (rule sched_inv_frame [OF run_sched_ops_inv [OF i0]]) auto
    have d2: "durations_ok 1 ?s2" using r by (simp add: durations_ok_def)
    have e: "dispatch_asyncs E (Suc k) s = (if call_predicate E ?s2 then dispatch_asyncs E k ?s2 else Some (Inr (False, ?s2)))" for k
      using r Cons by (simp add: Let_def)
    show ?thesis
    proof (cases "call_predicate E ?s2")
      case True
      then show ?thesis unfolding m e using Suc.IH [OF _ i2 Suc.prems(3) d2] Suc.prems(1) Cons by simp
    next
      case False
      then show ?thesis unfolding m e using d2 by auto
    qed
  qed
qed



subsection \<open>Contexts and groups\<close>

text \<open>
  A task context can be repeated once.  After a \<open>Repeat\<close> the context is consumed, the task is
  queued again with its due time moved on by the duration and its repeat counter increased by one
  (modulo \<open>2 ^ 32\<close>), and a further \<open>Repeat\<close> from the same context stops at the assertion.
\<close>

theorem repeat_consumes_context:
  assumes "\<not> ctx_consumed c" and "ctx_alive c"
  shows "\<exists>c' s'. TaskContext_Repeat d c s = Inr (c', s') \<and> ctx_task c \<in> set (task_holder s')
     \<and> due s' (ctx_task c) = due s (ctx_task c) + d
     \<and> GetRepeatCounter c' s' = GetRepeatCounter c s + 1
     \<and> TaskContext_Repeat d' c' s' = Inl AssertFailure"
  using assms
  by (simp add: TaskContext_Repeat_def AssertOnConsumed_def assert_res_def TaskContext_Dispatch_def
      GetRepeatCounter_def Let_def)

theorem repeat_consumes_context_witness:
  "\<exists>c' s'. TaskContext_Repeat 7 (fresh_ctx 0) (TaskScheduler_new 3) = Inr (c', s')
     \<and> ctx_task (fresh_ctx 0) \<in> set (task_holder s')
     \<and> due s' (ctx_task (fresh_ctx 0)) = due (TaskScheduler_new 3) (ctx_task (fresh_ctx 0)) + 7
     \<and> GetRepeatCounter c' s' = GetRepeatCounter (fresh_ctx 0) (TaskScheduler_new 3) + 1
     \<and> TaskContext_Repeat 1 c' s' = Inl AssertFailure"
  by (rule repeat_consumes_context) (simp_all add: fresh_ctx_def)

text \<open>
  The group operations touch exactly the tasks of their group.  \<open>CancelGroup\<close> leaves the other
  tasks in their order; \<open>DelayGroup\<close> keeps the queued tasks and the invariant, moves the due time of
  the tasks of the group by the duration and changes no other task.
\<close>

theorem group_operations:
  assumes "sched_inv s"
  shows "task_holder (TaskScheduler_CancelGroup g s) = filter (\<lambda>i. group (heap s i) \<noteq> Some g) (task_holder s) \<and>
    sched_inv (DelayGroup g d s) \<and>
    mset (task_holder (DelayGroup g d s)) = mset (task_holder s) \<and>
    heap (DelayGroup g d s) i =
      (if i \<in> set (task_holder s) \<and> group (heap s i) = Some g
       then (heap s i)\<lparr>end_time := due s i + d\<rparr> else heap s i)"
  using assms mset_modify_tasks [of s] modify_tasks_inv [OF assms]
  by (auto simp: sched_frames Task_IsInGroup_def DelayGroup_def modify_tasks_frame modified_def sched_inv_def [of s])

theorem group_operations_witness:
  "task_holder (TaskScheduler_CancelGroup 4 (TaskScheduler_Schedule 5 (Some 4) 1 (TaskScheduler_new 0)))
     = filter (\<lambda>i. group (heap (TaskScheduler_Schedule 5 (Some 4) 1 (TaskScheduler_new 0)) i) \<noteq> Some 4)
         (task_holder (TaskScheduler_Schedule 5 (Some 4) 1 (TaskScheduler_new 0)))"
  using group_operations [of "TaskScheduler_Schedule 5 (Some 4) 1 (TaskScheduler_new 0)"]
  by (simp add: TaskScheduler_Schedule_def ScheduleAt_inv sched_inv_new)

text \<open>
  An asynchronous callable that calls \<open>CancelAll\<close> makes \<open>Dispatch\<close> pop an empty queue, although
  the callable is documented to be allowed to modify the scheduler: the behaviour is undefined
  whenever such a callable runs first and enqueues nothing afterwards.
\<close>

theorem async_cancel_all_undefined:
  assumes "async_holder s = a # rest" and "async_prog E a = [OpCancelAll]"
  shows "dispatch_asyncs E (Suc n) s = Some (Inl Undefined)"
  using assms by (simp add: TaskScheduler_CancelAll_def Let_def)

theorem async_cancel_all_undefined_witness:
  "dispatch_asyncs \<lparr>task_prog = (\<lambda>h t. []), async_prog = (\<lambda>a. [OpCancelAll]), valid = (\<lambda>v e. True)\<rparr> (Suc 0)
     (TaskScheduler_Async 0 (TaskScheduler_new 0)) = Some (Inl Undefined)"
  by (rule async_cancel_all_undefined [of _ 0 "[]"]) (simp_all add: TaskScheduler_Async_def TaskScheduler_new_def)

end
