(* ===== verification/Updater.thy ===== *)
theory Updater
  imports StrUtil "HOL-Library.List_Lexorder" "HOL-Library.Char_ord" "HOL-Library.Sublist"
begin

section \<open>The database update fetcher\<close>

text \<open>
  \<^verbatim>\<open>src/src/server/database/Updater/UpdateFetcher.h\<close> and \<^verbatim>\<open>UpdateFetcher.cpp\<close>.  \<open>Update\<close> compares
  the \<^verbatim>\<open>.sql\<close> files of the include directories with the table \<^verbatim>\<open>updates\<close> of the database, runs the
  files that are new or changed, and keeps the table in step.

  The world of the fetcher is what it is constructed with: the file system (\<open>env\<close>), the SHA-1
  digest, and the three callbacks \<open>_apply\<close>, \<open>_applyFile\<close> and \<open>_retrieve\<close>.  The model records the
  calls of the first two, in order, in \<open>trace\<close>; \<open>run_file\<close> says whether running a file succeeds
  (\<open>_applyFile\<close> throws \<open>UpdateException\<close> otherwise).  An \<open>UpdateException\<close> ends \<open>Update\<close>; the calls
  made before it stay made.  Progress output and logging are left out.
\<close>

subsection \<open>Data\<close>

datatype State = RELEASED | CUSTOM | MODULE | ARCHIVED

record AppliedFileEntry =
  e_name :: string
  e_hash :: string
  e_state :: State
  e_timestamp :: u64

record UpdateResult =
  updated :: nat
  recent :: nat
  archived :: nat

definition StateFromString :: "string \<Rightarrow> State" where
  "StateFromString s =
     (if s = ''RELEASED'' then RELEASED
      else if s = ''CUSTOM'' then CUSTOM
      else if s = ''MODULE'' then MODULE
      else ARCHIVED)"

fun StateToString :: "State \<Rightarrow> string" where
  "StateToString RELEASED = ''RELEASED''"
| "StateToString CUSTOM = ''CUSTOM''"
| "StateToString MODULE = ''MODULE''"
| "StateToString ARCHIVED = ''ARCHIVED''"

text \<open>The statements the fetcher sends through \<open>_apply\<close>.\<close>

datatype update_sql =
    ReplaceEntry string string State nat
  | DeleteEntry string
  | RenameRow string string
  | DeleteEntries "string list"
  | SetEntryState string State

datatype action = ApplyFile string | Apply update_sql

record fetch_env =
  source_directory :: string
  db_module_name :: string
  set_directories :: "string list option"
  modules_list :: string
  is_directory :: "string \<Rightarrow> bool"
  dir_entries :: "string \<Rightarrow> string list"
  read_file :: "string \<Rightarrow> string option"
  sha1 :: "string \<Rightarrow> u8 list"
  map_order :: "(string \<times> AppliedFileEntry) list \<Rightarrow> (string \<times> AppliedFileEntry) list"
  run_file :: "string \<Rightarrow> bool"
  run_time :: "string \<Rightarrow> nat"
  opt_redundancy :: bool
  opt_allow_rehash :: bool
  opt_archived_redundancy :: bool
  opt_clean_max :: int

type_synonym file_entry = "string \<times> State"
type_synonym applied_files = "(string \<times> AppliedFileEntry) list"

record upd =
  applied :: applied_files
  trace :: "action list"
  imported :: nat

subsection \<open>The text of the statements\<close>

abbreviation bq :: string where "bq \<equiv> ''`''"
abbreviation dq :: string where "dq \<equiv> [CHR 0x22]"
abbreviation sq :: string where "sq \<equiv> [CHR 0x27]"

fun render_names :: "string list \<Rightarrow> string" where
  "render_names [] = []"
| "render_names [n] = dq @ n @ dq"
| "render_names (n # m # ns) = dq @ n @ dq @ '', '' @ render_names (m # ns)"

fun render :: "update_sql \<Rightarrow> string" where
  "render (ReplaceEntry name hash state speed) =
     ''REPLACE INTO `updates` (`name`, `hash`, `state`, `speed`) VALUES ('' @ sq @ name @ sq @ '', '' @ sq @ hash @ sq
       @ '', '' @ sq @ StateToString state @ sq @ '', '' @ sq @ show_nat speed @ sq @ '')''"
| "render (DeleteEntry to) = ''DELETE FROM `updates` WHERE `name`='' @ dq @ to @ dq"
| "render (RenameRow from to) =
     ''UPDATE `updates` SET `name`='' @ dq @ to @ dq @ '' WHERE `name`='' @ dq @ from @ dq"
| "render (DeleteEntries ns) = ''DELETE FROM `updates` WHERE `name` IN('' @ render_names ns @ '')''"
| "render (SetEntryState name state) =
     ''UPDATE `updates` SET `state`='' @ sq @ StateToString state @ sq @ '' WHERE `name`='' @ dq @ name @ dq"

subsection \<open>Paths\<close>

definition filename :: "string \<Rightarrow> string" where
  "filename p = (case last_index_of (CHR ''/'') p of Some i \<Rightarrow> drop (Suc i) p | None \<Rightarrow> p)"

definition extension :: "string \<Rightarrow> string" where
  "extension p =
     (let f = filename p
      in if f = ''.'' \<or> f = ''..'' then []
         else case last_index_of (CHR ''.'') f of Some i \<Rightarrow> if i = 0 then [] else drop i f | None \<Rightarrow> [])"

text \<open>\<open>path /= name\<close> for a relative name.\<close>

definition path_append :: "string \<Rightarrow> string \<Rightarrow> string" where
  "path_append p name = (if p = [] \<or> last p = CHR ''/'' then p @ name else p @ ''/'' @ name)"

subsection \<open>Collecting the files\<close>

text \<open>A \<open>std::set\<close> ordered by filename: the list of its elements in order.\<close>

fun storage_insert :: "file_entry \<Rightarrow> file_entry list \<Rightarrow> file_entry list option" where
  "storage_insert e [] = Some [e]"
| "storage_insert e (x # xs) =
     (if filename (fst e) = filename (fst x) then None
      else if filename (fst e) < filename (fst x) then Some (e # x # xs)
      else map_option ((#) x) (storage_insert e xs))"

fun FillFileListRecursively :: "string list \<Rightarrow> State \<Rightarrow> file_entry list \<Rightarrow> file_entry list option" where
  "FillFileListRecursively [] state storage = Some storage"
| "FillFileListRecursively (p # ps) state storage =
     (if extension p \<noteq> ''.sql'' then FillFileListRecursively ps state storage
      else case storage_insert (p, state) storage of
             None \<Rightarrow> None
           | Some storage' \<Rightarrow> FillFileListRecursively ps state storage')"

text \<open>
  The rows of \<^verbatim>\<open>updates_include\<close>; \<open>None\<close> is an empty result.  Directories that do not exist are
  skipped; the modules of \<open>_modulesList\<close> are appended when there is at least one directory.
\<close>

definition include_path :: "fetch_env \<Rightarrow> string \<Rightarrow> string" where
  "include_path E p = (if take 1 p = ''$'' then source_directory E @ drop 1 p else p)"

definition ReceiveIncludedDirectories :: "fetch_env \<Rightarrow> (string \<times> string) list option \<Rightarrow> file_entry list" where
  "ReceiveIncludedDirectories E rows =
     (case set_directories E of
        Some dirs \<Rightarrow>
          map (\<lambda>d. (source_directory E @ d, MODULE))
            (filter (\<lambda>d. is_directory E (source_directory E @ d)) dirs)
      | None \<Rightarrow>
          case rows of
            None \<Rightarrow> []
          | Some rs \<Rightarrow>
              let dirs = map (\<lambda>(p, st). (include_path E p, StateFromString st))
                           (filter (\<lambda>(p, st). is_directory E (include_path E p)) rs)
              in if dirs = [] \<or> modules_list E = [] then dirs
                 else dirs @ concat (map (\<lambda>name.
                        let sql_dir = path_append (path_append (path_append (source_directory E) ''modules'') name) ''sql'';
                            module_dir = path_append sql_dir (db_module_name E)
                        in if \<not> is_directory E sql_dir then []
                           else if \<not> is_directory E module_dir then []
                           else [(module_dir, MODULE)])
                      (Tokenize (modules_list E) (CHR '','') True)))"

datatype fetch_error = UpdateException | FetchAbort

fun fill_all :: "fetch_env \<Rightarrow> file_entry list \<Rightarrow> file_entry list \<Rightarrow> file_entry list option" where
  "fill_all E [] storage = Some storage"
| "fill_all E ((dir, state) # ds) storage =
     (case FillFileListRecursively (dir_entries E dir) state storage of
        None \<Rightarrow> None
      | Some storage' \<Rightarrow> fill_all E ds storage')"

definition include_file :: "fetch_env \<Rightarrow> string" where
  "include_file E = path_append (path_append (path_append (path_append (path_append (source_directory E) ''data'')
     ''sql'') ''base'') (db_module_name E)) ''updates_include.sql''"

text \<open>
  \<open>rows\<close> is what the query returns first, \<open>rows'\<close> what it returns after the include table has
  been restored.  The result comes with the calls made.
\<close>

definition GetFileList ::
  "fetch_env \<Rightarrow> (string \<times> string) list option \<Rightarrow> (string \<times> string) list option
     \<Rightarrow> action list \<times> (fetch_error + file_entry list)" where
  "GetFileList E rows rows' =
     (let dirs = ReceiveIncludedDirectories E rows
      in if dirs \<noteq> [] then
           ([], case fill_all E dirs [] of None \<Rightarrow> Inl UpdateException | Some fs \<Rightarrow> Inr fs)
         else
           let calls = [ApplyFile (include_file E)]
           in if \<not> run_file E (include_file E) then (calls, Inl UpdateException)
              else let dirs' = ReceiveIncludedDirectories E rows'
                   in (calls, if dirs' = [] then Inl FetchAbort
                              else case fill_all E dirs' [] of None \<Rightarrow> Inl UpdateException | Some fs \<Rightarrow> Inr fs))"

subsection \<open>The applied files\<close>

text \<open>
  \<open>emplace\<close> keeps an entry that is already there.  The list is the \<open>unordered_map\<close> in iteration
  order; the order of a map just filled is unspecified, which the permutation \<open>map_order\<close> of the
  environment stands for.
\<close>

fun ReceiveAppliedFiles :: "(string \<times> string \<times> string \<times> u64) list \<Rightarrow> applied_files \<Rightarrow> applied_files" where
  "ReceiveAppliedFiles [] m = m"
| "ReceiveAppliedFiles ((name, hash, st, ts) # rows) m =
     ReceiveAppliedFiles rows (emplace name \<lparr>e_name = name, e_hash = hash, e_state = StateFromString st, e_timestamp = ts\<rparr> m)"

definition hash_to_name :: "applied_files \<Rightarrow> (string \<times> string) list" where
  "hash_to_name m = fold (\<lambda>(n, e) acc. emplace (e_hash e) n acc) m []"

subsection \<open>One file\<close>

text \<open>\<open>ReadSQLUpdate\<close> throws when the file cannot be opened.\<close>

definition file_hash :: "fetch_env \<Rightarrow> string \<Rightarrow> string option" where
  "file_hash E p =
     (case read_file E p of
        None \<Rightarrow> None
      | Some text \<Rightarrow> (case ByteArrayToHexStr (sha1 E text) False of Inr h \<Rightarrow> Some h | Inl f \<Rightarrow> None))"

definition UpdateEntry :: "string \<Rightarrow> string \<Rightarrow> State \<Rightarrow> nat \<Rightarrow> upd \<Rightarrow> upd" where
  "UpdateEntry name hash state speed u = u\<lparr>trace := trace u @ [Apply (ReplaceEntry name hash state speed)]\<rparr>"

definition RenameEntry :: "string \<Rightarrow> string \<Rightarrow> upd \<Rightarrow> upd" where
  "RenameEntry from to u = u\<lparr>trace := trace u @ [Apply (DeleteEntry to), Apply (RenameRow from to)]\<rparr>"

definition UpdateState :: "string \<Rightarrow> State \<Rightarrow> upd \<Rightarrow> upd" where
  "UpdateState name state u = u\<lparr>trace := trace u @ [Apply (SetEntryState name state)]\<rparr>"

definition CleanUp :: "string list \<Rightarrow> upd \<Rightarrow> upd" where
  "CleanUp names u = (if names = [] then u else u\<lparr>trace := trace u @ [Apply (DeleteEntries names)]\<rparr>)"

definition erase_applied :: "string \<Rightarrow> upd \<Rightarrow> upd" where
  "erase_applied name u = u\<lparr>applied := map_erase name (applied u)\<rparr>"

text \<open>The mode \<open>MODE_APPLY\<close>: run the file, then record it; \<open>False\<close> is an \<open>UpdateException\<close>.\<close>

definition apply_and_record :: "fetch_env \<Rightarrow> string \<Rightarrow> string \<Rightarrow> State \<Rightarrow> upd \<Rightarrow> upd \<times> bool" where
  "apply_and_record E p hash state u =
     (let u1 = u\<lparr>trace := trace u @ [ApplyFile p]\<rparr>
      in if \<not> run_file E p then (u1, False)
         else let u2 = erase_applied (filename p) (UpdateEntry (filename p) hash state (run_time E p) u1)
              in (u2\<lparr>imported := Suc (imported u2)\<rparr>, True))"

definition ApplyUpdateFile ::
  "fetch_env \<Rightarrow> file_entry list \<Rightarrow> (string \<times> string) list \<Rightarrow> file_entry \<Rightarrow> upd \<Rightarrow> upd \<times> bool" where
  "ApplyUpdateFile E available hashes f u =
     (let p = fst f; state = snd f; name = filename p; entry = map_of (applied u) name
      in if entry \<noteq> None \<and> \<not> opt_redundancy E then (erase_applied name u, True)
         else if \<not> opt_archived_redundancy E \<and> map_option e_state entry = Some ARCHIVED \<and> state = ARCHIVED
           then (erase_applied name u, True)
         else case file_hash E p of
           None \<Rightarrow> (u, False)
         | Some hash \<Rightarrow>
             case entry of
               None \<Rightarrow>
                 (case map_of hashes hash of
                    Some old \<Rightarrow>
                      if old \<in> set (map (\<lambda>(q, st). filename q) available)
                      then apply_and_record E p hash state u
                      else (erase_applied old (RenameEntry old name u), True)
                  | None \<Rightarrow> apply_and_record E p hash state u)
             | Some e \<Rightarrow>
                 if opt_allow_rehash E \<and> e_hash e = []
                 then (erase_applied name (UpdateEntry name hash state 0 u), True)
                 else if e_hash e \<noteq> hash then apply_and_record E p hash state u
                 else (erase_applied name (if e_state e \<noteq> state then UpdateState name state u else u), True))"

fun apply_files ::
  "fetch_env \<Rightarrow> file_entry list \<Rightarrow> (string \<times> string) list \<Rightarrow> file_entry list \<Rightarrow> upd \<Rightarrow> upd \<times> bool" where
  "apply_files E available hashes [] u = (u, True)"
| "apply_files E available hashes (f # fs) u =
     (let (u', ok) = ApplyUpdateFile E available hashes f u
      in if ok then apply_files E available hashes fs u' else (u', False))"

subsection \<open>The whole update\<close>

definition phase_order :: "file_entry list \<Rightarrow> file_entry list" where
  "phase_order available =
     filter (\<lambda>(p, st). st = RELEASED \<or> st = ARCHIVED) available
       @ filter (\<lambda>(p, st). st = CUSTOM) available @ filter (\<lambda>(p, st). st = MODULE) available"

definition orphan_cleanup :: "fetch_env \<Rightarrow> upd \<Rightarrow> upd" where
  "orphan_cleanup E u =
     (if applied u \<noteq> [] \<and> set_directories E = None then
        let doCleanup = opt_clean_max E < 0 \<or> int (length (applied u)) \<le> opt_clean_max E;
            toCleanup = filter (\<lambda>(n, e). e_state e \<noteq> MODULE \<and> doCleanup) (applied u)
        in if toCleanup \<noteq> [] \<and> doCleanup then CleanUp (map fst (map_order E toCleanup)) u else u
      else u)"

definition update_with ::
  "fetch_env \<Rightarrow> file_entry list \<Rightarrow> applied_files \<Rightarrow> upd \<times> (fetch_error + UpdateResult)" where
  "update_with E available app =
     (let u0 = \<lparr>applied = app, trace = [], imported = 0\<rparr>;
          n_recent = length (filter (\<lambda>(n, e). e_state e = RELEASED) app);
          n_archived = length (filter (\<lambda>(n, e). e_state e \<noteq> RELEASED) app);
          (u1, ok) = apply_files E available (hash_to_name app) (phase_order available) u0
      in if \<not> ok then (u1, Inl UpdateException)
         else (orphan_cleanup E u1,
               Inr \<lparr>updated = imported u1, recent = n_recent, archived = n_archived\<rparr>))"

definition Update ::
  "fetch_env \<Rightarrow> (string \<times> string) list option \<Rightarrow> (string \<times> string) list option \<Rightarrow> (string \<times> string \<times> string \<times> u64) list
     \<Rightarrow> action list \<times> (fetch_error + UpdateResult)" where
  "Update E rows rows' updates_rows =
     (let (calls, r) = GetFileList E rows rows'
      in case r of
           Inl err \<Rightarrow> (calls, Inl err)
         | Inr available \<Rightarrow>
             if set_directories E \<noteq> None \<and> available = []
             then (calls, Inr \<lparr>updated = 0, recent = 0, archived = 0\<rparr>)
             else let (u, res) = update_with E available (map_order E (ReceiveAppliedFiles updates_rows []))
                  in (calls @ trace u, res))"


subsection \<open>What one file contributes\<close>

text \<open>
  The filename of the database entry a file is a rename of, when the code treats it as one; and
  whether the file is run.  Both look only at the entry of the file in the table.
\<close>

abbreviation entry_names :: "file_entry list \<Rightarrow> string set" where
  "entry_names fs \<equiv> (\<lambda>f. filename (fst f)) ` set fs"

definition renamed_from ::
  "fetch_env \<Rightarrow> file_entry list \<Rightarrow> (string \<times> string) list \<Rightarrow> AppliedFileEntry option \<Rightarrow> file_entry \<Rightarrow> string option" where
  "renamed_from E available hashes entry f =
     (case (entry, file_hash E (fst f)) of
        (None, Some h) \<Rightarrow>
          (case map_of hashes h of
             Some old \<Rightarrow> if old \<in> entry_names available then None else Some old
           | None \<Rightarrow> None)
      | _ \<Rightarrow> None)"

definition skipped :: "fetch_env \<Rightarrow> AppliedFileEntry option \<Rightarrow> file_entry \<Rightarrow> bool" where
  "skipped E entry f =
     (case entry of
        None \<Rightarrow> False
      | Some e \<Rightarrow> \<not> opt_redundancy E \<or> (\<not> opt_archived_redundancy E \<and> e_state e = ARCHIVED \<and> snd f = ARCHIVED))"

definition needs_run ::
  "fetch_env \<Rightarrow> file_entry list \<Rightarrow> (string \<times> string) list \<Rightarrow> AppliedFileEntry option \<Rightarrow> file_entry \<Rightarrow> bool" where
  "needs_run E available hashes entry f =
     (case entry of
        None \<Rightarrow> renamed_from E available hashes entry f = None
      | Some e \<Rightarrow>
          \<not> skipped E entry f \<and> \<not> (opt_allow_rehash E \<and> e_hash e = []) \<and> file_hash E (fst f) \<noteq> Some (e_hash e))"

definition dropped_name ::
  "fetch_env \<Rightarrow> file_entry list \<Rightarrow> (string \<times> string) list \<Rightarrow> AppliedFileEntry option \<Rightarrow> file_entry \<Rightarrow> string" where
  "dropped_name E available hashes entry f =
     (case renamed_from E available hashes entry f of Some old \<Rightarrow> old | None \<Rightarrow> filename (fst f))"

text \<open>The statements sent for a file, and what happens to it, from its entry alone.\<close>

definition file_ok :: "fetch_env \<Rightarrow> file_entry list \<Rightarrow> (string \<times> string) list \<Rightarrow> AppliedFileEntry option \<Rightarrow> file_entry \<Rightarrow> bool" where
  "file_ok E available hashes entry f =
     (skipped E entry f \<or> (file_hash E (fst f) \<noteq> None \<and> (needs_run E available hashes entry f \<longrightarrow> run_file E (fst f))))"

definition file_actions ::
  "fetch_env \<Rightarrow> file_entry list \<Rightarrow> (string \<times> string) list \<Rightarrow> AppliedFileEntry option \<Rightarrow> file_entry \<Rightarrow> action list" where
  "file_actions E available hashes entry f =
     (let name = filename (fst f)
      in if skipped E entry f then []
         else case file_hash E (fst f) of
           None \<Rightarrow> []
         | Some h \<Rightarrow>
             if needs_run E available hashes entry f
             then (if run_file E (fst f)
                   then [ApplyFile (fst f), Apply (ReplaceEntry name h (snd f) (run_time E (fst f)))]
                   else [ApplyFile (fst f)])
             else case entry of
               None \<Rightarrow> (let old = the (map_of hashes h) in [Apply (DeleteEntry name), Apply (RenameRow old name)])
             | Some e \<Rightarrow>
                 if opt_allow_rehash E \<and> e_hash e = [] then [Apply (ReplaceEntry name h (snd f) 0)]
                 else if e_state e \<noteq> snd f then [Apply (SetEntryState name (snd f))] else [])"

lemma skipped_None [simp]: "\<not> skipped E None f"
  by (simp add: skipped_def)

lemma available_names: "set (map (\<lambda>(q, st). filename q) fs) = entry_names fs"
  by (auto simp: case_prod_beta)

lemmas updater_ops = erase_applied_def UpdateEntry_def RenameEntry_def UpdateState_def apply_and_record_def

lemma apply_and_record_eq:
  "apply_and_record E p h st u =
     (if run_file E p
      then (\<lparr>applied = map_erase (filename p) (applied u),
             trace = trace u @ [ApplyFile p, Apply (ReplaceEntry (filename p) h st (run_time E p))],
             imported = Suc (imported u)\<rparr>, True)
      else (u\<lparr>trace := trace u @ [ApplyFile p]\<rparr>, False))"
  by (cases u) (simp add: updater_ops)

text \<open>The handler does what these functions say, whatever the state it starts from.\<close>

lemma ApplyUpdateFile_eq:
  assumes "entry = map_of (applied u) (filename (fst f))"
  shows "ApplyUpdateFile E available hashes f u =
     (\<lparr>applied = (if file_ok E available hashes entry f
                    then map_erase (dropped_name E available hashes entry f) (applied u) else applied u),
       trace = trace u @ file_actions E available hashes entry f,
       imported = imported u +
         (if file_ok E available hashes entry f \<and> needs_run E available hashes entry f then 1 else 0)\<rparr>,
      file_ok E available hashes entry f)"
proof (cases "skipped E entry f")
  case True
  then have "entry \<noteq> None" by (cases entry) (auto simp: skipped_def)
  then show ?thesis using True assms
    by (cases u) (auto simp: ApplyUpdateFile_def skipped_def Let_def file_ok_def dropped_name_def
        renamed_from_def file_actions_def erase_applied_def needs_run_def split: option.splits)
next
  case False
  note sk = this
  show ?thesis
  proof (cases entry)
    case None
    then show ?thesis using assms
      by (cases u) (auto simp: ApplyUpdateFile_def Let_def available_names renamed_from_def skipped_def file_ok_def
          needs_run_def dropped_name_def file_actions_def apply_and_record_eq erase_applied_def RenameEntry_def
          image_iff case_prod_beta split: option.splits)
  next
    case (Some e)
    then show ?thesis using assms sk
      by (cases u) (auto simp: ApplyUpdateFile_def Let_def renamed_from_def skipped_def file_ok_def needs_run_def
          dropped_name_def file_actions_def apply_and_record_eq erase_applied_def UpdateEntry_def UpdateState_def
          split: option.splits)
  qed
qed


subsection \<open>The files of one update\<close>

definition entry_of :: "applied_files \<Rightarrow> file_entry \<Rightarrow> AppliedFileEntry option" where
  "entry_of app f = map_of app (filename (fst f))"

definition run_paths :: "action list \<Rightarrow> string list" where
  "run_paths tr = concat (map (\<lambda>a. case a of ApplyFile p \<Rightarrow> [p] | Apply q \<Rightarrow> []) tr)"

lemma run_paths_simps [simp]:
  "run_paths [] = []"
  "run_paths (ApplyFile p # tr) = p # run_paths tr"
  "run_paths (Apply q # tr) = run_paths tr"
  "run_paths (tr @ tr') = run_paths tr @ run_paths tr'"
  by (simp_all add: run_paths_def)

lemma dropped_name_not_other:
  assumes "n \<in> entry_names available" and "n \<noteq> filename (fst f)"
  shows "dropped_name E available hashes entry f \<noteq> n"
  using assms by (auto simp: dropped_name_def renamed_from_def split: option.splits if_splits)

lemma entry_of_after_drop:
  assumes "g \<in> set fs" and "set (f # fs) \<subseteq> set available" and "distinct (map (\<lambda>f. filename (fst f)) (f # fs))"
  shows "entry_of (map_erase (dropped_name E available hashes entry f) m) g = entry_of m g"
proof -
  have "filename (fst g) \<noteq> filename (fst f)" and "filename (fst g) \<in> entry_names available"
    using assms by (auto simp: image_iff)
  then have "dropped_name E available hashes entry f \<noteq> filename (fst g)"
    by (rule dropped_name_not_other [rotated])
  then show ?thesis by (auto simp: entry_of_def map_of_map_erase)
qed

lemma apply_files_eq:
  assumes "set fs \<subseteq> set available" and "distinct (map (\<lambda>f. filename (fst f)) fs)"
    and "\<And>f. f \<in> set fs \<Longrightarrow> entry_of (applied u) f = entry_of app f"
    and "\<And>f. f \<in> set fs \<Longrightarrow> file_ok E available hashes (entry_of app f) f"
  shows "apply_files E available hashes fs u =
    (\<lparr>applied = filter (\<lambda>(n, e). n \<notin> (\<lambda>f. dropped_name E available hashes (entry_of app f) f) ` set fs) (applied u),
      trace = trace u @ concat (map (\<lambda>f. file_actions E available hashes (entry_of app f) f) fs),
      imported = imported u + length (filter (\<lambda>f. needs_run E available hashes (entry_of app f) f) fs)\<rparr>, True)"
  using assms
proof (induction fs arbitrary: u)
  case Nil
  then show ?case by (cases u) simp
next
  case (Cons f fs)
  let ?e = "entry_of app f"
  have e: "map_of (applied u) (filename (fst f)) = ?e" and ok: "file_ok E available hashes ?e f"
    using Cons.prems(3,4) [of f] by (auto simp: entry_of_def)
  define u' where "u' = fst (ApplyUpdateFile E available hashes f u)"
  have u': "ApplyUpdateFile E available hashes f u = (u', True)"
    and a': "applied u' = map_erase (dropped_name E available hashes ?e f) (applied u)"
    and t': "trace u' = trace u @ file_actions E available hashes ?e f"
    and i': "imported u' = imported u + (if needs_run E available hashes ?e f then 1 else 0)"
    using ApplyUpdateFile_eq [OF e [symmetric], of E available hashes] ok by (simp_all add: u'_def)
  have same: "entry_of (applied u') g = entry_of app g" if "g \<in> set fs" for g
    using entry_of_after_drop [of g fs f available E hashes ?e "applied u"] Cons.prems(1-3) that a' by auto
  have "apply_files E available hashes fs u' =
    (\<lparr>applied = filter (\<lambda>(n, e). n \<notin> (\<lambda>f. dropped_name E available hashes (entry_of app f) f) ` set fs) (applied u'),
      trace = trace u' @ concat (map (\<lambda>f. file_actions E available hashes (entry_of app f) f) fs),
      imported = imported u' + length (filter (\<lambda>f. needs_run E available hashes (entry_of app f) f) fs)\<rparr>, True)"
    using Cons.prems same by (intro Cons.IH) auto
  then show ?case using u' a' t' i'
    by (simp add: map_erase_def) (auto intro!: filter_cong)
qed

lemma apply_files_ok:
  assumes "set fs \<subseteq> set available" and "distinct (map (\<lambda>f. filename (fst f)) fs)"
    and "\<And>f. f \<in> set fs \<Longrightarrow> entry_of (applied u) f = entry_of app f"
    and "apply_files E available hashes fs u = (u', True)"
  shows "\<forall>f \<in> set fs. file_ok E available hashes (entry_of app f) f"
  using assms
proof (induction fs arbitrary: u)
  case Nil
  then show ?case by simp
next
  case (Cons f fs)
  let ?e = "entry_of app f"
  have e: "map_of (applied u) (filename (fst f)) = ?e"
    using Cons.prems(3) [of f] by (auto simp: entry_of_def)
  note eq = ApplyUpdateFile_eq [OF e [symmetric], of E available hashes]
  have ok: "file_ok E available hashes ?e f"
    using Cons.prems(4) eq by (auto split: if_splits)
  define u1 where "u1 = fst (ApplyUpdateFile E available hashes f u)"
  have u1: "ApplyUpdateFile E available hashes f u = (u1, True)"
    and a1: "applied u1 = map_erase (dropped_name E available hashes ?e f) (applied u)"
    using eq ok by (simp_all add: u1_def)
  have same: "entry_of (applied u1) g = entry_of app g" if "g \<in> set fs" for g
    using entry_of_after_drop [of g fs f available E hashes ?e "applied u"] Cons.prems(1-3) that a1 by auto
  have "apply_files E available hashes fs u1 = (u', True)"
    using Cons.prems(4) u1 by simp
  from Cons.IH [OF _ _ same this] Cons.prems(1,2) ok show ?case by auto
qed

text \<open>Whatever happens, the files run are the ones that need it, up to the first that fails.\<close>

lemma apply_files_prefix:
  "apply_files E available hashes fs u = (u', ok) \<Longrightarrow>
     \<exists>tr. trace u' = trace u @ tr \<and> subseq (run_paths tr) (map fst fs) \<and> imported u' \<ge> imported u"
proof (induction fs arbitrary: u)
  case Nil
  then show ?case by auto
next
  case (Cons f fs)
  let ?e = "map_of (applied u) (filename (fst f))"
  obtain u1 ok1 where u1: "ApplyUpdateFile E available hashes f u = (u1, ok1)" by (cases "ApplyUpdateFile E available hashes f u")
  have t1: "trace u1 = trace u @ file_actions E available hashes ?e f" and i1: "imported u1 \<ge> imported u"
    using ApplyUpdateFile_eq [OF refl, of E available hashes f u] u1 by auto
  have r1: "run_paths (file_actions E available hashes ?e f) \<in> {[], [fst f]}"
    by (auto simp: file_actions_def Let_def split: option.splits)
  show ?case
  proof (cases ok1)
    case True
    then have "apply_files E available hashes fs u1 = (u', ok)" using Cons.prems u1 by simp
    from Cons.IH [OF this] obtain tr where "trace u' = trace u1 @ tr" "subseq (run_paths tr) (map fst fs)" "imported u' \<ge> imported u1"
      by auto
    then show ?thesis using t1 i1 r1 by (intro exI [of _ "file_actions E available hashes ?e f @ tr"]) auto
  next
    case False
    then show ?thesis using Cons.prems u1 t1 i1 r1 by auto
  qed
qed


subsection \<open>The file storage\<close>

abbreviation file_sorted :: "file_entry list \<Rightarrow> bool" where
  "file_sorted fs \<equiv> sorted_wrt (\<lambda>f g. filename (fst f) < filename (fst g)) fs"

lemma storage_insert_set: "storage_insert e s = Some s' \<Longrightarrow> set s' = insert e (set s)"
  by (induction s arbitrary: s') (auto split: if_splits)

lemma storage_insert_sorted: "file_sorted s \<Longrightarrow> storage_insert e s = Some s' \<Longrightarrow> file_sorted s'"
proof (induction s arbitrary: s')
  case Nil
  then show ?case by auto
next
  case (Cons x xs)
  show ?case
  proof (cases "filename (fst e) < filename (fst x)")
    case True
    then show ?thesis using Cons.prems by (auto split: if_splits) (metis fst_conv order.strict_trans)
  next
    case False
    then obtain s'' where s'': "storage_insert e xs = Some s''" "s' = x # s''" and "filename (fst x) < filename (fst e)"
      using Cons.prems(2) by (auto split: if_splits)
    then show ?thesis using Cons storage_insert_set [OF s''(1)] by auto
  qed
qed

lemma storage_insert_None:
  "file_sorted s \<Longrightarrow> storage_insert e s = None \<longleftrightarrow> filename (fst e) \<in> entry_names s"
  by (induction s) auto

lemma FillFileListRecursively_sorted:
  "FillFileListRecursively ps st s = Some s' \<Longrightarrow> file_sorted s \<Longrightarrow> file_sorted s'"
  by (induction ps st s rule: FillFileListRecursively.induct) (auto split: if_splits option.splits dest: storage_insert_sorted)

lemma FillFileListRecursively_set:
  "FillFileListRecursively ps st s = Some s' \<Longrightarrow>
     set s' = set s \<union> {(p, st) | p. p \<in> set ps \<and> extension p = ''.sql''}"
  by (induction ps st s rule: FillFileListRecursively.induct)
    (auto split: if_splits option.splits dest!: storage_insert_set)

lemma fill_all_sorted: "fill_all E ds s = Some s' \<Longrightarrow> file_sorted s \<Longrightarrow> file_sorted s'"
  by (induction E ds s rule: fill_all.induct) (auto split: option.splits dest: FillFileListRecursively_sorted)

lemma fill_all_set:
  "fill_all E ds s = Some s' \<Longrightarrow>
     set s' = set s \<union> {(p, st) | d p st. (d, st) \<in> set ds \<and> p \<in> set (dir_entries E d) \<and> extension p = ''.sql''}"
  by (induction E ds s rule: fill_all.induct)
    (auto split: option.splits dest!: FillFileListRecursively_set)

lemma file_sorted_distinct: "file_sorted fs \<Longrightarrow> distinct (map (\<lambda>f. filename (fst f)) fs)"
  by (induction fs) auto

lemma GetFileList_sorted: "GetFileList E rows rows' = (calls, Inr available) \<Longrightarrow> file_sorted available"
  by (auto simp: GetFileList_def Let_def split: if_splits option.splits dest: fill_all_sorted)

lemma phase_order_set: "set (phase_order fs) = set fs"
  by (auto simp: phase_order_def) (metis State.exhaust)

lemma phase_order_mset: "mset (phase_order fs) = mset fs"
proof (induction fs)
  case Nil
  then show ?case by (simp add: phase_order_def)
next
  case (Cons f fs)
  then show ?case by (cases f; cases "snd f") (auto simp: phase_order_def)
qed

lemma phase_order_distinct:
  "file_sorted fs \<Longrightarrow> distinct (map (\<lambda>f. filename (fst f)) (phase_order fs))"
  using file_sorted_distinct [of fs] phase_order_mset [of fs]
  by (metis mset_eq_imp_distinct_iff mset_map)


subsection \<open>A successful update\<close>

lemma update_with_ok:
  assumes "file_sorted available" and "update_with E available app = (u, Inr r)"
  defines "ent \<equiv> entry_of app" and "hs \<equiv> hash_to_name app"
  shows "\<forall>f \<in> set available. file_ok E available hs (ent f) f"
    and "\<exists>u1. u = orphan_cleanup E u1 \<and> updated r = imported u1
           \<and> applied u1 = filter (\<lambda>(n, e). n \<notin> (\<lambda>f. dropped_name E available hs (ent f) f) ` set available) app
           \<and> trace u1 = concat (map (\<lambda>f. file_actions E available hs (ent f) f) (phase_order available))
           \<and> imported u1 = length (filter (\<lambda>f. needs_run E available hs (ent f) f) (phase_order available))"
proof -
  let ?u0 = "\<lparr>applied = app, trace = [], imported = 0\<rparr>"
  obtain u1 where u1: "apply_files E available hs (phase_order available) ?u0 = (u1, True)"
    and u: "u = orphan_cleanup E u1" "updated r = imported u1"
    using assms(2) by (auto simp: update_with_def Let_def hs_def split: prod.splits if_splits)
  have d: "distinct (map (\<lambda>f. filename (fst f)) (phase_order available))"
    using assms(1) by (rule phase_order_distinct)
  have sub: "set (phase_order available) \<subseteq> set available" by (simp add: phase_order_set)
  have same: "\<And>f. f \<in> set (phase_order available) \<Longrightarrow> entry_of (applied ?u0) f = entry_of app f" by simp
  from apply_files_ok [OF sub d same u1] show ok: "\<forall>f \<in> set available. file_ok E available hs (ent f) f"
    by (simp add: phase_order_set ent_def)
  have "u1 = \<lparr>applied = filter (\<lambda>(n, e). n \<notin> (\<lambda>f. dropped_name E available hs (ent f) f) ` set available) app,
       trace = concat (map (\<lambda>f. file_actions E available hs (ent f) f) (phase_order available)),
       imported = length (filter (\<lambda>f. needs_run E available hs (ent f) f) (phase_order available))\<rparr>"
    using apply_files_eq [OF sub d same, of E hs] ok u1 by (simp add: phase_order_set ent_def)
  then show "\<exists>u1. u = orphan_cleanup E u1 \<and> updated r = imported u1
           \<and> applied u1 = filter (\<lambda>(n, e). n \<notin> (\<lambda>f. dropped_name E available hs (ent f) f) ` set available) app
           \<and> trace u1 = concat (map (\<lambda>f. file_actions E available hs (ent f) f) (phase_order available))
           \<and> imported u1 = length (filter (\<lambda>f. needs_run E available hs (ent f) f) (phase_order available))"
    using u by (intro exI [of _ u1]) simp
qed

lemma run_paths_cleanup [simp]: "run_paths (trace (orphan_cleanup E u)) = run_paths (trace u)"
  by (simp add: orphan_cleanup_def CleanUp_def Let_def)

lemma run_paths_file_actions:
  "file_ok E available hs entry f \<Longrightarrow>
     run_paths (file_actions E available hs entry f) = (if needs_run E available hs entry f then [fst f] else [])"
  by (auto simp: file_actions_def file_ok_def Let_def needs_run_def split: option.splits)

lemma run_paths_concat_actions:
  "(\<forall>f \<in> set fs. file_ok E available hs (ent f) f) \<Longrightarrow>
     run_paths (concat (map (\<lambda>f. file_actions E available hs (ent f) f) fs))
       = map fst (filter (\<lambda>f. needs_run E available hs (ent f) f) fs)"
  by (induction fs) (auto simp: run_paths_file_actions)

subsection \<open>The table of applied updates\<close>

text \<open>
  The table \<^verbatim>\<open>updates\<close> of the database, with \<^verbatim>\<open>name\<close> as its primary key, and what MySQL documents of
  the five statements on it.  \<open>sem\<close> is the server.
\<close>

type_synonym updates_table = "string \<rightharpoonup> string \<times> State"

definition mysql_updates :: "(update_sql \<Rightarrow> updates_table \<Rightarrow> updates_table) \<Rightarrow> bool" where
  "mysql_updates sem \<longleftrightarrow>
     (\<forall>n h st sp t. sem (ReplaceEntry n h st sp) t = t(n \<mapsto> (h, st)))
     \<and> (\<forall>n t. sem (DeleteEntry n) t = t(n := None))
     \<and> (\<forall>from to t. t to = None \<longrightarrow> sem (RenameRow from to) t = t(from := None, to := t from))
     \<and> (\<forall>ns t. sem (DeleteEntries ns) t = t |` (- set ns))
     \<and> (\<forall>n st t. sem (SetEntryState n st) t = t(n := map_option (\<lambda>(h, st'). (h, st)) (t n)))"

definition table_after :: "(update_sql \<Rightarrow> updates_table \<Rightarrow> updates_table) \<Rightarrow> action list \<Rightarrow> updates_table \<Rightarrow> updates_table" where
  "table_after sem tr t = fold (\<lambda>a t. case a of Apply q \<Rightarrow> sem q t | ApplyFile p \<Rightarrow> t) tr t"

definition represents :: "applied_files \<Rightarrow> updates_table \<Rightarrow> bool" where
  "represents app t \<longleftrightarrow>
     distinct (map fst app) \<and> (\<forall>n. t n = map_option (\<lambda>e. (e_hash e, e_state e)) (map_of app n))"

lemma table_after_simps [simp]:
  "table_after sem [] t = t"
  "table_after sem (ApplyFile p # tr) t = table_after sem tr t"
  "table_after sem (Apply q # tr) t = table_after sem tr (sem q t)"
  "table_after sem (tr @ tr') t = table_after sem tr' (table_after sem tr t)"
  by (simp_all add: table_after_def)

lemma mysql_updatesD:
  assumes "mysql_updates sem"
  shows "sem (ReplaceEntry n h st sp) t = t(n \<mapsto> (h, st))"
    and "sem (DeleteEntry n) t = t(n := None)"
    and "t to = None \<Longrightarrow> sem (RenameRow from to) t = t(from := None, to := t from)"
    and "sem (DeleteEntries ns) t = t |` (- set ns)"
    and "sem (SetEntryState n st) t = t(n := map_option (\<lambda>(h, st'). (h, st)) (t n))"
  using assms by (auto simp: mysql_updates_def)

text \<open>The row a file has after the update, when it is not a rename.\<close>

definition row_after :: "fetch_env \<Rightarrow> AppliedFileEntry option \<Rightarrow> file_entry \<Rightarrow> (string \<times> State) option" where
  "row_after E entry f =
     (if skipped E entry f then map_option (\<lambda>e. (e_hash e, e_state e)) entry
      else map_option (\<lambda>h. (h, snd f)) (file_hash E (fst f)))"

lemma table_after_file:
  assumes "mysql_updates sem" and "file_ok E available hs entry f"
    and "renamed_from E available hs entry f = None"
    and "t (filename (fst f)) = map_option (\<lambda>e. (e_hash e, e_state e)) entry"
  shows "table_after sem (file_actions E available hs entry f) t = t(filename (fst f) := row_after E entry f)"
proof (cases "skipped E entry f")
  case True
  then show ?thesis using assms(4) by (auto simp: file_actions_def row_after_def fun_eq_iff)
next
  case False
  then obtain h where h: "file_hash E (fst f) = Some h" using assms(2) by (auto simp: file_ok_def)
  show ?thesis
  proof (cases entry)
    case None
    then show ?thesis using assms h False
      by (auto simp: file_actions_def row_after_def file_ok_def needs_run_def Let_def mysql_updatesD)
  next
    case (Some e)
    then show ?thesis using assms h False
      by (auto simp: file_actions_def row_after_def file_ok_def needs_run_def Let_def mysql_updatesD fun_eq_iff)
  qed
qed

lemma table_after_files:
  assumes "mysql_updates sem"
    and "\<forall>f \<in> set fs. file_ok E available hs (ent f) f \<and> renamed_from E available hs (ent f) f = None"
    and "\<forall>f \<in> set fs. t (filename (fst f)) = map_option (\<lambda>e. (e_hash e, e_state e)) (ent f)"
    and "distinct (map (\<lambda>f. filename (fst f)) fs)"
  shows "(n \<notin> entry_names fs \<longrightarrow>
            table_after sem (concat (map (\<lambda>f. file_actions E available hs (ent f) f) fs)) t n = t n)
       \<and> (\<forall>f \<in> set fs. table_after sem (concat (map (\<lambda>f. file_actions E available hs (ent f) f) fs)) t (filename (fst f))
            = row_after E (ent f) f)"
  using assms
proof (induction fs arbitrary: t n)
  case Nil
  then show ?case by simp
next
  case (Cons f fs)
  let ?t = "t(filename (fst f) := row_after E (ent f) f)"
  have t: "table_after sem (file_actions E available hs (ent f) f) t = ?t"
    using Cons.prems by (intro table_after_file) auto
  have pre: "\<forall>g \<in> set fs. ?t (filename (fst g)) = map_option (\<lambda>e. (e_hash e, e_state e)) (ent g)"
    using Cons.prems(3,4) by (auto simp: image_iff)
  have nf: "filename (fst f) \<notin> entry_names fs" using Cons.prems(4) by auto
  have "(m \<notin> entry_names fs \<longrightarrow>
            table_after sem (concat (map (\<lambda>f. file_actions E available hs (ent f) f) fs)) ?t m = ?t m)
       \<and> (\<forall>f \<in> set fs. table_after sem (concat (map (\<lambda>f. file_actions E available hs (ent f) f) fs)) ?t (filename (fst f))
            = row_after E (ent f) f)" for m
    by (rule Cons.IH [OF Cons.prems(1) _ pre]) (use Cons.prems(2,4) in auto)
  from this [of n] this [of "filename (fst f)"] nf show ?case using t by auto
qed


subsection \<open>A failed update, orphaned entries\<close>

lemma file_actions_fail:
  "\<not> file_ok E available hs entry f \<Longrightarrow>
     (file_hash E (fst f) = None \<or> \<not> run_file E (fst f))
     \<and> file_actions E available hs entry f = (if file_hash E (fst f) = None then [] else [ApplyFile (fst f)])"
  by (auto simp: file_actions_def file_ok_def Let_def split: option.splits)

lemma apply_files_fail:
  assumes "set fs \<subseteq> set available" and "distinct (map (\<lambda>f. filename (fst f)) fs)"
    and "\<And>f. f \<in> set fs \<Longrightarrow> entry_of (applied u) f = entry_of app f"
    and "apply_files E available hashes fs u = (u', False)"
  shows "\<exists>before f rest. fs = before @ f # rest
       \<and> (\<forall>g \<in> set before. file_ok E available hashes (entry_of app g) g)
       \<and> (file_hash E (fst f) = None \<or> \<not> run_file E (fst f))
       \<and> trace u' = trace u @ concat (map (\<lambda>g. file_actions E available hashes (entry_of app g) g) before)
           @ (if file_hash E (fst f) = None then [] else [ApplyFile (fst f)])"
  using assms
proof (induction fs arbitrary: u)
  case Nil
  then show ?case by simp
next
  case (Cons f fs)
  let ?e = "entry_of app f"
  have e: "map_of (applied u) (filename (fst f)) = ?e"
    using Cons.prems(3) [of f] by (auto simp: entry_of_def)
  note eq = ApplyUpdateFile_eq [OF e [symmetric], of E available hashes]
  show ?case
  proof (cases "file_ok E available hashes ?e f")
    case False
    then have "u' = fst (ApplyUpdateFile E available hashes f u)" using Cons.prems(4) eq by simp
    then have "trace u' = trace u @ file_actions E available hashes ?e f" using eq by simp
    then show ?thesis using file_actions_fail [OF False] by (intro exI [of _ "[]"] exI [of _ f] exI [of _ fs]) simp
  next
    case True
    define u1 where "u1 = fst (ApplyUpdateFile E available hashes f u)"
    have u1: "ApplyUpdateFile E available hashes f u = (u1, True)"
      and a1: "applied u1 = map_erase (dropped_name E available hashes ?e f) (applied u)"
      and t1: "trace u1 = trace u @ file_actions E available hashes ?e f"
      using eq True by (simp_all add: u1_def)
    have same: "entry_of (applied u1) g = entry_of app g" if "g \<in> set fs" for g
      using entry_of_after_drop [of g fs f available E hashes ?e "applied u"] Cons.prems(1-3) that a1 by auto
    have rest: "apply_files E available hashes fs u1 = (u', False)"
      using Cons.prems(4) u1 by simp
    have "set fs \<subseteq> set available" "distinct (map (\<lambda>f. filename (fst f)) fs)" using Cons.prems(1,2) by auto
    from Cons.IH [OF this same rest] obtain before g r
      where "fs = before @ g # r" "\<forall>g \<in> set before. file_ok E available hashes (entry_of app g) g"
        "file_hash E (fst g) = None \<or> \<not> run_file E (fst g)"
        "trace u' = trace u1 @ concat (map (\<lambda>g. file_actions E available hashes (entry_of app g) g) before)
           @ (if file_hash E (fst g) = None then [] else [ApplyFile (fst g)])" by blast
    then show ?thesis using True t1 by (intro exI [of _ "f # before"] exI [of _ g] exI [of _ r]) simp
  qed
qed

text \<open>The entries without a file, less those taken over by a rename.\<close>

definition orphans :: "fetch_env \<Rightarrow> file_entry list \<Rightarrow> applied_files \<Rightarrow> applied_files" where
  "orphans E available app =
     filter (\<lambda>(n, e). n \<notin> entry_names available
       \<and> (\<forall>f \<in> set available. renamed_from E available (hash_to_name app) (entry_of app f) f \<noteq> Some n)) app"

lemma orphans_eq:
  "filter (\<lambda>(n, e). n \<notin> (\<lambda>f. dropped_name E available (hash_to_name app) (entry_of app f) f) ` set available) app
     = orphans E available app"
  unfolding orphans_def
proof (rule filter_cong [OF refl], clarify)
  fix n e
  assume "(n, e) \<in> set app"
  then have n: "map_of app n \<noteq> None" by (simp add: map_of_eq_None_iff image_iff) force
  have "dropped_name E available (hash_to_name app) (entry_of app f) f = n \<longleftrightarrow>
      filename (fst f) = n \<or> renamed_from E available (hash_to_name app) (entry_of app f) f = Some n" for f
    using n by (auto simp: dropped_name_def renamed_from_def entry_of_def split: option.splits if_splits)
  then show "(n \<notin> (\<lambda>f. dropped_name E available (hash_to_name app) (entry_of app f) f) ` set available) =
      (n \<notin> entry_names available \<and> (\<forall>f \<in> set available. renamed_from E available (hash_to_name app) (entry_of app f) f \<noteq> Some n))"
    unfolding image_iff by metis
qed

lemma file_actions_no_cleanup: "Apply (DeleteEntries ns) \<notin> set (file_actions E available hs entry f)"
  by (auto simp: file_actions_def Let_def split: option.splits)

lemma map_order_set: "(\<And>m. mset (map_order E m) = mset m) \<Longrightarrow> set (map_order E m) = set m"
  by (metis set_mset_mset)

subsection \<open>The properties of an update\<close>



text \<open>
  C12: A script is recorded only after it ran.  When the update stops with an exception, the last
  file is the one that failed: everything before it is complete, it has no row of its own, and
  the clean-up of orphaned entries is not reached.
\<close>

theorem failed_update_records_nothing:
  assumes "file_sorted available" and "update_with E available app = (u, Inl err)"
  shows "err = UpdateException \<and>
    (\<exists>before f rest. phase_order available = before @ f # rest
       \<and> (\<forall>g \<in> set before. file_ok E available (hash_to_name app) (entry_of app g) g)
       \<and> (file_hash E (fst f) = None \<or> \<not> run_file E (fst f))
       \<and> trace u = concat (map (\<lambda>g. file_actions E available (hash_to_name app) (entry_of app g) g) before)
           @ (if file_hash E (fst f) = None then [] else [ApplyFile (fst f)]))"
proof -
  let ?u0 = "\<lparr>applied = app, trace = [], imported = 0\<rparr>" and ?h = "hash_to_name app"
  have u: "apply_files E available ?h (phase_order available) ?u0 = (u, False)" and e: "err = UpdateException"
    using assms(2) by (auto simp: update_with_def Let_def split: prod.splits if_splits)
  from apply_files_fail [OF _ phase_order_distinct [OF assms(1)] _ u, of app]
  show ?thesis using e by (simp add: phase_order_set)
qed

text \<open>
  Only entries without a file are deleted, never the entries of modules, and only when the
  number of orphaned entries is within \<^verbatim>\<open>Updates.CleanDeadRefMaxCount\<close> (or that is negative) and
  the fetcher works on the include table.
\<close>

theorem cleanup_deletes_only_orphans:
  assumes "file_sorted available" and "update_with E available app = (u, Inr r)"
    and "\<forall>m. mset (map_order E m) = mset m"
    and "Apply (DeleteEntries ns) \<in> set (trace u)" and "n \<in> set ns"
  shows "n \<notin> entry_names available
     \<and> (\<exists>e. (n, e) \<in> set app \<and> e_state e \<noteq> MODULE)
     \<and> set_directories E = None
     \<and> (opt_clean_max E < 0 \<or> int (length (orphans E available app)) \<le> opt_clean_max E)"
proof -
  obtain u1 where u1: "u = orphan_cleanup E u1" "applied u1 = orphans E available app"
      "trace u1 = concat (map (\<lambda>f. file_actions E available (hash_to_name app) (entry_of app f) f) (phase_order available))"
    using update_with_ok(2) [OF assms(1,2)] by (auto simp: orphans_eq)
  have "Apply (DeleteEntries ns) \<notin> set (trace u1)"
    using u1(3) by (auto simp: file_actions_no_cleanup)
  then have "set_directories E = None \<and> (opt_clean_max E < 0 \<or> int (length (orphans E available app)) \<le> opt_clean_max E)
      \<and> ns = map fst (map_order E (filter (\<lambda>(n, e). e_state e \<noteq> MODULE) (orphans E available app)))"
    using assms(4) u1(1,2) by (auto simp: orphan_cleanup_def CleanUp_def Let_def split: if_splits)
  moreover from this have "\<exists>e. (n, e) \<in> set (orphans E available app) \<and> e_state e \<noteq> MODULE"
    using assms(3,5) by (auto simp: map_order_set)
  ultimately show ?thesis by (auto simp: orphans_def)
qed


text \<open>The rows of the table after a successful update without renames.\<close>

definition no_renames :: "fetch_env \<Rightarrow> file_entry list \<Rightarrow> applied_files \<Rightarrow> bool" where
  "no_renames E available app \<longleftrightarrow>
     (\<forall>f \<in> set available. renamed_from E available (hash_to_name app) (entry_of app f) f = None)"

definition cleaned :: "fetch_env \<Rightarrow> file_entry list \<Rightarrow> applied_files \<Rightarrow> bool" where
  "cleaned E available app \<longleftrightarrow> set_directories E = None
     \<and> (opt_clean_max E < 0 \<or> int (length (orphans E available app)) \<le> opt_clean_max E)"

lemma orphans_no_renames:
  "no_renames E available app \<Longrightarrow> orphans E available app = filter (\<lambda>(n, e). n \<notin> entry_names available) app"
  by (auto simp: orphans_def no_renames_def intro!: filter_cong)

lemma update_with_ok':
  assumes "file_sorted available" and "update_with E available app = (u, Inr r)"
  shows "\<exists>u1. u = orphan_cleanup E u1 \<and> updated r = imported u1 \<and> applied u1 = orphans E available app
           \<and> trace u1 = concat (map (\<lambda>f. file_actions E available (hash_to_name app) (entry_of app f) f) (phase_order available))"
  using update_with_ok(2) [OF assms] by (auto simp: orphans_eq)

lemma table_after_cleanup:
  assumes "mysql_updates sem" and "\<forall>m. mset (map_order E m) = mset m"
    and "applied u1 = orphans E available app"
  shows "table_after sem (trace (orphan_cleanup E u1)) t n =
     (if cleaned E available app \<and> n \<in> fst ` set (filter (\<lambda>(n, e). e_state e \<noteq> MODULE) (orphans E available app))
      then None else table_after sem (trace u1) t n)"
proof -
  have s: "set (map_order E m) = set m" for m using assms(2) by (simp add: map_order_set)
  have nil: "map_order E m = [] \<longleftrightarrow> m = []" for m using assms(2) by (metis mset_zero_iff)
  let ?c = "filter (\<lambda>(n, e). e_state e \<noteq> MODULE) (orphans E available app)"
  show ?thesis
  proof (cases "cleaned E available app \<and> ?c \<noteq> []")
    case True
    then have "trace (orphan_cleanup E u1) = trace u1 @ [Apply (DeleteEntries (map fst (map_order E ?c)))]"
      using assms(3) by (auto simp: orphan_cleanup_def cleaned_def CleanUp_def Let_def nil filter_empty_conv)
    then show ?thesis using True by (simp add: mysql_updatesD [OF assms(1)] restrict_map_def s)
  next
    case False
    then have "trace (orphan_cleanup E u1) = trace u1"
      using assms(3) by (auto simp: orphan_cleanup_def cleaned_def CleanUp_def Let_def split_def)
    then show ?thesis using False by (auto simp: filter_empty_conv)
  qed
qed

lemma update_table:
  assumes "mysql_updates sem" and "\<forall>m. mset (map_order E m) = mset m"
    and "file_sorted available" and "update_with E available app = (u, Inr r)"
    and "represents app t" and "no_renames E available app"
  shows "f \<in> set available \<Longrightarrow> table_after sem (trace u) t (filename (fst f)) = row_after E (entry_of app f) f"
    and "n \<notin> entry_names available \<Longrightarrow> table_after sem (trace u) t n =
      (if cleaned E available app \<and> n \<in> fst ` set (filter (\<lambda>(n, e). e_state e \<noteq> MODULE) (orphans E available app))
       then None else t n)"
proof -
  obtain u1 where u1: "u = orphan_cleanup E u1" "applied u1 = orphans E available app"
      "trace u1 = concat (map (\<lambda>f. file_actions E available (hash_to_name app) (entry_of app f) f) (phase_order available))"
    using update_with_ok' [OF assms(3,4)] by auto
  have pre: "\<forall>f \<in> set (phase_order available). file_ok E available (hash_to_name app) (entry_of app f) f
        \<and> renamed_from E available (hash_to_name app) (entry_of app f) f = None"
    using update_with_ok(1) [OF assms(3,4)] assms(6) by (simp add: phase_order_set no_renames_def)
  have t: "\<forall>f \<in> set (phase_order available). t (filename (fst f)) = map_option (\<lambda>e. (e_hash e, e_state e)) (entry_of app f)"
    using assms(5) by (simp add: represents_def entry_of_def)
  note files = table_after_files [OF assms(1) pre t phase_order_distinct [OF assms(3)], folded u1(3), unfolded phase_order_set]
  note clean = table_after_cleanup [OF assms(1,2) u1(2), of t, folded u1(1)]
  show "f \<in> set available \<Longrightarrow> table_after sem (trace u) t (filename (fst f)) = row_after E (entry_of app f) f"
    using files clean by (auto simp: orphans_def)
  show "n \<notin> entry_names available \<Longrightarrow> table_after sem (trace u) t n =
      (if cleaned E available app \<and> n \<in> fst ` set (filter (\<lambda>(n, e). e_state e \<noteq> MODULE) (orphans E available app))
       then None else t n)"
    using files clean by auto
qed


lemma length_orphans:
  assumes "represents app t" and "no_renames E available app"
  shows "length (orphans E available app) = card {n. n \<notin> entry_names available \<and> t n \<noteq> None}"
proof -
  have d: "distinct (map fst (orphans E available app))"
    using assms(1) by (auto simp: represents_def orphans_def intro: distinct_map_filter)
  have "set (map fst (orphans E available app)) = {n. n \<notin> entry_names available \<and> t n \<noteq> None}"
    using assms by (auto simp: orphans_no_renames represents_def image_iff map_of_eq_None_iff
        dest: map_of_SomeD)
  then show ?thesis using distinct_card [OF d] by simp
qed

lemma represents_entry:
  assumes "represents app t" and "(n, e) \<in> set app"
  shows "t n = Some (e_hash e, e_state e)"
  using assms by (auto simp: represents_def)

lemma hash_not_Nil:
  assumes "\<forall>x. length (sha1 E x) = 20" and "file_hash E p = Some h"
  shows "h \<noteq> []"
proof -
  obtain x where "ByteArrayToHexStr (sha1 E x) False = Inr h"
    using assms(2) by (auto simp: file_hash_def split: option.splits sum.splits)
  moreover have "sha1 E x \<noteq> []" using assms(1) by (metis list.size(3) zero_neq_numeral)
  ultimately show ?thesis using to_hex_loop_forward [of 0 "sha1 E x"]
    by (cases "sha1 E x") (auto simp: ByteArrayToHexStr_def hex_byte_def)
qed

text \<open>A file whose row is the one the update leaves needs nothing more.\<close>

lemma settled_file:
  assumes "file_ok E available hs entry f" and "renamed_from E available hs entry f = None"
    and "map_option (\<lambda>e. (e_hash e, e_state e)) entry' = row_after E entry f"
    and "\<forall>x. length (sha1 E x) = 20"
  shows "file_ok E available hs' entry' f \<and> file_actions E available hs' entry' f = []
      \<and> \<not> needs_run E available hs' entry' f \<and> renamed_from E available hs' entry' f = None"
proof (cases "skipped E entry f")
  case True
  then obtain e e' where "entry = Some e" "entry' = Some e'" "e_state e' = e_state e"
    using assms(3) by (cases entry; cases entry') (auto simp: row_after_def)
  moreover from this have "skipped E entry' f" using True by (simp add: skipped_def)
  ultimately show ?thesis by (simp add: file_ok_def file_actions_def needs_run_def renamed_from_def)
next
  case False
  then obtain h where h: "file_hash E (fst f) = Some h" using assms(1) by (auto simp: file_ok_def)
  with False assms(3) obtain e' where "entry' = Some e'" "e_hash e' = h" "e_state e' = snd f"
    by (cases entry') (auto simp: row_after_def)
  then show ?thesis using h hash_not_Nil [OF assms(4) h]
    by (simp add: file_ok_def file_actions_def needs_run_def renamed_from_def Let_def)
qed

lemma no_second_cleanup:
  assumes "mysql_updates sem" and "\<forall>m. mset (map_order E m) = mset m"
    and "file_sorted available" and "update_with E available app = (u, Inr r)"
    and "represents app t" and "no_renames E available app"
    and "represents app' (table_after sem (trace u) t)" and "no_renames E available app'"
    and "cleaned E available app'" and "(n, e) \<in> set (orphans E available app')"
  shows "e_state e = MODULE"
proof (rule ccontr)
  assume nm: "e_state e \<noteq> MODULE"
  let ?t' = "table_after sem (trace u) t"
  note tab = update_table(2) [OF assms(1-6)]
  have n: "n \<notin> entry_names available" "?t' n = Some (e_hash e, e_state e)"
    using assms(7,8,10) by (auto simp: orphans_no_renames dest: represents_entry)
  then have "t n = Some (e_hash e, e_state e)" using tab [of n] by (auto split: if_splits)
  then obtain e0 where "(n, e0) \<in> set (orphans E available app)" "e_state e0 \<noteq> MODULE"
    using assms(5,6) n(1) nm by (auto simp: represents_def orphans_no_renames dest: map_of_SomeD)
  then have "n \<in> fst ` set (filter (\<lambda>(n, e). e_state e \<noteq> MODULE) (orphans E available app))" by force
  then have "\<not> cleaned E available app" using tab [OF n(1)] n(2) by auto
  moreover from this have "{n. n \<notin> entry_names available \<and> ?t' n \<noteq> None} = {n. n \<notin> entry_names available \<and> t n \<noteq> None}"
    using tab by auto
  ultimately show False
    using assms(9) length_orphans [OF assms(5,6)] length_orphans [OF assms(7,8)] by (simp add: cleaned_def)
qed



text \<open>
  Two new files with the content of an entry whose file is gone are both taken for the renamed
  file: neither script runs, the first takes over the row with its old state, and the second is
  left without a row, because the table of hashes is not updated after a rename.
\<close>

theorem second_rename_leaves_no_row:
  assumes "mysql_updates sem" and "f \<in> set available" and "g \<in> set available"
    and "filename (fst f) \<noteq> filename (fst g)"
    and "entry_of app f = None" and "entry_of app g = None"
    and "renamed_from E available hs None f = Some old" and "renamed_from E available hs None g = Some old"
  shows "\<exists>u. apply_files E available hs [f, g] \<lparr>applied = app, trace = [], imported = 0\<rparr> = (u, True)
     \<and> run_paths (trace u) = []
     \<and> table_after sem (trace u) t (filename (fst f)) = t old
     \<and> table_after sem (trace u) t (filename (fst g)) = None"
proof -
  have old: "old \<notin> entry_names available" and hf: "file_hash E (fst f) \<noteq> None" and hg: "file_hash E (fst g) \<noteq> None"
    using assms(7,8) by (auto simp: renamed_from_def split: option.splits if_splits)
  have acts: "file_actions E available hs None x = [Apply (DeleteEntry (filename (fst x))), Apply (RenameRow old (filename (fst x)))]"
    if "renamed_from E available hs None x = Some old" for x
    using that by (auto simp: file_actions_def renamed_from_def needs_run_def Let_def image_iff split: option.splits if_splits)
  have ok: "\<And>x. x \<in> set [f, g] \<Longrightarrow> file_ok E available hs (entry_of app x) x"
    using assms(5-8) hf hg by (auto simp: file_ok_def needs_run_def)
  have "apply_files E available hs [f, g] \<lparr>applied = app, trace = [], imported = 0\<rparr> =
     (\<lparr>applied = filter (\<lambda>(n, e). n \<notin> {dropped_name E available hs None f, dropped_name E available hs None g}) app,
       trace = file_actions E available hs None f @ file_actions E available hs None g, imported = 0\<rparr>, True)"
    using apply_files_eq [of "[f, g]" available "\<lparr>applied = app, trace = [], imported = 0\<rparr>" app E hs, OF _ _ _ ok] assms(2-8)
    by (simp add: needs_run_def)
  moreover have "old \<noteq> filename (fst f)" "old \<noteq> filename (fst g)" using old assms(2,3) by auto
  ultimately show ?thesis using acts [OF assms(7)] acts [OF assms(8)] assms(4)
    by (auto simp: mysql_updatesD [OF assms(1)])
qed

subsection \<open>Concrete updates\<close>

text \<open>
  Two files in one include directory, an entry whose file is gone, and a server that does what
  MySQL documents.
\<close>

definition sample_env :: "(string \<Rightarrow> bool) \<Rightarrow> fetch_env" where
  "sample_env runs =
     \<lparr>source_directory = ''/w'', db_module_name = ''db'', set_directories = None, modules_list = [],
      is_directory = (\<lambda>p. p = ''/w/up''), dir_entries = (\<lambda>d. [''/w/up/b.sql'', ''/w/up/n.txt'', ''/w/up/a.sql'']),
      read_file = (\<lambda>p. Some p), sha1 = (\<lambda>x. replicate 20 (of_nat (length x))), map_order = (\<lambda>m. m),
      run_file = runs, run_time = (\<lambda>p. 7), opt_redundancy = True, opt_allow_rehash = True,
      opt_archived_redundancy = False, opt_clean_max = 3\<rparr>"

definition sample_files :: "file_entry list" where
  "sample_files = [(''/w/up/a.sql'', CUSTOM), (''/w/up/b.sql'', CUSTOM)]"

definition sample_applied :: applied_files where
  "sample_applied = [(''gone.sql'', \<lparr>e_name = ''gone.sql'', e_hash = ''00'', e_state = RELEASED, e_timestamp = 0\<rparr>)]"

fun sample_server :: "update_sql \<Rightarrow> updates_table \<Rightarrow> updates_table" where
  "sample_server (ReplaceEntry n h st sp) t = t(n \<mapsto> (h, st))"
| "sample_server (DeleteEntry n) t = t(n := None)"
| "sample_server (RenameRow from to) t = t(from := None, to := t from)"
| "sample_server (DeleteEntries ns) t = t |` (- set ns)"
| "sample_server (SetEntryState n st) t = t(n := map_option (\<lambda>(h, st'). (h, st)) (t n))"

lemma sample_server_mysql: "mysql_updates sample_server"
  by (simp add: mysql_updates_def)

lemma sample_files_listed:
  "GetFileList (sample_env runs) (Some [(''$/up'', ''CUSTOM'')]) None = ([], Inr sample_files)"
  by code_simp

lemma sample_files_sorted: "file_sorted sample_files"
  using GetFileList_sorted [OF sample_files_listed] .

abbreviation sample_hash :: string where
  "sample_hash \<equiv> concat (replicate 20 ''0B'')"

lemma sample_update:
  "update_with (sample_env (\<lambda>p. True)) sample_files sample_applied =
     (\<lparr>applied = sample_applied,
       trace = [ApplyFile ''/w/up/a.sql'', Apply (ReplaceEntry ''a.sql'' sample_hash CUSTOM 7),
                ApplyFile ''/w/up/b.sql'', Apply (ReplaceEntry ''b.sql'' sample_hash CUSTOM 7),
                Apply (DeleteEntries [''gone.sql''])],
       imported = 2\<rparr>, Inr \<lparr>updated = 2, recent = 1, archived = 0\<rparr>)"
  by code_simp

lemma sample_update_fails:
  "update_with (sample_env (\<lambda>p. p = ''/w/up/a.sql'')) sample_files sample_applied =
     (\<lparr>applied = sample_applied,
       trace = [ApplyFile ''/w/up/a.sql'', Apply (ReplaceEntry ''a.sql'' sample_hash CUSTOM 7), ApplyFile ''/w/up/b.sql''],
       imported = 1\<rparr>, Inl UpdateException)"
  by code_simp

lemma sample_env_order: "\<forall>m. mset (map_order (sample_env runs) m) = mset m"
  by (simp add: sample_env_def)

lemma sample_env_sha1: "\<forall>x. length (sha1 (sample_env runs) x) = 20"
  by (simp add: sample_env_def)



theorem failed_update_records_nothing_witness:
  "\<exists>before f rest. phase_order sample_files = before @ f # rest
     \<and> (file_hash (sample_env (\<lambda>p. p = ''/w/up/a.sql'')) (fst f) = None \<or> fst f \<noteq> ''/w/up/a.sql'')"
  using failed_update_records_nothing [OF sample_files_sorted sample_update_fails]
  by (simp add: sample_env_def) blast

theorem cleanup_deletes_only_orphans_witness:
  "''gone.sql'' \<notin> entry_names sample_files \<and> (\<exists>e. (''gone.sql'', e) \<in> set sample_applied \<and> e_state e \<noteq> MODULE)"
  using cleanup_deletes_only_orphans [OF sample_files_sorted sample_update sample_env_order, of "[''gone.sql'']" "''gone.sql''"]
  by simp

lemma sample_no_renames: "no_renames (sample_env (\<lambda>p. True)) sample_files sample_applied"
  by code_simp

definition sample_rows :: applied_files where
  "sample_rows =
     [(''a.sql'', \<lparr>e_name = ''a.sql'', e_hash = sample_hash, e_state = CUSTOM, e_timestamp = 1\<rparr>),
      (''b.sql'', \<lparr>e_name = ''b.sql'', e_hash = sample_hash, e_state = CUSTOM, e_timestamp = 1\<rparr>)]"


definition sample_moved :: applied_files where
  "sample_moved = [(''gone.sql'', \<lparr>e_name = ''gone.sql'', e_hash = sample_hash, e_state = RELEASED, e_timestamp = 0\<rparr>)]"

lemma sample_renamed:
  "renamed_from (sample_env (\<lambda>p. True)) sample_files (hash_to_name sample_moved) None (''/w/up/a.sql'', CUSTOM) = Some ''gone.sql''"
  "renamed_from (sample_env (\<lambda>p. True)) sample_files (hash_to_name sample_moved) None (''/w/up/b.sql'', CUSTOM) = Some ''gone.sql''"
  by code_simp+

theorem second_rename_leaves_no_row_witness:
  "\<exists>u. apply_files (sample_env (\<lambda>p. True)) sample_files (hash_to_name sample_moved)
        [(''/w/up/a.sql'', CUSTOM), (''/w/up/b.sql'', CUSTOM)] \<lparr>applied = sample_moved, trace = [], imported = 0\<rparr> = (u, True)
     \<and> run_paths (trace u) = []
     \<and> table_after sample_server (trace u) [''gone.sql'' \<mapsto> (sample_hash, RELEASED)]
           (filename (fst (''/w/up/a.sql'', CUSTOM))) = [''gone.sql'' \<mapsto> (sample_hash, RELEASED)] ''gone.sql''
     \<and> table_after sample_server (trace u) [''gone.sql'' \<mapsto> (sample_hash, RELEASED)]
           (filename (fst (''/w/up/b.sql'', CUSTOM))) = None"
proof (rule second_rename_leaves_no_row [OF sample_server_mysql _ _ _ _ _ sample_renamed])
  show "filename (fst (''/w/up/a.sql'', CUSTOM)) \<noteq> filename (fst (''/w/up/b.sql'', CUSTOM))" by code_simp
  show "entry_of sample_moved (''/w/up/a.sql'', CUSTOM) = None" "entry_of sample_moved (''/w/up/b.sql'', CUSTOM) = None"
    by code_simp+
qed (simp_all add: sample_files_def)

end
