(* ===== verification/PCQueue.thy ===== *)
theory PCQueue
  imports Interfaces
begin

section \<open>The producer-consumer queue and its workers\<close>

text \<open>
  \<^verbatim>\<open>src/src/common/Threading/PCQueue.h\<close> and the worker threads of
  \<^verbatim>\<open>src/src/server/database/Database/DatabaseAsyncQueueWorker.cpp\<close>.  The operations of the queue are
  functions on its state, since each of them holds the mutex; the condition variable and the
  threads are a step relation: between two steps any other thread may run.
\<close>

subsection \<open>The queue\<close>

record 'a pc_queue =
  pq_queue :: "'a list"
  pq_shutdown :: bool

definition pc_new :: "'a pc_queue" where
  "pc_new = \<lparr>pq_queue = [], pq_shutdown = False\<rparr>"

definition PC_Push :: "'a \<Rightarrow> 'a pc_queue \<Rightarrow> 'a pc_queue" where
  "PC_Push x q = q\<lparr>pq_queue := pq_queue q @ [x]\<rparr>"

definition PC_Empty :: "'a pc_queue \<Rightarrow> bool" where
  "PC_Empty q = (pq_queue q = [])"

definition PC_Size :: "'a pc_queue \<Rightarrow> nat" where
  "PC_Size q = length (pq_queue q)"

text \<open>\<open>Pop\<close>: \<open>None\<close> is the result \<open>false\<close>.\<close>

definition PC_Pop :: "'a pc_queue \<Rightarrow> ('a \<times> 'a pc_queue) option" where
  "PC_Pop q =
     (if pq_queue q = [] \<or> pq_shutdown q then None
      else Some (hd (pq_queue q), q\<lparr>pq_queue := tl (pq_queue q)\<rparr>))"

text \<open>
  One evaluation of the waiting loop of \<open>WaitAndPop\<close> with the mutex held: the thread goes to
  sleep, or the call returns, with a value or with the argument unchanged.  The overload without
  \<open>customCancel\<close> is the case \<open>cancel = False\<close>.
\<close>

datatype 'a wait_result = Sleep | ReturnUnset | ReturnValue 'a

definition PC_WaitAndPop :: "bool \<Rightarrow> 'a pc_queue \<Rightarrow> 'a wait_result \<times> 'a pc_queue" where
  "PC_WaitAndPop cancel q =
     (if pq_queue q = [] \<and> \<not> pq_shutdown q \<and> \<not> cancel then (Sleep, q)
      else if pq_queue q = [] \<or> pq_shutdown q \<or> cancel then (ReturnUnset, q)
      else (ReturnValue (hd (pq_queue q)), q\<lparr>pq_queue := tl (pq_queue q)\<rparr>))"

text \<open>\<open>Cancel\<close> deletes what is queued; the deleted pointers are returned in order.\<close>

fun cancel_loop :: "'a list \<Rightarrow> 'a list \<Rightarrow> 'a list \<times> 'a list" where
  "cancel_loop deleted [] = (deleted, [])"
| "cancel_loop deleted (x # xs) = cancel_loop (deleted @ [x]) xs"

definition PC_Cancel :: "'a pc_queue \<Rightarrow> 'a list \<times> 'a pc_queue" where
  "PC_Cancel q = (let (deleted, rest) = cancel_loop [] (pq_queue q)
                  in (deleted, q\<lparr>pq_queue := rest, pq_shutdown := True\<rparr>))"

lemma cancel_loop_eq: "cancel_loop d xs = (d @ xs, [])"
  by (induction d xs rule: cancel_loop.induct) simp_all

lemma PC_Cancel_eq: "PC_Cancel q = (pq_queue q, q\<lparr>pq_queue := [], pq_shutdown := True\<rparr>)"
  by (simp add: PC_Cancel_def cancel_loop_eq)

interpretation pcq: fifo_queue "pc_new :: 'a pc_queue" PC_Push PC_Pop pq_queue "\<lambda>q. \<not> pq_shutdown q"
proof unfold_locales
  fix q :: "'a pc_queue" and x q'
  assume "\<not> pq_shutdown q" "PC_Pop q = Some (x, q')"
  then show "\<not> pq_shutdown q' \<and> pq_queue q = x # pq_queue q'"
    by (cases "pq_queue q") (auto simp: PC_Pop_def)
qed (auto simp: pc_new_def PC_Push_def PC_Pop_def)

subsection \<open>The workers\<close>

text \<open>
  A worker runs \<open>ExecuteAsyncQueue\<close>: \<open>Acquire\<close> is the point where it is about to evaluate the
  loop of \<open>WaitAndPop\<close> with the mutex held, \<open>Asleep\<close> is blocked on the condition variable,
  \<open>Returned\<close> is after the call, before \<open>if (_cancel) break\<close>.  \<open>notify_due w\<close> holds between the two
  statements of the destructor of worker \<open>w\<close>, \<open>_cancel = true\<close> and \<open>NotifyAll()\<close>.  The ghost
  fields record what was pushed, taken from the queue, executed and dropped.
\<close>

datatype 'a worker_pc = Acquire | Asleep | Returned "'a option" | Executing 'a | Stopped

record 'a pool =
  pool_queue :: "'a pc_queue"
  pool_pc :: "nat \<Rightarrow> 'a worker_pc"
  pool_cancel :: "nat \<Rightarrow> bool"
  notify_due :: "nat \<Rightarrow> bool"
  pushed :: "'a list"
  taken :: "'a list"
  executed :: "'a list"
  dropped :: "'a list"
  deleted :: "'a list"

definition wake_all :: "(nat \<Rightarrow> 'a worker_pc) \<Rightarrow> nat \<Rightarrow> 'a worker_pc" where
  "wake_all pc w = (if pc w = Asleep then Acquire else pc w)"

text \<open>One evaluation of the waiting loop by worker \<open>w\<close>.\<close>

definition worker_wait :: "nat \<Rightarrow> 'a pool \<Rightarrow> 'a pool" where
  "worker_wait w s =
     (case PC_WaitAndPop (pool_cancel s w) (pool_queue s) of
        (Sleep, q) \<Rightarrow> s\<lparr>pool_pc := (pool_pc s)(w := Asleep)\<rparr>
      | (ReturnUnset, q) \<Rightarrow> s\<lparr>pool_pc := (pool_pc s)(w := Returned None)\<rparr>
      | (ReturnValue x, q) \<Rightarrow>
          s\<lparr>pool_queue := q, pool_pc := (pool_pc s)(w := Returned (Some x)), taken := taken s @ [x]\<rparr>)"

text \<open>The rest of the loop body, after \<open>WaitAndPop\<close> returned \<open>r\<close>.\<close>

definition worker_check :: "nat \<Rightarrow> 'a option \<Rightarrow> 'a pool \<Rightarrow> 'a pool" where
  "worker_check w r s =
     (if pool_cancel s w then
        s\<lparr>pool_pc := (pool_pc s)(w := Stopped),
          dropped := (case r of Some x \<Rightarrow> dropped s @ [x] | None \<Rightarrow> dropped s)\<rparr>
      else case r of
        None \<Rightarrow> s\<lparr>pool_pc := (pool_pc s)(w := Acquire)\<rparr>
      | Some x \<Rightarrow> s\<lparr>pool_pc := (pool_pc s)(w := Executing x)\<rparr>)"

inductive wstep :: "nat set \<Rightarrow> 'a pool \<Rightarrow> 'a pool \<Rightarrow> bool" for W :: "nat set" where
  push_wakes: "\<lbrakk>w \<in> W; pool_pc s w = Asleep\<rbrakk> \<Longrightarrow>
     wstep W s (s\<lparr>pool_queue := PC_Push x (pool_queue s), pushed := pushed s @ [x],
                  pool_pc := (pool_pc s)(w := Acquire)\<rparr>)"
| push_quiet: "\<forall>w \<in> W. pool_pc s w \<noteq> Asleep \<Longrightarrow>
     wstep W s (s\<lparr>pool_queue := PC_Push x (pool_queue s), pushed := pushed s @ [x]\<rparr>)"
| spurious: "\<lbrakk>w \<in> W; pool_pc s w = Asleep\<rbrakk> \<Longrightarrow> wstep W s (s\<lparr>pool_pc := (pool_pc s)(w := Acquire)\<rparr>)"
| wait_loop: "\<lbrakk>w \<in> W; pool_pc s w = Acquire\<rbrakk> \<Longrightarrow> wstep W s (worker_wait w s)"
| check_cancel: "\<lbrakk>w \<in> W; pool_pc s w = Returned r\<rbrakk> \<Longrightarrow> wstep W s (worker_check w r s)"
| execute: "\<lbrakk>w \<in> W; pool_pc s w = Executing x\<rbrakk> \<Longrightarrow>
     wstep W s (s\<lparr>pool_pc := (pool_pc s)(w := Acquire), executed := executed s @ [x]\<rparr>)"
| destroy_cancel: "\<lbrakk>w \<in> W; \<not> pool_cancel s w\<rbrakk> \<Longrightarrow>
     wstep W s (s\<lparr>pool_cancel := (pool_cancel s)(w := True), notify_due := (notify_due s)(w := True)\<rparr>)"
| destroy_notify: "\<lbrakk>w \<in> W; notify_due s w\<rbrakk> \<Longrightarrow>
     wstep W s (s\<lparr>notify_due := (notify_due s)(w := False), pool_pc := wake_all (pool_pc s)\<rparr>)"
| queue_cancel: "PC_Cancel (pool_queue s) = (del, q) \<Longrightarrow>
     wstep W s (s\<lparr>pool_queue := q, deleted := deleted s @ del, pool_pc := wake_all (pool_pc s)\<rparr>)"



definition pool_init :: "'a pool" where
  "pool_init = \<lparr>pool_queue = pc_new, pool_pc = (\<lambda>w. Acquire), pool_cancel = (\<lambda>w. False), notify_due = (\<lambda>w. False),
     pushed = [], taken = [], executed = [], dropped = [], deleted = []\<rparr>"

inductive pool_reach :: "nat set \<Rightarrow> 'a pool \<Rightarrow> bool" for W :: "nat set" where
  reach_init: "pool_reach W pool_init"
| reach_step: "\<lbrakk>pool_reach W s; wstep W s s'\<rbrakk> \<Longrightarrow> pool_reach W s'"

subsection \<open>Invariants of the worker pool\<close>

definition busy :: "'a worker_pc \<Rightarrow> bool" where
  "busy pc = (pc \<noteq> Asleep \<and> pc \<noteq> Stopped)"

definition hand :: "'a worker_pc \<Rightarrow> 'a multiset" where
  "hand pc = (case pc of Returned (Some x) \<Rightarrow> {#x#} | Executing x \<Rightarrow> {#x#} | _ \<Rightarrow> {#})"

definition wakeup_inv :: "nat set \<Rightarrow> 'a pool \<Rightarrow> bool" where
  "wakeup_inv W s \<longleftrightarrow>
     (\<forall>w \<in> W. pool_pc s w = Asleep \<and> pool_cancel s w \<longrightarrow> notify_due s w)
     \<and> (\<forall>w \<in> W. pool_pc s w = Stopped \<longrightarrow> pool_cancel s w)
     \<and> (pq_queue (pool_queue s) \<noteq> [] \<and> (\<exists>w \<in> W. pool_pc s w = Asleep) \<longrightarrow>
          (\<exists>w \<in> W. notify_due s w \<or> busy (pool_pc s w) \<and> \<not> pool_cancel s w))"

definition flow_inv :: "'a pool \<Rightarrow> bool" where
  "flow_inv s \<longleftrightarrow> pushed s = taken s @ deleted s @ pq_queue (pool_queue s)
     \<and> (deleted s \<noteq> [] \<longrightarrow> pq_shutdown (pool_queue s))"

definition hand_inv :: "nat set \<Rightarrow> 'a pool \<Rightarrow> bool" where
  "hand_inv W s \<longleftrightarrow> mset (taken s) = mset (executed s) + mset (dropped s) + (\<Sum>w \<in> W. hand (pool_pc s w))"

lemma busy_simps [simp]:
  "busy Acquire" "busy (Returned r)" "busy (Executing x)" "\<not> busy Asleep" "\<not> busy Stopped"
  by (simp_all add: busy_def)

lemma hand_simps [simp]:
  "hand Acquire = {#}" "hand Asleep = {#}" "hand Stopped = {#}" "hand (Returned None) = {#}"
  "hand (Returned (Some x)) = {#x#}" "hand (Executing x) = {#x#}"
  by (simp_all add: hand_def)

lemma wake_all_simps [simp]: "wake_all pc w \<noteq> Asleep" "wake_all pc w = Stopped \<longleftrightarrow> pc w = Stopped" "hand (wake_all pc w) = hand (pc w)"
  by (simp_all add: wake_all_def)

lemma hand_sum_upd:
  "finite W \<Longrightarrow> w \<in> W \<Longrightarrow> (\<Sum>v \<in> W. hand ((pc(w := p)) v)) + hand (pc w) = (\<Sum>v \<in> W. hand (pc v)) + hand p"
  by (simp add: sum.remove [of W w] ac_simps)

lemma wakeup_inv_step:
  assumes "wakeup_inv W s" and "wstep W s s'"
  shows "wakeup_inv W s'"
  using assms(2)
proof (cases rule: wstep.cases)
  case (push_wakes w x)
  then show ?thesis using assms(1) by (cases "pool_cancel s w") (auto simp: wakeup_inv_def)
next
  case (wait_loop w)
  then show ?thesis using assms(1)
    by (auto simp: wakeup_inv_def worker_wait_def PC_WaitAndPop_def)
next
  case (check_cancel w r)
  then show ?thesis using assms(1)
    by (cases r) (auto simp: wakeup_inv_def worker_check_def split: if_splits)
next
  case (execute w x)
  then show ?thesis using assms(1) by (auto simp: wakeup_inv_def)
qed (use assms(1) in \<open>auto simp: wakeup_inv_def PC_Push_def PC_Cancel_eq\<close>)

lemma flow_inv_step:
  assumes "flow_inv s" and "wstep W s s'"
  shows "flow_inv s'"
  using assms(2)
proof (cases rule: wstep.cases)
  case (wait_loop w)
  then show ?thesis using assms(1)
    by (cases "pq_queue (pool_queue s)") (auto simp: flow_inv_def worker_wait_def PC_WaitAndPop_def)
next
  case (check_cancel w r)
  then show ?thesis using assms(1)
    by (cases r) (auto simp: flow_inv_def worker_check_def)
qed (use assms(1) in \<open>auto simp: flow_inv_def PC_Push_def PC_Cancel_eq\<close>)

lemma hand_inv_pc:
  assumes "finite W" and "w \<in> W" and "hand_inv W s" and "pool_pc s w = p" and "pool_pc s' = (pool_pc s)(w := p')"
    and "mset (taken s') + mset (executed s) + mset (dropped s) + hand p
       = mset (taken s) + mset (executed s') + mset (dropped s') + hand p'"
  shows "hand_inv W s'"
proof -
  let ?h = "\<Sum>v \<in> W. hand (pool_pc s v)" and ?h' = "\<Sum>v \<in> W. hand (pool_pc s' v)"
  have "?h' + hand p = ?h + hand p'"
    using hand_sum_upd [OF assms(1,2), of "pool_pc s" p'] assms(4,5) by simp
  moreover have "mset (taken s) = mset (executed s) + mset (dropped s) + ?h"
    using assms(3) by (simp add: hand_inv_def)
  ultimately have "mset (taken s') + hand p = mset (executed s') + mset (dropped s') + ?h' + hand p"
    using assms(6) by (simp add: ac_simps)
  then show ?thesis by (simp add: hand_inv_def)
qed

lemma hand_inv_step:
  assumes "finite W" and "hand_inv W s" and "wstep W s s'"
  shows "hand_inv W s'"
  using assms(3)
proof (cases rule: wstep.cases)
  case (push_wakes w x)
  then show ?thesis by (intro hand_inv_pc [OF assms(1) _ assms(2), of w _ _ Acquire]) auto
next
  case (spurious w)
  then show ?thesis by (intro hand_inv_pc [OF assms(1) _ assms(2), of w _ _ Acquire]) auto
next
  case (wait_loop w)
  consider "fst (PC_WaitAndPop (pool_cancel s w) (pool_queue s)) = Sleep"
    | "fst (PC_WaitAndPop (pool_cancel s w) (pool_queue s)) = ReturnUnset"
    | x where "fst (PC_WaitAndPop (pool_cancel s w) (pool_queue s)) = ReturnValue x"
    by (cases "fst (PC_WaitAndPop (pool_cancel s w) (pool_queue s))") auto
  then show ?thesis
  proof cases
    case 1
    then show ?thesis using wait_loop
      by (intro hand_inv_pc [OF assms(1) _ assms(2), of w _ _ Asleep]) (auto simp: worker_wait_def split: prod.splits)
  next
    case 2
    then show ?thesis using wait_loop
      by (intro hand_inv_pc [OF assms(1) _ assms(2), of w _ _ "Returned None"]) (auto simp: worker_wait_def split: prod.splits)
  next
    case 3
    then show ?thesis using wait_loop
      by (intro hand_inv_pc [OF assms(1) _ assms(2), of w _ _ "Returned (Some x)"]) (auto simp: worker_wait_def split: prod.splits)
  qed
next
  case (check_cancel w r)
  define p' where "p' = (if pool_cancel s w then Stopped else case r of None \<Rightarrow> Acquire | Some x \<Rightarrow> Executing x)"
  show ?thesis using check_cancel
    by (intro hand_inv_pc [OF assms(1) _ assms(2), of w _ _ p']) (auto simp: worker_check_def p'_def split: option.splits)
next
  case (execute w x)
  then show ?thesis by (intro hand_inv_pc [OF assms(1) _ assms(2), of w _ _ Acquire]) auto
qed (use assms(2) in \<open>auto simp: hand_inv_def\<close>)

lemma pool_reach_invs:
  assumes "pool_reach W s"
  shows "wakeup_inv W s" and "flow_inv s" and "finite W \<Longrightarrow> hand_inv W s"
  using assms
proof (induction rule: pool_reach.induct)
  case reach_init
  { case 1 show ?case by (simp add: wakeup_inv_def pool_init_def pc_new_def) }
  { case 2 show ?case by (simp add: flow_inv_def pool_init_def pc_new_def) }
  { case 3 show ?case by (simp add: hand_inv_def pool_init_def) }
qed (auto intro: wakeup_inv_step flow_inv_step hand_inv_step)

subsection \<open>Properties of the worker pool\<close>

text \<open>
  C21: No wake-up is lost.  In every reachable state in which an operation is queued while some
  worker sleeps, another worker that is not cancelled is awake and will look at the queue again,
  or a destructor still has its \<open>NotifyAll\<close> to do; so the pool never sleeps on a non-empty queue.
\<close>

theorem no_lost_wakeup:
  assumes "pool_reach W s" and "pq_queue (pool_queue s) \<noteq> []" and "w \<in> W" and "pool_pc s w = Asleep"
  shows "\<exists>v \<in> W. notify_due s v \<or> busy (pool_pc s v) \<and> \<not> pool_cancel s v"
  using pool_reach_invs(1) [OF assms(1)] assms(2-4) by (auto simp: wakeup_inv_def)

text \<open>
  C22: No operation is duplicated, and operations leave the queue in the order they were pushed:
  what was pushed is what was taken, then what \<open>Cancel\<close> deleted, then what is queued; and what was
  taken has been executed, is in the hands of one worker, or was dropped by a worker that was
  being destroyed.
\<close>

theorem operations_flow:
  assumes "pool_reach W s" and "finite W"
  shows "pushed s = taken s @ deleted s @ pq_queue (pool_queue s)
     \<and> mset (taken s) = mset (executed s) + mset (dropped s) + (\<Sum>w \<in> W. hand (pool_pc s w))"
  using pool_reach_invs(2,3) [OF assms(1)] assms(2) by (simp add: flow_inv_def hand_inv_def)


text \<open>
  A worker that has taken an operation looks at \<open>_cancel\<close> before it executes it.  When its
  destructor runs in between, the operation is neither executed nor deleted nor put back: there
  is a run of one worker that ends with everything stopped, the queue empty and the only
  operation lost.
\<close>

theorem destroyed_worker_drops_operation:
  "\<exists>s. pool_reach {0} s \<and> pool_pc s 0 = Stopped \<and> pushed s = [x] \<and> pq_queue (pool_queue s) = []
     \<and> executed s = [] \<and> deleted s = [] \<and> dropped s = [x]"
proof -
  let ?s0 = "pool_init :: 'a pool"
  let ?s1 = "?s0\<lparr>pool_queue := PC_Push x (pool_queue ?s0), pushed := pushed ?s0 @ [x]\<rparr>"
  let ?s2 = "worker_wait 0 ?s1"
  let ?s3 = "?s2\<lparr>pool_cancel := (pool_cancel ?s2)(0 := True), notify_due := (notify_due ?s2)(0 := True)\<rparr>"
  let ?s4 = "worker_check 0 (Some x) ?s3"
  note defs = worker_wait_def PC_WaitAndPop_def worker_check_def pool_init_def pc_new_def PC_Push_def
  have "pool_reach {0} ?s1" by (rule reach_step [OF reach_init push_quiet]) (simp add: pool_init_def)
  then have "pool_reach {0} ?s2" by (rule reach_step [OF _ wait_loop]) (simp_all add: pool_init_def)
  then have "pool_reach {0} ?s3" by (rule reach_step [OF _ destroy_cancel]) (simp_all add: defs)
  then have "pool_reach {0} ?s4" by (rule reach_step [OF _ check_cancel]) (simp_all add: defs)
  then show ?thesis by (intro exI [of _ ?s4]) (simp add: defs)
qed

text \<open>
  After \<open>Cancel\<close> of the queue a worker that is not itself cancelled does not stop and does not
  sleep: \<open>WaitAndPop\<close> returns at once without a value and the loop continues in the same state.
\<close>

lemma shut_down_queue_spins:
  assumes "pq_shutdown (pool_queue s)" and "\<not> pool_cancel s w" and "pool_pc s w = Acquire"
  shows "worker_check w None (worker_wait w s) = s"
  using assms by (cases s) (auto simp: worker_wait_def worker_check_def PC_WaitAndPop_def fun_upd_idem)

subsection \<open>Concrete runs\<close>

definition sleeping_pair :: "'a \<Rightarrow> 'a pool" where
  "sleeping_pair x =
     (let s = worker_wait 1 (worker_wait 0 pool_init)
      in s\<lparr>pool_queue := PC_Push x (pool_queue s), pushed := pushed s @ [x], pool_pc := (pool_pc s)(0 := Acquire)\<rparr>)"

lemma reach_sleeping_pair: "pool_reach {0, 1} (sleeping_pair x)"
proof -
  note defs = worker_wait_def PC_WaitAndPop_def pool_init_def pc_new_def
  have "pool_reach {0, 1} (worker_wait 0 pool_init :: 'a pool)"
    by (rule reach_step [OF reach_init wait_loop]) (simp_all add: pool_init_def)
  then have "pool_reach {0, 1} (worker_wait 1 (worker_wait 0 pool_init) :: 'a pool)"
    by (rule reach_step [OF _ wait_loop]) (simp_all add: defs)
  then show ?thesis
    unfolding sleeping_pair_def Let_def by (rule reach_step [OF _ push_wakes]) (simp_all add: defs)
qed

lemma sleeping_pair_state:
  "pool_pc (sleeping_pair x) 1 = Asleep" "pq_queue (pool_queue (sleeping_pair x)) = [x]" "pushed (sleeping_pair x) = [x]"
  by (simp_all add: sleeping_pair_def Let_def worker_wait_def PC_WaitAndPop_def pool_init_def pc_new_def PC_Push_def)

theorem no_lost_wakeup_witness:
  "pq_queue (pool_queue (sleeping_pair (5 :: nat))) = [5] \<and> pool_pc (sleeping_pair (5 :: nat)) 1 = Asleep
     \<and> (\<exists>v \<in> {0, 1}. notify_due (sleeping_pair (5 :: nat)) v
          \<or> busy (pool_pc (sleeping_pair (5 :: nat)) v) \<and> \<not> pool_cancel (sleeping_pair (5 :: nat)) v)"
  using no_lost_wakeup [OF reach_sleeping_pair [of "5 :: nat"] _ _ sleeping_pair_state(1)]
  by (simp add: sleeping_pair_state del: One_nat_def)

theorem operations_flow_witness:
  "pushed (sleeping_pair (5 :: nat)) = [5]
     \<and> pushed (sleeping_pair (5 :: nat))
         = taken (sleeping_pair 5) @ deleted (sleeping_pair 5) @ pq_queue (pool_queue (sleeping_pair 5))"
  using operations_flow [OF reach_sleeping_pair [of "5 :: nat"]] by (simp add: sleeping_pair_state)

end
