(* ===== verification/MPSCQueue.thy ===== *)
theory MPSCQueue
  imports Interfaces
begin

section \<open>The lock-free multi-producer single-consumer queues\<close>

text \<open>
  \<^verbatim>\<open>src/src/common/Threading/MPSCQueue.h\<close>.  Nodes are addresses (natural numbers); the heap maps the
  live ones to their data and their \<open>Next\<close> pointer, so that an access to a deleted node is
  \<open>Undefined\<close>.  \<open>Enqueue\<close> has two atomic operations, the exchange of \<open>_head\<close> and the store to
  \<open>Next\<close> of the previous head; other threads may run between them.
\<close>

subsection \<open>The non-intrusive queue\<close>

record 'a node =
  node_data :: 'a
  node_next :: "nat option"

record 'a mpsc =
  heap :: "nat \<Rightarrow> 'a node option"
  mp_head :: nat
  mp_tail :: nat
  next_addr :: nat

text \<open>The first node carries no data; \<open>undef\<close> is its uninitialised pointer.\<close>

definition mpsc_new :: "'a \<Rightarrow> 'a mpsc" where
  "mpsc_new undef = \<lparr>heap = [0 \<mapsto> \<lparr>node_data = undef, node_next = None\<rparr>], mp_head = 0, mp_tail = 0, next_addr = 1\<rparr>"

text \<open>\<open>new Node(input)\<close> and \<open>_head.exchange(node)\<close>; the result is the pair \<open>(prevHead, node)\<close>.\<close>

definition enqueue_exchange :: "'a \<Rightarrow> 'a mpsc \<Rightarrow> (nat \<times> nat) \<times> 'a mpsc" where
  "enqueue_exchange x q =
     (let node = next_addr q
      in ((mp_head q, node),
          q\<lparr>heap := (heap q)(node \<mapsto> \<lparr>node_data = x, node_next = None\<rparr>), mp_head := node, next_addr := Suc node\<rparr>))"

text \<open>\<open>prevHead->Next.store(node)\<close>.\<close>

definition enqueue_link :: "nat \<times> nat \<Rightarrow> 'a mpsc \<Rightarrow> 'a mpsc res" where
  "enqueue_link pn q =
     (case heap q (fst pn) of
        None \<Rightarrow> Inl Undefined
      | Some n \<Rightarrow> Inr (q\<lparr>heap := (heap q)(fst pn \<mapsto> n\<lparr>node_next := Some (snd pn)\<rparr>)\<rparr>))"

definition NonIntrusive_Enqueue :: "'a \<Rightarrow> 'a mpsc \<Rightarrow> 'a mpsc res" where
  "NonIntrusive_Enqueue x q = (let (pn, q') = enqueue_exchange x q in enqueue_link pn q')"

definition NonIntrusive_Dequeue :: "'a mpsc \<Rightarrow> ('a option \<times> 'a mpsc) res" where
  "NonIntrusive_Dequeue q =
     (case heap q (mp_tail q) of
        None \<Rightarrow> Inl Undefined
      | Some tail \<Rightarrow>
          (case node_next tail of
             None \<Rightarrow> Inr (None, q)
           | Some next \<Rightarrow>
               (case heap q next of
                  None \<Rightarrow> Inl Undefined
                | Some n \<Rightarrow> Inr (Some (node_data n), q\<lparr>heap := (heap q)(mp_tail q := None), mp_tail := next\<rparr>))))"

text \<open>The destructor, with fuel for its loop: the values it deletes and the queue afterwards.\<close>

fun NonIntrusive_destroy :: "nat \<Rightarrow> 'a mpsc \<Rightarrow> ('a list \<times> 'a mpsc) res option" where
  "NonIntrusive_destroy 0 q = None"
| "NonIntrusive_destroy (Suc fuel) q =
     (case NonIntrusive_Dequeue q of
        Inl e \<Rightarrow> Some (Inl e)
      | Inr (None, q) \<Rightarrow>
          Some (if heap q (mp_head q) = None then Inl Undefined else Inr ([], q\<lparr>heap := (heap q)(mp_head q := None)\<rparr>))
      | Inr (Some output, q) \<Rightarrow>
          map_option (map_sum id (\<lambda>(outputs, q). (output # outputs, q))) (NonIntrusive_destroy fuel q))"

subsection \<open>Producers and the consumer, interleaved\<close>

text \<open>
  A producer is idle or between the two operations of an \<open>Enqueue\<close>.  The ghost fields are the
  values in the order of the exchanges and in the order they were dequeued; \<open>mp_fault\<close> is set by
  an access to a deleted node.
\<close>

record 'a mpsc_sys =
  sys_queue :: "'a mpsc"
  linking :: "nat \<rightharpoonup> nat \<times> nat"
  enqueued :: "'a list"
  dequeued :: "'a list"
  mp_fault :: bool

inductive mstep :: "'a mpsc_sys \<Rightarrow> 'a mpsc_sys \<Rightarrow> bool" where
  exchange: "\<lbrakk>linking s p = None; enqueue_exchange x (sys_queue s) = (pn, q)\<rbrakk> \<Longrightarrow>
     mstep s (s\<lparr>sys_queue := q, linking := (linking s)(p \<mapsto> pn), enqueued := enqueued s @ [x]\<rparr>)"
| link: "\<lbrakk>linking s p = Some pn; enqueue_link pn (sys_queue s) = Inr q\<rbrakk> \<Longrightarrow>
     mstep s (s\<lparr>sys_queue := q, linking := (linking s)(p := None)\<rparr>)"
| link_fault: "\<lbrakk>linking s p = Some pn; enqueue_link pn (sys_queue s) = Inl e\<rbrakk> \<Longrightarrow> mstep s (s\<lparr>mp_fault := True\<rparr>)"
| take: "NonIntrusive_Dequeue (sys_queue s) = Inr (Some x, q) \<Longrightarrow>
     mstep s (s\<lparr>sys_queue := q, dequeued := dequeued s @ [x]\<rparr>)"
| take_none: "NonIntrusive_Dequeue (sys_queue s) = Inr (None, q) \<Longrightarrow> mstep s (s\<lparr>sys_queue := q\<rparr>)"
| take_fault: "NonIntrusive_Dequeue (sys_queue s) = Inl e \<Longrightarrow> mstep s (s\<lparr>mp_fault := True\<rparr>)"

definition mpsc_init :: "'a \<Rightarrow> 'a mpsc_sys" where
  "mpsc_init undef = \<lparr>sys_queue = mpsc_new undef, linking = (\<lambda>p. None), enqueued = [], dequeued = [], mp_fault = False\<rparr>"

inductive mpsc_reach :: "'a \<Rightarrow> 'a mpsc_sys \<Rightarrow> bool" for undef :: 'a where
  mreach_init: "mpsc_reach undef (mpsc_init undef)"
| mreach_step: "\<lbrakk>mpsc_reach undef s; mstep s s'\<rbrakk> \<Longrightarrow> mpsc_reach undef s'"

subsection \<open>The chain of nodes\<close>

text \<open>
  The addresses are handed out in the order of the exchanges, so the queue is the interval from
  the tail to the head: each node below the head points to its successor, or a producer is about
  to store that pointer.
\<close>

definition mpsc_inv :: "'a mpsc_sys \<Rightarrow> bool" where
  "mpsc_inv s \<longleftrightarrow> (let q = sys_queue s in
     next_addr q = Suc (mp_head q) \<and> mp_tail q \<le> mp_head q
     \<and> mp_head q = length (enqueued s) \<and> dequeued s = take (mp_tail q) (enqueued s)
     \<and> (\<forall>k. k < mp_tail q \<or> mp_head q < k \<longrightarrow> heap q k = None)
     \<and> (\<forall>k. mp_tail q \<le> k \<and> k \<le> mp_head q \<longrightarrow> (\<exists>n. heap q k = Some n \<and> (0 < k \<longrightarrow> node_data n = enqueued s ! (k - 1))
           \<and> (node_next n = None \<or> node_next n = Some (Suc k) \<and> k < mp_head q)
           \<and> (node_next n = None \<and> k < mp_head q \<longrightarrow> (\<exists>p. linking s p = Some (k, Suc k)))))
     \<and> (\<forall>p pn. linking s p = Some pn \<longrightarrow> (\<exists>k n. pn = (k, Suc k) \<and> mp_tail q \<le> k \<and> k < mp_head q
           \<and> heap q k = Some n \<and> node_next n = None))
     \<and> (\<forall>p p'. linking s p \<noteq> None \<and> linking s p = linking s p' \<longrightarrow> p = p')
     \<and> \<not> mp_fault s)"

lemma mpsc_invI:
  assumes "next_addr (sys_queue s) = Suc (mp_head (sys_queue s))" "mp_tail (sys_queue s) \<le> mp_head (sys_queue s)"
    "mp_head (sys_queue s) = length (enqueued s)" "dequeued s = take (mp_tail (sys_queue s)) (enqueued s)"
    "\<And>k. k < mp_tail (sys_queue s) \<or> mp_head (sys_queue s) < k \<Longrightarrow> heap (sys_queue s) k = None"
    "\<not> mp_fault s"
    "\<And>p p'. linking s p \<noteq> None \<Longrightarrow> linking s p = linking s p' \<Longrightarrow> p = p'"
    "\<And>k. mp_tail (sys_queue s) \<le> k \<Longrightarrow> k \<le> mp_head (sys_queue s) \<Longrightarrow>
       \<exists>n. heap (sys_queue s) k = Some n \<and> (0 < k \<longrightarrow> node_data n = enqueued s ! (k - 1))
           \<and> (node_next n = None \<or> node_next n = Some (Suc k) \<and> k < mp_head (sys_queue s))
           \<and> (node_next n = None \<and> k < mp_head (sys_queue s) \<longrightarrow> (\<exists>p. linking s p = Some (k, Suc k)))"
    "\<And>p pn. linking s p = Some pn \<Longrightarrow> \<exists>k n. pn = (k, Suc k) \<and> mp_tail (sys_queue s) \<le> k \<and> k < mp_head (sys_queue s)
           \<and> heap (sys_queue s) k = Some n \<and> node_next n = None"
  shows "mpsc_inv s"
  using assms unfolding mpsc_inv_def Let_def by blast

lemma mpsc_invD:
  assumes "mpsc_inv s"
  shows "next_addr (sys_queue s) = Suc (mp_head (sys_queue s))" "mp_tail (sys_queue s) \<le> mp_head (sys_queue s)"
    "mp_head (sys_queue s) = length (enqueued s)" "dequeued s = take (mp_tail (sys_queue s)) (enqueued s)"
    "k < mp_tail (sys_queue s) \<or> mp_head (sys_queue s) < k \<Longrightarrow> heap (sys_queue s) k = None"
    "\<not> mp_fault s"
    "linking s p \<noteq> None \<Longrightarrow> linking s p = linking s p' \<Longrightarrow> p = p'"
  using assms unfolding mpsc_inv_def Let_def by blast+

lemma mpsc_inv_node:
  assumes "mpsc_inv s" and "mp_tail (sys_queue s) \<le> k" and "k \<le> mp_head (sys_queue s)"
  shows "\<exists>n. heap (sys_queue s) k = Some n \<and> (0 < k \<longrightarrow> node_data n = enqueued s ! (k - 1))
           \<and> (node_next n = None \<or> node_next n = Some (Suc k) \<and> k < mp_head (sys_queue s))
           \<and> (node_next n = None \<and> k < mp_head (sys_queue s) \<longrightarrow> (\<exists>p. linking s p = Some (k, Suc k)))"
  using assms unfolding mpsc_inv_def Let_def by blast

lemma mpsc_inv_linking:
  assumes "mpsc_inv s" and "linking s p = Some pn"
  shows "\<exists>k n. pn = (k, Suc k) \<and> mp_tail (sys_queue s) \<le> k \<and> k < mp_head (sys_queue s)
           \<and> heap (sys_queue s) k = Some n \<and> node_next n = None"
  using assms unfolding mpsc_inv_def Let_def by blast

text \<open>A complete \<open>Enqueue\<close> and a \<open>Dequeue\<close> never touch a deleted node.\<close>

lemma link_no_fault: "mpsc_inv s \<Longrightarrow> linking s p = Some pn \<Longrightarrow> enqueue_link pn (sys_queue s) \<noteq> Inl e"
  using mpsc_inv_linking [of s p pn] by (auto simp: enqueue_link_def)

lemma Dequeue_cases:
  assumes "mpsc_inv s"
  defines "q \<equiv> sys_queue s"
  shows "(NonIntrusive_Dequeue q = Inr (None, q) \<and> (mp_tail q = mp_head q \<or> (\<exists>p. linking s p = Some (mp_tail q, Suc (mp_tail q)))))
    \<or> (mp_tail q < mp_head q \<and> (\<forall>p. linking s p \<noteq> Some (mp_tail q, Suc (mp_tail q)))
       \<and> NonIntrusive_Dequeue q = Inr (Some (enqueued s ! mp_tail q), q\<lparr>heap := (heap q)(mp_tail q := None), mp_tail := Suc (mp_tail q)\<rparr>))"
proof -
  obtain n where n: "heap q (mp_tail q) = Some n" "node_next n = None \<or> node_next n = Some (Suc (mp_tail q)) \<and> mp_tail q < mp_head q"
      "node_next n = None \<and> mp_tail q < mp_head q \<longrightarrow> (\<exists>p. linking s p = Some (mp_tail q, Suc (mp_tail q)))"
    using mpsc_inv_node [OF assms(1), of "mp_tail q"] mpsc_invD(2) [OF assms(1)] by (auto simp: q_def)
  show ?thesis
  proof (cases "node_next n")
    case None
    then show ?thesis using n mpsc_invD(2) [OF assms(1)] by (auto simp: NonIntrusive_Dequeue_def q_def)
  next
    case (Some m)
    then have m: "m = Suc (mp_tail q)" "mp_tail q < mp_head q" using n(2) by auto
    then obtain n' where "heap q m = Some n'" "node_data n' = enqueued s ! mp_tail q"
      using mpsc_inv_node [OF assms(1), of m] by (auto simp: q_def)
    moreover have "linking s p \<noteq> Some (mp_tail q, Suc (mp_tail q))" for p
      using mpsc_inv_linking [OF assms(1), of p] n(1) Some by (auto simp: q_def)
    ultimately show ?thesis using n(1) Some m by (auto simp: NonIntrusive_Dequeue_def)
  qed
qed

lemma mpsc_inv_exchange:
  assumes inv: "mpsc_inv s" and p: "linking s p = None" and ex: "enqueue_exchange x (sys_queue s) = (pn, q)"
  shows "mpsc_inv (s\<lparr>sys_queue := q, linking := (linking s)(p \<mapsto> pn), enqueued := enqueued s @ [x]\<rparr>)"
proof -
  let ?s' = "s\<lparr>sys_queue := q, linking := (linking s)(p \<mapsto> pn), enqueued := enqueued s @ [x]\<rparr>"
  define h where "h = mp_head (sys_queue s)"
  have pn: "pn = (h, Suc h)"
    and q: "heap q = (heap (sys_queue s))(Suc h \<mapsto> \<lparr>node_data = x, node_next = None\<rparr>)" "mp_head q = Suc h"
      "next_addr q = Suc (Suc h)" "mp_tail q = mp_tail (sys_queue s)"
    using ex mpsc_invD(1) [OF inv] by (auto simp: enqueue_exchange_def Let_def h_def)
  have th: "mp_tail (sys_queue s) \<le> h" and hl: "h = length (enqueued s)"
    using mpsc_invD(2,3) [OF inv] by (auto simp: h_def)
  obtain n where head: "heap (sys_queue s) h = Some n" "node_next n = None" "0 < h \<longrightarrow> node_data n = enqueued s ! (h - 1)"
    using mpsc_inv_node [OF inv mpsc_invD(2) [OF inv]] by (auto simp: h_def)
  have fresh: "linking s p' \<noteq> Some pn" for p'
    using mpsc_inv_linking [OF inv, of p' pn] pn by (auto simp: h_def)
  show ?thesis
  proof (rule mpsc_invI)
    fix k
    assume k: "mp_tail (sys_queue ?s') \<le> k"
      "k \<le> mp_head (sys_queue ?s')"
    have "\<exists>n. heap q k = Some n \<and> (0 < k \<longrightarrow> node_data n = (enqueued s @ [x]) ! (k - 1))
           \<and> (node_next n = None \<or> node_next n = Some (Suc k) \<and> k < mp_head q)
           \<and> (node_next n = None \<and> k < mp_head q \<longrightarrow> (\<exists>p'. ((linking s)(p \<mapsto> pn)) p' = Some (k, Suc k)))"
    proof (cases "k < h")
      case True
      then obtain m where m: "heap (sys_queue s) k = Some m" "0 < k \<longrightarrow> node_data m = enqueued s ! (k - 1)"
           "node_next m = None \<or> node_next m = Some (Suc k)"
           "node_next m = None \<longrightarrow> (\<exists>p. linking s p = Some (k, Suc k))"
        using mpsc_inv_node [OF inv, of k] k(1) q by (auto simp: h_def)
      have "\<exists>p'. ((linking s)(p \<mapsto> pn)) p' = Some (k, Suc k)" if "node_next m = None"
        using m(4) that p by (metis fun_upd_other option.distinct(1))
      then show ?thesis using m(1-3) q True hl by (auto simp: nth_append)
    next
      case False
      then have "k = h \<or> k = Suc h" using k(2) q by auto
      then show ?thesis using q head pn hl by (auto simp: nth_append)
    qed
    then show "\<exists>n. heap (sys_queue ?s') k = Some n
           \<and> (0 < k \<longrightarrow> node_data n = enqueued ?s' ! (k - 1))
           \<and> (node_next n = None \<or> node_next n = Some (Suc k) \<and> k < mp_head (sys_queue ?s'))
           \<and> (node_next n = None \<and> k < mp_head (sys_queue ?s')
                \<longrightarrow> (\<exists>p'. linking ?s' p' = Some (k, Suc k)))"
      by simp
  next
    fix p' pn'
    assume l: "linking ?s' p' = Some pn'"
    have "\<exists>k n. pn' = (k, Suc k) \<and> mp_tail q \<le> k \<and> k < mp_head q \<and> heap q k = Some n \<and> node_next n = None"
    proof (cases "p' = p")
      case True
      then have "pn' = (h, Suc h)" using l pn by simp
      then show ?thesis using q head th by (intro exI [of _ h] exI [of _ n]) simp
    next
      case False
      then have "linking s p' = Some pn'" using l by simp
      from mpsc_inv_linking [OF inv this] obtain k n' where "pn' = (k, Suc k)" "mp_tail (sys_queue s) \<le> k" "k < h"
        "heap (sys_queue s) k = Some n'" "node_next n' = None" unfolding h_def by blast
      then show ?thesis using q by (intro exI [of _ k] exI [of _ n']) simp
    qed
    then show "\<exists>k n. pn' = (k, Suc k) \<and> mp_tail (sys_queue ?s') \<le> k
        \<and> k < mp_head (sys_queue ?s')
        \<and> heap (sys_queue ?s') k = Some n \<and> node_next n = None"
      by simp
  next
    fix p1 p2
    assume "linking ?s' p1 \<noteq> None"
      "linking ?s' p1
         = linking ?s' p2"
    then show "p1 = p2" using fresh [of p1] fresh [of p2] mpsc_invD(7) [OF inv, of p1 p2] by (auto split: if_splits)
  qed (use q th hl mpsc_invD(4-6) [OF inv] in \<open>auto simp: h_def\<close>)
qed

lemma mpsc_inv_link:
  assumes inv: "mpsc_inv s" and p: "linking s p = Some pn" and lk: "enqueue_link pn (sys_queue s) = Inr q"
  shows "mpsc_inv (s\<lparr>sys_queue := q, linking := (linking s)(p := None)\<rparr>)"
proof -
  let ?s' = "s\<lparr>sys_queue := q, linking := (linking s)(p := None)\<rparr>"
  obtain k n where pn: "pn = (k, Suc k)" and k: "mp_tail (sys_queue s) \<le> k" "k < mp_head (sys_queue s)"
      and n: "heap (sys_queue s) k = Some n" "node_next n = None"
    using mpsc_inv_linking [OF inv p] by blast
  have q: "heap q = (heap (sys_queue s))(k \<mapsto> n\<lparr>node_next := Some (Suc k)\<rparr>)" "mp_head q = mp_head (sys_queue s)"
      "next_addr q = next_addr (sys_queue s)" "mp_tail q = mp_tail (sys_queue s)"
    using lk pn n by (auto simp: enqueue_link_def)
  have only: "linking s p' = Some (k', Suc k') \<Longrightarrow> p' \<noteq> p \<Longrightarrow> k' \<noteq> k" for p' k'
    using mpsc_invD(7) [OF inv, of p' p] p pn by auto
  show ?thesis
  proof (rule mpsc_invI)
    fix j
    assume j: "mp_tail (sys_queue ?s') \<le> j" "j \<le> mp_head (sys_queue ?s')"
    then obtain m where m: "heap (sys_queue s) j = Some m" "0 < j \<longrightarrow> node_data m = enqueued s ! (j - 1)"
        "node_next m = None \<or> node_next m = Some (Suc j) \<and> j < mp_head (sys_queue s)"
        "node_next m = None \<and> j < mp_head (sys_queue s) \<longrightarrow> (\<exists>p. linking s p = Some (j, Suc j))"
      using mpsc_inv_node [OF inv, of j] q by auto
    have "\<exists>p'. ((linking s)(p := None)) p' = Some (j, Suc j)" if "node_next m = None" "j < mp_head (sys_queue s)" "j \<noteq> k"
      using m(4) that p pn by (metis Pair_inject fun_upd_other option.inject)
    then show "\<exists>n. heap (sys_queue ?s') j = Some n \<and> (0 < j \<longrightarrow> node_data n = enqueued ?s' ! (j - 1))
           \<and> (node_next n = None \<or> node_next n = Some (Suc j) \<and> j < mp_head (sys_queue ?s'))
           \<and> (node_next n = None \<and> j < mp_head (sys_queue ?s') \<longrightarrow> (\<exists>p. linking ?s' p = Some (j, Suc j)))"
      using m(1-3) q n k by (cases "j = k") auto
  next
    fix p' pn'
    assume "linking ?s' p' = Some pn'"
    then have l: "linking s p' = Some pn'" "p' \<noteq> p" by (auto split: if_splits)
    from mpsc_inv_linking [OF inv l(1)] obtain k' n' where "pn' = (k', Suc k')" "mp_tail (sys_queue s) \<le> k'"
      "k' < mp_head (sys_queue s)" "heap (sys_queue s) k' = Some n'" "node_next n' = None" by blast
    moreover from this have "k' \<noteq> k" using only l by blast
    ultimately show "\<exists>k n. pn' = (k, Suc k) \<and> mp_tail (sys_queue ?s') \<le> k \<and> k < mp_head (sys_queue ?s')
           \<and> heap (sys_queue ?s') k = Some n \<and> node_next n = None"
      using q by auto
  next
    fix p1 p2
    assume "linking ?s' p1 \<noteq> None" "linking ?s' p1 = linking ?s' p2"
    then show "p1 = p2" using mpsc_invD(7) [OF inv, of p1 p2] by (auto split: if_splits)
  qed (use q k mpsc_invD(1-6) [OF inv] in auto)
qed

lemma mpsc_inv_take:
  assumes inv: "mpsc_inv s" and tk: "NonIntrusive_Dequeue (sys_queue s) = Inr (Some x, q)"
  shows "mpsc_inv (s\<lparr>sys_queue := q, dequeued := dequeued s @ [x]\<rparr>)"
proof -
  let ?s' = "s\<lparr>sys_queue := q, dequeued := dequeued s @ [x]\<rparr>"
  define t where "t = mp_tail (sys_queue s)"
  have t: "t < mp_head (sys_queue s)" and free: "\<And>p. linking s p \<noteq> Some (t, Suc t)" and x: "x = enqueued s ! t"
    and q: "heap q = (heap (sys_queue s))(t := None)" "mp_tail q = Suc t" "mp_head q = mp_head (sys_queue s)"
      "next_addr q = next_addr (sys_queue s)"
    using Dequeue_cases [OF inv] tk by (auto simp: t_def)
  have lt: "Suc t \<le> k" "k \<noteq> t" if "linking s p = Some (k, Suc k)" for p k
    using mpsc_inv_linking [OF inv that] free [of p] that by (auto simp: t_def le_Suc_eq)
  show ?thesis
  proof (rule mpsc_invI)
    fix j
    assume "mp_tail (sys_queue ?s') \<le> j" "j \<le> mp_head (sys_queue ?s')"
    then show "\<exists>n. heap (sys_queue ?s') j = Some n \<and> (0 < j \<longrightarrow> node_data n = enqueued ?s' ! (j - 1))
           \<and> (node_next n = None \<or> node_next n = Some (Suc j) \<and> j < mp_head (sys_queue ?s'))
           \<and> (node_next n = None \<and> j < mp_head (sys_queue ?s') \<longrightarrow> (\<exists>p. linking ?s' p = Some (j, Suc j)))"
      using mpsc_inv_node [OF inv, of j] q by (auto simp: t_def)
  next
    fix p' pn'
    assume "linking ?s' p' = Some pn'"
    then have l: "linking s p' = Some pn'" by simp
    from mpsc_inv_linking [OF inv l] obtain k' n' where "pn' = (k', Suc k')"
      "k' < mp_head (sys_queue s)" "heap (sys_queue s) k' = Some n'" "node_next n' = None" by blast
    moreover from this have "Suc t \<le> k'" "k' \<noteq> t" using lt l by blast+
    ultimately show "\<exists>k n. pn' = (k, Suc k) \<and> mp_tail (sys_queue ?s') \<le> k \<and> k < mp_head (sys_queue ?s')
           \<and> heap (sys_queue ?s') k = Some n \<and> node_next n = None"
      using q by auto
  next
    fix p1 p2
    assume "linking ?s' p1 \<noteq> None" "linking ?s' p1 = linking ?s' p2"
    then show "p1 = p2" using mpsc_invD(7) [OF inv, of p1 p2] by auto
  qed (use q t x mpsc_invD(1-6) [OF inv] in \<open>auto simp: t_def take_Suc_conv_app_nth\<close>)
qed

lemma mpsc_inv_step:
  assumes inv: "mpsc_inv s" and "mstep s s'"
  shows "mpsc_inv s'"
  using assms(2)
proof (cases rule: mstep.cases)
  case (take_none q)
  then have "sys_queue s = q" using Dequeue_cases [OF inv] by auto
  then show ?thesis using take_none inv by (cases s) auto
next
  case (take_fault e)
  then show ?thesis using Dequeue_cases [OF inv] by auto
next
  case (link_fault p pn e)
  then show ?thesis using link_no_fault [OF inv] by blast
qed (use inv in \<open>auto intro: mpsc_inv_exchange mpsc_inv_link mpsc_inv_take\<close>)

lemma mpsc_inv_init: "mpsc_inv (mpsc_init undef)"
  by (rule mpsc_invI) (auto simp: mpsc_init_def mpsc_new_def)

lemma mpsc_reach_inv: "mpsc_reach undef s \<Longrightarrow> mpsc_inv s"
  by (induction rule: mpsc_reach.induct) (auto intro: mpsc_inv_init mpsc_inv_step)

lemma destroy_quiet:
  assumes "mpsc_inv s" "\<forall>p. linking s p = None" "mp_head (sys_queue s) - mp_tail (sys_queue s) < fuel"
  shows "\<exists>q. NonIntrusive_destroy fuel (sys_queue s) = Some (Inr (drop (mp_tail (sys_queue s)) (enqueued s), q)) \<and> (\<forall>k. heap q k = None)"
  using assms
proof (induction fuel arbitrary: s)
  case (Suc fuel)
  let ?q = "sys_queue s"
  note inv = Suc.prems(1)
  show ?case
  proof (cases "mp_tail ?q = mp_head ?q")
    case True
    then have "NonIntrusive_Dequeue ?q = Inr (None, ?q)" using Dequeue_cases [OF inv] by auto
    moreover obtain n where "heap ?q (mp_head ?q) = Some n" using mpsc_inv_node [OF inv, of "mp_head ?q"] True by auto
    moreover have "heap ?q k = None" if "k \<noteq> mp_head ?q" for k
      using inv that True by (auto simp: mpsc_inv_def Let_def neq_iff)
    ultimately show ?thesis using True mpsc_invD(3) [OF inv] by simp
  next
    case False
    define q where "q = ?q\<lparr>heap := (heap ?q)(mp_tail ?q := None), mp_tail := Suc (mp_tail ?q)\<rparr>"
    have d: "NonIntrusive_Dequeue ?q = Inr (Some (enqueued s ! mp_tail ?q), q)" and lt: "mp_tail ?q < length (enqueued s)"
      using Dequeue_cases [OF inv] False Suc.prems(2) mpsc_invD(3) [OF inv] by (auto simp: q_def)
    let ?s = "s\<lparr>sys_queue := q, dequeued := dequeued s @ [enqueued s ! mp_tail ?q]\<rparr>"
    have "length (enqueued s) - Suc (mp_tail ?q) < fuel" using Suc.prems(3) lt mpsc_invD(3) [OF inv] by linarith
    then obtain q' where "NonIntrusive_destroy fuel q = Some (Inr (drop (Suc (mp_tail ?q)) (enqueued s), q'))" "\<forall>k. heap q' k = None"
      using Suc.IH [of ?s] mpsc_inv_take [OF inv d] Suc.prems(2) mpsc_invD(3) [OF inv] by (auto simp: q_def)
    then show ?thesis using d lt by (simp add: Cons_nth_drop_Suc)
  qed
qed simp

text \<open>
  C23: However the producers and the consumer are interleaved, no access goes to a deleted node,
  and the values are taken in the order in which the producers exchanged the head, each once.  The destructor, called when no
  producer is in the middle of an \<open>Enqueue\<close>, ends, deletes exactly the values that were not taken, in their order, and leaves no
  node behind.
\<close>

theorem mpsc_safe_fifo:
  assumes "mpsc_reach undef s"
  shows "\<not> mp_fault s \<and> dequeued s = take (length (dequeued s)) (enqueued s)
    \<and> ((\<forall>p. linking s p = None) \<longrightarrow>
       (\<exists>q. NonIntrusive_destroy (Suc (length (enqueued s))) (sys_queue s) = Some (Inr (drop (length (dequeued s)) (enqueued s), q))
          \<and> (\<forall>k. heap q k = None)))"
proof -
  note inv = mpsc_reach_inv [OF assms]
  have "length (dequeued s) = mp_tail (sys_queue s)" "mp_head (sys_queue s) = length (enqueued s)" "\<not> mp_fault s"
      "dequeued s = take (mp_tail (sys_queue s)) (enqueued s)"
    using mpsc_invD [OF inv] by auto
  then show ?thesis using destroy_quiet [OF inv, of "Suc (length (enqueued s))"] by simp
qed

text \<open>
  \<open>Dequeue\<close> reports an empty queue only when everything enqueued has been taken, or the
  producer of the next value is between its exchange and its store; so once no producer is in
  the middle of an \<open>Enqueue\<close>, \<open>Dequeue\<close> succeeds until every value is taken.
\<close>

theorem mpsc_empty_iff:
  assumes "mpsc_reach undef s" and "\<forall>p. linking s p = None"
  shows "(\<exists>q. NonIntrusive_Dequeue (sys_queue s) = Inr (None, q)) \<longleftrightarrow> dequeued s = enqueued s"
proof -
  have inv: "mpsc_inv s" using assms(1) by (rule mpsc_reach_inv)
  have "mp_tail (sys_queue s) = mp_head (sys_queue s) \<longleftrightarrow> dequeued s = enqueued s"
    using mpsc_invD(2,3,4) [OF inv] by (metis length_take min.absorb2 take_all order_refl)
  then show ?thesis using Dequeue_cases [OF inv] assms(2) by auto
qed


subsection \<open>Used by one thread at a time, a FIFO queue\<close>

definition seq_state :: "'a list \<Rightarrow> 'a mpsc \<Rightarrow> 'a mpsc_sys" where
  "seq_state xs q = \<lparr>sys_queue = q, linking = (\<lambda>p. None), enqueued = xs, dequeued = take (mp_tail q) xs, mp_fault = False\<rparr>"

lemma seq_state_simps [simp]:
  "sys_queue (seq_state xs q) = q" "linking (seq_state xs q) = (\<lambda>p. None)" "enqueued (seq_state xs q) = xs"
  "dequeued (seq_state xs q) = take (mp_tail q) xs" "\<not> mp_fault (seq_state xs q)"
  by (simp_all add: seq_state_def)

definition mpsc_ok :: "'a mpsc \<Rightarrow> bool" where
  "mpsc_ok q \<longleftrightarrow> (\<exists>xs. mpsc_inv (seq_state xs q))"

definition mpsc_elems :: "'a mpsc \<Rightarrow> 'a list" where
  "mpsc_elems q = map (\<lambda>k. node_data (the (heap q (Suc k)))) [mp_tail q..<mp_head q]"

definition mpsc_push :: "'a \<Rightarrow> 'a mpsc \<Rightarrow> 'a mpsc" where
  "mpsc_push x q = (case NonIntrusive_Enqueue x q of Inr q' \<Rightarrow> q' | Inl e \<Rightarrow> q)"

definition mpsc_pop :: "'a mpsc \<Rightarrow> ('a \<times> 'a mpsc) option" where
  "mpsc_pop q = (case NonIntrusive_Dequeue q of Inr (Some x, q') \<Rightarrow> Some (x, q') | _ \<Rightarrow> None)"

lemma mpsc_elems_eq:
  assumes inv: "mpsc_inv (seq_state xs q)"
  shows "mpsc_elems q = drop (mp_tail q) xs"
proof (rule nth_equalityI)
  show "length (mpsc_elems q) = length (drop (mp_tail q) xs)"
    using mpsc_invD(3) [OF inv] by (simp add: mpsc_elems_def seq_state_def)
  fix i
  assume i: "i < length (mpsc_elems q)"
  then have "Suc (mp_tail q + i) \<le> mp_head q" by (simp add: mpsc_elems_def)
  then obtain n where "heap q (Suc (mp_tail q + i)) = Some n" "node_data n = xs ! (mp_tail q + i)"
    using mpsc_inv_node [OF inv, of "Suc (mp_tail q + i)"] by auto
  then show "mpsc_elems q ! i = drop (mp_tail q) xs ! i"
    using i mpsc_invD(2,3) [OF inv] by (simp add: mpsc_elems_def)
qed

lemma mpsc_push_inv:
  assumes inv: "mpsc_inv (seq_state xs q)"
  shows "mpsc_inv (seq_state (xs @ [x]) (mpsc_push x q)) \<and> mp_tail (mpsc_push x q) = mp_tail q"
proof -
  obtain pn q1 where ex: "enqueue_exchange x q = (pn, q1)" by (cases "enqueue_exchange x q")
  let ?s1 = "(seq_state xs q)\<lparr>sys_queue := q1, linking := [0 \<mapsto> pn], enqueued := xs @ [x]\<rparr>"
  have inv1: "mpsc_inv ?s1" using mpsc_inv_exchange [OF inv, of 0 x pn q1] ex by (simp add: seq_state_def)
  obtain q2 where lk: "enqueue_link pn q1 = Inr q2"
    using link_no_fault [OF inv1, of 0 pn] by (cases "enqueue_link pn q1") (auto simp: seq_state_def)
  have t: "mp_tail q2 = mp_tail q"
    using lk ex by (auto simp: enqueue_link_def enqueue_exchange_def Let_def split: option.splits)
  have "mpsc_inv (?s1\<lparr>sys_queue := q2, linking := [0 \<mapsto> pn](0 := None)\<rparr>)"
    using mpsc_inv_link [OF inv1, of 0 pn q2] lk by (simp add: seq_state_def)
  moreover have "?s1\<lparr>sys_queue := q2, linking := [0 \<mapsto> pn](0 := None)\<rparr> = seq_state (xs @ [x]) q2"
    using t mpsc_invD(2,3) [OF inv] by (auto simp: seq_state_def)
  moreover have "mpsc_push x q = q2" using ex lk by (simp add: mpsc_push_def NonIntrusive_Enqueue_def)
  ultimately show ?thesis using t by simp
qed

lemma mpsc_pop_None_iff:
  assumes inv: "mpsc_inv (seq_state xs q)"
  shows "mpsc_pop q = None \<longleftrightarrow> drop (mp_tail q) xs = []"
proof -
  have "mp_tail q \<le> length xs" "mp_head q = length xs" using mpsc_invD(2,3) [OF inv] by simp_all
  with Dequeue_cases [OF inv] show ?thesis by (elim disjE conjE) (simp_all add: mpsc_pop_def)
qed

lemma mpsc_pop_inv:
  assumes inv: "mpsc_inv (seq_state xs q)" and "mpsc_pop q = Some (x, q')"
  shows "mpsc_inv (seq_state xs q') \<and> drop (mp_tail q) xs = x # drop (mp_tail q') xs"
proof -
  have d: "NonIntrusive_Dequeue q = Inr (Some x, q')"
    using assms(2) by (auto simp: mpsc_pop_def split: sum.splits option.splits)
  have t: "mp_tail q < length xs" "x = xs ! mp_tail q" "mp_tail q' = Suc (mp_tail q)"
    using Dequeue_cases [OF inv] d mpsc_invD(3) [OF inv] by (auto simp: seq_state_def)
  have "mpsc_inv ((seq_state xs q)\<lparr>sys_queue := q', dequeued := take (mp_tail q) xs @ [x]\<rparr>)"
    using mpsc_inv_take [OF inv, of x q'] d by (simp add: seq_state_def)
  moreover have "(seq_state xs q)\<lparr>sys_queue := q', dequeued := take (mp_tail q) xs @ [x]\<rparr> = seq_state xs q'"
    using t by (simp add: seq_state_def take_Suc_conv_app_nth)
  ultimately show ?thesis using t by (simp add: Cons_nth_drop_Suc)
qed

interpretation mpq: fifo_queue "mpsc_new undef" mpsc_push mpsc_pop mpsc_elems mpsc_ok for undef :: 'a
proof unfold_locales
  show "mpsc_ok (mpsc_new undef)"
    unfolding mpsc_ok_def by (rule exI [of _ "[]"]) (use mpsc_inv_init [of undef] in \<open>simp add: seq_state_def mpsc_init_def\<close>)
  show "mpsc_elems (mpsc_new undef) = []" by (simp add: mpsc_elems_def mpsc_new_def)
next
  fix q :: "'a mpsc" and x
  assume "mpsc_ok q"
  then obtain xs where inv: "mpsc_inv (seq_state xs q)" by (auto simp: mpsc_ok_def)
  note p = mpsc_push_inv [OF inv, of x]
  show "mpsc_ok (mpsc_push x q)" using p by (auto simp: mpsc_ok_def)
  show "mpsc_elems (mpsc_push x q) = mpsc_elems q @ [x]"
    using p mpsc_elems_eq [OF inv] mpsc_elems_eq [OF conjunct1 [OF p]] mpsc_invD(2,3) [OF inv] by simp
  show "mpsc_pop q = None \<longleftrightarrow> mpsc_elems q = []"
    using mpsc_pop_None_iff [OF inv] mpsc_elems_eq [OF inv] by simp
  fix q'
  assume "mpsc_pop q = Some (x, q')"
  from mpsc_pop_inv [OF inv this] show "mpsc_ok q' \<and> mpsc_elems q = x # mpsc_elems q'"
    using mpsc_elems_eq [OF inv] mpsc_elems_eq [of xs q'] by (auto simp: mpsc_ok_def)
qed

subsection \<open>Concrete runs\<close>

text \<open>One producer has enqueued a value and another is half way through its \<open>Enqueue\<close>.\<close>

definition sample_mpsc :: "nat mpsc_sys" where
  "sample_mpsc =
     (let s0 = mpsc_init 0; (pn, q1) = enqueue_exchange 7 (sys_queue s0);
          s1 = s0\<lparr>sys_queue := q1, linking := (linking s0)(0 \<mapsto> pn), enqueued := enqueued s0 @ [7]\<rparr>
      in s1)"

lemma sample_mpsc_reach: "mpsc_reach 0 sample_mpsc"
  unfolding sample_mpsc_def Let_def case_prod_beta
  by (rule mreach_step [OF mreach_init], rule exchange) (simp_all add: mpsc_init_def)

theorem mpsc_safe_fifo_witness:
  "enqueued sample_mpsc = [7] \<and> \<not> mp_fault sample_mpsc \<and> dequeued sample_mpsc = []
     \<and> (\<exists>q. NonIntrusive_destroy 1 (mpsc_new (0 :: nat)) = Some (Inr ([], q)) \<and> (\<forall>k. heap q k = None))"
  using mpsc_safe_fifo [OF sample_mpsc_reach] mpsc_safe_fifo [OF mreach_init [of "0 :: nat"]]
  by (simp add: sample_mpsc_def mpsc_init_def case_prod_beta Let_def)

theorem mpsc_empty_iff_witness:
  "(\<exists>q. NonIntrusive_Dequeue (sys_queue (mpsc_init (0 :: nat))) = Inr (None, q))
     \<longleftrightarrow> dequeued (mpsc_init (0 :: nat)) = enqueued (mpsc_init 0)"
  by (rule mpsc_empty_iff [OF mreach_init]) (simp add: mpsc_init_def)

end
