(* ===== verification/Config.thy ===== *)
theory Config
  imports StrUtil Interfaces
begin

section \<open>The configuration\<close>

text \<open>
  \<^verbatim>\<open>src/src/common/Configuration/Config.cpp\<close>.  The state is the option table, the name of the
  configuration file and whether only the \<^verbatim>\<open>.dist\<close> file was used.  The file system is the function
  \<open>fs\<close>: \<open>None\<close> is a file that cannot be opened.  Messages are not modelled, but \<open>GetOption\<close> says
  whether it logs an error.  The build option \<^verbatim>\<open>CONFIG_ABORT_INCORRECT_OPTIONS\<close> is off, as it is by
  default.
\<close>

subsection \<open>The option table\<close>

type_synonym options = "(string \<times> string) list"

record config_mgr =
  config_filename :: string
  configOptions :: options
  usingDistConfig :: bool

definition IsLoggingSystemOptions :: "string \<Rightarrow> bool" where
  "IsLoggingSystemOptions optionName =
     (contains_str optionName ''LogChannel.'' \<or> contains_str optionName ''Logger.'')"

definition set_option :: "string \<Rightarrow> string \<Rightarrow> options \<Rightarrow> options" where
  "set_option name value opts =
     emplace name value (if map_of opts name \<noteq> None then map_erase name opts else opts)"

definition AddKey :: "bool \<Rightarrow> string \<Rightarrow> string \<Rightarrow> options \<Rightarrow> options" where
  "AddKey isOptional optionName optionKey opts =
     (if isOptional \<and> map_of opts optionName = None \<and> \<not> IsLoggingSystemOptions optionName then opts
      else set_option optionName optionKey opts)"

subsection \<open>Parsing a file\<close>

text \<open>One line: \<open>None\<close> is a line that is skipped.\<close>

definition parse_line :: "string \<Rightarrow> (string \<times> string) option" where
  "parse_line raw =
     (let line = Trim raw
      in if line = [] then None
         else if hd line = CHR ''#'' \<or> hd line = CHR ''['' then None
         else let line' = (case index_of (CHR ''#'') line of Some found \<Rightarrow> substr line 0 found | None \<Rightarrow> line)
              in case index_of (CHR ''='') line' of
                   None \<Rightarrow> None
                 | Some equal_pos \<Rightarrow>
                     Some (Trim (substr line' 0 equal_pos),
                           filter (\<lambda>c. c \<noteq> CHR 0x22) (Trim (drop (Suc equal_pos) line'))))"

fun parse_lines :: "string list \<Rightarrow> options \<Rightarrow> nat \<Rightarrow> options \<times> nat" where
  "parse_lines [] fileConfigs n = (fileConfigs, n)"
| "parse_lines (line # lines) fileConfigs n =
     (case parse_line line of
        None \<Rightarrow> parse_lines lines fileConfigs n
      | Some (entry, value) \<Rightarrow>
          if map_of fileConfigs entry \<noteq> None then parse_lines lines fileConfigs n
          else parse_lines lines (emplace entry value fileConfigs) (Suc n))"

text \<open>\<open>ConfigException\<close>: the file cannot be opened, or holds no option.\<close>

datatype config_error = FailedOpen | EmptyFile

text \<open>
  \<open>order\<close> is the iteration order of the temporary \<open>unordered_map\<close>, a permutation.
\<close>

definition ParseFile ::
  "(options \<Rightarrow> options) \<Rightarrow> (string \<Rightarrow> string option) \<Rightarrow> string \<Rightarrow> bool \<Rightarrow> options \<Rightarrow> config_error + bool \<times> options" where
  "ParseFile order fs file isOptional opts =
     (case fs file of
        None \<Rightarrow> if isOptional then Inr (False, opts) else Inl FailedOpen
      | Some text \<Rightarrow>
          let (fileConfigs, n) = parse_lines (split_on (CHR 0x0A) text) [] 0
          in if n = 0 then (if isOptional then Inr (False, opts) else Inl EmptyFile)
             else Inr (True, fold (\<lambda>(entry, key). AddKey isOptional entry key) (order fileConfigs) opts))"

definition LoadFile ::
  "(options \<Rightarrow> options) \<Rightarrow> (string \<Rightarrow> string option) \<Rightarrow> string \<Rightarrow> bool \<Rightarrow> options \<Rightarrow> bool \<times> options" where
  "LoadFile order fs file isOptional opts =
     (case ParseFile order fs file isOptional opts of Inr r \<Rightarrow> r | Inl e \<Rightarrow> (False, opts))"

subsection \<open>The manager\<close>

definition LoadInitial :: "(options \<Rightarrow> options) \<Rightarrow> (string \<Rightarrow> string option) \<Rightarrow> string \<Rightarrow> config_mgr \<Rightarrow> bool \<times> config_mgr" where
  "LoadInitial order fs file c = (let (ok, opts) = LoadFile order fs file False [] in (ok, c\<lparr>configOptions := opts\<rparr>))"

definition LoadAdditionalFile :: "(options \<Rightarrow> options) \<Rightarrow> (string \<Rightarrow> string option) \<Rightarrow> string \<Rightarrow> config_mgr \<Rightarrow> bool \<times> config_mgr" where
  "LoadAdditionalFile order fs file c =
     (let (ok, opts) = LoadFile order fs file True (configOptions c) in (ok, c\<lparr>configOptions := opts\<rparr>))"

definition Configure :: "string \<Rightarrow> config_mgr \<Rightarrow> config_mgr" where
  "Configure initFileName c = c\<lparr>config_filename := initFileName\<rparr>"

definition LoadAppConfigs :: "(options \<Rightarrow> options) \<Rightarrow> (string \<Rightarrow> string option) \<Rightarrow> config_mgr \<Rightarrow> bool \<times> config_mgr" where
  "LoadAppConfigs order fs c =
     (let (ok, c1) = LoadInitial order fs (config_filename c @ ''.dist'') c
      in if \<not> ok then (False, c1)
         else let (ok', c2) = LoadAdditionalFile order fs (config_filename c1) c1
              in (True, if \<not> ok' then c2\<lparr>usingDistConfig := True\<rparr> else c2))"

definition GetFilename :: "config_mgr \<Rightarrow> string" where
  "GetFilename c = (if usingDistConfig c then config_filename c @ ''.dist'' else config_filename c)"

text \<open>The value and whether an error is logged.\<close>

definition GetValueDefault_string :: "string \<Rightarrow> string \<Rightarrow> bool \<Rightarrow> config_mgr \<Rightarrow> string \<times> bool" where
  "GetValueDefault_string name dflt showLogs c =
     (case map_of (configOptions c) name of None \<Rightarrow> (dflt, showLogs) | Some v \<Rightarrow> (v, False))"

definition GetValueDefault_int :: "int_type \<Rightarrow> string \<Rightarrow> int \<Rightarrow> bool \<Rightarrow> config_mgr \<Rightarrow> int \<times> bool" where
  "GetValueDefault_int ty name dflt showLogs c =
     (case map_of (configOptions c) name of
        None \<Rightarrow> (dflt, showLogs)
      | Some v \<Rightarrow> (case FromString ty v 10 of None \<Rightarrow> (dflt, showLogs) | Some i \<Rightarrow> (i, False)))"

definition GetOption_int :: "int_type \<Rightarrow> string \<Rightarrow> int \<Rightarrow> bool \<Rightarrow> config_mgr \<Rightarrow> int \<times> bool" where
  "GetOption_int = GetValueDefault_int"

definition GetOption_bool :: "string \<Rightarrow> bool \<Rightarrow> bool \<Rightarrow> config_mgr \<Rightarrow> bool \<times> bool" where
  "GetOption_bool name dflt showLogs c =
     (let (val, logged) = GetValueDefault_string name (if dflt then ''1'' else ''0'') showLogs c
      in case BoolFromString val False of None \<Rightarrow> (dflt, showLogs) | Some b \<Rightarrow> (b, logged))"

definition GetKeysByString :: "string \<Rightarrow> config_mgr \<Rightarrow> string list" where
  "GetKeysByString name c =
     map fst (filter (\<lambda>(optionName, key). take (length name) optionName = name) (configOptions c))"

subsection \<open>The option table is a keyed store\<close>

lemma set_option_lookup: "map_of (set_option k v m) n = (if n = k then Some v else map_of m n)"
  by (auto simp: set_option_def map_of_emplace map_of_map_erase)

interpretation opts: keyed_store map_of set_option map_erase
  by unfold_locales (simp_all add: set_option_lookup map_of_map_erase)

subsection \<open>What loading does to the table\<close>

text \<open>The options a file gives, in the order of its lines.\<close>

definition file_entries :: "string \<Rightarrow> options" where
  "file_entries text = List.map_filter parse_line (split_on (CHR 0x0A) text)"

lemma parse_lines_lookup:
  "map_of (fst (parse_lines ls fc n)) k =
     (case map_of fc k of Some v \<Rightarrow> Some v | None \<Rightarrow> map_of (List.map_filter parse_line ls) k)"
  by (induction ls fc n rule: parse_lines.induct)
    (auto simp: List.map_filter_def map_of_emplace split: option.splits if_splits)

lemma parse_lines_distinct: "distinct (map fst fc) \<Longrightarrow> distinct (map fst (fst (parse_lines ls fc n)))"
  by (induction ls fc n rule: parse_lines.induct)
    (auto simp: distinct_emplace split: option.splits)


lemma parse_lines_count: "snd (parse_lines ls fc n) + length fc = n + length (fst (parse_lines ls fc n))"
  by (induction ls fc n rule: parse_lines.induct) (auto simp: emplace_def split: option.splits)

lemma map_of_Nil_iff: "map_of m = Map.empty \<longleftrightarrow> m = []"
  by (cases m) (auto simp: fun_eq_iff)

definition parsed :: "string \<Rightarrow> options" where
  "parsed text = fst (parse_lines (split_on (CHR 0x0A) text) [] 0)"

lemma parsed_lookup: "map_of (parsed text) = map_of (file_entries text)"
  by (rule ext) (simp add: parsed_def file_entries_def parse_lines_lookup)

lemma parsed_distinct: "distinct (map fst (parsed text))"
  by (simp add: parsed_def parse_lines_distinct)

lemma parsed_empty_iff: "parsed text = [] \<longleftrightarrow> file_entries text = []"
  by (metis parsed_lookup map_of_Nil_iff)

lemma ParseFile_Some:
  "fs file = Some text \<Longrightarrow> ParseFile order fs file opt opts =
     (if file_entries text = [] then (if opt then Inr (False, opts) else Inl EmptyFile)
      else Inr (True, fold (\<lambda>(entry, key). AddKey opt entry key) (order (parsed text)) opts))"
  using parse_lines_count [where ls = "split_on (CHR 0x0A) text" and fc = "[]" and n = 0] parsed_empty_iff [of "text"]
  by (auto simp: ParseFile_def parsed_def case_prod_beta Let_def)

lemma ParseFile_None:
  "fs file = None \<Longrightarrow> ParseFile order fs file opt opts = (if opt then Inr (False, opts) else Inl FailedOpen)"
  by (simp add: ParseFile_def)

lemma fold_AddKey_lookup:
  assumes "distinct (map fst kvs)"
  shows "map_of (fold (\<lambda>(entry, key). AddKey opt entry key) kvs opts) k =
     (case map_of kvs k of
        Some v \<Rightarrow> if opt \<and> map_of opts k = None \<and> \<not> IsLoggingSystemOptions k then None else Some v
      | None \<Rightarrow> map_of opts k)"
  using assms
proof (induction kvs arbitrary: opts)
  case Nil
  then show ?case by simp
next
  case (Cons kv kvs)
  obtain e v where kv: "kv = (e, v)" by (cases kv)
  have "map_of kvs e = None" using Cons.prems kv by (simp add: map_of_eq_None_iff)
  then show ?case using Cons kv
    by (auto simp: AddKey_def set_option_lookup split: option.splits)
qed

lemma map_of_order:
  assumes "\<forall>m. mset (order m) = mset m" and "distinct (map fst kvs)"
  shows "distinct (map fst (order kvs))" and "map_of (order kvs) = map_of kvs"
proof -
  have m: "mset (order kvs) = mset kvs" using assms(1) by simp
  then show d: "distinct (map fst (order kvs))" using assms(2) by (metis mset_eq_imp_distinct_iff mset_map)
  have "set (order kvs) = set kvs" using m by (metis set_mset_mset)
  then show "map_of (order kvs) = map_of kvs" using map_of_inject_set [OF d assms(2)] by simp
qed

lemma loaded_lookup:
  assumes "\<forall>m. mset (order m) = mset m"
  shows "map_of (fold (\<lambda>(entry, key). AddKey opt entry key) (order (parsed text)) opts) k =
     (case map_of (file_entries text) k of
        Some v \<Rightarrow> if opt \<and> map_of opts k = None \<and> \<not> IsLoggingSystemOptions k then None else Some v
      | None \<Rightarrow> map_of opts k)"
  by (simp add: fold_AddKey_lookup map_of_order [OF assms parsed_distinct] parsed_lookup)

text \<open>
  C29: The layering of the configuration files.  Loading succeeds exactly when the \<^verbatim>\<open>.dist\<close> file can
  be read and has an option.  Then an option has the value of its first line in the \<^verbatim>\<open>.conf\<close> file
  when the \<^verbatim>\<open>.dist\<close> file knows it too or it configures the logging, and otherwise the value of its
  first line in the \<^verbatim>\<open>.dist\<close> file, whatever the iteration order of the tables.
\<close>

theorem config_layering:
  assumes "\<forall>m. mset (order m) = mset m"
    and "LoadAppConfigs order fs c = (ok, c')"
  defines "dist \<equiv> (case fs (config_filename c @ ''.dist'') of None \<Rightarrow> [] | Some t \<Rightarrow> file_entries t)"
    and "conf \<equiv> (case fs (config_filename c) of None \<Rightarrow> [] | Some t \<Rightarrow> file_entries t)"
  shows "ok = (dist \<noteq> [])
    \<and> (ok \<longrightarrow> usingDistConfig c' = (usingDistConfig c \<or> conf = [])
        \<and> (\<forall>k. map_of (configOptions c') k =
             (case map_of conf k of
                Some v \<Rightarrow> if map_of dist k \<noteq> None \<or> IsLoggingSystemOptions k then Some v else None
              | None \<Rightarrow> map_of dist k)))"
proof (cases "dist = []")
  case True
  then have "LoadFile order fs (config_filename c @ ''.dist'') False [] = (False, [])"
    by (auto simp: LoadFile_def ParseFile_Some dist_def ParseFile_None split: option.splits)
  then show ?thesis using True assms(2) by (auto simp: LoadAppConfigs_def LoadInitial_def)
next
  case False
  then obtain t where t: "fs (config_filename c @ ''.dist'') = Some t" "dist = file_entries t" "file_entries t \<noteq> []"
    by (auto simp: dist_def split: option.splits)
  define o1 where "o1 = fold (\<lambda>(entry, key). AddKey False entry key) (order (parsed t)) []"
  have o1: "LoadFile order fs (config_filename c @ ''.dist'') False [] = (True, o1)"
    using t by (simp add: LoadFile_def ParseFile_Some o1_def)
  have l1: "map_of o1 k = map_of dist k" for k
    using loaded_lookup [OF assms(1), of False t "[]" k] t by (simp add: o1_def split: option.splits)
  show ?thesis
  proof (cases "conf = []")
    case True
    then have "LoadFile order fs (config_filename c) True o1 = (False, o1)"
      by (auto simp: LoadFile_def ParseFile_Some conf_def ParseFile_None split: option.splits)
    then show ?thesis using True False assms(2) o1 l1
      by (auto simp: LoadAppConfigs_def LoadInitial_def LoadAdditionalFile_def)
  next
    case False2: False
    then obtain t2 where t2: "fs (config_filename c) = Some t2" "conf = file_entries t2" "file_entries t2 \<noteq> []"
      by (auto simp: conf_def split: option.splits)
    define o2 where "o2 = fold (\<lambda>(entry, key). AddKey True entry key) (order (parsed t2)) o1"
    have "LoadFile order fs (config_filename c) True o1 = (True, o2)"
      using t2 by (simp add: LoadFile_def ParseFile_Some o2_def)
    moreover have "map_of o2 k = (case map_of conf k of
                Some v \<Rightarrow> if map_of dist k \<noteq> None \<or> IsLoggingSystemOptions k then Some v else None
              | None \<Rightarrow> map_of dist k)" for k
      using loaded_lookup [OF assms(1), of True t2 o1 k] t2 l1 by (auto simp: o2_def split: option.splits)
    ultimately show ?thesis using False False2 assms(2) o1
      by (auto simp: LoadAppConfigs_def LoadInitial_def LoadAdditionalFile_def)
  qed
qed


subsection \<open>Reading back what is written\<close>

definition render_option :: "string \<times> string \<Rightarrow> string" where
  "render_option kv = fst kv @ '' = '' @ snd kv"

definition clean_option :: "string \<times> string \<Rightarrow> bool" where
  "clean_option kv =
     (let (k, v) = kv
      in k \<noteq> [] \<and> \<not> is_space (hd k) \<and> \<not> is_space (last k) \<and> hd k \<noteq> CHR ''['' \<and> CHR ''='' \<notin> set k
         \<and> CHR ''#'' \<notin> set (k @ v) \<and> CHR 0x0A \<notin> set (k @ v) \<and> CHR 0x22 \<notin> set v
         \<and> (v \<noteq> [] \<longrightarrow> \<not> is_space (hd v) \<and> \<not> is_space (last v)))"

lemma is_space_blank [simp]: "is_space (CHR '' '')"
  by (simp add: is_space_def)

lemma Trim_snoc_blank: "Trim (s @ [CHR '' '']) = Trim s"
proof (cases "list_all is_space s")
  case True
  then have all: "\<And>x. x \<in> set s \<Longrightarrow> is_space x" by (simp add: list_all_iff)
  then have "dropWhile is_space s = []" by simp
  moreover have "dropWhile is_space (s @ [CHR '' '']) = []" using all by (subst dropWhile_append2) simp_all
  ultimately show ?thesis by (simp add: Trim_eq del: dropWhile_eq_Nil_conv)
next
  case False
  then have "dropWhile is_space (s @ [CHR '' '']) = dropWhile is_space s @ [CHR '' '']"
    by (auto simp: list_all_iff dropWhile_append1)
  then show ?thesis by (simp add: Trim_eq)
qed

lemma Trim_Cons_blank: "Trim (CHR '' '' # s) = Trim s"
  by (simp add: Trim_eq)

lemma parse_render:
  assumes "clean_option kv"
  shows "parse_line (render_option kv) = Some kv"
proof -
  obtain k v where kv: "kv = (k, v)" by (cases kv)
  have c: "k \<noteq> []" "\<not> is_space (hd k)" "\<not> is_space (last k)" "hd k \<noteq> CHR ''[''" "CHR ''='' \<notin> set k"
      "CHR ''#'' \<notin> set k" "CHR ''#'' \<notin> set v" "CHR 0x22 \<notin> set v" "v \<noteq> [] \<Longrightarrow> \<not> is_space (hd v) \<and> \<not> is_space (last v)"
    using assms kv by (auto simp: clean_option_def)
  have tk: "Trim k = k" using c by (simp add: Trim_id)
  have tv: "Trim v = v" using c(9) by (cases "v = []") (simp add: Trim_eq, simp add: Trim_id)
  define line where "line = Trim (render_option kv)"
  have line: "line = k @ '' ='' @ (if v = [] then [] else CHR '' '' # v)"
  proof (cases "v = []")
    case True
    then have "line = Trim ((k @ '' ='') @ [CHR '' ''])" by (simp add: line_def render_option_def kv)
    also have "\<dots> = k @ '' =''"
      using c by (simp only: Trim_snoc_blank) (simp add: Trim_id is_space_def)
    finally show ?thesis using True by simp
  next
    case False
    then show ?thesis using c by (simp add: line_def render_option_def kv Trim_id)
  qed
  have pos: "index_of (CHR ''='') line = Some (Suc (length k))"
    using index_of_append_hit [of "CHR ''=''" "k @ '' ''" "if v = [] then [] else CHR '' '' # v"] c(5) by (simp add: line)
  have hash: "index_of (CHR ''#'') line = None" and hd: "hd line \<noteq> CHR ''#''" "hd line \<noteq> CHR ''[''" "line \<noteq> []"
    using c by (auto simp: line) (metis hd_in_set)
  have "Trim (substr line 0 (Suc (length k))) = k"
    using tk by (simp add: line substr_def Trim_snoc_blank)
  moreover have "Trim (drop (Suc (Suc (length k))) line) = v"
    using tv by (auto simp: line Trim_Cons_blank)
  moreover have "filter (\<lambda>x. x \<noteq> CHR 0x22) v = v" using c(8) by (induction v) auto
  ultimately show ?thesis
    using pos hash hd by (simp add: parse_line_def Let_def kv del: index_of_None flip: line_def [unfolded kv])
qed

lemma file_entries_render:
  assumes "opts \<noteq> []" and "list_all clean_option opts"
  shows "file_entries (join_with (CHR 0x0A) (map render_option opts)) = opts"
proof -
  have "CHR 0x0A \<notin> set (render_option kv)" if "kv \<in> set opts" for kv
    using that assms(2) by (auto simp: list_all_iff render_option_def clean_option_def)
  then have "split_on (CHR 0x0A) (join_with (CHR 0x0A) (map render_option opts)) = map render_option opts"
    using assms(1) by (intro split_join) auto
  moreover have "List.map_filter parse_line (map render_option opts) = opts"
    using assms(2) by (induction opts) (auto simp: List.map_filter_def parse_render)
  ultimately show ?thesis by (simp add: file_entries_def)
qed

text \<open>
  A configuration file written with one \<open>key = value\<close> line per option is read back as those
  options, for keys and values without comment signs, quotes, line breaks and outer blanks.
\<close>

theorem config_file_roundtrip:
  assumes "\<forall>m. mset (order m) = mset m" and "opts \<noteq> []" and "list_all clean_option opts"
    and "fs file = Some (join_with (CHR 0x0A) (map render_option opts))"
  shows "\<exists>c'. LoadInitial order fs file c = (True, c') \<and> map_of (configOptions c') = map_of opts"
proof -
  note e = file_entries_render [OF assms(2,3)]
  let ?t = "join_with (CHR 0x0A) (map render_option opts)"
  have "map_of (fold (\<lambda>(entry, key). AddKey False entry key) (order (parsed ?t)) []) = map_of opts"
    using loaded_lookup [OF assms(1), of False ?t "[]"] by (intro ext) (simp add: e split: option.splits)
  then show ?thesis using assms(2,4) e by (simp add: LoadInitial_def LoadFile_def ParseFile_Some)
qed

text \<open>
  An integer option never has a value outside its type, provided the default is one; and an
  option that was written with \<open>ToString\<close> is read as that value, without an error in the log.
\<close>

theorem option_int_typed:
  assumes "in_range ty dflt"
  shows "in_range ty (fst (GetOption_int ty name dflt logs c))
     \<and> (\<forall>i s. in_range ty i \<and> ToString i = Inr s \<and> map_of (configOptions c) name = Some s
          \<longrightarrow> GetOption_int ty name dflt logs c = (i, False))"
  using assms FromString_in_range [of ty _ 10]
  by (auto simp: GetOption_int_def GetValueDefault_int_def ToString_def to_chars_def Let_def FromString_show_int
      split: option.splits if_splits)

subsection \<open>Concrete configurations\<close>

abbreviation sample_fs :: "string \<Rightarrow> string option" where
  "sample_fs \<equiv> [''b.conf.dist'' \<mapsto> ''A = 1'' @ [CHR 0x0A] @ ''B = 2'', ''b.conf'' \<mapsto> ''B = 3'' @ [CHR 0x0A] @ ''X = 9'']"

abbreviation sample_cfg :: config_mgr where
  "sample_cfg \<equiv> \<lparr>config_filename = ''b.conf'', configOptions = [], usingDistConfig = False\<rparr>"

theorem config_layering_witness:
  "LoadAppConfigs (\<lambda>m. m) sample_fs sample_cfg
     = (True, \<lparr>config_filename = ''b.conf'', configOptions = [(''A'', ''1''), (''B'', ''3'')], usingDistConfig = False\<rparr>)
   \<and> file_entries (''A = 1'' @ [CHR 0x0A] @ ''B = 2'') \<noteq> []"
proof -
  have l: "LoadAppConfigs (\<lambda>m. m) sample_fs sample_cfg
     = (True, \<lparr>config_filename = ''b.conf'', configOptions = [(''A'', ''1''), (''B'', ''3'')], usingDistConfig = False\<rparr>)"
    by code_simp
  show ?thesis using l config_layering [OF _ l] by simp
qed

theorem config_file_roundtrip_witness:
  "\<exists>c'. LoadInitial (\<lambda>m. m) [''f'' \<mapsto> join_with (CHR 0x0A) (map render_option [(''A'', ''1''), (''B'', ''x y'')])] ''f'' sample_cfg = (True, c')
      \<and> map_of (configOptions c') = map_of [(''A'', ''1''), (''B'', ''x y'')]"
proof (rule config_file_roundtrip)
  show "list_all clean_option [(''A'', ''1''), (''B'', ''x y'')]" by code_simp
qed simp_all

theorem option_int_typed_witness:
  "in_range (uint_ty 8) 7 \<and> in_range (uint_ty 8) (fst (GetOption_int (uint_ty 8) ''A'' 7 True
     (sample_cfg\<lparr>configOptions := [(''A'', ''999'')]\<rparr>)))"
proof -
  have r: "in_range (uint_ty 8) 7" by (simp add: in_range_def int_min_def int_max_def)
  show ?thesis using r option_int_typed [OF r] by simp
qed

end
