(* ===== verification/LogChannel.thy ===== *)
theory LogChannel
  imports StrUtil
begin

section \<open>Log levels, message patterns and the console channel\<close>

text \<open>
  \<^verbatim>\<open>src/src/common/Logging/LogCommon.h\<close>, \<^verbatim>\<open>LogMessage.h\<close>, \<^verbatim>\<open>LogChannel.cpp\<close> and \<^verbatim>\<open>ConsoleChannel.cpp\<close>.
  A channel parses its pattern once, in its constructor, and formats every message with it.  The
  pattern is parsed with iterators; in the model an iterator is an index, and reading the
  character at or past the end is \<open>Undefined\<close>.  An exception (\<open>throw Exception\<close>) is \<open>Inl ()\<close> of the
  inner sum.
\<close>

subsection \<open>Levels and messages\<close>

datatype LogLevel = Disabled | Fatal | Critical | Error | Warning | Info | Debug | Trace | LevelMax

fun level_num :: "LogLevel \<Rightarrow> nat" where
  "level_num Disabled = 0" | "level_num Fatal = 1" | "level_num Critical = 2" | "level_num Error = 3"
| "level_num Warning = 4" | "level_num Info = 5" | "level_num Debug = 6" | "level_num Trace = 7" | "level_num LevelMax = 8"

lemma level_num_inject [simp]: "level_num a = level_num b \<longleftrightarrow> a = b"
  by (cases a; cases b) simp_all

instantiation LogLevel :: linorder
begin

definition less_eq_LogLevel :: "LogLevel \<Rightarrow> LogLevel \<Rightarrow> bool" where
  "less_eq_LogLevel a b \<longleftrightarrow> level_num a \<le> level_num b"

definition less_LogLevel :: "LogLevel \<Rightarrow> LogLevel \<Rightarrow> bool" where
  "less_LogLevel a b \<longleftrightarrow> level_num a < level_num b"

instance
  by standard (auto simp: less_eq_LogLevel_def less_LogLevel_def)

end

fun GetLogLevelName :: "LogLevel \<Rightarrow> string" where
  "GetLogLevelName Disabled = ''Disabled''" | "GetLogLevelName Fatal = ''Fatal''"
| "GetLogLevelName Critical = ''Critical''" | "GetLogLevelName Error = ''Error''"
| "GetLogLevelName Warning = ''Warning''" | "GetLogLevelName Info = ''Info''"
| "GetLogLevelName Debug = ''Debug''" | "GetLogLevelName Trace = ''Trace''" | "GetLogLevelName LevelMax = ''Max''"

record log_message =
  msg_source :: string
  msg_text :: string
  msg_level :: LogLevel
  msg_file :: string
  msg_line :: nat
  msg_option :: string

subsection \<open>Parsing a pattern\<close>

record PatternAction =
  pa_key :: char
  pa_length :: nat
  pa_property :: string
  pa_prepend :: string

definition end_action :: "string \<Rightarrow> PatternAction" where
  "end_action pre = \<lparr>pa_key = CHR 0x00, pa_length = 0, pa_property = [], pa_prepend = pre\<rparr>"

definition deref :: "string \<Rightarrow> nat \<Rightarrow> char res" where
  "deref p it = (if it < length p then Inr (p ! it) else Inl Undefined)"

text \<open>\<open>while (it != end && *it != ']') acc += *it++;\<close>\<close>

function until_bracket :: "string \<Rightarrow> nat \<Rightarrow> string \<Rightarrow> (string \<times> nat) res" where
  "until_bracket p it acc =
     (if it = length p then Inr (acc, it)
      else if length p < it then Inl Undefined
      else if p ! it = CHR '']'' then Inr (acc, it)
      else until_bracket p (Suc it) (acc @ [p ! it]))"
  by pat_completeness auto
termination
  by (relation "measure (\<lambda>(p, it, acc). length p - it)") auto

text \<open>The action after a percent sign at \<open>it - 1\<close>, and the iterator after it.\<close>

definition parse_action :: "string \<Rightarrow> nat \<Rightarrow> string \<Rightarrow> (unit + PatternAction \<times> nat) res" where
  "parse_action p it pre =
     bind_res (deref p it) (\<lambda>c.
       if c = CHR ''['' then
         bind_res (until_bracket p (Suc it) []) (\<lambda>(prop, it').
           let it'' = (if it' = length p then it' - 1 else it')
           in Inr (Inr (\<lparr>pa_key = CHR ''x'', pa_length = 0, pa_property = prop, pa_prepend = pre\<rparr>, Suc it'')))
       else if Suc it \<noteq> length p then
         bind_res (deref p (Suc it)) (\<lambda>d.
           if d = CHR ''['' then
             bind_res (until_bracket p (it + 2) []) (\<lambda>(number, it').
               let it'' = (if it' = length p then it' - 1 else it')
               in case FromString (uint_ty 64) number 10 of
                    None \<Rightarrow> Inr (Inl ())
                  | Some n \<Rightarrow> Inr (Inr (\<lparr>pa_key = c, pa_length = nat n, pa_property = [], pa_prepend = pre\<rparr>, Suc it'')))
           else Inr (Inr (\<lparr>pa_key = c, pa_length = 0, pa_property = [], pa_prepend = pre\<rparr>, Suc it)))
       else Inr (Inr (\<lparr>pa_key = c, pa_length = 0, pa_property = [], pa_prepend = pre\<rparr>, Suc it)))"

declare until_bracket.simps [simp del]

lemma until_bracket_pos: "until_bracket p it acc = Inr (s, it') \<Longrightarrow> it \<le> it' \<and> it' \<le> length p"
proof (induction p it acc rule: until_bracket.induct)
  case (1 p it acc)
  consider "it = length p" | "length p < it" | "it < length p" "p ! it = CHR '']''" | "it < length p" "p ! it \<noteq> CHR '']''"
    by linarith
  then show ?case
  proof cases
    case 4
    then have "until_bracket p (Suc it) (acc @ [p ! it]) = Inr (s, it')"
      using "1.prems" by (simp add: until_bracket.simps [of p it acc])
    then show ?thesis using 4 "1.IH" by auto
  qed (use "1.prems" in \<open>simp_all add: until_bracket.simps\<close>)
qed

lemma parse_action_advances: "parse_action p it pre = Inr (Inr (a, it')) \<Longrightarrow> it < it'"
  by (auto simp: parse_action_def bind_res_eq_Inr deref_def Let_def dest!: until_bracket_pos split: if_splits option.splits)

function parse_loop :: "string \<Rightarrow> nat \<Rightarrow> string \<Rightarrow> PatternAction list \<Rightarrow> (unit + PatternAction list) res" where
  "parse_loop p it pre acts =
     (if it = length p then Inr (Inr (if pre = [] then acts else acts @ [end_action pre]))
      else if length p < it then Inl Undefined
      else if p ! it \<noteq> CHR ''%'' then parse_loop p (Suc it) (pre @ [p ! it]) acts
      else if Suc it = length p then parse_loop p (Suc it) pre acts
      else case parse_action p (Suc it) pre of
             Inl e \<Rightarrow> Inl e
           | Inr (Inl u) \<Rightarrow> Inr (Inl u)
           | Inr (Inr (act, it')) \<Rightarrow> parse_loop p it' [] (acts @ [act]))"
  by pat_completeness auto
termination
  by (relation "measure (\<lambda>(p, it, pre, acts). length p - it)") (auto dest: parse_action_advances)

definition ParsePattern :: "string \<Rightarrow> (unit + PatternAction list) res" where
  "ParsePattern p =
     (if p = [] then Inr (Inl ())
      else bind_res (parse_loop p 0 [] []) (\<lambda>r.
        case r of Inl u \<Rightarrow> Inr (Inl u) | Inr acts \<Rightarrow> if acts = [] then Inr (Inl ()) else Inr (Inr acts)))"

declare parse_loop.simps [simp del]

subsection \<open>Formatting a message\<close>

text \<open>
  The fields of the time stamp come from the formatting library; \<open>time_field\<close> maps a key to the
  text it gives.
\<close>

definition pad_source :: "nat \<Rightarrow> string \<Rightarrow> string" where
  "pad_source len source =
     (if length source < len then source @ replicate (len - length source) (CHR '' '')
      else if len \<noteq> 0 \<and> len < length source then substr source (length source - len) len
      else source)"

definition file_part :: "string \<Rightarrow> string" where
  "file_part p = (case last_index_of (CHR ''/'') p of Some i \<Rightarrow> drop (Suc i) p | None \<Rightarrow> p)"

definition format_key :: "(char \<Rightarrow> string) \<Rightarrow> log_message \<Rightarrow> PatternAction \<Rightarrow> string" where
  "format_key time_field msg pa =
     (let k = pa_key pa
      in if k = CHR ''s'' then msg_source msg
         else if k = CHR ''t'' then msg_text msg
         else if k = CHR ''l'' then show_nat (level_num (msg_level msg))
         else if k = CHR ''p'' then GetLogLevelName (msg_level msg)
         else if k = CHR ''q'' then take 1 (GetLogLevelName (msg_level msg))
         else if k = CHR ''U'' then msg_file msg
         else if k = CHR ''O'' then file_part (msg_file msg)
         else if k = CHR ''u'' then show_nat (msg_line msg)
         else if k \<in> set ''wWbBdmnyYhHAMSE'' then time_field k
         else if k = CHR ''v'' then pad_source (pa_length pa) (msg_source msg)
         else [])"

fun format_actions :: "(char \<Rightarrow> string) \<Rightarrow> log_message \<Rightarrow> PatternAction list \<Rightarrow> string" where
  "format_actions time_field msg [] = []"
| "format_actions time_field msg (pa # pas) = pa_prepend pa @ format_key time_field msg pa @ format_actions time_field msg pas"

definition Format :: "(char \<Rightarrow> string) \<Rightarrow> PatternAction list \<Rightarrow> log_message \<Rightarrow> string" where
  "Format time_field acts msg = (if acts = [] then msg_text msg else format_actions time_field msg acts)"

subsection \<open>The iterators stay in the pattern\<close>

lemma until_bracket_eq:
  "it \<le> length p \<Longrightarrow> until_bracket p it acc =
     Inr (acc @ takeWhile (\<lambda>c. c \<noteq> CHR '']'') (drop it p), it + length (takeWhile (\<lambda>c. c \<noteq> CHR '']'') (drop it p)))"
proof (induction "length p - it" arbitrary: it acc)
  case 0
  then show ?case by (simp add: until_bracket.simps)
next
  case (Suc n)
  then have lt: "it < length p" by simp
  show ?case
  proof (cases "p ! it = CHR '']''")
    case True
    then show ?thesis using lt by (simp add: until_bracket.simps Cons_nth_drop_Suc [OF lt, symmetric])
  next
    case False
    have "until_bracket p (Suc it) (acc @ [p ! it]) = Inr (acc @ p ! it # takeWhile (\<lambda>c. c \<noteq> CHR '']'') (drop (Suc it) p),
        Suc it + length (takeWhile (\<lambda>c. c \<noteq> CHR '']'') (drop (Suc it) p)))"
      using Suc.hyps(1) [of "Suc it" "acc @ [p ! it]"] Suc.hyps(2) lt by simp
    then show ?thesis using lt False
      by (simp add: until_bracket.simps [of p it acc] Cons_nth_drop_Suc [OF lt, symmetric])
  qed
qed

text \<open>The reference: a parser on the rest of the pattern.\<close>

abbreviation before_bracket :: "string \<Rightarrow> string" where
  "before_bracket s \<equiv> takeWhile (\<lambda>c. c \<noteq> CHR '']'') s"

abbreviation after_bracket :: "string \<Rightarrow> string" where
  "after_bracket s \<equiv> drop (Suc (length (before_bracket s))) s"

lemma after_bracket_shorter: "length (after_bracket s) \<le> length s"
  by simp

fun action_spec :: "string \<Rightarrow> string \<Rightarrow> unit + PatternAction \<times> string" where
  "action_spec pre [] = Inl ()"
| "action_spec pre (c # s) =
     (if c = CHR ''['' then Inr (\<lparr>pa_key = CHR ''x'', pa_length = 0, pa_property = before_bracket s, pa_prepend = pre\<rparr>, after_bracket s)
      else if s \<noteq> [] \<and> hd s = CHR ''['' then
        (case FromString (uint_ty 64) (before_bracket (tl s)) 10 of
           None \<Rightarrow> Inl ()
         | Some n \<Rightarrow> Inr (\<lparr>pa_key = c, pa_length = nat n, pa_property = [], pa_prepend = pre\<rparr>, after_bracket (tl s)))
      else Inr (\<lparr>pa_key = c, pa_length = 0, pa_property = [], pa_prepend = pre\<rparr>, s))"

lemma action_spec_shorter: "action_spec pre (c # s) = Inr (a, r) \<Longrightarrow> length r \<le> length s"
  by (cases s) (auto split: if_splits option.splits)

function pattern_spec :: "string \<Rightarrow> string \<Rightarrow> unit + PatternAction list" where
  "pattern_spec pre [] = Inr (if pre = [] then [] else [end_action pre])"
| "pattern_spec pre (c # s) =
     (if c \<noteq> CHR ''%'' then pattern_spec (pre @ [c]) s
      else if s = [] then pattern_spec pre []
      else case action_spec pre s of
             Inl u \<Rightarrow> Inl u
           | Inr (a, r) \<Rightarrow> map_sum id ((#) a) (pattern_spec [] r))"
  by pat_completeness auto
termination
proof (relation "measure (\<lambda>(pre, s). length s)")
  fix pre c s x a r
  assume "\<not> c \<noteq> CHR ''%''" "s \<noteq> []" "action_spec pre s = Inr x" "(a, r) = x"
  then show "(([], r), pre, c # s) \<in> measure (\<lambda>(pre, s). length s)"
    using action_spec_shorter [of pre "hd s" "tl s" a r] by (cases s) auto
qed auto


lemma drop_length_drop: "drop (length p - length (drop k p)) p = drop k p"
  by (cases "k \<le> length p") auto

lemma bracket_end:
  assumes "it \<le> length p"
  defines "s \<equiv> drop it p"
  shows "Suc (if it + length (before_bracket s) = length p then it + length (before_bracket s) - 1 else it + length (before_bracket s))
     = (if it = length p then Suc (it - 1) else length p - length (after_bracket s))"
  using assms length_takeWhile_le [of "\<lambda>c. c \<noteq> CHR '']''" s] by (auto simp: s_def)

lemma parse_action_eq:
  assumes "it < length p"
  shows "parse_action p it pre = Inr (case action_spec pre (drop it p) of
     Inl u \<Rightarrow> Inl u | Inr (a, r) \<Rightarrow> Inr (a, length p - length r))"
    and "action_spec pre (drop it p) = Inr (a, r) \<Longrightarrow> r = drop (length p - length r) p"
proof -
  define s where "s = drop (Suc it) p"
  have c: "deref p it = Inr (p ! it)" and ds: "drop it p = p ! it # s"
    using assms by (auto simp: deref_def s_def Cons_nth_drop_Suc)
  have sN: "s = [] \<longleftrightarrow> Suc it = length p" using assms by (auto simp: s_def)
  have d: "deref p (Suc it) = Inr (hd s)" "drop (it + 2) p = tl s" "it + 2 \<le> length p" if "s \<noteq> []"
  proof -
    have lt: "Suc it < length p" using that sN assms by simp
    then show "deref p (Suc it) = Inr (hd s)" by (simp add: deref_def s_def hd_drop_conv_nth)
    show "drop (it + 2) p = tl s" using lt by (simp add: s_def tl_drop [symmetric] drop_Suc)
    show "it + 2 \<le> length p" using lt by simp
  qed
  show "parse_action p it pre = Inr (case action_spec pre (drop it p) of
     Inl u \<Rightarrow> Inl u | Inr (a, r) \<Rightarrow> Inr (a, length p - length r))"
  proof (cases "p ! it = CHR ''[''")
    case True
    have "until_bracket p (Suc it) [] = Inr (before_bracket s, Suc it + length (before_bracket s))"
      using until_bracket_eq [of "Suc it" p "[]"] assms by (simp add: s_def)
    then show ?thesis using True c ds bracket_end [of "Suc it" p] assms
      by (auto simp: parse_action_def Let_def s_def)
  next
    case False
    show ?thesis
    proof (cases "s \<noteq> [] \<and> hd s = CHR ''[''")
      case True
      then have d': "deref p (Suc it) = Inr (hd s)" "drop (it + 2) p = tl s" "it + 2 \<le> length p" using d by auto
      let ?b = "before_bracket (tl s)"
      have u: "until_bracket p (it + 2) [] = Inr (?b, it + 2 + length ?b)"
        using until_bracket_eq [OF d'(3), of "[]"] unfolding d'(2) by simp
      have e: "Suc (if it + 2 + length ?b = length p then it + 2 + length ?b - 1 else it + 2 + length ?b)
          = length p - length (after_bracket (tl s))"
        using bracket_end [OF d'(3)] unfolding d'(2) by (cases "it + 2 = length p") (use d'(2) in auto)
      have "Suc it \<noteq> length p" using True sN by simp
      then have "parse_action p it pre = (case FromString (uint_ty 64) ?b 10 of
           None \<Rightarrow> Inr (Inl ())
         | Some n \<Rightarrow> Inr (Inr (\<lparr>pa_key = p ! it, pa_length = nat n, pa_property = [], pa_prepend = pre\<rparr>,
             length p - length (after_bracket (tl s)))))"
        using True False c d'(1) by (simp only: parse_action_def bind_res.simps u Let_def prod.case e if_False if_True simp_thms)
      moreover have "action_spec pre (drop it p) = (case FromString (uint_ty 64) ?b 10 of
           None \<Rightarrow> Inl ()
         | Some n \<Rightarrow> Inr (\<lparr>pa_key = p ! it, pa_length = nat n, pa_property = [], pa_prepend = pre\<rparr>, after_bracket (tl s)))"
        using True False ds by simp
      ultimately show ?thesis by (cases "FromString (uint_ty 64) ?b 10") simp_all
    next
      case neither: False
      then show ?thesis using False c ds sN d assms
        by (auto simp: parse_action_def s_def)
    qed
  qed
  show "action_spec pre (drop it p) = Inr (a, r) \<Longrightarrow> r = drop (length p - length r) p"
    using drop_length_drop [of p] ds d(2)
    by (auto simp: s_def drop_Suc tl_drop split: if_splits option.splits)
qed

lemma parse_loop_eq:
  "it \<le> length p \<Longrightarrow> parse_loop p it pre acts = Inr (map_sum id ((@) acts) (pattern_spec pre (drop it p)))"
proof (induction "length p - it" arbitrary: it pre acts rule: less_induct)
  case less
  show ?case
  proof (cases "it = length p")
    case True
    then show ?thesis by (simp add: parse_loop.simps)
  next
    case False
    then have lt: "it < length p" using less.prems by simp
    have ds: "drop it p = p ! it # drop (Suc it) p" using lt by (simp add: Cons_nth_drop_Suc)
    consider "p ! it \<noteq> CHR ''%''" | "p ! it = CHR ''%''" "Suc it = length p" | "p ! it = CHR ''%''" "Suc it < length p"
      using lt by linarith
    then show ?thesis
    proof cases
      case 1
      then show ?thesis using lt less.hyps [of "Suc it" "pre @ [p ! it]" acts] ds
        by (simp add: parse_loop.simps [of p it])
    next
      case 2
      then show ?thesis using lt ds by (simp add: parse_loop.simps)
    next
      case 3
      note pa = parse_action_eq [OF 3(2), of pre]
      show ?thesis
      proof (cases "action_spec pre (drop (Suc it) p)")
        case (Inl u)
        then show ?thesis using 3 lt ds pa(1) by (simp add: parse_loop.simps [of p it])
      next
        case (Inr ar)
        obtain a r where ar: "ar = (a, r)" by (cases ar)
        let ?k = "length p - length r"
        have r: "r = drop ?k p" using pa(2) Inr ar by blast
        have pl: "parse_action p (Suc it) pre = Inr (Inr (a, ?k))" using pa(1) Inr ar by simp
        then have "Suc it < ?k" by (rule parse_action_advances)
        then have "parse_loop p ?k [] (acts @ [a]) = Inr (map_sum id ((@) (acts @ [a])) (pattern_spec [] (drop ?k p)))"
          using less.hyps [of ?k "[]" "acts @ [a]"] lt by simp
        then have "parse_loop p it pre acts = Inr (map_sum id ((@) (acts @ [a])) (pattern_spec [] r))"
          using 3 lt pl r by (simp add: parse_loop.simps [of p it])
        moreover have "pattern_spec pre (drop it p) = map_sum id ((#) a) (pattern_spec [] r)"
          using 3 ds Inr ar by simp
        ultimately show ?thesis by (cases "pattern_spec [] r") simp_all
      qed
    qed
  qed
qed

text \<open>
  C36: For every pattern, the iterators of \<open>ParsePattern\<close> stay inside the pattern, also when a
  bracket is never closed or the pattern ends in a percent sign, and the loop computes what the
  reference parser on the rest of the pattern does; it throws exactly when the pattern is empty,
  a length is not a number, or nothing but a percent sign is left.
\<close>

theorem pattern_parser_correct:
  "ParsePattern p = Inr (if p = [] then Inl () else case pattern_spec [] p of
     Inl u \<Rightarrow> Inl () | Inr acts \<Rightarrow> if acts = [] then Inl () else Inr acts)"
  using parse_loop_eq [of 0 p "[]" "[]"] by (cases "pattern_spec [] p") (auto simp: ParsePattern_def)

subsection \<open>What a parsed pattern prints\<close>

definition render_items :: "(string \<times> char) list \<Rightarrow> string" where
  "render_items items = concat (map (\<lambda>(lit, key). lit @ [CHR ''%'', key]) items)"

definition clean_item :: "string \<times> char \<Rightarrow> bool" where
  "clean_item it = (CHR ''%'' \<notin> set (fst it) \<and> take 1 (fst it) \<noteq> ''['' \<and> snd it \<noteq> CHR ''['')"

abbreviation item_action :: "string \<times> char \<Rightarrow> PatternAction" where
  "item_action it \<equiv> \<lparr>pa_key = snd it, pa_length = 0, pa_property = [], pa_prepend = fst it\<rparr>"

lemma pattern_spec_literal:
  "CHR ''%'' \<notin> set lit \<Longrightarrow> pattern_spec pre (lit @ s) = pattern_spec (pre @ lit) s"
  by (induction lit arbitrary: pre) auto

lemma render_items_no_bracket:
  "list_all clean_item items \<Longrightarrow> s = render_items items \<Longrightarrow> s \<noteq> [] \<Longrightarrow> hd s \<noteq> CHR ''[''"
  by (cases items) (auto simp: render_items_def clean_item_def hd_append take_Suc split: if_splits)

lemma pattern_spec_items: "list_all clean_item items \<Longrightarrow> pattern_spec [] (render_items items) = Inr (map item_action items)"
proof (induction items)
  case Nil
  then show ?case by (simp add: render_items_def)
next
  case (Cons it items)
  obtain lit key where it: "it = (lit, key)" by (cases it)
  let ?r = "render_items items"
  have c: "CHR ''%'' \<notin> set lit" "key \<noteq> CHR ''[''" using Cons.prems it by (auto simp: clean_item_def)
  have "render_items (it # items) = lit @ CHR ''%'' # key # ?r" by (simp add: render_items_def it)
  then have "pattern_spec [] (render_items (it # items)) = pattern_spec lit (CHR ''%'' # key # ?r)"
    using pattern_spec_literal [OF c(1), of "[]"] by simp
  also have "action_spec lit (key # ?r) = Inr (item_action (lit, key), ?r)"
    using c(2) render_items_no_bracket [of items ?r] Cons.prems by auto
  then have "pattern_spec lit (CHR ''%'' # key # ?r) = map_sum id ((#) (item_action (lit, key))) (pattern_spec [] ?r)"
    by simp
  finally show ?case using Cons it by simp
qed

text \<open>
  A pattern of literal text and keys prints, for every message, the literals with the fields
  of the message in place of the keys, in order and without loss.
\<close>

theorem format_prints_pattern:
  assumes "items \<noteq> []" and "list_all clean_item items"
  shows "\<exists>acts. ParsePattern (render_items items) = Inr (Inr acts)
     \<and> Format time_field acts msg
         = concat (map (\<lambda>(lit, key). lit @ format_key time_field msg (item_action (lit, key))) items)"
proof -
  have f: "format_actions time_field msg (map item_action items)
      = concat (map (\<lambda>(lit, key). lit @ format_key time_field msg (item_action (lit, key))) items)"
    by (induction items) auto
  have "render_items items \<noteq> []" using assms(1) by (cases items) (auto simp: render_items_def)
  then show ?thesis using f assms pattern_spec_items [OF assms(2)] parse_loop_eq [of 0 "render_items items" "[]" "[]"]
    by (simp add: ParsePattern_def Format_def)
qed

theorem format_prints_pattern_witness:
  "\<exists>acts. ParsePattern (render_items [(''<'', CHR ''p''), (''> '', CHR ''t'')]) = Inr (Inr acts)
     \<and> Format (\<lambda>k. []) acts \<lparr>msg_source = ''db'', msg_text = ''hi'', msg_level = Info, msg_file = [], msg_line = 0, msg_option = []\<rparr>
         = ''<Info> hi''"
  using format_prints_pattern [of "[(''<'', CHR ''p''), (''> '', CHR ''t'')]" "\<lambda>k. []"
      "\<lparr>msg_source = ''db'', msg_text = ''hi'', msg_level = Info, msg_file = [], msg_line = 0, msg_option = []\<rparr>"]
  by (simp add: clean_item_def format_key_def)

text \<open>
  The source column of the pattern key \<open>v\<close> with a length \<open>n\<close>: the source is padded with blanks
  or cut from the left to exactly \<open>n\<close> characters, and its end is kept.
\<close>

theorem source_column:
  assumes "0 < n"
  shows "length (pad_source n src) = n
     \<and> (if length src \<le> n then take (length src) (pad_source n src) = src
        else pad_source n src = drop (length src - n) src)"
  using assms by (auto simp: pad_source_def substr_def)

theorem source_column_witness: "pad_source 4 ''db.pool'' = ''pool'' \<and> length (pad_source 4 ''db.pool'') = 4"
  using source_column [of 4 "''db.pool''"] by simp

end
