(* ===== verification/Logging.thy ===== *)
theory Logging
  imports LogChannel Config
begin

section \<open>Loggers and channels\<close>

text \<open>
  \<^verbatim>\<open>src/src/common/Logging\<close>: \<^verbatim>\<open>Log.cpp\<close>, \<^verbatim>\<open>Logger.cpp\<close>, \<^verbatim>\<open>ConsoleChannel.cpp\<close> (the Unix channel) and
  \<^verbatim>\<open>FileChannel.cpp\<close>.  The loggers share the channel objects of the table \<open>_channels\<close>; a logger of
  the model holds the keys of its channels.  What channels write is recorded in \<open>log_out\<close>.  The
  outside world is the record \<open>log_env\<close>: the text of the time fields and of the file time stamp,
  and which log files can be opened.  The directory of the logs and its check at the start are left out
  (file names are relative to it), and so are \<open>DeleteChannel\<close>, which nothing calls, and the clean-up of
  old files from within the constructor of a channel, which is modelled on its own.
\<close>

record log_env =
  time_field :: "char \<Rightarrow> string"
  file_stamp :: string
  can_open :: "string \<Rightarrow> bool"

subsection \<open>The console channel\<close>

definition color_table :: "(string \<times> nat) list" where
  "color_table =
     [(''default'', 0x27), (''black'', 0x1e), (''red'', 0x1f), (''green'', 0x20), (''brown'', 0x21), (''blue'', 0x22),
      (''magenta'', 0x23), (''cyan'', 0x24), (''gray'', 0x25), (''darkGray'', 0x11e), (''lightRed'', 0x11f),
      (''lightGreen'', 0x120), (''yellow'', 0x121), (''lightBlue'', 0x122), (''lightMagenta'', 0x123),
      (''lightCyan'', 0x124), (''white'', 0x125)]"

definition ParseColor :: "string \<Rightarrow> nat option" where
  "ParseColor color = map_option snd (find (\<lambda>(name, code). StringEqualI color name) color_table)"

definition InitDefaultColors :: "nat list" where
  "InitDefaultColors = [0x27, 0x11f, 0x11f, 0x11f, 0x121, 0x27, 0x25, 0x25]"

fun parse_colors :: "string list \<Rightarrow> nat list option" where
  "parse_colors [] = Some []"
| "parse_colors (t # ts) =
     (case ParseColor t of None \<Rightarrow> None | Some c \<Rightarrow> map_option ((#) c) (parse_colors ts))"

text \<open>\<open>None\<close>: the exception; else the table with the entries from 1 on replaced.\<close>

definition SetColors :: "string \<Rightarrow> nat list \<Rightarrow> nat list option" where
  "SetColors colors old =
     (let tokens = Tokenize colors (CHR '' '') True
      in if length tokens \<noteq> 7 then None else map_option ((#) (old ! 0)) (parse_colors tokens))"

definition CSI :: string where
  "CSI = [CHR 0x1B, CHR ''['']"

definition console_text :: "nat list \<Rightarrow> LogLevel \<Rightarrow> string \<Rightarrow> string" where
  "console_text colors level text =
     (let color = colors ! level_num level
      in (if 256 \<le> color mod 512 then CSI @ ''1m'' else []) @ CSI @ show_nat (color mod 256) @ ''m'' @ text @ CSI @ ''0m'' @ [CHR 0x0A])"

subsection \<open>The file channel\<close>

record file_channel =
  fc_fileName :: string
  fc_isDynamic :: bool
  fc_isFlush :: bool
  fc_isAppend :: bool
  fc_isAddTimestamp :: bool
  fc_maxCount :: nat
  fc_purgeAge :: nat
  fc_logFile :: "(string \<times> bool) option"

text \<open>The options of the constructor; \<open>None\<close> is an exception.\<close>

definition FileChannel :: "string list \<Rightarrow> file_channel option" where
  "FileChannel options =
     (if length options < 4 then None
      else
        let fc = \<lparr>fc_fileName = options ! 3, fc_isDynamic = contains_str (options ! 3) ''{}'', fc_isFlush = True,
                  fc_isAppend = True, fc_isAddTimestamp = False, fc_maxCount = 20, fc_purgeAge = 10, fc_logFile = None\<rparr>
        in Option.bind
             (if 5 \<le> length options
              then map_option (\<lambda>b. fc\<lparr>fc_isAppend := b\<rparr>) (BoolFromString (options ! 4) False) else Some fc) (\<lambda>fc.
           Option.bind
             (if 6 \<le> length options
              then map_option (\<lambda>b. fc\<lparr>fc_isFlush := b\<rparr>) (BoolFromString (options ! 5) False) else Some fc) (\<lambda>fc.
           if 7 \<le> length options then
             Option.bind (map_option (\<lambda>b. fc\<lparr>fc_isAddTimestamp := b\<rparr>) (BoolFromString (options ! 6) False)) (\<lambda>fc.
             Option.bind
               (if 8 \<le> length options
                then Option.bind (FromString (uint_ty 32) (options ! 7) 10)
                       (\<lambda>n. if n = 0 then None else Some (fc\<lparr>fc_maxCount := nat n\<rparr>)) else Some fc) (\<lambda>fc.
             if 9 \<le> length options
             then map_option (\<lambda>n. fc\<lparr>fc_purgeAge := nat n\<rparr>) (FromString (uint_ty 32) (options ! 8) 10) else Some fc))
           else Some fc)))"

text \<open>\<open>_fileName.insert(dot_pos, timeStamp)\<close>, or appended when there is no dot.\<close>

definition insert_before_dot :: "string \<Rightarrow> string \<Rightarrow> string" where
  "insert_before_dot name stamp =
     (case last_index_of (CHR ''.'') name of Some i \<Rightarrow> take i name @ stamp @ drop i name | None \<Rightarrow> name @ stamp)"

definition OpenFile :: "log_env \<Rightarrow> file_channel \<Rightarrow> bool \<times> file_channel" where
  "OpenFile E fc =
     (case fc_logFile fc of
        Some (path, ok) \<Rightarrow> (ok, fc)
      | None \<Rightarrow>
          let name = (if fc_isAddTimestamp fc then insert_before_dot (fc_fileName fc) (CHR ''_'' # file_stamp E) else fc_fileName fc);
              ok = can_open E name
          in (ok, fc\<lparr>fc_fileName := name, fc_logFile := Some (name, ok)\<rparr>))"

definition CloseFile :: "file_channel \<Rightarrow> file_channel" where
  "CloseFile fc = fc\<lparr>fc_logFile := None\<rparr>"

text \<open>\<open>fmt::format(name, option)\<close> on a name with one replacement field.\<close>

fun subst_field :: "string \<Rightarrow> string \<Rightarrow> string" where
  "subst_field opt (CHR ''{'' # CHR ''}'' # s) = opt @ s"
| "subst_field opt (c # s) = c # subst_field opt s"
| "subst_field opt [] = []"

text \<open>The text written and its file, or an exception.\<close>

definition FileChannel_Write ::
  "log_env \<Rightarrow> PatternAction list \<Rightarrow> log_message \<Rightarrow> file_channel \<Rightarrow> file_channel \<times> (unit + string \<times> string)" where
  "FileChannel_Write E acts msg fc =
     (if fc_isDynamic fc \<and> msg_option msg = [] then (fc, Inl ())
      else
        let text = Format (time_field E) acts msg
        in if fc_isDynamic fc then
             let (ok, fc1) = OpenFile E (fc\<lparr>fc_fileName := subst_field (msg_option msg) (fc_fileName fc)\<rparr>)
             in if \<not> ok then (fc1, Inl ())
                else (CloseFile fc1, Inr (fst (the (fc_logFile fc1)), text @ [CHR 0x0A]))
           else
             let (ok, fc1) = OpenFile E fc
             in if \<not> ok then (fc1, Inl ())
                else (fc1, Inr (fst (the (fc_logFile fc1)), text @ [CHR 0x0A])))"

text \<open>
  \<open>ClearOldFiles\<close> after the listing: the files sorted by date, the maximal number and the date
  before which a file is too old; the result is the list of the files removed.
\<close>

fun remove_old :: "(string \<times> int) list \<Rightarrow> nat \<Rightarrow> nat \<Rightarrow> int \<Rightarrow> string list" where
  "remove_old [] filesCount maxCount before = []"
| "remove_old ((path, date) # fs) filesCount maxCount before =
     (if maxCount < filesCount then path # remove_old fs (filesCount - 1) maxCount before
      else if date < before then path # remove_old fs filesCount maxCount before
      else remove_old fs filesCount maxCount before)"

definition ClearOldFiles :: "string \<Rightarrow> (string \<times> int) list \<Rightarrow> int \<Rightarrow> file_channel \<Rightarrow> string list" where
  "ClearOldFiles logsDir listing now fc =
     (if logsDir = [] then []
      else let logFiles = sort_key snd listing
           in remove_old logFiles (length logFiles) (fc_maxCount fc) (now - 86400 * int (fc_purgeAge fc)))"

subsection \<open>The date in a file name\<close>

record tm =
  tm_year :: nat
  tm_mon :: nat
  tm_mday :: nat
  tm_hour :: nat
  tm_min :: nat
  tm_sec :: nat

text \<open>\<open>PARSE_NUMBER_N\<close>: at most \<open>n\<close> digits, appended to the number read so far.\<close>

fun parse_number :: "nat \<Rightarrow> nat \<Rightarrow> string \<Rightarrow> nat \<times> string" where
  "parse_number 0 v s = (v, s)"
| "parse_number (Suc n) v [] = (v, [])"
| "parse_number (Suc n) v (c # s) =
     (if is_digit c then parse_number n (v * 10 + (of_char c - 48)) s else (v, c # s))"

definition field_at :: "nat \<Rightarrow> nat \<Rightarrow> string \<Rightarrow> nat \<times> string" where
  "field_at n v s = parse_number n v (dropWhile (\<lambda>c. \<not> is_digit c) s)"

fun date_fields :: "string \<Rightarrow> string \<Rightarrow> tm \<Rightarrow> tm" where
  "date_fields [] s t = t"
| "date_fields (c # f) [] t = t"
| "date_fields [c] (x # s) t = t"
| "date_fields (c # k # f) (x # s) t =
     (if c \<noteq> CHR ''%'' then date_fields (k # f) (x # s) t
      else if k = CHR ''Y'' then (let (v, r) = field_at 4 (tm_year t) (x # s) in date_fields f r (t\<lparr>tm_year := v\<rparr>))
      else if k = CHR ''m'' then (let (v, r) = field_at 2 (tm_mon t) (x # s) in date_fields f r (t\<lparr>tm_mon := v\<rparr>))
      else if k = CHR ''d'' then (let (v, r) = field_at 2 (tm_mday t) (x # s) in date_fields f r (t\<lparr>tm_mday := v\<rparr>))
      else if k = CHR ''H'' then (let (v, r) = field_at 2 (tm_hour t) (x # s) in date_fields f r (t\<lparr>tm_hour := v\<rparr>))
      else if k = CHR ''M'' then (let (v, r) = field_at 2 (tm_min t) (x # s) in date_fields f r (t\<lparr>tm_min := v\<rparr>))
      else if k = CHR ''S'' then (let (v, r) = field_at 2 (tm_sec t) (x # s) in date_fields f r (t\<lparr>tm_sec := v\<rparr>))
      else date_fields f (x # s) t)"

text \<open>\<open>mktime\<close> is the conversion of the C library.\<close>

definition GetFileCreationDate :: "(tm \<Rightarrow> int) \<Rightarrow> string \<Rightarrow> string \<Rightarrow> int" where
  "GetFileCreationDate mktime fmt str =
     (if fmt = [] \<or> str = [] then 0
      else let t = date_fields fmt str \<lparr>tm_year = 0, tm_mon = 0, tm_mday = 0, tm_hour = 0, tm_min = 0, tm_sec = 0\<rparr>;
               t1 = (if tm_mon t = 0 then t\<lparr>tm_mon := 1\<rparr> else t);
               t2 = (if tm_mday t1 = 0 then t1\<lparr>tm_mday := 1\<rparr> else t1)
           in mktime t2)"

subsection \<open>Loggers\<close>

datatype channel_impl = ConsoleImpl "nat list" | FileImpl file_channel

record log_channel =
  ch_name :: string
  ch_level :: LogLevel
  ch_actions :: "PatternAction list"
  ch_impl :: channel_impl

record logger =
  lg_name :: string
  lg_level :: LogLevel
  lg_channels :: "string list"

record log_state =
  loggers :: "(string \<times> logger) list"
  channels :: "(string \<times> log_channel) list"
  highestLogLevel :: LogLevel
  isUseDefaultLogs :: bool
  log_out :: "(string \<times> string) list"

definition AddChannel :: "string \<Rightarrow> logger \<Rightarrow> logger" where
  "AddChannel key lg = lg\<lparr>lg_channels := lg_channels lg @ [key]\<rparr>"

text \<open>A channel writes a message: \<open>None\<close> is an exception; else the text with its destination.\<close>

definition Channel_Write :: "log_env \<Rightarrow> log_message \<Rightarrow> log_channel \<Rightarrow> log_channel \<times> (string \<times> string) list option" where
  "Channel_Write E msg ch =
     (case ch_impl ch of
        ConsoleImpl colors \<Rightarrow>
          (ch, Some (if ch_level ch < msg_level msg then []
                     else [(''stdout'', console_text colors (msg_level msg) (Format (time_field E) (ch_actions ch) msg))]))
      | FileImpl fc \<Rightarrow>
          (let (fc', r) = FileChannel_Write E (ch_actions ch) msg fc
           in (ch\<lparr>ch_impl := FileImpl fc'\<rparr>, case r of Inl u \<Rightarrow> None | Inr out \<Rightarrow> Some [out])))"

definition put_channel :: "string \<Rightarrow> log_channel \<Rightarrow> (string \<times> log_channel) list \<Rightarrow> (string \<times> log_channel) list" where
  "put_channel k ch m = map (\<lambda>(k', c). if k' = k then (k', ch) else (k', c)) m"

fun write_channels :: "log_env \<Rightarrow> log_message \<Rightarrow> string list \<Rightarrow> log_state \<Rightarrow> log_state \<times> bool" where
  "write_channels E msg [] s = (s, True)"
| "write_channels E msg (k # ks) s =
     (case map_of (channels s) k of
        None \<Rightarrow> write_channels E msg ks s
      | Some ch \<Rightarrow>
          if ch_level ch < msg_level msg then write_channels E msg ks s
          else let (ch', r) = Channel_Write E msg ch;
                   s' = s\<lparr>channels := put_channel k ch' (channels s)\<rparr>
               in case r of
                    None \<Rightarrow> (s', False)
                  | Some out \<Rightarrow> write_channels E msg ks (s'\<lparr>log_out := log_out s' @ out\<rparr>))"

definition Logger_Write :: "log_env \<Rightarrow> log_message \<Rightarrow> logger \<Rightarrow> log_state \<Rightarrow> log_state \<times> bool" where
  "Logger_Write E msg lg s =
     (if lg_level lg < msg_level msg then (s, True) else write_channels E msg (lg_channels lg) s)"

subsection \<open>Finding a logger\<close>

definition HasLogger :: "string \<Rightarrow> log_state \<Rightarrow> logger option" where
  "HasLogger type s = map_of (loggers s) type"

definition HasChannel :: "string \<Rightarrow> log_state \<Rightarrow> log_channel option" where
  "HasChannel name s = map_of (channels s) name"

definition parent_logger :: "string \<Rightarrow> string" where
  "parent_logger type =
     (case last_index_of (CHR ''.'') type of None \<Rightarrow> ''root'' | Some found \<Rightarrow> substr type 0 found)"

lemma parent_logger_shorter: "CHR ''.'' \<in> set type \<Longrightarrow> length (parent_logger type) < length type"
  by (cases "last_index_of (CHR ''.'') type") (auto simp: parent_logger_def substr_def dest: last_index_of_less)

lemma parent_logger_root: "CHR ''.'' \<notin> set type \<Longrightarrow> parent_logger type = ''root''"
  by (simp add: parent_logger_def last_index_of_None [THEN iffD2])

function GetLoggerByType :: "string \<Rightarrow> log_state \<Rightarrow> logger option" where
  "GetLoggerByType type s =
     (case HasLogger type s of
        Some lg \<Rightarrow> Some lg
      | None \<Rightarrow> if type = ''root'' then None else GetLoggerByType (parent_logger type) s)"
  by pat_completeness auto
termination
proof (relation "measure (\<lambda>(type, s). if type = ''root'' then 0 else if CHR ''.'' \<in> set type then Suc (length type) else 1)")
  fix type :: string and s
  assume "type \<noteq> ''root''"
  then show "((parent_logger type, s), type, s) \<in>
      measure (\<lambda>(type, s). if type = ''root'' then 0 else if CHR ''.'' \<in> set type then Suc (length type) else 1)"
    using parent_logger_shorter [of type] parent_logger_root [of type] by (cases "CHR ''.'' \<in> set type") auto
qed simp

declare GetLoggerByType.simps [simp del]

definition ShouldLog :: "string \<Rightarrow> LogLevel \<Rightarrow> log_state \<Rightarrow> bool" where
  "ShouldLog filter_type level s =
     (if highestLogLevel s < level then False
      else case GetLoggerByType filter_type s of
             None \<Rightarrow> False
           | Some lg \<Rightarrow> lg_level lg \<noteq> Disabled \<and> level \<le> lg_level lg)"

definition Log_Write :: "log_env \<Rightarrow> log_message \<Rightarrow> log_state \<Rightarrow> log_state" where
  "Log_Write E msg s =
     (case GetLoggerByType (msg_source msg) s of None \<Rightarrow> s | Some lg \<Rightarrow> fst (Logger_Write E msg lg s))"

definition SetLoggerLevel :: "string \<Rightarrow> LogLevel \<Rightarrow> log_state \<Rightarrow> log_state" where
  "SetLoggerLevel name level s =
     (if LevelMax \<le> level then s
      else let s1 = (if highestLogLevel s < level then s\<lparr>highestLogLevel := level\<rparr> else s)
           in s1\<lparr>loggers := map (\<lambda>(n, lg). if n = name then (n, lg\<lparr>lg_level := level\<rparr>) else (n, lg)) (loggers s1)\<rparr>)"

definition SetChannelLevel :: "string \<Rightarrow> LogLevel \<Rightarrow> log_state \<Rightarrow> log_state" where
  "SetChannelLevel name level s =
     (if LevelMax \<le> level then s
      else s\<lparr>channels := map (\<lambda>(n, ch). if n = name then (n, ch\<lparr>ch_level := level\<rparr>) else (n, ch)) (channels s)\<rparr>)"

subsection \<open>Loading from the configuration\<close>

definition level_of_num :: "nat \<Rightarrow> LogLevel" where
  "level_of_num n = [Disabled, Fatal, Critical, Error, Warning, Info, Debug, Trace] ! n"

definition parse_level :: "string \<Rightarrow> LogLevel option" where
  "parse_level t =
     (case FromString (uint_ty 8) t 10 of
        None \<Rightarrow> None
      | Some n \<Rightarrow> if 8 \<le> n then None else Some (level_of_num (nat n)))"

text \<open>
  The constructors registered in \<open>_channelsCreateFunction\<close> by the constructor of \<open>Log\<close>, for the
  channel types \<open>Console\<close> (1) and \<open>File\<close> (2); \<open>None\<close> is an exception.
\<close>

definition channel_registered :: "int \<Rightarrow> bool" where
  "channel_registered type = (type = 1 \<or> type = 2)"

definition create_channel :: "int \<Rightarrow> string \<Rightarrow> LogLevel \<Rightarrow> string \<Rightarrow> string list \<Rightarrow> log_channel option" where
  "create_channel type name level pattern options =
     (case ParsePattern pattern of
        Inr (Inr acts) \<Rightarrow>
          let ch = \<lparr>ch_name = name, ch_level = level, ch_actions = acts, ch_impl = ConsoleImpl InitDefaultColors\<rparr>
          in if type = 1 then
               if 4 < length options then None
               else if 3 < length options
               then map_option (\<lambda>colors. ch\<lparr>ch_impl := ConsoleImpl colors\<rparr>) (SetColors (options ! 3) InitDefaultColors)
               else Some ch
             else map_option (\<lambda>fc. ch\<lparr>ch_impl := FileImpl fc\<rparr>) (FileChannel options)
      | _ \<Rightarrow> None)"

definition CreateChannelsFromConfig :: "config_mgr \<Rightarrow> string \<Rightarrow> log_state \<Rightarrow> log_state" where
  "CreateChannelsFromConfig c logChannelName s =
     (if logChannelName = [] then s
      else if HasChannel logChannelName s \<noteq> None then s
      else
        let options = fst (GetValueDefault_string logChannelName [] True c);
            channelName = drop 11 logChannelName;
            tokens = Tokenize options (CHR '','') True
        in if length tokens < 3 \<or> 7 < length tokens then s
           else case FromString (sint_ty 8) (tokens ! 0) 10 of
             None \<Rightarrow> s
           | Some type \<Rightarrow>
               if \<not> channel_registered type then s
               else case parse_level (tokens ! 1) of
                 None \<Rightarrow> s
               | Some level \<Rightarrow>
                   if tokens ! 2 = [] then s
                   else case create_channel type logChannelName level (tokens ! 2) tokens of
                     None \<Rightarrow> s
                   | Some ch \<Rightarrow> s\<lparr>channels := emplace channelName ch (channels s)\<rparr>)"

definition CreateLoggerFromConfig :: "config_mgr \<Rightarrow> string \<Rightarrow> log_state \<Rightarrow> log_state" where
  "CreateLoggerFromConfig c configLoggerName s =
     (if configLoggerName = [] then s
      else if HasLogger configLoggerName s \<noteq> None then s
      else
        let options = fst (GetValueDefault_string configLoggerName [] True c);
            loggerName = drop 7 configLoggerName
        in if options = [] then s
           else let tokens = Tokenize options (CHR '','') True
                in if length tokens \<noteq> 2 then s
                   else case parse_level (tokens ! 0) of
                     None \<Rightarrow> s
                   | Some level \<Rightarrow>
                       let s1 = (if highestLogLevel s < level then s\<lparr>highestLogLevel := level\<rparr> else s);
                           names = filter (\<lambda>n. HasChannel n s1 \<noteq> None) (Tokenize (tokens ! 1) (CHR '' '') False);
                           lg = fold AddChannel names \<lparr>lg_name = loggerName, lg_level = level, lg_channels = []\<rparr>
                       in s1\<lparr>loggers := emplace loggerName lg (loggers s1)\<rparr>)"

definition Log_Clear :: "log_state \<Rightarrow> log_state" where
  "Log_Clear s = s\<lparr>loggers := [], channels := []\<rparr>"

definition ReadChannelsFromConfig :: "config_mgr \<Rightarrow> log_state \<Rightarrow> log_state" where
  "ReadChannelsFromConfig c s = fold (CreateChannelsFromConfig c) (GetKeysByString ''LogChannel.'' c) s"

definition ReadLoggersFromConfig :: "config_mgr \<Rightarrow> log_state \<Rightarrow> log_state" where
  "ReadLoggersFromConfig c s = fold (CreateLoggerFromConfig c) (GetKeysByString ''Logger.'' c) s"

definition LoadFromConfig :: "config_mgr \<Rightarrow> log_state \<Rightarrow> log_state" where
  "LoadFromConfig c s =
     ReadLoggersFromConfig c (ReadChannelsFromConfig c (Log_Clear (s\<lparr>highestLogLevel := Fatal\<rparr>)))"

definition Log_Initialize :: "config_mgr \<Rightarrow> log_state \<Rightarrow> log_state" where
  "Log_Initialize c s = (if isUseDefaultLogs s then s else LoadFromConfig c s)"

definition UsingDefaultLogs :: "bool \<Rightarrow> log_state \<Rightarrow> log_state" where
  "UsingDefaultLogs value s =
     (let s0 = s\<lparr>isUseDefaultLogs := value\<rparr>
      in if \<not> value then s0
         else
           let s1 = (Log_Clear s0)\<lparr>highestLogLevel := Debug\<rparr>;
               options = ''lightRed lightRed red brown cyan lightMagenta green''
           in case (ParsePattern ''[%H:%M:%S] %t'', SetColors options InitDefaultColors) of
                (Inr (Inr acts), Some colors) \<Rightarrow>
                  s1\<lparr>channels := emplace ''Console'' \<lparr>ch_name = ''Console'', ch_level = Debug, ch_actions = acts, ch_impl = ConsoleImpl colors\<rparr> (channels s1),
                     loggers := emplace ''root'' (AddChannel ''Console'' \<lparr>lg_name = ''root'', lg_level = Debug, lg_channels = []\<rparr>) (loggers s1)\<rparr>
              | _ \<Rightarrow> s1)"

definition log_init :: log_state where
  "log_init = \<lparr>loggers = [], channels = [], highestLogLevel = Disabled, isUseDefaultLogs = False, log_out = []\<rparr>"

text \<open>The operations of \<open>Log\<close> that other components call.\<close>

inductive log_step :: "log_state \<Rightarrow> log_state \<Rightarrow> bool" where
  step_init: "log_step s (Log_Initialize c s)"
| step_load: "log_step s (LoadFromConfig c s)"
| step_default: "log_step s (UsingDefaultLogs b s)"
| step_logger_level: "log_step s (SetLoggerLevel n l s)"
| step_channel_level: "log_step s (SetChannelLevel n l s)"
| step_write: "log_step s (Log_Write E msg s)"

inductive log_reach :: "log_state \<Rightarrow> bool" where
  lreach_init: "log_reach log_init"
| lreach_step: "\<lbrakk>log_reach s; log_step s s'\<rbrakk> \<Longrightarrow> log_reach s'"

subsection \<open>The loggers and the highest level\<close>

definition log_inv :: "log_state \<Rightarrow> bool" where
  "log_inv s \<longleftrightarrow> (\<forall>n lg. (n, lg) \<in> set (loggers s) \<longrightarrow> lg_level lg \<le> highestLogLevel s
     \<and> (\<forall>k \<in> set (lg_channels lg). HasChannel k s \<noteq> None))"

definition file_limits :: "log_state \<Rightarrow> bool" where
  "file_limits s \<longleftrightarrow> (\<forall>n ch fc. (n, ch) \<in> set (channels s) \<and> ch_impl ch = FileImpl fc \<longrightarrow> fc_maxCount fc = 20 \<and> fc_purgeAge fc = 10)"

lemma set_emplace_cases: "x \<in> set (emplace k v m) \<Longrightarrow> x = (k, v) \<or> x \<in> set m"
  by (auto simp: emplace_def split: if_splits)

lemma fold_AddChannel: "fold AddChannel ns lg = lg\<lparr>lg_channels := lg_channels lg @ ns\<rparr>"
  by (induction ns arbitrary: lg) (simp_all add: AddChannel_def)

lemma CreateLoggerFromConfig_inv: "log_inv s \<Longrightarrow> log_inv (CreateLoggerFromConfig c n s)"
  by (auto simp: CreateLoggerFromConfig_def Let_def log_inv_def HasChannel_def fold_AddChannel
      dest!: set_emplace_cases split: option.splits if_splits) (meson order.strict_implies_order order.trans)

lemma HasChannel_emplace: "HasChannel k s \<noteq> None \<Longrightarrow> map_of (emplace n ch (channels s)) k \<noteq> None"
  by (simp add: HasChannel_def map_of_emplace)

lemma CreateChannelsFromConfig_cases:
  "CreateChannelsFromConfig c n s = s
   \<or> (\<exists>k ch type level pat toks. CreateChannelsFromConfig c n s = s\<lparr>channels := emplace k ch (channels s)\<rparr>
        \<and> create_channel type n level pat toks = Some ch \<and> length toks \<le> 7)"
  unfolding CreateChannelsFromConfig_def Let_def
  by (force split: option.splits if_splits)

lemma CreateChannelsFromConfig_inv: "log_inv s \<Longrightarrow> log_inv (CreateChannelsFromConfig c n s)"
  using CreateChannelsFromConfig_cases [of c n s]
  by (auto simp: log_inv_def HasChannel_def map_of_emplace)

lemma FileChannel_limits: "FileChannel options = Some fc \<Longrightarrow> length options \<le> 7 \<Longrightarrow> fc_maxCount fc = 20 \<and> fc_purgeAge fc = 10"
  by (auto simp: FileChannel_def Let_def bind_eq_Some_conv split: if_splits)

lemma create_channel_limits:
  "create_channel type n level pat toks = Some ch \<Longrightarrow> length toks \<le> 7 \<Longrightarrow> ch_impl ch = FileImpl fc \<Longrightarrow>
     fc_maxCount fc = 20 \<and> fc_purgeAge fc = 10"
  by (auto simp: create_channel_def Let_def split: sum.splits if_splits dest: FileChannel_limits)

lemma CreateChannelsFromConfig_limits: "file_limits s \<Longrightarrow> file_limits (CreateChannelsFromConfig c n s)"
  using CreateChannelsFromConfig_cases [of c n s]
  by (auto simp: file_limits_def dest!: set_emplace_cases dest: create_channel_limits)

lemma fold_preserves: "(\<And>x s. P s \<Longrightarrow> P (f x s)) \<Longrightarrow> P s \<Longrightarrow> P (fold f xs s)"
  by (induction xs arbitrary: s) auto

lemma LoadFromConfig_inv: "log_inv (LoadFromConfig c s)"
proof -
  have "log_inv (Log_Clear (s\<lparr>highestLogLevel := Fatal\<rparr>))" by (simp add: log_inv_def Log_Clear_def)
  then have "log_inv (ReadChannelsFromConfig c (Log_Clear (s\<lparr>highestLogLevel := Fatal\<rparr>)))"
    unfolding ReadChannelsFromConfig_def by (rule fold_preserves [where P = log_inv, rotated]) (rule CreateChannelsFromConfig_inv)
  then show ?thesis
    unfolding LoadFromConfig_def ReadLoggersFromConfig_def
    by (rule fold_preserves [where P = log_inv, rotated]) (rule CreateLoggerFromConfig_inv)
qed

lemma CreateLoggerFromConfig_channels: "channels (CreateLoggerFromConfig c n s) = channels s"
  by (auto simp: CreateLoggerFromConfig_def Let_def split: option.splits)

lemma LoadFromConfig_limits: "file_limits (LoadFromConfig c s)"
proof -
  have "file_limits (ReadChannelsFromConfig c (Log_Clear (s\<lparr>highestLogLevel := Fatal\<rparr>)))"
    unfolding ReadChannelsFromConfig_def
    by (rule fold_preserves [where P = file_limits]) (simp_all add: CreateChannelsFromConfig_limits, simp add: file_limits_def Log_Clear_def)
  then show ?thesis unfolding LoadFromConfig_def ReadLoggersFromConfig_def
    by (rule fold_preserves [where P = file_limits, rotated]) (simp_all add: file_limits_def CreateLoggerFromConfig_channels)
qed

lemma map_of_put_channel: "map_of (put_channel k ch m) n = (if n = k \<and> map_of m k \<noteq> None then Some ch else map_of m n)"
  by (induction m) (auto simp: put_channel_def)

lemma OpenFile_limits: "fc_maxCount (snd (OpenFile E fc)) = fc_maxCount fc \<and> fc_purgeAge (snd (OpenFile E fc)) = fc_purgeAge fc"
  by (simp add: OpenFile_def Let_def split: option.splits)

lemma Channel_Write_limits:
  assumes "ch_impl (fst (Channel_Write E msg ch)) = FileImpl fc'"
    and "\<And>fc. ch_impl ch = FileImpl fc \<Longrightarrow> fc_maxCount fc = 20 \<and> fc_purgeAge fc = 10"
  shows "fc_maxCount fc' = 20 \<and> fc_purgeAge fc' = 10"
  using assms OpenFile_limits [of E]
  by (auto simp: Channel_Write_def FileChannel_Write_def CloseFile_def Let_def split_def split: channel_impl.splits if_splits)

lemma write_channels_keeps:
  "loggers (fst (write_channels E msg ks s)) = loggers s
   \<and> highestLogLevel (fst (write_channels E msg ks s)) = highestLogLevel s
   \<and> (\<forall>k. HasChannel k (fst (write_channels E msg ks s)) = None \<longleftrightarrow> HasChannel k s = None)"
proof (induction ks arbitrary: s)
  case Nil
  then show ?case by simp
next
  case (Cons k ks)
  show ?case
  proof (cases "map_of (channels s) k")
    case None
    then show ?thesis using Cons by simp
  next
    case (Some ch)
    obtain ch' r where w: "Channel_Write E msg ch = (ch', r)" by (cases "Channel_Write E msg ch")
    let ?s' = "s\<lparr>channels := put_channel k ch' (channels s)\<rparr>"
    have h: "HasChannel k' ?s' = None \<longleftrightarrow> HasChannel k' s = None" for k'
      using Some by (auto simp: HasChannel_def map_of_put_channel)
    show ?thesis
    proof (cases r)
      case None
      then show ?thesis using Some w Cons [of s] h by auto
    next
      case (Some out)
      then show ?thesis using \<open>map_of (channels s) k = Some ch\<close> w Cons [of s] h Cons [of "?s'\<lparr>log_out := log_out ?s' @ out\<rparr>"]
        by (auto simp: HasChannel_def)
    qed
  qed
qed

lemma write_channels_inv: "log_inv s \<Longrightarrow> log_inv (fst (write_channels E msg ks s))"
  using write_channels_keeps [of E msg ks s] by (auto simp: log_inv_def)

lemma write_channels_limits: "file_limits s \<Longrightarrow> file_limits (fst (write_channels E msg ks s))"
proof (induction ks arbitrary: s)
  case Nil
  then show ?case by simp
next
  case (Cons k ks)
  show ?case
  proof (cases "map_of (channels s) k")
    case None
    then show ?thesis using Cons by simp
  next
    case (Some ch)
    obtain ch' r where w: "Channel_Write E msg ch = (ch', r)" by (cases "Channel_Write E msg ch")
    have "\<And>fc. ch_impl ch = FileImpl fc \<Longrightarrow> fc_maxCount fc = 20 \<and> fc_purgeAge fc = 10"
      using Cons.prems map_of_SomeD [OF Some] by (auto simp: file_limits_def)
    then have "\<And>fc. ch_impl ch' = FileImpl fc \<Longrightarrow> fc_maxCount fc = 20 \<and> fc_purgeAge fc = 10"
      using Channel_Write_limits [of E msg ch] w by auto
    then have lim: "file_limits (s\<lparr>channels := put_channel k ch' (channels s)\<rparr>)"
      using Cons.prems by (auto simp: file_limits_def put_channel_def split: if_splits)
    then have "file_limits (s\<lparr>channels := put_channel k ch' (channels s), log_out := out\<rparr>)" for out
      by (simp add: file_limits_def)
    then show ?thesis using Some w Cons lim by (auto simp: Let_def split: option.splits)
  qed
qed

lemma UsingDefaultLogs_inv: "log_inv s \<Longrightarrow> log_inv (UsingDefaultLogs b s)"
  by (auto simp: UsingDefaultLogs_def Let_def log_inv_def Log_Clear_def HasChannel_def emplace_def AddChannel_def
      split: sum.splits option.splits)

lemma UsingDefaultLogs_limits: "file_limits s \<Longrightarrow> file_limits (UsingDefaultLogs b s)"
  by (auto simp: UsingDefaultLogs_def Let_def file_limits_def Log_Clear_def emplace_def split: sum.splits option.splits)

lemma SetLoggerLevel_inv: "log_inv s \<Longrightarrow> log_inv (SetLoggerLevel n l s)"
  by (auto simp: SetLoggerLevel_def Let_def log_inv_def HasChannel_def split: if_splits)
    (meson order.strict_implies_order order.trans)+

lemma map_of_level_None:
  "(\<exists>y. map_of (map (\<lambda>(m, ch). if m = n then (m, ch\<lparr>ch_level := l\<rparr>) else (m, ch)) cs) k = Some y)
     \<longleftrightarrow> (\<exists>y. map_of cs k = Some y)"
  for cs :: "(string \<times> log_channel) list"
  by (induction cs) (auto split: if_splits)

lemma SetChannelLevel_inv: "log_inv s \<Longrightarrow> log_inv (SetChannelLevel n l s)"
  by (auto simp: SetChannelLevel_def log_inv_def HasChannel_def map_of_level_None)

lemma SetLevel_limits:
  "file_limits s \<Longrightarrow> file_limits (SetLoggerLevel n l s)" "file_limits s \<Longrightarrow> file_limits (SetChannelLevel n l s)"
  by (auto simp: SetLoggerLevel_def SetChannelLevel_def file_limits_def Let_def split: if_splits)

lemma Log_Write_keeps:
  "log_inv s \<Longrightarrow> log_inv (Log_Write E msg s)" "file_limits s \<Longrightarrow> file_limits (Log_Write E msg s)"
  by (auto simp: Log_Write_def Logger_Write_def write_channels_inv write_channels_limits split: option.splits)

lemma log_step_inv: "log_step s s' \<Longrightarrow> log_inv s \<and> file_limits s \<Longrightarrow> log_inv s' \<and> file_limits s'"
  by (induction rule: log_step.induct)
    (simp_all add: Log_Initialize_def LoadFromConfig_inv LoadFromConfig_limits UsingDefaultLogs_inv UsingDefaultLogs_limits
      SetLoggerLevel_inv SetChannelLevel_inv SetLevel_limits Log_Write_keeps)

lemma log_reach_inv: "log_reach s \<Longrightarrow> log_inv s \<and> file_limits s"
proof (induction rule: log_reach.induct)
  case lreach_init
  then show ?case by (simp add: log_init_def log_inv_def file_limits_def)
next
  case (lreach_step s s')
  then show ?case using log_step_inv by blast
qed

lemma GetLoggerByType_in: "GetLoggerByType type s = Some lg \<Longrightarrow> \<exists>n. (n, lg) \<in> set (loggers s)"
proof (induction type s rule: GetLoggerByType.induct)
  case (1 type s)
  show ?case
  proof (cases "HasLogger type s")
    case None
    then have "type \<noteq> ''root''" "GetLoggerByType (parent_logger type) s = Some lg"
      using "1.prems" by (auto simp: GetLoggerByType.simps [of type] split: if_splits)
    then show ?thesis using "1.IH" None by blast
  next
    case (Some lg')
    then show ?thesis using "1.prems" by (auto simp: GetLoggerByType.simps [of type] HasLogger_def dest: map_of_SomeD)
  qed
qed

subsection \<open>Properties of the logging system\<close>

text \<open>
  C35: The early exit of \<open>ShouldLog\<close> on the highest level never suppresses a message: in every state
  reachable through the operations of the log, \<open>ShouldLog\<close> holds exactly when the responsible
  logger exists, is not disabled and has at least that level.
\<close>

theorem should_log_exact:
  assumes "log_reach s"
  shows "ShouldLog f level s \<longleftrightarrow>
    (\<exists>lg. GetLoggerByType f s = Some lg \<and> lg_level lg \<noteq> Disabled \<and> level \<le> lg_level lg)"
proof (cases "GetLoggerByType f s")
  case None
  then show ?thesis by (simp add: ShouldLog_def)
next
  case (Some lg)
  then have "lg_level lg \<le> highestLogLevel s"
    using GetLoggerByType_in [OF Some] log_reach_inv [OF assms] by (auto simp: log_inv_def)
  then show ?thesis using Some by (auto simp: ShouldLog_def)
qed

lemma last_index_of_append: "c \<notin> set ys \<Longrightarrow> last_index_of c (xs @ c # ys) = Some (length xs)"
  by (induction xs) (auto simp: last_index_of_None [THEN iffD2] split: option.splits)

lemma join_with_snoc: "ps \<noteq> [] \<Longrightarrow> join_with c (ps @ [p]) = join_with c ps @ c # p"
  by (induction c ps rule: join_with.induct) (auto simp: join_with_Cons)

lemma parent_of_join:
  assumes "CHR ''.'' \<notin> set p"
  shows "parent_logger (join_with (CHR ''.'') (ps @ [p])) = (if ps = [] then ''root'' else join_with (CHR ''.'') ps)"
  using assms by (simp add: parent_logger_root join_with_snoc)
    (simp add: parent_logger_def join_with_snoc last_index_of_append substr_def)

definition dotted_prefixes :: "string list \<Rightarrow> string list" where
  "dotted_prefixes ps = map (\<lambda>k. join_with (CHR ''.'') (take k ps)) (rev [1..<Suc (length ps)])"

definition first_logger :: "string list \<Rightarrow> log_state \<Rightarrow> logger option" where
  "first_logger names s = (case find (\<lambda>n. HasLogger n s \<noteq> None) names of None \<Rightarrow> None | Some n \<Rightarrow> HasLogger n s)"

lemma dotted_prefixes_snoc: "dotted_prefixes (ps @ [p]) = join_with (CHR ''.'') (ps @ [p]) # dotted_prefixes ps"
proof -
  have "[1..<Suc (length (ps @ [p]))] = [1..<Suc (length ps)] @ [Suc (length ps)]" by simp
  then show ?thesis by (auto simp: dotted_prefixes_def simp del: upt_Suc)
qed

lemma dotted_prefixes_Nil [simp]: "dotted_prefixes [] = []"
  by (simp add: dotted_prefixes_def)

lemma first_logger_Cons:
  "first_logger (n # ns) s = (case HasLogger n s of Some lg \<Rightarrow> Some lg | None \<Rightarrow> first_logger ns s)"
  by (auto simp: first_logger_def split: option.splits)

lemma first_logger_Nil [simp]: "first_logger [] s = None"
  by (simp add: first_logger_def)

lemma GetLogger_root: "GetLoggerByType ''root'' s = HasLogger ''root'' s"
  by (simp add: GetLoggerByType.simps split: option.splits)

text \<open>
  The logger of a message is the one of the longest dotted prefix of its source that has one,
  and the logger \<open>root\<close> when no prefix has one; the search always ends.
\<close>

theorem logger_of_longest_prefix:
  assumes "ps \<noteq> []" and "\<forall>p \<in> set ps. CHR ''.'' \<notin> set p"
  shows "GetLoggerByType (join_with (CHR ''.'') ps) s = first_logger (dotted_prefixes ps @ [''root'']) s"
  using assms
proof (induction ps rule: rev_induct)
  case Nil
  then show ?case by simp
next
  case (snoc p ps)
  let ?t = "join_with (CHR ''.'') (ps @ [p])"
  have par: "parent_logger ?t = (if ps = [] then ''root'' else join_with (CHR ''.'') ps)"
    using snoc.prems by (intro parent_of_join) simp
  have root: "?t = ''root'' \<Longrightarrow> ps = []"
  proof (rule ccontr)
    assume "?t = ''root''" "ps \<noteq> []"
    then have "CHR ''.'' \<in> set ''root''" by (metis join_with_snoc in_set_conv_decomp)
    then show False by simp
  qed
  have ih: "ps \<noteq> [] \<Longrightarrow> GetLoggerByType (join_with (CHR ''.'') ps) s = first_logger (dotted_prefixes ps @ [''root'']) s"
    using snoc by simp
  show ?case
  proof (cases "HasLogger ?t s")
    case None
    then show ?thesis using par root ih dotted_prefixes_snoc [of "[]" p]
      by (cases "?t = ''root''"; cases "ps = []")
        (simp_all add: GetLoggerByType.simps [of ?t] GetLoggerByType.simps [of p] dotted_prefixes_snoc first_logger_Cons GetLogger_root split: option.splits)
  next
    case (Some lg)
    then show ?thesis by (simp add: GetLoggerByType.simps [of ?t] dotted_prefixes_snoc first_logger_Cons)
  qed
qed

lemma Log_Write_console:
  assumes "\<forall>k \<in> set ks. \<exists>ch colors. HasChannel k s = Some ch \<and> ch_impl ch = ConsoleImpl colors"
  shows "log_out (fst (write_channels E msg ks s)) = log_out s @
    concat (map (\<lambda>k. case HasChannel k s of
        Some ch \<Rightarrow> if msg_level msg \<le> ch_level ch then the (snd (Channel_Write E msg ch)) else [] | None \<Rightarrow> []) ks)"
  using assms
proof (induction ks arbitrary: s)
  case Nil
  then show ?case by simp
next
  case (Cons k ks)
  obtain ch colors where ch: "map_of (channels s) k = Some ch" "ch_impl ch = ConsoleImpl colors"
    using Cons.prems by (auto simp: HasChannel_def)
  define out where "out = the (snd (Channel_Write E msg ch))"
  have w: "Channel_Write E msg ch = (ch, Some out)" using ch by (simp add: Channel_Write_def out_def)
  let ?s' = "s\<lparr>channels := put_channel k ch (channels s), log_out := log_out s @ out\<rparr>"
  have same: "HasChannel k' ?s' = HasChannel k' s" for k'
    using ch by (auto simp: HasChannel_def map_of_put_channel)
  have ih: "log_out (fst (write_channels E msg ks ?s')) = log_out s @ out @
    concat (map (\<lambda>k. case HasChannel k s of
        Some ch \<Rightarrow> if msg_level msg \<le> ch_level ch then the (snd (Channel_Write E msg ch)) else [] | None \<Rightarrow> []) ks)"
    using Cons.IH [of ?s'] Cons.prems same by simp
  have ih0: "log_out (fst (write_channels E msg ks s)) = log_out s @
    concat (map (\<lambda>k. case HasChannel k s of
        Some ch \<Rightarrow> if msg_level msg \<le> ch_level ch then the (snd (Channel_Write E msg ch)) else [] | None \<Rightarrow> []) ks)"
    using Cons.IH [of s] Cons.prems by simp
  show ?case using ch w ih ih0 by (auto simp: HasChannel_def Let_def not_less)
qed

text \<open>
  \<open>Write\<close> agrees with \<open>ShouldLog\<close>: a message that should not be logged changes nothing; one that
  should be logged, by a logger with console channels, is printed by each of its channels whose
  level is high enough, in their order, once each.
\<close>

theorem write_follows_should_log:
  assumes "log_reach s" and "msg_level msg \<noteq> Disabled"
  shows "(\<not> ShouldLog (msg_source msg) (msg_level msg) s \<longrightarrow> Log_Write E msg s = s)
    \<and> (\<forall>lg. ShouldLog (msg_source msg) (msg_level msg) s \<and> GetLoggerByType (msg_source msg) s = Some lg
        \<and> (\<forall>k \<in> set (lg_channels lg). \<exists>ch colors. HasChannel k s = Some ch \<and> ch_impl ch = ConsoleImpl colors)
        \<longrightarrow> log_out (Log_Write E msg s) = log_out s @
            concat (map (\<lambda>k. case HasChannel k s of
              Some ch \<Rightarrow> if msg_level msg \<le> ch_level ch then the (snd (Channel_Write E msg ch)) else [] | None \<Rightarrow> []) (lg_channels lg)))"
proof (cases "GetLoggerByType (msg_source msg) s")
  case None
  then show ?thesis by (simp add: Log_Write_def)
next
  case (Some lg)
  have h: "lg_level lg \<le> highestLogLevel s"
    using GetLoggerByType_in [OF Some] log_reach_inv [OF assms(1)] by (auto simp: log_inv_def)
  have sl: "ShouldLog (msg_source msg) (msg_level msg) s \<longleftrightarrow> lg_level lg \<noteq> Disabled \<and> msg_level msg \<le> lg_level lg"
    using Some h by (auto simp: ShouldLog_def)
  have "lg_level lg < msg_level msg" if "\<not> ShouldLog (msg_source msg) (msg_level msg) s"
    using that sl assms(2) by (auto simp: less_LogLevel_def less_eq_LogLevel_def) (metis level_num.simps(1) level_num_inject gr0I)
  then show ?thesis using Some sl Log_Write_console [of _ s E msg]
    by (auto simp: Log_Write_def Logger_Write_def)
qed

text \<open>
  The limits of old log files cannot be configured.  In every reachable state each file channel
  has the built-in maximum of 20 files and the purge age of 10 days, because a channel option with
  the fields for them is rejected before the channel is created.
\<close>

theorem file_limits_are_fixed:
  assumes "log_reach s" and "HasChannel n s = Some ch" and "ch_impl ch = FileImpl fc"
  shows "fc_maxCount fc = 20 \<and> fc_purgeAge fc = 10"
  using log_reach_inv [OF assms(1)] assms(2,3) by (auto simp: file_limits_def HasChannel_def dest: map_of_SomeD)

lemma subst_field_id: "\<not> contains_str name ''{}'' \<Longrightarrow> subst_field opt name = name"
proof (induction opt name rule: subst_field.induct)
  case (1 opt s)
  then show ?case by simp
qed auto

text \<open>
  A file channel with a dynamic name is dynamic only once: the first message replaces the
  template by its own file name, and every later message, whatever its option, goes to that file.
\<close>

theorem dynamic_file_name_sticks:
  assumes "fc_isDynamic fc" and "\<not> fc_isAddTimestamp fc" and "fc_logFile fc = None"
    and "msg_option m1 \<noteq> []" and "msg_option m2 \<noteq> []"
    and "\<not> contains_str (subst_field (msg_option m1) (fc_fileName fc)) ''{}''"
    and "FileChannel_Write E acts m1 fc = (fc1, Inr out1)" and "FileChannel_Write E acts m2 fc1 = (fc2, Inr out2)"
  shows "fst out1 = subst_field (msg_option m1) (fc_fileName fc) \<and> fst out2 = fst out1"
  using assms by (auto simp: FileChannel_Write_def OpenFile_def CloseFile_def Let_def subst_field_id split: if_splits)

lemma remove_old_eq:
  "remove_old fs (length fs + d) (m + d) before
     = map fst (take (length fs - m) fs @ filter (\<lambda>(p, t). t < before) (drop (length fs - m) fs))"
proof (induction fs arbitrary: d m)
  case Nil
  then show ?case by simp
next
  case (Cons f fs)
  obtain p t where f: "f = (p, t)" by (cases f)
  have eq: "remove_old fs (length fs + d) (m + d) before
      = map fst (take (length fs - m) fs @ filter (\<lambda>(p, t). t < before) (drop (length fs - m) fs))" by (rule Cons)
  show ?case
  proof (cases "length fs < m")
    case True
    then have "remove_old fs (length fs + Suc d) (m - 1 + Suc d) before = map fst (filter (\<lambda>(p, t). t < before) fs)"
      using Cons [of "Suc d" "m - 1"] by simp
    then show ?thesis using True f by simp
  next
    case False
    then have "length (f # fs) - m = Suc (length fs - m)" by simp
    then show ?thesis using False f eq by simp
  qed
qed


lemma remove_old_all:
  "remove_old fs (length fs) m before
     = map fst (take (length fs - m) fs @ filter (\<lambda>(p, t). t < before) (drop (length fs - m) fs))"
  using remove_old_eq [of fs 0 m before] by simp

lemma old_files_split:
  fixes fs :: "(string \<times> int) list"
  assumes "distinct (map fst fs)" and rem: "removed = map fst (take n fs @ filter (\<lambda>(p, t). t < b) (drop n fs))"
  shows "f \<in> set fs \<Longrightarrow> fst f \<in> set removed \<longleftrightarrow> f \<in> set (take n fs) \<or> snd f < b"
    and "filter (\<lambda>f. fst f \<notin> set removed) fs = filter (\<lambda>f. b \<le> snd f) (drop n fs)"
proof -
  have inj: "inj_on fst (set fs)" using assms(1) by (simp add: distinct_map)
  have "distinct fs" using assms(1) by (simp add: distinct_map)
  then have disj: "f \<notin> set (drop n fs)" if "f \<in> set (take n fs)" for f
    using that set_take_disj_set_drop_if_distinct [of fs n n] by auto
  have sub: "set fs = set (take n fs) \<union> set (drop n fs)" by (metis append_take_drop_id set_append)
  have R: "set removed = fst ` {f \<in> set fs. f \<in> set (take n fs) \<or> snd f < b \<and> f \<in> set (drop n fs)}"
    unfolding rem using sub by force
  have in_rem: "fst f \<in> set removed \<longleftrightarrow> f \<in> set (take n fs) \<or> snd f < b" if "f \<in> set fs" for f
    using that inj sub unfolding R by (auto simp: inj_on_def)
  then show "f \<in> set fs \<Longrightarrow> fst f \<in> set removed \<longleftrightarrow> f \<in> set (take n fs) \<or> snd f < b" .
  have t: "filter (\<lambda>f. fst f \<notin> set removed) (take n fs) = []"
    using in_rem sub by (auto simp: filter_empty_conv)
  have u: "filter (\<lambda>f. fst f \<notin> set removed) (drop n fs) = filter (\<lambda>f. b \<le> snd f) (drop n fs)"
    using in_rem disj sub by (intro filter_cong) (auto simp: not_less)
  have "filter (\<lambda>f. fst f \<notin> set removed) (take n fs @ drop n fs) = filter (\<lambda>f. b \<le> snd f) (drop n fs)"
    unfolding filter_append t u by simp
  then show "filter (\<lambda>f. fst f \<notin> set removed) fs = filter (\<lambda>f. b \<le> snd f) (drop n fs)" by simp
qed

text \<open>
  Removing old log files keeps at most the maximal number, keeps no file older than the purge
  age, and never removes a file that is newer than one it keeps.
\<close>

theorem clear_old_files_keeps_newest:
  fixes fc :: file_channel and now :: int
  assumes "logsDir \<noteq> []" and "distinct (map fst listing)"
  defines "removed \<equiv> ClearOldFiles logsDir listing now fc"
  defines "kept \<equiv> filter (\<lambda>f. fst f \<notin> set removed) listing"
  shows "length kept \<le> fc_maxCount fc
    \<and> (\<forall>f \<in> set kept. now - 86400 * int (fc_purgeAge fc) \<le> snd f)
    \<and> (\<forall>f \<in> set listing. \<forall>g \<in> set kept. fst f \<in> set removed \<longrightarrow> snd f \<le> snd g)"
proof -
  define fs where "fs = sort_key snd listing"
  define n where "n = length fs - fc_maxCount fc"
  define b where "b = now - 86400 * int (fc_purgeAge fc)"
  have rem: "removed = map fst (take n fs @ filter (\<lambda>(p, t). t < b) (drop n fs))"
    using assms(1) by (simp add: removed_def ClearOldFiles_def fs_def [symmetric] remove_old_all n_def b_def Let_def)
  have m: "mset fs = mset listing" and srt: "sorted (map snd fs)" by (simp_all add: fs_def)
  have d: "distinct (map fst fs)" using assms(2) m by (metis mset_eq_imp_distinct_iff mset_map)
  note sp = old_files_split [OF d rem]
  have kept: "mset kept = mset (filter (\<lambda>f. b \<le> snd f) (drop n fs))"
    by (metis kept_def m mset_filter sp(2))
  then have "length kept = length (filter (\<lambda>f. b \<le> snd f) (drop n fs))" by (metis size_mset)
  also have "\<dots> \<le> length (drop n fs)" by (rule length_filter_le)
  finally have "length kept \<le> fc_maxCount fc" by (simp add: n_def)
  moreover have ks: "set kept = {f \<in> set (drop n fs). b \<le> snd f}" using kept by (metis set_filter set_mset_mset)
  moreover have "snd f \<le> snd g" if "f \<in> set listing" "g \<in> set kept" "fst f \<in> set removed" for f g
  proof -
    have g: "g \<in> set (drop n fs)" "b \<le> snd g" using that(2) ks by auto
    have "sorted (map snd (take n fs) @ map snd (drop n fs))" using srt by (metis append_take_drop_id map_append)
    then have "\<forall>x \<in> set (take n fs). \<forall>y \<in> set (drop n fs). snd x \<le> snd y" by (auto simp: sorted_append)
    moreover have "f \<in> set fs" using that(1) m by (metis set_mset_mset)
    ultimately show ?thesis using sp(1) [of f] that(3) g by force
  qed
  ultimately show ?thesis by (auto simp: b_def)
qed


subsection \<open>The date round trip\<close>

definition two_digits :: "nat \<Rightarrow> string" where
  "two_digits n = [digit_char (n div 10), digit_char (n mod 10)]"

definition four_digits :: "nat \<Rightarrow> string" where
  "four_digits n = two_digits (n div 100) @ two_digits (n mod 100)"

text \<open>The time stamp \<^verbatim>\<open>%Y_%m_%d_%H_%M_%S\<close> of a file name.\<close>

definition stamp_text :: "tm \<Rightarrow> string" where
  "stamp_text t = four_digits (tm_year t) @ ''_'' @ two_digits (tm_mon t) @ ''_'' @ two_digits (tm_mday t) @ ''_''
     @ two_digits (tm_hour t) @ ''_'' @ two_digits (tm_min t) @ ''_'' @ two_digits (tm_sec t)"

definition stamp_ok :: "tm \<Rightarrow> bool" where
  "stamp_ok t = (tm_year t < 10000 \<and> 0 < tm_mon t \<and> tm_mon t < 100 \<and> 0 < tm_mday t \<and> tm_mday t < 100 \<and> tm_hour t < 100
     \<and> tm_min t < 100 \<and> tm_sec t < 100)"

lemma is_digit_digit_char: "d < 10 \<Longrightarrow> is_digit (digit_char d)"
  by (simp add: is_digit_def of_char_digit_char)

lemma parse_two_digits:
  assumes "n < 100"
  shows "parse_number (Suc (Suc k)) v (two_digits n @ r) = parse_number k (v * 100 + n) r"
proof -
  have "(v * 10 + n div 10) * 10 + n mod 10 = v * 100 + n" by (simp only: add_mult_distrib mult.assoc add.assoc div_mult_mod_eq)
  then show ?thesis using assms
    by (simp add: two_digits_def is_digit_digit_char of_char_digit_char add.commute mult.commute)
qed

lemma dropWhile_two_digits: "n < 100 \<Longrightarrow> dropWhile (\<lambda>c. \<not> is_digit c) (two_digits n @ r) = two_digits n @ r"
  by (simp add: two_digits_def is_digit_digit_char)

lemma field_two:
  assumes "n < 100" and "\<forall>c \<in> set pre. \<not> is_digit c"
  shows "field_at 2 0 (pre @ two_digits n @ r) = (n, r)"
proof -
  have "field_at 2 0 (pre @ two_digits n @ r) = parse_number (Suc (Suc 0)) 0 (two_digits n @ r)"
    using assms by (simp add: field_at_def dropWhile_two_digits numeral_2_eq_2)
  also have "\<dots> = (n, r)" using parse_two_digits [OF assms(1), of 0 0 r] by simp
  finally show ?thesis .
qed

lemma field_four:
  assumes "n < 10000" and "\<forall>c \<in> set pre. \<not> is_digit c"
  shows "field_at 4 0 (pre @ four_digits n @ r) = (n, r)"
proof -
  have four: "4 = Suc (Suc (Suc (Suc 0)))" by simp
  have lt: "n div 100 < 100" "n mod 100 < 100" using assms(1) by (simp_all add: div_less_iff_less_mult)
  have "field_at 4 0 (pre @ four_digits n @ r)
      = parse_number (Suc (Suc (Suc (Suc 0)))) 0 (two_digits (n div 100) @ two_digits (n mod 100) @ r)"
    using assms(2) dropWhile_two_digits [OF lt(1)] by (simp add: field_at_def four_digits_def flip: four)
  also have "\<dots> = (n, r)"
    using parse_two_digits [OF lt(1), of "Suc (Suc 0)" 0] parse_two_digits [OF lt(2), of 0 "n div 100" r] by simp
  finally show ?thesis .
qed

abbreviation stamp_fmt :: string where
  "stamp_fmt \<equiv> ''%Y_%m_%d_%H_%M_%S''"

lemma date_fields_literal: "c \<noteq> CHR ''%'' \<Longrightarrow> date_fields (c # k # f) s t = date_fields (k # f) s t"
  by (cases s) auto

lemma date_fields_step:
  assumes "s \<noteq> []"
  shows "date_fields (CHR ''%'' # CHR ''Y'' # f) s t = (let (v, r) = field_at 4 (tm_year t) s in date_fields f r (t\<lparr>tm_year := v\<rparr>))"
    and "date_fields (CHR ''%'' # CHR ''m'' # f) s t = (let (v, r) = field_at 2 (tm_mon t) s in date_fields f r (t\<lparr>tm_mon := v\<rparr>))"
    and "date_fields (CHR ''%'' # CHR ''d'' # f) s t = (let (v, r) = field_at 2 (tm_mday t) s in date_fields f r (t\<lparr>tm_mday := v\<rparr>))"
    and "date_fields (CHR ''%'' # CHR ''H'' # f) s t = (let (v, r) = field_at 2 (tm_hour t) s in date_fields f r (t\<lparr>tm_hour := v\<rparr>))"
    and "date_fields (CHR ''%'' # CHR ''M'' # f) s t = (let (v, r) = field_at 2 (tm_min t) s in date_fields f r (t\<lparr>tm_min := v\<rparr>))"
    and "date_fields (CHR ''%'' # CHR ''S'' # f) s t = (let (v, r) = field_at 2 (tm_sec t) s in date_fields f r (t\<lparr>tm_sec := v\<rparr>))"
  using assms by (cases s; simp)+

text \<open>
  The date a file name was stamped with is read back from it, when no digit comes before the
  stamp.
\<close>

theorem file_date_roundtrip:
  assumes "stamp_ok t" and "\<forall>c \<in> set base. \<not> is_digit c"
  shows "GetFileCreationDate mktime stamp_fmt (base @ ''_'' @ stamp_text t @ ext) = mktime t"
proof -
  note c = assms(1) [unfolded stamp_ok_def]
  have two: "n < 100 \<Longrightarrow> field_at 2 0 (CHR ''_'' # two_digits n @ r) = (n, r)" for n r
    using field_two [of n "''_''" r] by (simp add: is_digit_def)
  have four: "field_at 4 0 (base @ CHR ''_'' # four_digits (tm_year t) @ r) = (tm_year t, r)" for r
    using field_four [of "tm_year t" "base @ ''_''" r] c assms(2) by (auto simp: is_digit_def)
  have "date_fields stamp_fmt (base @ ''_'' @ stamp_text t @ ext)
      \<lparr>tm_year = 0, tm_mon = 0, tm_mday = 0, tm_hour = 0, tm_min = 0, tm_sec = 0\<rparr> = t"
    using c by (simp add: stamp_text_def date_fields_step date_fields_literal four two del: date_fields.simps)
      (simp add: date_fields.simps(1))
  then show ?thesis using c by (simp add: GetFileCreationDate_def Let_def)
qed


subsection \<open>Concrete logs\<close>

definition default_log :: log_state where
  "default_log = UsingDefaultLogs True log_init"

lemma default_log_reach: "log_reach default_log"
  unfolding default_log_def by (rule lreach_step [OF lreach_init step_default])

definition file_log :: log_state where
  "file_log = LoadFromConfig (sample_cfg\<lparr>configOptions := [(''LogChannel.F'', ''2,6,%t,x.log''), (''Logger.root'', ''6,F'')]\<rparr>) log_init"

lemma file_log_reach: "log_reach file_log"
  unfolding file_log_def by (rule lreach_step [OF lreach_init step_load])

abbreviation sample_msg :: "string \<Rightarrow> LogLevel \<Rightarrow> string \<Rightarrow> log_message" where
  "sample_msg src level opt \<equiv> \<lparr>msg_source = src, msg_text = ''hi'', msg_level = level, msg_file = [], msg_line = 0, msg_option = opt\<rparr>"

abbreviation sample_log_env :: log_env where
  "sample_log_env \<equiv> \<lparr>time_field = (\<lambda>k. ''0''), file_stamp = ''s'', can_open = (\<lambda>p. True)\<rparr>"

theorem should_log_exact_witness:
  "ShouldLog ''db.pool'' Info default_log \<longleftrightarrow>
     (\<exists>lg. GetLoggerByType ''db.pool'' default_log = Some lg \<and> lg_level lg \<noteq> Disabled \<and> Info \<le> lg_level lg)"
  by (rule should_log_exact [OF default_log_reach])

theorem logger_of_longest_prefix_witness:
  "GetLoggerByType (join_with (CHR ''.'') [''db'', ''pool'']) default_log
     = first_logger (dotted_prefixes [''db'', ''pool''] @ [''root'']) default_log"
  by (rule logger_of_longest_prefix) simp_all

theorem write_follows_should_log_witness:
  "\<not> ShouldLog ''db.pool'' Trace default_log \<and> Log_Write sample_log_env (sample_msg ''db.pool'' Trace []) default_log = default_log"
proof -
  have n: "\<not> ShouldLog ''db.pool'' Trace default_log" by code_simp
  show ?thesis using n write_follows_should_log [OF default_log_reach, of "sample_msg ''db.pool'' Trace []" sample_log_env] by simp
qed

theorem file_limits_are_fixed_witness:
  "\<exists>ch fc. HasChannel ''F'' file_log = Some ch \<and> ch_impl ch = FileImpl fc \<and> fc_maxCount fc = 20 \<and> fc_purgeAge fc = 10"
proof -
  have "\<not> Option.is_none (HasChannel ''F'' file_log)
      \<and> (case ch_impl (the (HasChannel ''F'' file_log)) of FileImpl fc \<Rightarrow> True | ConsoleImpl c \<Rightarrow> False)"
    by code_simp
  then obtain ch fc where "HasChannel ''F'' file_log = Some ch" "ch_impl ch = FileImpl fc"
    by (auto simp: Option.is_none_def split: channel_impl.splits)
  then show ?thesis using file_limits_are_fixed [OF file_log_reach] by blast
qed

theorem dynamic_file_name_sticks_witness:
  "\<exists>fc fc1 fc2 out1 out2. FileChannel [''2'', ''6'', ''%t'', ''gm_{}.log''] = Some fc
     \<and> FileChannel_Write sample_log_env [end_action ''x''] (sample_msg ''gm'' Info ''7'') fc = (fc1, Inr out1)
     \<and> FileChannel_Write sample_log_env [end_action ''x''] (sample_msg ''gm'' Info ''8'') fc1 = (fc2, Inr out2)
     \<and> fst out1 = ''gm_7.log'' \<and> fst out2 = fst out1"
proof -
  let ?fc = "\<lparr>fc_fileName = ''gm_{}.log'', fc_isDynamic = True, fc_isFlush = True, fc_isAppend = True,
     fc_isAddTimestamp = False, fc_maxCount = 20, fc_purgeAge = 10, fc_logFile = None\<rparr>"
  let ?fc1 = "?fc\<lparr>fc_fileName := ''gm_7.log''\<rparr>"
  have f: "FileChannel [''2'', ''6'', ''%t'', ''gm_{}.log''] = Some ?fc" by code_simp
  have w1: "FileChannel_Write sample_log_env [end_action ''x''] (sample_msg ''gm'' Info ''7'') ?fc = (?fc1, Inr (''gm_7.log'', ''x'' @ [CHR 0x0A]))"
    by code_simp
  have w2: "FileChannel_Write sample_log_env [end_action ''x''] (sample_msg ''gm'' Info ''8'') ?fc1 = (?fc1, Inr (''gm_7.log'', ''x'' @ [CHR 0x0A]))"
    by code_simp
  have "\<not> contains_str (subst_field ''7'' ''gm_{}.log'') ''{}''" by code_simp
  then show ?thesis using f w1 w2 dynamic_file_name_sticks [OF _ _ _ _ _ _ w1 w2] by auto
qed

theorem clear_old_files_keeps_newest_witness:
  "length (filter (\<lambda>f. fst f \<notin> set (ClearOldFiles ''logs/'' [(''a'', 5), (''b'', 9)] 10 (the (FileChannel (replicate 7 ''1'')))))
     [(''a'', 5), (''b'', 9 :: int)]) \<le> fc_maxCount (the (FileChannel (replicate 7 ''1'')))"
  using clear_old_files_keeps_newest [of "''logs/''" "[(''a'', 5), (''b'', 9 :: int)]" 10 "the (FileChannel (replicate 7 ''1''))"]
  by simp

theorem file_date_roundtrip_witness:
  "GetFileCreationDate (\<lambda>t. int (tm_year t)) stamp_fmt (''Server'' @ ''_'' @
     stamp_text \<lparr>tm_year = 2022, tm_mon = 5, tm_mday = 1, tm_hour = 10, tm_min = 0, tm_sec = 59\<rparr> @ ''.log'') = 2022"
  using file_date_roundtrip [of "\<lparr>tm_year = 2022, tm_mon = 5, tm_mday = 1, tm_hour = 10, tm_min = 0, tm_sec = 59\<rparr>" "''Server''"
      "\<lambda>t. int (tm_year t)" "''.log''"]
  by (simp add: stamp_ok_def is_digit_def)

end
