(* ===== verification/Statement.thy ===== *)
theory Statement
  imports StrUtil
begin

section \<open>Prepared statements\<close>

text \<open>
  \<^verbatim>\<open>src/src/server/database/Database/PreparedStatement.cpp\<close> and \<^verbatim>\<open>.h\<close>: the statement object of the
  program, a vector of parameters and the flags of those that were set; and
  \<^verbatim>\<open>MySQLPreparedStatement.cpp\<close>: the statement of one connection, whose \<^verbatim>\<open>MYSQL_BIND\<close> array is what
  the client library reads.  Buffers are byte lists in the little-endian order of the platforms the
  program is built for; a \<^verbatim>\<open>float\<close> or \<^verbatim>\<open>double\<close> is its bit pattern, since the code only copies it.
  The memory management of the buffers is not modelled: a released buffer is \<open>None\<close>.
\<close>

subsection \<open>The statement object\<close>

datatype PreparedStatementData =
    PBool bool
  | PUInt8 u8 | PUInt16 u16 | PUInt32 u32 | PUInt64 u64
  | PInt8 u8 | PInt16 u16 | PInt32 u32 | PInt64 u64
  | PFloat u32 | PDouble u64
  | PString string | PBinary "u8 list" | PNull

record statement =
  ps_index :: u32
  ps_paramsSet :: "bool list"
  ps_data :: "PreparedStatementData list"

text \<open>A value-initialised variant holds its first alternative.\<close>

definition PreparedStatementBase :: "u32 \<Rightarrow> u8 \<Rightarrow> statement" where
  "PreparedStatementBase index capacity =
     \<lparr>ps_index = index, ps_paramsSet = replicate (unat capacity) False,
      ps_data = replicate (unat capacity) (PBool False)\<rparr>"

definition SetValidData :: "u8 \<Rightarrow> PreparedStatementData \<Rightarrow> statement \<Rightarrow> statement res" where
  "SetValidData index value s =
     bind_res (assert_res (unat index < length (ps_data s)))
       (\<lambda>_. Inr (s\<lparr>ps_data := (ps_data s)[unat index := value],
                   ps_paramsSet := (ps_paramsSet s)[unat index := True]\<rparr>))"

text \<open>
  The overload for durations: \<open>convertToUin32 ? static_cast<uint32>(count) : count\<close> has the type of
  \<open>count\<close>, so a signed 64-bit value is stored in both cases, truncated in the first.
\<close>

definition SetData_duration :: "u8 \<Rightarrow> u64 \<Rightarrow> bool \<Rightarrow> statement \<Rightarrow> statement res" where
  "SetData_duration index cnt convertToUin32 s =
     SetValidData index (PInt64 (if convertToUin32 then ucast (ucast cnt :: u32) else cnt)) s"

text \<open>\<open>SetDataTuple\<close>: the fold over the arguments with its 8-bit index.\<close>

fun set_data_from :: "u8 \<Rightarrow> PreparedStatementData list \<Rightarrow> statement \<Rightarrow> statement res" where
  "set_data_from index [] s = Inr s"
| "set_data_from index (a # arguments) s =
     bind_res (SetValidData index a s) (set_data_from (index + 1) arguments)"

definition SetArguments :: "PreparedStatementData list \<Rightarrow> statement \<Rightarrow> statement res" where
  "SetArguments arguments s = set_data_from 0 arguments s"

fun first_unset :: "bool list \<Rightarrow> nat \<Rightarrow> bool \<times> u8" where
  "first_unset [] index = (True, 0)"
| "first_unset (p # ps) index = (if \<not> p then (False, of_nat index) else first_unset ps (index + 1))"

definition IsAllParamsSet :: "statement \<Rightarrow> bool \<times> u8" where
  "IsAllParamsSet s = first_unset (ps_paramsSet s) 0"

text \<open>\<open>PreparedStatementData::ToString\<close>; \<open>fmt\<close> formats a floating-point number.\<close>

definition data_text :: "(u32 + u64 \<Rightarrow> string) \<Rightarrow> PreparedStatementData \<Rightarrow> string" where
  "data_text fmt d = (case d of
       PBool b \<Rightarrow> if b then ''true'' else ''false''
     | PUInt8 v \<Rightarrow> show_int (uint v) | PUInt16 v \<Rightarrow> show_int (uint v)
     | PUInt32 v \<Rightarrow> show_int (uint v) | PUInt64 v \<Rightarrow> show_int (uint v)
     | PInt8 v \<Rightarrow> show_int (sint v) | PInt16 v \<Rightarrow> show_int (sint v)
     | PInt32 v \<Rightarrow> show_int (sint v) | PInt64 v \<Rightarrow> show_int (sint v)
     | PFloat v \<Rightarrow> fmt (Inl v) | PDouble v \<Rightarrow> fmt (Inr v)
     | PString s \<Rightarrow> s | PBinary b \<Rightarrow> ''BINARY'' | PNull \<Rightarrow> ''NULL'')"

subsection \<open>The statement of a connection\<close>

datatype enum_field_types =
    MYSQL_TYPE_DECIMAL | MYSQL_TYPE_TINY | MYSQL_TYPE_SHORT | MYSQL_TYPE_LONG | MYSQL_TYPE_LONGLONG
  | MYSQL_TYPE_FLOAT | MYSQL_TYPE_DOUBLE | MYSQL_TYPE_NULL | MYSQL_TYPE_VAR_STRING | MYSQL_TYPE_BLOB

record mysql_bind =
  buffer_type :: enum_field_types
  buffer :: "u8 list option"
  buffer_length :: nat
  is_null_value :: bool
  bind_length :: "nat option"
  is_unsigned :: bool

text \<open>What \<open>memset(_bind, 0, \<dots>)\<close> leaves: \<open>MYSQL_TYPE_DECIMAL\<close> is the type with code 0.\<close>

definition zero_bind :: mysql_bind where
  "zero_bind = \<lparr>buffer_type = MYSQL_TYPE_DECIMAL, buffer = None, buffer_length = 0, is_null_value = False,
     bind_length = None, is_unsigned = False\<rparr>"

record mysql_stmt =
  ms_query :: string
  ms_paramCount :: nat
  ms_paramsSet :: "bool list"
  ms_bind :: "mysql_bind list"
  ms_stmt :: "statement option"

definition MySQLPreparedStatement :: "nat \<Rightarrow> string \<Rightarrow> mysql_stmt" where
  "MySQLPreparedStatement paramCount queryString =
     \<lparr>ms_query = queryString, ms_paramCount = paramCount, ms_paramsSet = replicate paramCount False,
      ms_bind = replicate paramCount zero_bind, ms_stmt = None\<rparr>"

text \<open>\<open>SetParameter<T>\<close> on the bind of its parameter, for a \<open>T\<close> of \<open>len\<close> bytes.\<close>

definition bind_scalar :: "enum_field_types \<Rightarrow> nat \<Rightarrow> bool \<Rightarrow> nat \<Rightarrow> mysql_bind \<Rightarrow> mysql_bind" where
  "bind_scalar ty len unsgn v param =
     param\<lparr>buffer_type := ty, buffer := Some (le_bytes len v), buffer_length := 0, is_null_value := False,
           bind_length := None, is_unsigned := unsgn\<rparr>"

text \<open>
  The overloads for \<open>std::string\<close> and \<open>std::vector<uint8>\<close> (a length beyond 32 bits is cut off by
  \<open>uint32(value.size())\<close>) and for \<open>nullptr\<close>; they leave \<open>is_unsigned\<close> as it was.
\<close>

definition bind_bytes :: "enum_field_types \<Rightarrow> u8 list \<Rightarrow> mysql_bind \<Rightarrow> mysql_bind" where
  "bind_bytes ty value param =
     (let len = length value mod 2 ^ 32
      in param\<lparr>buffer_type := ty, buffer := Some (take len value), buffer_length := len, is_null_value := False,
               bind_length := Some len\<rparr>)"

definition bind_null :: "mysql_bind \<Rightarrow> mysql_bind" where
  "bind_null param =
     param\<lparr>buffer_type := MYSQL_TYPE_NULL, buffer := None, buffer_length := 0, is_null_value := True,
           bind_length := None\<rparr>"

definition bind_param :: "PreparedStatementData \<Rightarrow> mysql_bind \<Rightarrow> mysql_bind" where
  "bind_param d = (case d of
       PBool b \<Rightarrow> bind_scalar MYSQL_TYPE_TINY 1 True (if b then 1 else 0)
     | PUInt8 v \<Rightarrow> bind_scalar MYSQL_TYPE_TINY 1 True (unat v)
     | PUInt16 v \<Rightarrow> bind_scalar MYSQL_TYPE_SHORT 2 True (unat v)
     | PUInt32 v \<Rightarrow> bind_scalar MYSQL_TYPE_LONG 4 True (unat v)
     | PUInt64 v \<Rightarrow> bind_scalar MYSQL_TYPE_LONGLONG 8 True (unat v)
     | PInt8 v \<Rightarrow> bind_scalar MYSQL_TYPE_TINY 1 False (unat v)
     | PInt16 v \<Rightarrow> bind_scalar MYSQL_TYPE_SHORT 2 False (unat v)
     | PInt32 v \<Rightarrow> bind_scalar MYSQL_TYPE_LONG 4 False (unat v)
     | PInt64 v \<Rightarrow> bind_scalar MYSQL_TYPE_LONGLONG 8 False (unat v)
     | PFloat v \<Rightarrow> bind_scalar MYSQL_TYPE_FLOAT 4 False (unat v)
     | PDouble v \<Rightarrow> bind_scalar MYSQL_TYPE_DOUBLE 8 False (unat v)
     | PString s \<Rightarrow> bind_bytes MYSQL_TYPE_VAR_STRING (string_bytes s)
     | PBinary b \<Rightarrow> bind_bytes MYSQL_TYPE_BLOB b
     | PNull \<Rightarrow> bind_null)"

text \<open>\<open>AssertValidIndex\<close>; binding an index twice is only logged.\<close>

definition AssertValidIndex :: "u8 \<Rightarrow> mysql_stmt \<Rightarrow> unit res" where
  "AssertValidIndex index m = assert_res (unat index < ms_paramCount m)"

definition SetParameter :: "u8 \<Rightarrow> PreparedStatementData \<Rightarrow> mysql_stmt \<Rightarrow> mysql_stmt res" where
  "SetParameter index value m =
     bind_res (AssertValidIndex index m)
       (\<lambda>_. Inr (m\<lparr>ms_paramsSet := (ms_paramsSet m)[unat index := True],
                   ms_bind := (ms_bind m)[unat index := bind_param value (ms_bind m ! unat index)]\<rparr>))"

fun bind_from :: "u8 \<Rightarrow> PreparedStatementData list \<Rightarrow> mysql_stmt \<Rightarrow> mysql_stmt res" where
  "bind_from pos [] m = Inr m"
| "bind_from pos (d # ds) m = bind_res (SetParameter pos d m) (bind_from (pos + 1) ds)"

definition BindParameters :: "statement \<Rightarrow> mysql_stmt \<Rightarrow> mysql_stmt res" where
  "BindParameters s m = bind_from 0 (ps_data s) (m\<lparr>ms_stmt := Some s\<rparr>)"

definition ClearParameters :: "mysql_stmt \<Rightarrow> mysql_stmt" where
  "ClearParameters m =
     m\<lparr>ms_bind := map (\<lambda>param. param\<lparr>bind_length := None, buffer := None\<rparr>) (ms_bind m),
       ms_paramsSet := map (\<lambda>_. False) (ms_paramsSet m)\<rparr>"

text \<open>
  \<open>getQueryString\<close>: each parameter replaces the next \<open>?\<close>.  \<open>None\<close> is the \<open>std::out_of_range\<close> of
  \<open>replace(npos, \<dots>)\<close>, when no question mark is left.
\<close>

fun query_string_from :: "(u32 + u64 \<Rightarrow> string) \<Rightarrow> PreparedStatementData list \<Rightarrow> nat \<Rightarrow> string \<Rightarrow> string option" where
  "query_string_from fmt [] pos q = Some q"
| "query_string_from fmt (d # ds) pos q =
     (case find_from (CHR ''?'') q pos of
        None \<Rightarrow> None
      | Some p \<Rightarrow> let replaceStr = data_text fmt d
                 in query_string_from fmt ds (p + length replaceStr) (take p q @ replaceStr @ drop (p + 1) q))"

definition getQueryString :: "(u32 + u64 \<Rightarrow> string) \<Rightarrow> statement \<Rightarrow> mysql_stmt \<Rightarrow> string option" where
  "getQueryString fmt s m = query_string_from fmt (ps_data s) 0 (ms_query m)"

subsection \<open>Setting and binding parameters\<close>

lemma unat_of_nat_u8: "k < 256 \<Longrightarrow> unat (of_nat k :: u8) = k"
  by (simp add: unsigned_of_nat take_bit_nat_eq_self)

lemma first_unset_all: "(\<And>p. p \<in> set ps \<Longrightarrow> p) \<Longrightarrow> first_unset ps i = (True, 0)"
  by (induction ps i rule: first_unset.induct) auto

lemma first_unset_prefix:
  "first_unset (replicate k True @ replicate n False) i = (if n = 0 then (True, 0) else (False, of_nat (i + k)))"
proof (induction k arbitrary: i)
  case 0
  then show ?case by (cases n) auto
next
  case (Suc k)
  then show ?case by auto
qed

lemma set_data_from_eq:
  assumes "k \<le> length (ps_data s)" "length (ps_data s) \<le> 255" "length (ps_paramsSet s) = length (ps_data s)"
  shows "set_data_from (of_nat k) args s =
           (if k + length args \<le> length (ps_data s)
            then Inr (s\<lparr>ps_data := take k (ps_data s) @ args @ drop (k + length args) (ps_data s),
                        ps_paramsSet := take k (ps_paramsSet s) @ replicate (length args) True
                                        @ drop (k + length args) (ps_paramsSet s)\<rparr>)
            else Inl AssertFailure)"
  using assms
proof (induction args arbitrary: k s)
  case Nil
  then show ?case by simp
next
  case (Cons a args)
  have k: "unat (of_nat k :: u8) = k" using Cons.prems by (simp add: unat_of_nat_u8)
  show ?case
  proof (cases "k < length (ps_data s)")
    case True
    let ?s = "s\<lparr>ps_data := (ps_data s)[k := a], ps_paramsSet := (ps_paramsSet s)[k := True]\<rparr>"
    have "set_data_from (of_nat k) (a # args) s = set_data_from (of_nat (Suc k)) args ?s"
      using True by (simp add: SetValidData_def k add.commute)
    also have "\<dots> = (if Suc k + length args \<le> length (ps_data s)
            then Inr (?s\<lparr>ps_data := take (Suc k) (ps_data ?s) @ args @ drop (Suc k + length args) (ps_data ?s),
                        ps_paramsSet := take (Suc k) (ps_paramsSet ?s) @ replicate (length args) True
                                        @ drop (Suc k + length args) (ps_paramsSet ?s)\<rparr>)
            else Inl AssertFailure)"
      using Cons.IH [of "Suc k" ?s] Cons.prems True by simp
    also have "\<dots> = (if k + length (a # args) \<le> length (ps_data s)
            then Inr (s\<lparr>ps_data := take k (ps_data s) @ (a # args) @ drop (k + length (a # args)) (ps_data s),
                        ps_paramsSet := take k (ps_paramsSet s) @ replicate (length (a # args)) True
                                        @ drop (k + length (a # args)) (ps_paramsSet s)\<rparr>)
            else Inl AssertFailure)"
      using True Cons.prems(3) by (simp add: take_Suc_conv_app_nth replicate_app_Cons_same)
    finally show ?thesis .
  qed (simp add: SetValidData_def k assert_res_def)
qed

text \<open>
  A new statement accepts its arguments exactly when there are not more than its capacity, and
  stops the process otherwise.  The accepted arguments are its first parameters in order, and
  \<open>IsAllParamsSet\<close> names the first parameter that was not given, whatever the number of parameters
  (the 8-bit index does not wrap).
\<close>
theorem statement_arguments:
  "SetArguments args (PreparedStatementBase index capacity) =
     (if length args \<le> unat capacity
      then Inr \<lparr>ps_index = index,
                ps_paramsSet = replicate (length args) True @ replicate (unat capacity - length args) False,
                ps_data = args @ replicate (unat capacity - length args) (PBool False)\<rparr>
      else Inl AssertFailure)
   \<and> IsAllParamsSet \<lparr>ps_index = index,
                ps_paramsSet = replicate (length args) True @ replicate (unat capacity - length args) False,
                ps_data = args @ replicate (unat capacity - length args) (PBool False)\<rparr>
      = (if unat capacity \<le> length args then (True, 0) else (False, of_nat (length args)))"
  using set_data_from_eq [of 0 "PreparedStatementBase index capacity" args] unsigned_less [of capacity, where ?'a = nat]
  by (simp add: SetArguments_def PreparedStatementBase_def IsAllParamsSet_def first_unset_prefix)

text \<open>The bind array after binding parameters from position \<open>k\<close>.\<close>

lemma bind_from_eq:
  assumes "k \<le> ms_paramCount m" "ms_paramCount m \<le> 255" "length (ms_paramsSet m) = ms_paramCount m"
    "length (ms_bind m) = ms_paramCount m"
  shows "bind_from (of_nat k) ds m =
           (if k + length ds \<le> ms_paramCount m
            then Inr (m\<lparr>ms_paramsSet := take k (ms_paramsSet m) @ replicate (length ds) True
                                        @ drop (k + length ds) (ms_paramsSet m),
                        ms_bind := take k (ms_bind m) @ map2 bind_param ds (drop k (ms_bind m))
                                   @ drop (k + length ds) (ms_bind m)\<rparr>)
            else Inl AssertFailure)"
  using assms
proof (induction ds arbitrary: k m)
  case Nil
  then show ?case by simp
next
  case (Cons d ds)
  have k: "unat (of_nat k :: u8) = k" using Cons.prems by (simp add: unat_of_nat_u8)
  show ?case
  proof (cases "k < ms_paramCount m")
    case True
    let ?m = "m\<lparr>ms_paramsSet := (ms_paramsSet m)[k := True],
                ms_bind := (ms_bind m)[k := bind_param d (ms_bind m ! k)]\<rparr>"
    have "bind_from (of_nat k) (d # ds) m = bind_from (of_nat (Suc k)) ds ?m"
      using True by (simp add: SetParameter_def AssertValidIndex_def k add.commute)
    also have "\<dots> = (if Suc k + length ds \<le> ms_paramCount m
            then Inr (?m\<lparr>ms_paramsSet := take (Suc k) (ms_paramsSet ?m) @ replicate (length ds) True
                                        @ drop (Suc k + length ds) (ms_paramsSet ?m),
                        ms_bind := take (Suc k) (ms_bind ?m) @ map2 bind_param ds (drop (Suc k) (ms_bind ?m))
                                   @ drop (Suc k + length ds) (ms_bind ?m)\<rparr>)
            else Inl AssertFailure)"
      using Cons.IH [of "Suc k" ?m] Cons.prems True by simp
    also have "\<dots> = (if k + length (d # ds) \<le> ms_paramCount m
            then Inr (m\<lparr>ms_paramsSet := take k (ms_paramsSet m) @ replicate (length (d # ds)) True
                                        @ drop (k + length (d # ds)) (ms_paramsSet m),
                        ms_bind := take k (ms_bind m) @ map2 bind_param (d # ds) (drop k (ms_bind m))
                                   @ drop (k + length (d # ds)) (ms_bind m)\<rparr>)
            else Inl AssertFailure)"
      using True Cons.prems(3,4)
      by (simp add: take_Suc_conv_app_nth replicate_app_Cons_same Cons_nth_drop_Suc [symmetric])
    finally show ?thesis .
  qed (simp add: SetParameter_def AssertValidIndex_def k assert_res_def)
qed

subsection \<open>What the server reads from the bind array\<close>

text \<open>
  The values of the C API: an integer buffer holds a value of the size its type has, signed unless
  \<open>is_unsigned\<close> is set.
\<close>

datatype sql_value = SqlNull | SqlInt int | SqlFloat nat | SqlDouble nat | SqlText "u8 list" | SqlBlob "u8 list"

definition int_value :: "bool \<Rightarrow> u8 list \<Rightarrow> int" where
  "int_value unsgn bs =
     (let v = int (le_value bs); w = 8 * length bs
      in if unsgn \<or> v < 2 ^ (w - 1) then v else v - 2 ^ w)"

definition bound_value :: "mysql_bind \<Rightarrow> sql_value option" where
  "bound_value b = (case (buffer_type b, buffer b) of
       (MYSQL_TYPE_NULL, _) \<Rightarrow> Some SqlNull
     | (MYSQL_TYPE_FLOAT, Some bs) \<Rightarrow> if length bs = 4 then Some (SqlFloat (le_value bs)) else None
     | (MYSQL_TYPE_DOUBLE, Some bs) \<Rightarrow> if length bs = 8 then Some (SqlDouble (le_value bs)) else None
     | (MYSQL_TYPE_VAR_STRING, Some bs) \<Rightarrow> map_option (\<lambda>n. SqlText (take n bs)) (bind_length b)
     | (MYSQL_TYPE_BLOB, Some bs) \<Rightarrow> map_option (\<lambda>n. SqlBlob (take n bs)) (bind_length b)
     | (MYSQL_TYPE_TINY, Some bs) \<Rightarrow> if length bs = 1 then Some (SqlInt (int_value (is_unsigned b) bs)) else None
     | (MYSQL_TYPE_SHORT, Some bs) \<Rightarrow> if length bs = 2 then Some (SqlInt (int_value (is_unsigned b) bs)) else None
     | (MYSQL_TYPE_LONG, Some bs) \<Rightarrow> if length bs = 4 then Some (SqlInt (int_value (is_unsigned b) bs)) else None
     | (MYSQL_TYPE_LONGLONG, Some bs) \<Rightarrow> if length bs = 8 then Some (SqlInt (int_value (is_unsigned b) bs)) else None
     | _ \<Rightarrow> None)"

text \<open>The value a parameter stands for.\<close>

definition param_value :: "PreparedStatementData \<Rightarrow> sql_value" where
  "param_value d = (case d of
       PBool b \<Rightarrow> SqlInt (if b then 1 else 0)
     | PUInt8 v \<Rightarrow> SqlInt (uint v) | PUInt16 v \<Rightarrow> SqlInt (uint v)
     | PUInt32 v \<Rightarrow> SqlInt (uint v) | PUInt64 v \<Rightarrow> SqlInt (uint v)
     | PInt8 v \<Rightarrow> SqlInt (sint v) | PInt16 v \<Rightarrow> SqlInt (sint v)
     | PInt32 v \<Rightarrow> SqlInt (sint v) | PInt64 v \<Rightarrow> SqlInt (sint v)
     | PFloat v \<Rightarrow> SqlFloat (unat v) | PDouble v \<Rightarrow> SqlDouble (unat v)
     | PString s \<Rightarrow> SqlText (string_bytes s) | PBinary b \<Rightarrow> SqlBlob b | PNull \<Rightarrow> SqlNull)"

definition param_fits :: "PreparedStatementData \<Rightarrow> bool" where
  "param_fits d = (case d of PString s \<Rightarrow> length s < 2 ^ 32 | PBinary b \<Rightarrow> length b < 2 ^ 32 | _ \<Rightarrow> True)"

lemma int_value_unsigned: "v < 256 ^ n \<Longrightarrow> int_value True (le_bytes n v) = int v"
  by (simp add: int_value_def le_value_le_bytes)

lemma sint_eq_unat:
  "sint (w :: 'a :: len word) =
     (if uint w < 2 ^ (LENGTH('a) - 1) then uint w else uint w - 2 ^ LENGTH('a))"
proof -
  have n: "2 ^ LENGTH('a) = 2 * (2 ^ (LENGTH('a) - 1) :: int)"
    by (metis len_gt_0 power_minus_mult mult.commute)
  define k where "k = (2 ^ (LENGTH('a) - 1) :: int)"
  have k: "2 ^ LENGTH('a) = 2 * k" "2 ^ (LENGTH('a) - 1) = k" "2 ^ (LENGTH('a) - Suc 0) = k" using n by (simp_all add: k_def)
  have bounds: "0 \<le> uint w" "uint w < 2 * k" using unsigned_less [of w, where ?'a = int] k by simp_all
  have "sint w = (uint w + k) mod (2 * k) - k"
    using n k by (simp add: sint_uint signed_take_bit_eq_take_bit_shift take_bit_eq_mod)
  also have "\<dots> = (if uint w < k then uint w else uint w - 2 * k)"
  proof (cases "uint w < k")
    case True
    then have "(uint w + k) mod (2 * k) = uint w + k"
      using bounds by (intro mod_pos_pos_trivial) linarith+
    with True show ?thesis by simp
  next
    case False
    have "(uint w + k) mod (2 * k) = (uint w - k + 2 * k) mod (2 * k)" by (simp add: algebra_simps)
    also have "\<dots> = uint w - k" unfolding mod_add_self2 using False bounds by (intro mod_pos_pos_trivial) linarith+
    finally show ?thesis using False by simp
  qed
  finally show ?thesis unfolding k .
qed

lemma int_value_signed:
  fixes w :: "'a :: len word"
  assumes "LENGTH('a) = 8 * n"
  shows "int_value False (le_bytes n (unat w)) = sint w"
proof -
  have "unat w < 256 ^ n"
    using unsigned_less [of w, where ?'a = nat] assms by (simp add: power_mult)
  then show ?thesis
    by (simp add: int_value_def le_value_le_bytes sint_eq_unat assms Let_def)
qed

lemma unat_bounds:
  "unat (a :: u8) < 256" "unat (b :: u16) < 65536" "unat (c :: u32) < 4294967296" "unat (d :: u64) < 18446744073709551616"
  using unsigned_less [of a, where ?'a = nat] unsigned_less [of b, where ?'a = nat]
    unsigned_less [of c, where ?'a = nat] unsigned_less [of d, where ?'a = nat] by simp_all

lemma bound_value_bind_param: "param_fits d \<Longrightarrow> bound_value (bind_param d b) = Some (param_value d)"
  by (cases d)
    (simp_all add: bound_value_def bind_param_def param_value_def bind_scalar_def bind_bytes_def bind_null_def Let_def
       int_value_unsigned int_value_signed le_value_le_bytes unat_bounds param_fits_def string_bytes_def)

text \<open>A statement of a connection as the constructor and the other operations leave it.\<close>

definition stmt_wf :: "mysql_stmt \<Rightarrow> bool" where
  "stmt_wf m = (ms_paramCount m \<le> 255 \<and> length (ms_paramsSet m) = ms_paramCount m
                \<and> length (ms_bind m) = ms_paramCount m)"

lemma stmt_wf_new: "n \<le> 255 \<Longrightarrow> stmt_wf (MySQLPreparedStatement n q)"
  by (simp add: stmt_wf_def MySQLPreparedStatement_def)

lemma stmt_wf_clear: "stmt_wf m \<Longrightarrow> stmt_wf (ClearParameters m)"
  by (simp add: stmt_wf_def ClearParameters_def)

lemma BindParameters_eq:
  assumes "stmt_wf m"
  shows "BindParameters s m =
           (let n = length (ps_data s) in
            if n \<le> ms_paramCount m
            then Inr (m\<lparr>ms_stmt := Some s, ms_paramsSet := replicate n True @ drop n (ms_paramsSet m),
                        ms_bind := map2 bind_param (ps_data s) (ms_bind m) @ drop n (ms_bind m)\<rparr>)
            else Inl AssertFailure)"
  using assms bind_from_eq [of 0 "m\<lparr>ms_stmt := Some s\<rparr>" "ps_data s"]
  by (simp add: BindParameters_def stmt_wf_def Let_def)

lemma stmt_wf_bind: "stmt_wf m \<Longrightarrow> BindParameters s m = Inr m' \<Longrightarrow> stmt_wf m'"
  by (auto simp: BindParameters_eq Let_def stmt_wf_def split: if_splits)

lemma BindParameters_query: "stmt_wf m \<Longrightarrow> BindParameters s m = Inr m' \<Longrightarrow> ms_query m' = ms_query m \<and> ms_paramCount m' = ms_paramCount m"
  by (auto simp: BindParameters_eq Let_def split: if_splits)

lemma bound_values_map2:
  "length ds \<le> length bs \<Longrightarrow> list_all param_fits ds \<Longrightarrow>
   map bound_value (map2 bind_param ds bs) = map (Some \<circ> param_value) ds"
proof (induction ds arbitrary: bs)
  case (Cons d ds)
  then show ?case by (cases bs) (simp_all add: bound_value_bind_param)
qed simp

text \<open>
  C30: What was set is what the server reads.  When a statement of a connection has as many
  parameters as arguments are given, the arguments are accepted, \<open>IsAllParamsSet\<close> holds, binding
  succeeds whatever an earlier use left in the bind array, and the \<open>MYSQL_BIND\<close> array read as the C
  API documents it holds the given values: integers with their sign, strings and binary data with
  their length, \<open>NULL\<close>.
\<close>
theorem bound_parameters_roundtrip:
  assumes "length args = unat capacity" "ms_paramCount m = unat capacity" "stmt_wf m" "list_all param_fits args"
  shows "\<exists>s m'. SetArguments args (PreparedStatementBase index capacity) = Inr s
           \<and> IsAllParamsSet s = (True, 0)
           \<and> BindParameters s m = Inr m'
           \<and> map bound_value (ms_bind m') = map (Some \<circ> param_value) args"
proof -
  let ?s = "\<lparr>ps_index = index, ps_paramsSet = replicate (length args) True, ps_data = args\<rparr>"
  have "SetArguments args (PreparedStatementBase index capacity) = Inr ?s"
    using set_data_from_eq [of 0 "PreparedStatementBase index capacity" args] assms(1)
      unsigned_less [of capacity, where ?'a = nat]
    by (simp add: SetArguments_def PreparedStatementBase_def)
  moreover have "IsAllParamsSet ?s = (True, 0)"
    by (auto simp: IsAllParamsSet_def intro!: first_unset_all)
  moreover have "BindParameters ?s m =
      Inr (m\<lparr>ms_stmt := Some ?s, ms_paramsSet := replicate (length args) True,
             ms_bind := map2 bind_param args (ms_bind m)\<rparr>)"
    using assms by (simp add: BindParameters_eq stmt_wf_def Let_def)
  moreover have "map bound_value (map2 bind_param args (ms_bind m)) = map (Some \<circ> param_value) args"
    using assms by (intro bound_values_map2) (simp_all add: stmt_wf_def)
  ultimately show ?thesis by (intro exI [of _ ?s]) auto
qed

theorem bound_parameters_roundtrip_witness:
  "\<exists>s m'. SetArguments [PInt32 (- 5), PString ''ab'', PNull] (PreparedStatementBase 3 3) = Inr s
      \<and> IsAllParamsSet s = (True, 0)
      \<and> BindParameters s (MySQLPreparedStatement 3 ''SELECT ?, ?, ?'') = Inr m'
      \<and> map bound_value (ms_bind m') = [Some (SqlInt (- 5)), Some (SqlText [97, 98]), Some SqlNull]"
  using bound_parameters_roundtrip [of "[PInt32 (- 5), PString ''ab'', PNull]" 3
      "MySQLPreparedStatement 3 ''SELECT ?, ?, ?''" 3] stmt_wf_new [of 3]
  by (simp add: MySQLPreparedStatement_def param_fits_def param_value_def string_bytes_def)

subsection \<open>The text of a statement in the log\<close>

text \<open>The specification: the pieces of the query between its question marks, with a text in each gap.\<close>

fun interleave :: "string list \<Rightarrow> string list \<Rightarrow> string" where
  "interleave [] ts = []"
| "interleave [p] ts = p"
| "interleave (p # ps) [] = p @ CHR ''?'' # interleave ps []"
| "interleave (p # ps) (t # ts) = p @ t @ interleave ps ts"

lemma interleave_Nil: "interleave ps [] = join_with (CHR ''?'') ps"
  by (induction "CHR ''?''" ps rule: join_with.induct) simp_all

lemma query_string_from_eq:
  "query_string_from fmt ds (length pre) (pre @ rest) =
     (if length ds < length (split_on (CHR ''?'') rest)
      then Some (pre @ interleave (split_on (CHR ''?'') rest) (map (data_text fmt) ds)) else None)"
proof (induction ds arbitrary: pre rest)
  case Nil
  then show ?case by (simp add: interleave_Nil)
next
  case (Cons d ds)
  show ?case
  proof (cases "CHR ''?'' \<in> set rest")
    case True
    then obtain a b where rest: "rest = a @ CHR ''?'' # b" "CHR ''?'' \<notin> set a"
      using split_list_first by fastforce
    let ?r = "data_text fmt d"
    have "query_string_from fmt (d # ds) (length pre) (pre @ rest) =
        query_string_from fmt ds (length (pre @ a @ ?r)) ((pre @ a @ ?r) @ b)"
      using rest(2) by (simp add: rest(1) find_from_def Let_def add.assoc)
    then show ?thesis
      unfolding Cons.IH rest(1) using rest(2)
      by (cases "split_on (CHR ''?'') b") (simp_all add: split_on_append_sep)
  next
    case False
    then have "index_of (CHR ''?'') rest = None" by simp
    then show ?thesis using False by (simp add: find_from_def split_on_no_sep del: index_of_None)
  qed
qed

text \<open>
  The statement text that is logged has the \<open>i\<close>-th parameter in the place of the \<open>i\<close>-th question
  mark of the query, also when the text of a parameter contains question marks itself; when the
  query has fewer question marks than the statement has parameters, building the text throws.
\<close>
theorem query_string_exact:
  "getQueryString fmt s m =
     (let parts = split_on (CHR ''?'') (ms_query m)
      in if length (ps_data s) < length parts
         then Some (interleave parts (map (data_text fmt) (ps_data s))) else None)"
  using query_string_from_eq [of fmt "ps_data s" "[]" "ms_query m"]
  by (simp add: getQueryString_def Let_def)

end
