(* ===== verification/Connection.thy ===== *)
theory Connection
  imports Statement
begin

unbundle bit_operations_syntax

section \<open>Database connections\<close>

text \<open>
  \<^verbatim>\<open>src/src/server/database/Database/MySQLConnection.cpp\<close>.  The MySQL client library and the server
  behind it are not part of the sources: they are the parameter \<open>cl\<close>, which answers every call by the
  history of calls made so far on this connection object, so nothing is assumed of it beyond that its
  answers are caused by what happened before.  A history is the list of calls with the flag that
  the call failed.  Every operation is a function on the state of the connection and keeps the
  state when it stops with a fault, since what was sent to the server before matters.  \<open>Execute\<close> and
  \<open>Query\<close> call themselves again after a reconnection and may do so for ever; they are partial
  functions whose value \<open>None\<close> is a call that does not return.  Logging is left out.
\<close>

subsection \<open>The client library\<close>

datatype call =
    MysqlInit
  | RealConnect string string string string u32 "string option" bool
  | Autocommit
  | SetCharset
  | MysqlClose
  | MysqlPing
  | MysqlQuery string
  | StmtInit
  | StmtPrepare string
  | StmtBind string "mysql_bind list"
  | StmtExecute string "mysql_bind list"
  | StoreResult
  | StmtResultMetadata
  | MoreResults
  | NextResult
  | ReadClock

type_synonym event = "call \<times> bool"

record client =
  cl_fails :: "event list \<Rightarrow> call \<Rightarrow> bool"
  cl_errno :: "event list \<Rightarrow> u32"
  cl_now :: "event list \<Rightarrow> int"
  cl_time_ms :: "event list \<Rightarrow> int"
  cl_param_count :: "string \<Rightarrow> nat"
  cl_row_count :: "event list \<Rightarrow> nat"
  cl_field_count :: "event list \<Rightarrow> nat"
  cl_version :: "event list \<Rightarrow> nat"

text \<open>The error numbers of \<^verbatim>\<open>errmsg.h\<close> and \<^verbatim>\<open>mysqld_error.h\<close> the code names.\<close>

abbreviation CR_UNKNOWN_ERROR :: u32 where "CR_UNKNOWN_ERROR \<equiv> 2000"
abbreviation CR_CONN_HOST_ERROR :: u32 where "CR_CONN_HOST_ERROR \<equiv> 2003"
abbreviation CR_SERVER_GONE_ERROR :: u32 where "CR_SERVER_GONE_ERROR \<equiv> 2006"
abbreviation CR_SERVER_LOST :: u32 where "CR_SERVER_LOST \<equiv> 2013"
abbreviation CR_SERVER_LOST_EXTENDED :: u32 where "CR_SERVER_LOST_EXTENDED \<equiv> 2055"
abbreviation ER_BAD_FIELD_ERROR :: u32 where "ER_BAD_FIELD_ERROR \<equiv> 1054"
abbreviation ER_WRONG_VALUE_COUNT :: u32 where "ER_WRONG_VALUE_COUNT \<equiv> 1058"
abbreviation ER_DUP_ENTRY :: u32 where "ER_DUP_ENTRY \<equiv> 1062"
abbreviation ER_PARSE_ERROR :: u32 where "ER_PARSE_ERROR \<equiv> 1064"
abbreviation ER_NO_SUCH_TABLE :: u32 where "ER_NO_SUCH_TABLE \<equiv> 1146"
abbreviation ER_LOCK_DEADLOCK :: u32 where "ER_LOCK_DEADLOCK \<equiv> 1213"

subsection \<open>The connection\<close>

record connection_info =
  ci_User :: string
  ci_Password :: string
  ci_Database :: string
  ci_Host :: string
  ci_PortOrSocket :: string
  ci_SSL :: string

definition MySQLConnectionInfo :: "string \<Rightarrow> connection_info" where
  "MySQLConnectionInfo infoString =
     (let tokens = Tokenize infoString (CHR '';'') True
      in if length tokens \<noteq> 5 \<and> length tokens \<noteq> 6
         then \<lparr>ci_User = [], ci_Password = [], ci_Database = [], ci_Host = [], ci_PortOrSocket = [], ci_SSL = []\<rparr>
         else \<lparr>ci_User = tokens ! 2, ci_Password = tokens ! 3, ci_Database = tokens ! 4, ci_Host = tokens ! 0,
               ci_PortOrSocket = tokens ! 1, ci_SSL = (if length tokens = 6 then tokens ! 5 else [])\<rparr>)"

datatype ConnectionFlags = Async | Sync | Both

definition flag_bits :: "ConnectionFlags \<Rightarrow> u8" where
  "flag_bits f = (case f of Async \<Rightarrow> 1 | Sync \<Rightarrow> 2 | Both \<Rightarrow> 3)"

text \<open>\<open>cn_handle\<close> is \<open>_mysqlHandle != nullptr\<close>; \<open>cn_worker\<close> is \<open>_asyncQueueWorker != nullptr\<close>.\<close>

record connection =
  cn_handle :: bool
  cn_info :: connection_info
  cn_flags :: ConnectionFlags
  cn_stmtList :: "mysql_stmt option list"
  cn_isDynamic :: bool
  cn_prepareError :: bool
  cn_lastUseTime :: int
  cn_worker :: bool
  cn_events :: "event list"

type_synonym 'a conn_op = "connection \<Rightarrow> 'a res \<times> connection"

definition perform :: "client \<Rightarrow> call \<Rightarrow> connection \<Rightarrow> bool \<times> connection" where
  "perform cl c s = (let f = cl_fails cl (cn_events s) c in (f, s\<lparr>cn_events := cn_events s @ [(c, f)]\<rparr>))"

definition mysql_errno :: "client \<Rightarrow> connection \<Rightarrow> u32" where
  "mysql_errno cl s = cl_errno cl (cn_events s)"

definition UpdateLastUseTime :: "client \<Rightarrow> connection \<Rightarrow> connection" where
  "UpdateLastUseTime cl s = s\<lparr>cn_lastUseTime := cl_now cl (cn_events s)\<rparr>"

definition MySQLConnection :: "client \<Rightarrow> connection_info \<Rightarrow> bool \<Rightarrow> bool \<Rightarrow> connection" where
  "MySQLConnection cl connInfo hasQueue isDynamic =
     UpdateLastUseTime cl
       \<lparr>cn_handle = False, cn_info = connInfo, cn_flags = (if hasQueue then Async else Sync), cn_stmtList = [],
        cn_isDynamic = isDynamic, cn_prepareError = False, cn_lastUseTime = 0, cn_worker = hasQueue, cn_events = []\<rparr>"

definition MySQLConnection_Close :: "client \<Rightarrow> connection \<Rightarrow> connection" where
  "MySQLConnection_Close cl s =
     (let s = s\<lparr>cn_worker := False\<rparr>
      in if cn_handle s then (snd (perform cl MysqlClose s))\<lparr>cn_handle := False\<rparr> else s)"

text \<open>
  \<open>Open\<close>.  With host \<open>"."\<close> the code overwrites the host in the shared connection info; otherwise the
  port is the dereferenced result of \<open>StringTo<uint32>\<close>, undefined when that is empty.  The last
  argument of \<open>RealConnect\<close> is that the option for \<open>"ssl"\<close> was set.
\<close>

definition real_connect :: "client \<Rightarrow> u32 \<Rightarrow> string option \<Rightarrow> u32 conn_op" where
  "real_connect cl port unix_socket s =
     (let i = cn_info s;
          (failed, s) = perform cl (RealConnect (ci_Host i) (ci_User i) (ci_Password i) (ci_Database i) port
                                      unix_socket (ci_SSL i = ''ssl'')) s
      in if \<not> failed then
           let s = snd (perform cl Autocommit (s\<lparr>cn_handle := True\<rparr>));
               s = snd (perform cl SetCharset s)
           in (Inr 0, s)
         else
           let errorCode = mysql_errno cl s;
               s = snd (perform cl MysqlClose (s\<lparr>cn_handle := False\<rparr>))
           in (Inr errorCode, s))"

definition MySQLConnection_Open :: "client \<Rightarrow> u32 conn_op" where
  "MySQLConnection_Open cl s =
     (let (failed, s) = perform cl MysqlInit s
      in if failed then (Inr CR_UNKNOWN_ERROR, s)
         else if ci_Host (cn_info s) = ''.'' then
           let s = s\<lparr>cn_info := (cn_info s)\<lparr>ci_Host := ''localhost''\<rparr>\<rparr>
           in real_connect cl 0 (Some (ci_PortOrSocket (cn_info s))) s
         else case FromString (uint_ty 32) (ci_PortOrSocket (cn_info s)) 10 of
                None \<Rightarrow> (Inl Undefined, s)
              | Some port \<Rightarrow> real_connect cl (word_of_int port) None s)"

definition PrepareStatements :: "connection \<Rightarrow> bool" where
  "PrepareStatements s = (\<not> cn_prepareError s)"

subsection \<open>Errors\<close>

definition lost_codes :: "u32 list" where
  "lost_codes = [CR_SERVER_GONE_ERROR, CR_SERVER_LOST, CR_SERVER_LOST_EXTENDED]"

lemma attempts_decrease: "(a :: u8) \<noteq> 1 \<Longrightarrow> unat (a - 2) < unat (a - 1)"
proof -
  assume "a \<noteq> 1"
  then have "a - 1 \<noteq> 0" by simp
  then have "unat (a - 1 - 1) < unat (a - 1)"
    by (metis unat_gt_0 unat_minus_one diff_less zero_less_one)
  then show ?thesis by simp
qed

function HandleMySQLError :: "client \<Rightarrow> u32 \<Rightarrow> u8 \<Rightarrow> bool conn_op" where
  "HandleMySQLError cl errNo attempts s =
     (if errNo \<in> set lost_codes \<or> errNo = CR_CONN_HOST_ERROR then
        let s = (if errNo \<in> set lost_codes \<and> cn_handle s
                 then (snd (perform cl MysqlClose s))\<lparr>cn_handle := False\<rparr> else s)
        in case MySQLConnection_Open cl s of
             (Inl e, s) \<Rightarrow> (Inl e, s)
           | (Inr lErrno, s) \<Rightarrow>
               if lErrno = 0 then
                 if \<not> PrepareStatements s then (Inl Aborted, s) else (Inr True, s)
               else if attempts - 1 = 0 then (Inl Aborted, s)
               else HandleMySQLError cl lErrno (attempts - 1) s
      else if errNo = ER_LOCK_DEADLOCK \<or> errNo = ER_WRONG_VALUE_COUNT \<or> errNo = ER_DUP_ENTRY then (Inr False, s)
      else if errNo = ER_BAD_FIELD_ERROR \<or> errNo = ER_NO_SUCH_TABLE then (Inl Aborted, s)
      else if errNo = ER_PARSE_ERROR then (Inl Aborted, s)
      else (Inr False, s))"
  by pat_completeness auto

termination
  by (relation "measure (\<lambda>(cl, errNo, attempts, s). unat (attempts - 1))") (auto intro: attempts_decrease)

declare HandleMySQLError.simps [simp del]

subsection \<open>Statements\<close>

definition GetPreparedStatement :: "u32 \<Rightarrow> connection \<Rightarrow> mysql_stmt option res" where
  "GetPreparedStatement index s =
     (if unat index < length (cn_stmtList s) then Inr (cn_stmtList s ! unat index) else Inl AssertFailure)"

text \<open>Writing to the list out of its range is undefined.\<close>

definition set_stmt :: "u32 \<Rightarrow> mysql_stmt option \<Rightarrow> unit conn_op" where
  "set_stmt index m s =
     (if unat index < length (cn_stmtList s) then (Inr (), s\<lparr>cn_stmtList := (cn_stmtList s)[unat index := m]\<rparr>)
      else (Inl Undefined, s))"

definition PrepareStatement :: "client \<Rightarrow> u32 \<Rightarrow> string \<Rightarrow> ConnectionFlags \<Rightarrow> unit conn_op" where
  "PrepareStatement cl index sql flags s =
     (if flag_bits (cn_flags s) AND flag_bits flags = 0 then set_stmt index None s
      else let (failed, s) = perform cl StmtInit s
           in if failed then (Inr (), s\<lparr>cn_prepareError := True\<rparr>)
              else let (failed, s) = perform cl (StmtPrepare sql) s
                   in if failed then (Inr (), s\<lparr>cn_prepareError := True\<rparr>)
                      else set_stmt index (Some (MySQLPreparedStatement (cl_param_count cl sql) sql)) s)"

text \<open>The two overloads of \<open>Execute\<close>.  \<open>put_stmt\<close> writes the statement object of the connection back.\<close>

partial_function (option) Execute_sql :: "client \<Rightarrow> string \<Rightarrow> connection \<Rightarrow> (bool res \<times> connection) option" where
  "Execute_sql cl sql s =
     (if \<not> cn_handle s \<or> sql = [] then Some (Inr False, s)
      else let (failed, s) = perform cl (MysqlQuery sql) s
           in if failed then
                (case HandleMySQLError cl (mysql_errno cl s) 5 s of
                   (Inl e, s) \<Rightarrow> Some (Inl e, s)
                 | (Inr handled, s) \<Rightarrow> if handled then Execute_sql cl sql s else Some (Inr False, s))
              else Some (Inr True, UpdateLastUseTime cl s))"

definition put_stmt :: "u32 \<Rightarrow> mysql_stmt \<Rightarrow> connection \<Rightarrow> connection" where
  "put_stmt index m s = s\<lparr>cn_stmtList := (cn_stmtList s)[unat index := Some m]\<rparr>"

partial_function (option) Execute_stmt :: "client \<Rightarrow> statement option \<Rightarrow> connection \<Rightarrow> (bool res \<times> connection) option" where
  "Execute_stmt cl stmt s =
     (if \<not> cn_handle s \<or> stmt = None then Some (Inr False, s)
      else let index = ps_index (the stmt)
           in case GetPreparedStatement index s of
                Inl e \<Rightarrow> Some (Inl e, s)
              | Inr None \<Rightarrow> Some (Inl AssertFailure, s)
              | Inr (Some mStmt) \<Rightarrow>
                  (case BindParameters (the stmt) mStmt of
                     Inl e \<Rightarrow> Some (Inl e, s)
                   | Inr mStmt \<Rightarrow>
                       let s = put_stmt index mStmt s;
                           (bind_failed, s) = perform cl (StmtBind (ms_query mStmt) (ms_bind mStmt)) s;
                           (failed, s) = (if bind_failed then (True, s)
                                          else perform cl (StmtExecute (ms_query mStmt) (ms_bind mStmt)) s)
                       in if failed then
                            (case HandleMySQLError cl (mysql_errno cl s) 5 s of
                               (Inl e, s) \<Rightarrow> Some (Inl e, s)
                             | (Inr handled, s) \<Rightarrow>
                                 if handled then Execute_stmt cl stmt s
                                 else Some (Inr False, put_stmt index (ClearParameters mStmt) s))
                          else Some (Inr True, UpdateLastUseTime cl (put_stmt index (ClearParameters mStmt) s))))"

text \<open>
  The two overloads of \<open>Query\<close>, each with the private one it calls.  A result is its numbers of rows
  and fields, \<open>None\<close> is \<open>nullptr\<close>; the failure of \<open>StoreResult\<close> and \<open>StmtResultMetadata\<close> is a null
  result and that of \<open>MoreResults\<close> its answer \<open>false\<close>.  The overload for a statement does not test
  its pointer.
\<close>

type_synonym result_set = "nat \<times> nat"

partial_function (option) Query_sql_into ::
  "client \<Rightarrow> string \<Rightarrow> connection \<Rightarrow> (result_set option res \<times> connection) option" where
  "Query_sql_into cl sql s =
     (if \<not> cn_handle s \<or> sql = [] then Some (Inr None, s)
      else let (failed, s) = perform cl (MysqlQuery sql) s
           in if failed then
                (case HandleMySQLError cl (mysql_errno cl s) 5 s of
                   (Inl e, s) \<Rightarrow> Some (Inl e, s)
                 | (Inr handled, s) \<Rightarrow> if handled then Query_sql_into cl sql s else Some (Inr None, s))
              else let (null, s) = perform cl StoreResult s;
                       rowCount = cl_row_count cl (cn_events s);
                       fieldCount = cl_field_count cl (cn_events s)
                   in if null \<or> rowCount = 0 then Some (Inr None, s)
                      else Some (Inr (Some (rowCount, fieldCount)), s))"

definition Query_sql :: "client \<Rightarrow> string \<Rightarrow> connection \<Rightarrow> (result_set option res \<times> connection) option" where
  "Query_sql cl sql s =
     (if sql = [] then Some (Inr None, s)
      else case Query_sql_into cl sql s of
             None \<Rightarrow> None
           | Some (Inr (Some rs), s) \<Rightarrow> Some (Inr (Some rs), UpdateLastUseTime cl s)
           | Some (r, s) \<Rightarrow> Some (r, s))"

partial_function (option) Query_stmt_into ::
  "client \<Rightarrow> statement option \<Rightarrow> connection \<Rightarrow> ((bool \<times> result_set) option res \<times> connection) option" where
  "Query_stmt_into cl stmt s =
     (if \<not> cn_handle s then Some (Inr None, s)
      else case stmt of
        None \<Rightarrow> Some (Inl Undefined, s)
      | Some st \<Rightarrow>
          (case GetPreparedStatement (ps_index st) s of
             Inl e \<Rightarrow> Some (Inl e, s)
           | Inr None \<Rightarrow> Some (Inl AssertFailure, s)
           | Inr (Some mStmt) \<Rightarrow>
               (case BindParameters st mStmt of
                  Inl e \<Rightarrow> Some (Inl e, s)
                | Inr mStmt \<Rightarrow>
                    let s = put_stmt (ps_index st) mStmt s;
                        (bind_failed, s) = perform cl (StmtBind (ms_query mStmt) (ms_bind mStmt)) s;
                        (failed, s) = (if bind_failed then (True, s)
                                       else perform cl (StmtExecute (ms_query mStmt) (ms_bind mStmt)) s)
                    in if failed then
                         (case HandleMySQLError cl (mysql_errno cl s) 5 s of
                            (Inl e, s) \<Rightarrow> Some (Inl e, s)
                          | (Inr handled, s) \<Rightarrow>
                              if handled then Query_stmt_into cl stmt s
                              else Some (Inr None, put_stmt (ps_index st) (ClearParameters mStmt) s))
                       else let s = put_stmt (ps_index st) (ClearParameters mStmt) s;
                                (null, s) = perform cl StmtResultMetadata s;
                                rowCount = cl_row_count cl (cn_events s);
                                fieldCount = cl_field_count cl (cn_events s)
                            in Some (Inr (Some (\<not> null, (rowCount, fieldCount))), s))))"

definition Query_stmt ::
  "client \<Rightarrow> statement option \<Rightarrow> connection \<Rightarrow> ((bool \<times> result_set) option res \<times> connection) option" where
  "Query_stmt cl stmt s =
     (case Query_stmt_into cl stmt s of
        None \<Rightarrow> None
      | Some (Inr (Some rs), s) \<Rightarrow>
          let (no_more, s) = perform cl MoreResults s;
              s = (if no_more then s else snd (perform cl NextResult s))
          in Some (Inr (Some rs), UpdateLastUseTime cl s)
      | Some (r, s) \<Rightarrow> Some (r, s))"

subsection \<open>Transactions\<close>

text \<open>The elements of a transaction, \<^verbatim>\<open>SQLElementData\<close>; a \<open>shared_ptr\<close> may be null.\<close>

datatype sql_element = RawElement string | PreparedElement "statement option"

definition GetLastError :: "client \<Rightarrow> connection \<Rightarrow> int" where
  "GetLastError cl s = sint (mysql_errno cl s)"

text \<open>Results of calls that may not return: \<open>and_then\<close> sequences them.\<close>

definition and_then :: "('a res \<times> connection) option \<Rightarrow> ('a \<Rightarrow> connection \<Rightarrow> ('b res \<times> connection) option) \<Rightarrow> ('b res \<times> connection) option" where
  "and_then m f = (case m of None \<Rightarrow> None | Some (Inl e, s) \<Rightarrow> Some (Inl e, s) | Some (Inr x, s) \<Rightarrow> f x s)"

definition BeginTransaction :: "client \<Rightarrow> connection \<Rightarrow> (unit res \<times> connection) option" where
  "BeginTransaction cl s = and_then (Execute_sql cl ''START TRANSACTION'' s) (\<lambda>_ s. Some (Inr (), s))"

definition RollbackTransaction :: "client \<Rightarrow> connection \<Rightarrow> (unit res \<times> connection) option" where
  "RollbackTransaction cl s = and_then (Execute_sql cl ''ROLLBACK'' s) (\<lambda>_ s. Some (Inr (), s))"

definition CommitTransaction :: "client \<Rightarrow> connection \<Rightarrow> (unit res \<times> connection) option" where
  "CommitTransaction cl s = and_then (Execute_sql cl ''COMMIT'' s) (\<lambda>_ s. Some (Inr (), s))"

definition execute_element :: "client \<Rightarrow> sql_element \<Rightarrow> connection \<Rightarrow> (bool res \<times> connection) option" where
  "execute_element cl e s = (case e of
       PreparedElement stmt \<Rightarrow> if stmt = None then Some (Inl AssertFailure, s) else Execute_stmt cl stmt s
     | RawElement sql \<Rightarrow> if sql = [] then Some (Inl AssertFailure, s) else Execute_sql cl sql s)"

fun execute_elements :: "client \<Rightarrow> sql_element list \<Rightarrow> connection \<Rightarrow> (int res \<times> connection) option" where
  "execute_elements cl [] s = and_then (CommitTransaction cl s) (\<lambda>_ s. Some (Inr 0, s))"
| "execute_elements cl (e # es) s =
     and_then (execute_element cl e s)
       (\<lambda>ok s. if \<not> ok then
                  let errorCode = GetLastError cl s
                  in and_then (RollbackTransaction cl s) (\<lambda>_ s. Some (Inr errorCode, s))
                else execute_elements cl es s)"

definition ExecuteTransaction :: "client \<Rightarrow> sql_element list \<Rightarrow> connection \<Rightarrow> (int res \<times> connection) option" where
  "ExecuteTransaction cl queries s =
     (if queries = [] then Some (Inr (- 1), s)
      else and_then (BeginTransaction cl s) (\<lambda>_ s. execute_elements cl queries s))"

definition Ping :: "client \<Rightarrow> connection \<Rightarrow> connection" where
  "Ping cl s = snd (perform cl MysqlPing s)"

definition DYNAMIC_CONNECTION_TIMEOUT :: int where
  "DYNAMIC_CONNECTION_TIMEOUT = 1000"

definition CanRemoveConnection :: "client \<Rightarrow> connection \<Rightarrow> bool" where
  "CanRemoveConnection cl s =
     (cn_isDynamic s \<and> DYNAMIC_CONNECTION_TIMEOUT \<le> cl_now cl (cn_events s) - cn_lastUseTime s)"

subsection \<open>Handling errors\<close>

lemma perform_fields [simp]:
  "cn_handle (snd (perform cl c s)) = cn_handle s" "cn_stmtList (snd (perform cl c s)) = cn_stmtList s"
  "cn_info (snd (perform cl c s)) = cn_info s" "cn_prepareError (snd (perform cl c s)) = cn_prepareError s"
  "cn_events (snd (perform cl c s)) = cn_events s @ [(c, fst (perform cl c s))]"
  by (simp_all add: perform_def Let_def)

lemma UpdateLastUseTime_fields [simp]:
  "cn_handle (UpdateLastUseTime cl s) = cn_handle s" "cn_stmtList (UpdateLastUseTime cl s) = cn_stmtList s"
  "cn_events (UpdateLastUseTime cl s) = cn_events s"
  by (simp_all add: UpdateLastUseTime_def)

definition retried :: "u32 \<Rightarrow> bool" where
  "retried e = (e \<in> set lost_codes \<or> e = CR_CONN_HOST_ERROR)"

definition fatal :: "u32 \<Rightarrow> bool" where
  "fatal e = (e = ER_BAD_FIELD_ERROR \<or> e = ER_NO_SUCH_TABLE \<or> e = ER_PARSE_ERROR)"

lemma HandleMySQLError_other:
  "\<not> retried e \<Longrightarrow> HandleMySQLError cl e a s = ((if fatal e then Inl Aborted else Inr False), s)"
  by (subst HandleMySQLError.simps) (auto simp: retried_def fatal_def)

definition attempts_made :: "event list \<Rightarrow> nat" where
  "attempts_made es = length (filter (\<lambda>e. fst e = MysqlInit) es)"

lemma attempts_made_append [simp]: "attempts_made (a @ b) = attempts_made a + attempts_made b"
  by (simp add: attempts_made_def)

lemma attempts_made_Cons [simp]:
  "attempts_made (e # es) = (if fst e = MysqlInit then Suc (attempts_made es) else attempts_made es)"
  "attempts_made [] = 0"
  by (simp_all add: attempts_made_def)

text \<open>The C API: after a call that failed, \<open>mysql_errno\<close> is not 0.\<close>

definition reports_errors :: "client \<Rightarrow> bool" where
  "reports_errors cl = (\<forall>h c. cl_errno cl (h @ [(c, True)]) \<noteq> 0)"

definition extends :: "connection \<Rightarrow> connection \<Rightarrow> bool" where
  "extends s s' = (\<exists>es. cn_events s' = cn_events s @ es)"

lemma extends_refl [simp]: "extends s s"
  by (simp add: extends_def)

lemma extends_trans [trans]: "extends a b \<Longrightarrow> extends b c \<Longrightarrow> extends a c"
  by (auto simp: extends_def)

lemma real_connect_result:
  assumes "reports_errors cl" "real_connect cl port sock s = (r, s')"
  shows "attempts_made (cn_events s') = attempts_made (cn_events s) \<and> extends s s' \<and> cn_stmtList s' = cn_stmtList s
         \<and> (\<exists>e. r = Inr e \<and> (cn_handle s' \<longleftrightarrow> e = 0))"
proof -
  let ?c = "RealConnect (ci_Host (cn_info s)) (ci_User (cn_info s)) (ci_Password (cn_info s))
      (ci_Database (cn_info s)) port sock (ci_SSL (cn_info s) = ''ssl'')"
  obtain f s1 where p: "perform cl ?c s = (f, s1)" by fastforce
  have s1: "cn_events s1 = cn_events s @ [(?c, f)]" "cn_stmtList s1 = cn_stmtList s"
    using perform_fields [of cl ?c s] p by simp_all
  have e: "f \<Longrightarrow> mysql_errno cl s1 \<noteq> 0"
    using assms(1) s1(1) by (simp add: mysql_errno_def reports_errors_def)
  show ?thesis
  proof (cases f)
    case True
    then have "r = Inr (mysql_errno cl s1)" "s' = snd (perform cl MysqlClose (s1\<lparr>cn_handle := False\<rparr>))"
      using assms(2) p by (simp_all add: real_connect_def)
    then show ?thesis using e True s1 by (simp add: extends_def)
  next
    case False
    then have "r = Inr 0" "s' = snd (perform cl SetCharset (snd (perform cl Autocommit (s1\<lparr>cn_handle := True\<rparr>))))"
      using assms(2) p by (simp_all add: real_connect_def)
    then show ?thesis using s1 by (simp add: extends_def)
  qed
qed

lemma Open_result:
  assumes "reports_errors cl" "MySQLConnection_Open cl s = (r, s')" "\<not> cn_handle s"
  shows "attempts_made (cn_events s') = Suc (attempts_made (cn_events s)) \<and> extends s s' \<and> cn_stmtList s' = cn_stmtList s
         \<and> (r = Inl Undefined \<and> \<not> cn_handle s' \<or> (\<exists>e. r = Inr e \<and> (cn_handle s' \<longleftrightarrow> e = 0)))"
proof -
  define s1 where "s1 = snd (perform cl MysqlInit s)"
  have s1: "attempts_made (cn_events s1) = Suc (attempts_made (cn_events s))" "extends s s1" "\<not> cn_handle s1"
    "cn_stmtList s1 = cn_stmtList s"
    using assms(3) by (simp_all add: s1_def extends_def)
  have conn: ?thesis if "real_connect cl port sock s2 = (r, s')" "cn_events s2 = cn_events s1" "cn_stmtList s2 = cn_stmtList s1"
    for port sock s2
  proof -
    have "extends s1 s2" by (simp add: extends_def that(2))
    then show ?thesis
      using real_connect_result [OF assms(1) that(1)] s1 that(2,3) extends_trans by metis
  qed
  have p: "perform cl MysqlInit s = (fst (perform cl MysqlInit s), s1)" by (simp add: s1_def)
  show ?thesis
  proof (cases "fst (perform cl MysqlInit s)")
    case True
    then have "r = Inr CR_UNKNOWN_ERROR" "s' = s1"
      using assms(2) p by (simp_all add: MySQLConnection_Open_def case_prod_beta s1_def)
    with s1 show ?thesis by simp
  next
    case init: False
    show ?thesis
    proof (cases "ci_Host (cn_info s1) = ''.''")
      case True
      then have "real_connect cl 0 (Some (ci_PortOrSocket (cn_info s1)))
          (s1\<lparr>cn_info := (cn_info s1)\<lparr>ci_Host := ''localhost''\<rparr>\<rparr>) = (r, s')"
        using assms(2) init by (simp add: MySQLConnection_Open_def case_prod_beta s1_def)
      then show ?thesis by (rule conn) simp_all
    next
      case False
      then have "(case FromString (uint_ty 32) (ci_PortOrSocket (cn_info s1)) 10 of
           None \<Rightarrow> (Inl Undefined, s1) | Some port \<Rightarrow> real_connect cl (word_of_int port) None s1) = (r, s')"
        using assms(2) init unfolding s1_def by (simp add: MySQLConnection_Open_def case_prod_beta)
      then show ?thesis
        using s1 conn [of _ _ s1] by (cases "FromString (uint_ty 32) (ci_PortOrSocket (cn_info s1)) 10") auto
    qed
  qed
qed

definition drop_handle :: "client \<Rightarrow> u32 \<Rightarrow> connection \<Rightarrow> connection" where
  "drop_handle cl e s = (if e \<in> set lost_codes \<and> cn_handle s
     then (snd (perform cl MysqlClose s))\<lparr>cn_handle := False\<rparr> else s)"

lemma drop_handle_facts:
  "e = CR_CONN_HOST_ERROR \<longrightarrow> \<not> cn_handle s \<Longrightarrow> retried e \<Longrightarrow>
     \<not> cn_handle (drop_handle cl e s) \<and> extends s (drop_handle cl e s)
     \<and> attempts_made (cn_events (drop_handle cl e s)) = attempts_made (cn_events s)
     \<and> cn_stmtList (drop_handle cl e s) = cn_stmtList s"
  by (auto simp: drop_handle_def extends_def retried_def)

lemma HandleMySQLError_retried:
  "retried e \<Longrightarrow> HandleMySQLError cl e a s =
     (case MySQLConnection_Open cl (drop_handle cl e s) of
        (Inl f, s') \<Rightarrow> (Inl f, s')
      | (Inr l, s') \<Rightarrow>
          if l = 0 then if cn_prepareError s' then (Inl Aborted, s') else (Inr True, s')
          else if a = 1 then (Inl Aborted, s') else HandleMySQLError cl l (a - 1) s')"
  by (subst HandleMySQLError.simps)
    (auto simp: retried_def drop_handle_def [symmetric] PrepareStatements_def Let_def split: prod.splits sum.splits)

lemma HandleMySQLError_result:
  assumes "reports_errors cl"
  shows "HandleMySQLError cl e a s = (r, s') \<Longrightarrow> a \<noteq> 0 \<Longrightarrow> e = CR_CONN_HOST_ERROR \<longrightarrow> \<not> cn_handle s \<Longrightarrow>
     attempts_made (cn_events s') \<le> attempts_made (cn_events s) + unat a \<and> extends s s' \<and> cn_stmtList s' = cn_stmtList s
     \<and> (r = Inr True \<longrightarrow> cn_handle s') \<and> (r = Inr False \<and> (retried e \<or> \<not> cn_handle s) \<longrightarrow> \<not> cn_handle s')"
proof (induction "unat a" arbitrary: e a s rule: less_induct)
  case less
  show ?case
  proof (cases "retried e")
    case False
    with less.prems show ?thesis by (auto simp: HandleMySQLError_other split: if_splits)
  next
    case True
    obtain r1 s1 where o: "MySQLConnection_Open cl (drop_handle cl e s) = (r1, s1)" by fastforce
    have a: "0 < unat a" using less.prems(2) by (simp add: unat_gt_0)
    note d = drop_handle_facts [OF less.prems(3) True, of cl]
    note f = Open_result [OF assms o] d
    have sub: "a \<noteq> 1 \<Longrightarrow> unat (a - 1) = unat a - 1 \<and> a - 1 \<noteq> 0"
      using less.prems(2) by (simp add: unat_minus_one)
    show ?thesis
    proof (cases "\<exists>l. r1 = Inr l \<and> l \<noteq> 0 \<and> a \<noteq> 1")
      case True
      then obtain l where l: "r1 = Inr l" "l \<noteq> 0" "a \<noteq> 1" by blast
      have h: "HandleMySQLError cl l (a - 1) s1 = (r, s')"
        using less.prems(1) o l by (simp add: HandleMySQLError_retried [OF \<open>retried e\<close>])
      have "unat (a - 1) < unat a" using sub l(3) a by linarith
      from less.hyps [OF this h] show ?thesis
        using f l sub a extends_trans unfolding extends_def by fastforce
    next
      case False
      then show ?thesis
        using less.prems(1) o f a extends_trans unfolding extends_def
        by (auto simp: HandleMySQLError_retried [OF \<open>retried e\<close>] split: if_splits)
    qed
  qed
qed

lemma Execute_sql_no_handle: "\<not> cn_handle s \<Longrightarrow> Execute_sql cl sql s = Some (Inr False, s)"
  by (subst Execute_sql.simps) simp

lemma Execute_stmt_no_handle: "\<not> cn_handle s \<Longrightarrow> Execute_stmt cl stmt s = Some (Inr False, s)"
  by (subst Execute_stmt.simps) simp

text \<open>
  C18: Handling an error always ends.  Starting with an error of the server it tries to connect at most
  five times, and reports success only with an open connection.  When it gives up without
  stopping the process after a lost connection (the reconnection failed with an error it does not
  retry), the connection stays without a handle: every later statement fails without a call to the
  server, and no further reconnection is ever tried.
\<close>
theorem reconnect_bounded:
  assumes "reports_errors cl" "HandleMySQLError cl errNo 5 s = (r, s')" "errNo \<noteq> CR_CONN_HOST_ERROR"
  shows "(\<exists>es. cn_events s' = cn_events s @ es \<and> length (filter (\<lambda>e. fst e = MysqlInit) es) \<le> 5)
    \<and> (r = Inr True \<longrightarrow> cn_handle s')
    \<and> (r = Inr False \<and> errNo \<in> set lost_codes \<longrightarrow>
        (\<forall>sql stmt. Execute_sql cl sql s' = Some (Inr False, s') \<and> Execute_stmt cl stmt s' = Some (Inr False, s')))"
proof -
  have f: "attempts_made (cn_events s') \<le> attempts_made (cn_events s) + 5 \<and> extends s s'
     \<and> (r = Inr True \<longrightarrow> cn_handle s') \<and> (r = Inr False \<and> (retried errNo \<or> \<not> cn_handle s) \<longrightarrow> \<not> cn_handle s')"
    using HandleMySQLError_result [OF assms(1,2)] assms(3) by simp
  then obtain es where es: "cn_events s' = cn_events s @ es" by (auto simp: extends_def)
  with f have "attempts_made es \<le> 5" by simp
  with f es show ?thesis
    by (auto simp: attempts_made_def retried_def Execute_sql_no_handle Execute_stmt_no_handle)
qed

text \<open>A client whose server went away and whose reconnection fails with \<open>CR_CONNECTION_ERROR\<close>.\<close>

definition is_connect :: "call \<Rightarrow> bool" where
  "is_connect c = (case c of RealConnect _ _ _ _ _ _ _ \<Rightarrow> True | _ \<Rightarrow> False)"

definition down_client :: client where
  "down_client = \<lparr>cl_fails = (\<lambda>h c. is_connect c), cl_errno = (\<lambda>h. 2002), cl_now = (\<lambda>h. int (length h)),
     cl_time_ms = (\<lambda>h. int (length h)), cl_param_count = (\<lambda>q. 0), cl_row_count = (\<lambda>h. 0),
     cl_field_count = (\<lambda>h. 0), cl_version = (\<lambda>h. 80000)\<rparr>"

definition demo_connection :: connection where
  "demo_connection = (MySQLConnection down_client (MySQLConnectionInfo ''127.0.0.1;3306;u;p;bot'') False False)
     \<lparr>cn_handle := True, cn_lastUseTime := 0\<rparr>"

lemma demo_port: "FromString (uint_ty 32) ''3306'' 10 = Some 3306"
  by code_simp

lemma demo_connection_eq:
  "demo_connection = \<lparr>cn_handle = True,
     cn_info = \<lparr>ci_User = ''u'', ci_Password = ''p'', ci_Database = ''bot'', ci_Host = ''127.0.0.1'',
                ci_PortOrSocket = ''3306'', ci_SSL = []\<rparr>,
     cn_flags = Sync, cn_stmtList = [], cn_isDynamic = False, cn_prepareError = False, cn_lastUseTime = 0,
     cn_worker = False, cn_events = []\<rparr>"
proof -
  have "MySQLConnectionInfo ''127.0.0.1;3306;u;p;bot'' = \<lparr>ci_User = ''u'', ci_Password = ''p'',
      ci_Database = ''bot'', ci_Host = ''127.0.0.1'', ci_PortOrSocket = ''3306'', ci_SSL = []\<rparr>" by code_simp
  then show ?thesis by (simp add: demo_connection_def MySQLConnection_def UpdateLastUseTime_def)
qed

theorem reconnect_bounded_witness:
  "\<exists>s'. HandleMySQLError down_client CR_SERVER_LOST 5 demo_connection = (Inr False, s')
     \<and> (\<forall>sql stmt. Execute_sql down_client sql s' = Some (Inr False, s')
          \<and> Execute_stmt down_client stmt s' = Some (Inr False, s'))"
proof -
  have r: "reports_errors down_client" by (simp add: reports_errors_def down_client_def)
  have "fst (HandleMySQLError down_client CR_SERVER_LOST 5 demo_connection) = Inr False"
    by (simp add: HandleMySQLError_retried HandleMySQLError_other retried_def fatal_def lost_codes_def drop_handle_def
        MySQLConnection_Open_def real_connect_def perform_def down_client_def is_connect_def mysql_errno_def
        demo_connection_eq demo_port)
  then obtain s' where h: "HandleMySQLError down_client CR_SERVER_LOST 5 demo_connection = (Inr False, s')"
    by (metis prod.collapse)
  have "CR_SERVER_LOST \<noteq> CR_CONN_HOST_ERROR" "CR_SERVER_LOST \<in> set lost_codes" by (simp_all add: lost_codes_def)
  with reconnect_bounded [OF r h] h show ?thesis by blast
qed

subsection \<open>Atomicity of transactions\<close>

text \<open>
  What the sources rely on of a server with transactional tables, as laws of the parameter \<open>db\<close>: the
  changes that are durable after a history of one connection object, and those of the open
  transaction, if one is open.  \<open>dml\<close> holds of the statements that do not commit implicitly.
\<close>

type_synonym effects = "call list \<times> call list option"

definition mysql_transactions :: "(call \<Rightarrow> bool) \<Rightarrow> (event list \<Rightarrow> effects) \<Rightarrow> bool" where
  "mysql_transactions dml db \<longleftrightarrow>
     (\<forall>h. db (h @ [(MysqlQuery ''START TRANSACTION'', False)]) =
            (case db h of (k, None) \<Rightarrow> (k, Some []) | (k, Some p) \<Rightarrow> (k @ p, Some []))) \<and>
     (\<forall>h. db (h @ [(MysqlQuery ''COMMIT'', False)]) =
            (case db h of (k, None) \<Rightarrow> (k, None) | (k, Some p) \<Rightarrow> (k @ p, None))) \<and>
     (\<forall>h. db (h @ [(MysqlQuery ''ROLLBACK'', False)]) = (fst (db h), None)) \<and>
     (\<forall>h c. dml c \<longrightarrow> db (h @ [(c, False)]) =
            (case db h of (k, None) \<Rightarrow> (k @ [c], None) | (k, Some p) \<Rightarrow> (k, Some (p @ [c])))) \<and>
     (\<forall>h c. dml c \<longrightarrow> fst (db (h @ [(c, True)])) = fst (db h)) \<and>
     (\<forall>h q bs f. db (h @ [(StmtBind q bs, f)]) = db h) \<and>
     (\<forall>h f. db (h @ [(MysqlClose, f)]) = (fst (db h), None)) \<and>
     (\<forall>h c f. c \<in> {MysqlInit, Autocommit, SetCharset, ReadClock} \<or> is_connect c \<longrightarrow> db (h @ [(c, f)]) = db h)"

text \<open>An instance: effects are collected step by step, and a statement that fails has none.\<close>

definition sql_step :: "effects \<Rightarrow> event \<Rightarrow> effects" where
  "sql_step x e =
     (let k = fst x; p = snd x; c = fst e; settled = k @ (case p of None \<Rightarrow> [] | Some l \<Rightarrow> l);
          added = (case p of None \<Rightarrow> (k @ [c], None) | Some l \<Rightarrow> (k, Some (l @ [c])))
      in if c = MysqlClose then (k, None)
         else if snd e then x
         else case c of
           MysqlQuery q \<Rightarrow>
             if q = ''START TRANSACTION'' then (settled, Some [])
             else if q = ''COMMIT'' then (settled, None)
             else if q = ''ROLLBACK'' then (k, None)
             else added
         | StmtExecute q bs \<Rightarrow> added
         | _ \<Rightarrow> x)"

definition sql_effects :: "event list \<Rightarrow> effects" where
  "sql_effects h = foldl sql_step ([], None) h"

definition plain_dml :: "call \<Rightarrow> bool" where
  "plain_dml c = (case c of
       MysqlQuery q \<Rightarrow> q \<notin> {''START TRANSACTION'', ''COMMIT'', ''ROLLBACK''}
     | StmtExecute q bs \<Rightarrow> True | _ \<Rightarrow> False)"

lemma sql_effects_snoc: "sql_effects (h @ [e]) = sql_step (sql_effects h) e"
  by (simp add: sql_effects_def)

lemma mysql_transactions_sql_effects: "mysql_transactions plain_dml sql_effects"
  unfolding mysql_transactions_def sql_effects_snoc
  by (intro conjI allI impI)
    (auto simp: sql_step_def Let_def plain_dml_def is_connect_def case_prod_beta split: option.splits call.splits)

text \<open>The connection is not lost: no error is one of those that reconnect.\<close>

definition stays_connected :: "client \<Rightarrow> bool" where
  "stays_connected cl = (\<forall>h. \<not> retried (cl_errno cl h))"

definition same_queries :: "connection \<Rightarrow> connection \<Rightarrow> bool" where
  "same_queries s s' = (map (map_option ms_query) (cn_stmtList s') = map (map_option ms_query) (cn_stmtList s))"

definition stmts_wf :: "connection \<Rightarrow> bool" where
  "stmts_wf s = list_all (\<lambda>m. case m of None \<Rightarrow> True | Some m \<Rightarrow> stmt_wf m) (cn_stmtList s)"

lemma Execute_sql_connected:
  assumes "stays_connected cl" "cn_handle s" "sql \<noteq> []"
  defines "f \<equiv> cl_fails cl (cn_events s) (MysqlQuery sql)"
  shows "\<exists>r s'. Execute_sql cl sql s = Some (r, s') \<and> cn_events s' = cn_events s @ [(MysqlQuery sql, f)]
           \<and> cn_handle s' \<and> cn_stmtList s' = cn_stmtList s
           \<and> (r = Inr (\<not> f) \<or> f \<and> r = Inl Aborted)"
proof -
  define s1 where "s1 = snd (perform cl (MysqlQuery sql) s)"
  have p: "perform cl (MysqlQuery sql) s = (f, s1)"
    by (simp add: s1_def perform_def f_def Let_def)
  have s1: "cn_events s1 = cn_events s @ [(MysqlQuery sql, f)]" "cn_handle s1" "cn_stmtList s1 = cn_stmtList s"
    using assms(2) perform_fields [of cl "MysqlQuery sql" s] p by simp_all
  have h: "\<not> retried (mysql_errno cl s1)" using assms(1) by (simp add: stays_connected_def mysql_errno_def)
  show ?thesis
    using s1 assms(2,3) by (subst Execute_sql.simps) (auto simp: p HandleMySQLError_other [OF h])
qed

text \<open>What it means that the call \<open>c\<close> carried out the element \<open>e\<close>: the query of the statement's index with the values of its parameters.\<close>

definition carried_out :: "connection \<Rightarrow> sql_element \<Rightarrow> call \<Rightarrow> bool" where
  "carried_out s e c = (case (e, c) of
       (RawElement sql, MysqlQuery q) \<Rightarrow> q = sql
     | (PreparedElement (Some st), StmtExecute q bs) \<Rightarrow>
         map (map_option ms_query) (cn_stmtList s) ! unat (ps_index st) = Some q \<and>
         map bound_value (take (length (ps_data st)) bs) = map (Some \<circ> param_value) (ps_data st)
     | _ \<Rightarrow> False)"

definition element_fits :: "sql_element \<Rightarrow> bool" where
  "element_fits e = (case e of PreparedElement (Some st) \<Rightarrow> list_all param_fits (ps_data st) | _ \<Rightarrow> True)"

lemma put_stmt_fields [simp]:
  "cn_events (put_stmt i m s) = cn_events s" "cn_handle (put_stmt i m s) = cn_handle s"
  by (simp_all add: put_stmt_def)

lemma put_stmt_wf: "stmts_wf s \<Longrightarrow> stmt_wf m \<Longrightarrow> stmts_wf (put_stmt i m s)"
  by (auto simp: stmts_wf_def put_stmt_def list_all_iff dest!: subsetD [OF set_update_subset_insert])

lemma put_stmt_queries:
  "unat i < length (cn_stmtList s) \<Longrightarrow> cn_stmtList s ! unat i = Some m \<Longrightarrow> ms_query m' = ms_query m \<Longrightarrow>
   cn_stmtList s' = cn_stmtList s \<Longrightarrow> same_queries s (put_stmt i m' s')"
  by (auto simp: same_queries_def put_stmt_def map_update intro!: nth_equalityI simp: nth_list_update)

lemma put_put_stmt [simp]: "put_stmt i m' (put_stmt i m s) = put_stmt i m' s"
  by (simp add: put_stmt_def)

text \<open>
  The calls an element makes on a connection that is not lost: those of a success, and those of a
  failure, of which the last one failed.
\<close>

definition ok_events :: "connection \<Rightarrow> sql_element \<Rightarrow> event list \<Rightarrow> bool" where
  "ok_events s e es = (\<exists>c. carried_out s e c \<and> (es = [(c, False)] \<or> (\<exists>q bs. es = [(StmtBind q bs, False), (c, False)])))"

definition statement_call :: "connection \<Rightarrow> sql_element \<Rightarrow> call \<Rightarrow> bool" where
  "statement_call s e c = (case (e, c) of
       (RawElement sql, MysqlQuery q) \<Rightarrow> q = sql
     | (PreparedElement (Some st), StmtExecute q bs) \<Rightarrow>
         map (map_option ms_query) (cn_stmtList s) ! unat (ps_index st) = Some q
     | _ \<Rightarrow> False)"

definition bad_events :: "connection \<Rightarrow> sql_element \<Rightarrow> event list \<Rightarrow> bool" where
  "bad_events s e es \<longleftrightarrow> (\<exists>q bs. es = [(StmtBind q bs, True)]) \<or>
     (\<exists>c. statement_call s e c \<and> (es = [(c, True)] \<or> (\<exists>q bs. es = [(StmtBind q bs, False), (c, True)])))"

definition element_outcome :: "connection \<Rightarrow> sql_element \<Rightarrow> bool res \<Rightarrow> connection \<Rightarrow> bool" where
  "element_outcome s e r s' \<longleftrightarrow>
     cn_handle s' \<and> same_queries s s' \<and> stmts_wf s' \<and>
     (\<exists>es. cn_events s' = cn_events s @ es \<and>
        (case r of Inr True \<Rightarrow> ok_events s e es | Inr False \<Rightarrow> bad_events s e es | Inl f \<Rightarrow> es = [] \<or> bad_events s e es))"

lemma same_queries_refl [simp]: "cn_stmtList s' = cn_stmtList s \<Longrightarrow> same_queries s s'"
  by (simp add: same_queries_def)

lemma raw_outcome:
  assumes "stays_connected cl" "cn_handle s" "stmts_wf s" "sql \<noteq> []"
  shows "\<exists>r s'. Execute_sql cl sql s = Some (r, s') \<and> element_outcome s (RawElement sql) r s'"
proof -
  let ?f = "cl_fails cl (cn_events s) (MysqlQuery sql)"
  obtain r s' where e: "Execute_sql cl sql s = Some (r, s')"
    and s': "cn_events s' = cn_events s @ [(MysqlQuery sql, ?f)]" "cn_handle s'" "cn_stmtList s' = cn_stmtList s"
      "r = Inr (\<not> ?f) \<or> ?f \<and> r = Inl Aborted"
    using Execute_sql_connected [OF assms(1,2,4)] by blast
  have "element_outcome s (RawElement sql) r s'"
    using s' assms(3)
    by (cases ?f) (auto simp: element_outcome_def stmts_wf_def ok_events_def bad_events_def carried_out_def statement_call_def)
  with e show ?thesis by blast
qed

lemma BindParameters_values:
  assumes "stmt_wf m" "BindParameters st m = Inr m'" "list_all param_fits (ps_data st)"
  shows "map bound_value (take (length (ps_data st)) (ms_bind m')) = map (Some \<circ> param_value) (ps_data st)"
proof -
  have le: "length (ps_data st) \<le> length (ms_bind m)"
    and b: "ms_bind m' = map2 bind_param (ps_data st) (ms_bind m) @ drop (length (ps_data st)) (ms_bind m)"
    using assms(1,2) by (auto simp: BindParameters_eq Let_def stmt_wf_def split: if_splits)
  then have "take (length (ps_data st)) (ms_bind m') = map2 bind_param (ps_data st) (ms_bind m)" by simp
  then show ?thesis using bound_values_map2 [OF le assms(3)] by simp
qed

text \<open>One round of \<open>Execute\<close> for a prepared statement the connection has.\<close>

lemma Execute_stmt_round:
  assumes "cn_handle s" "unat (ps_index st) < length (cn_stmtList s)" "cn_stmtList s ! unat (ps_index st) = Some m"
    "BindParameters st m = Inr m'"
    "perform cl (StmtBind (ms_query m') (ms_bind m')) (put_stmt (ps_index st) m' s) = (bf, s1)"
    "perform cl (StmtExecute (ms_query m') (ms_bind m')) s1 = (xf, s2)"
    "t = (if bf then s1 else s2)" "\<not> retried (mysql_errno cl t)"
  shows "Execute_stmt cl (Some st) s =
     (if bf \<or> xf then
        if fatal (mysql_errno cl t) then Some (Inl Aborted, t)
        else Some (Inr False, put_stmt (ps_index st) (ClearParameters m') t)
      else Some (Inr True, UpdateLastUseTime cl (put_stmt (ps_index st) (ClearParameters m') t)))"
  using assms(8) by (subst Execute_stmt.simps)
    (cases bf; cases xf; simp add: assms(1-7) GetPreparedStatement_def HandleMySQLError_other)

text \<open>What putting the bound or the cleared statement back keeps.\<close>

lemma put_stmt_keeps:
  assumes "stmts_wf s" "unat i < length (cn_stmtList s)" "cn_stmtList s ! unat i = Some m" "BindParameters st m = Inr m'"
    "cn_stmtList t = cn_stmtList (put_stmt i m' s)"
  shows "same_queries s t \<and> stmts_wf t \<and> same_queries s (put_stmt i (ClearParameters m') t)
         \<and> stmts_wf (put_stmt i (ClearParameters m') t)"
proof -
  have wf: "stmt_wf m"
    using assms(1,3) nth_mem [OF assms(2)] by (force simp: stmts_wf_def list_all_iff)
  have wf': "stmt_wf m'" "stmt_wf (ClearParameters m')"
    and q: "ms_query m' = ms_query m" "ms_query (ClearParameters m') = ms_query m"
    using stmt_wf_bind [OF wf assms(4)] BindParameters_query [OF wf assms(4)] stmt_wf_clear
    by (auto simp: ClearParameters_def)
  have eq: "cn_stmtList (put_stmt i (ClearParameters m') t) = cn_stmtList (put_stmt i (ClearParameters m') s)"
    using assms(5) by (simp add: put_stmt_def)
  show ?thesis
    using put_stmt_queries [OF assms(2,3) q(1) refl] put_stmt_queries [OF assms(2,3) q(2) refl]
      put_stmt_wf [OF assms(1) wf'(1), of i] put_stmt_wf [OF assms(1) wf'(2), of i] assms(5) eq
    by (simp add: same_queries_def stmts_wf_def)
qed

lemma prepared_outcome:
  assumes "stays_connected cl" "cn_handle s" "stmts_wf s" "list_all param_fits (ps_data st)"
  shows "\<exists>r s'. Execute_stmt cl (Some st) s = Some (r, s') \<and> element_outcome s (PreparedElement (Some st)) r s'"
proof (cases "\<exists>m m'. unat (ps_index st) < length (cn_stmtList s) \<and> cn_stmtList s ! unat (ps_index st) = Some m
    \<and> BindParameters st m = Inr m'")
  case False
  then have "\<exists>f. Execute_stmt cl (Some st) s = Some (Inl f, s)"
    using assms(2) by (subst Execute_stmt.simps)
      (auto simp: Let_def GetPreparedStatement_def split: option.splits sum.splits)
  with assms(2,3) show ?thesis by (fastforce simp: element_outcome_def)
next
  case True
  then obtain m m' where i: "unat (ps_index st) < length (cn_stmtList s)"
    and m: "cn_stmtList s ! unat (ps_index st) = Some m" and b: "BindParameters st m = Inr m'" by blast
  have wf: "stmt_wf m"
    using assms(3) m nth_mem [OF i] by (force simp: stmts_wf_def list_all_iff)
  let ?q = "ms_query m'" and ?bs = "ms_bind m'"
  obtain bf s1 where p1: "perform cl (StmtBind ?q ?bs) (put_stmt (ps_index st) m' s) = (bf, s1)" by fastforce
  obtain xf s2 where p2: "perform cl (StmtExecute ?q ?bs) s1 = (xf, s2)" by fastforce
  define t where "t = (if bf then s1 else s2)"
  have carried: "carried_out s (PreparedElement (Some st)) (StmtExecute ?q ?bs)"
    using BindParameters_values [OF wf b assms(4)] BindParameters_query [OF wf b] i m by (simp add: carried_out_def)
  then have stmt: "statement_call s (PreparedElement (Some st)) (StmtExecute ?q ?bs)"
    by (simp add: carried_out_def statement_call_def)
  have s1: "cn_events s1 = cn_events s @ [(StmtBind ?q ?bs, bf)]" "cn_handle s1"
      "cn_stmtList s1 = cn_stmtList (put_stmt (ps_index st) m' s)"
    using perform_fields [of cl "StmtBind ?q ?bs" "put_stmt (ps_index st) m' s"] p1 assms(2) by simp_all
  have s2: "cn_events s2 = cn_events s @ [(StmtBind ?q ?bs, bf), (StmtExecute ?q ?bs, xf)]" "cn_handle s2"
      "cn_stmtList s2 = cn_stmtList (put_stmt (ps_index st) m' s)"
    using perform_fields [of cl "StmtExecute ?q ?bs" s1] p2 s1 by simp_all
  have keep: "same_queries s t \<and> stmts_wf t \<and> same_queries s (put_stmt (ps_index st) (ClearParameters m') t)
         \<and> stmts_wf (put_stmt (ps_index st) (ClearParameters m') t)"
    using s1 s2 by (intro put_stmt_keeps [OF assms(3) i m b]) (simp add: t_def)
  have h: "\<not> retried (mysql_errno cl t)" using assms(1) by (simp add: stays_connected_def mysql_errno_def)
  have "bf \<Longrightarrow> t = s1" "\<not> bf \<Longrightarrow> t = s2" by (simp_all add: t_def)
  then show ?thesis
    unfolding Execute_stmt_round [OF assms(2) i m b p1 p2 t_def h]
    using s1 s2 keep carried stmt
    by (cases bf; cases xf; cases "fatal (mysql_errno cl t)")
      (auto simp: element_outcome_def ok_events_def bad_events_def same_queries_def stmts_wf_def)
qed

text \<open>
  The remaining hypotheses: the statements of the transaction do not commit implicitly, and the
  three control statements themselves succeed.
\<close>

definition element_dml :: "(call \<Rightarrow> bool) \<Rightarrow> connection \<Rightarrow> sql_element \<Rightarrow> bool" where
  "element_dml dml s e \<longleftrightarrow> (\<forall>c. statement_call s e c \<longrightarrow> dml c)"

definition control_succeeds :: "client \<Rightarrow> bool" where
  "control_succeeds cl \<longleftrightarrow> (\<forall>h. \<not> cl_fails cl h (MysqlQuery ''START TRANSACTION'')
     \<and> \<not> cl_fails cl h (MysqlQuery ''COMMIT'') \<and> \<not> cl_fails cl h (MysqlQuery ''ROLLBACK''))"

lemma carried_out_call: "carried_out s e c \<Longrightarrow> statement_call s e c"
  by (auto simp: carried_out_def statement_call_def split: sql_element.splits option.splits call.splits)

lemma same_queries_transfer:
  assumes "same_queries s s'"
  shows "carried_out s' = carried_out s" "statement_call s' = statement_call s" "element_dml dml s' = element_dml dml s"
proof -
  show *: "statement_call s' = statement_call s" "carried_out s' = carried_out s"
    unfolding statement_call_def [abs_def] carried_out_def [abs_def] assms [unfolded same_queries_def] by (rule refl)+
  show "element_dml dml s' = element_dml dml s" by (simp add: fun_eq_iff element_dml_def *)
qed

lemma ok_events_effect:
  assumes "mysql_transactions dml db" "element_dml dml s e" "ok_events s e es" "db h = (k, Some p)"
  shows "\<exists>c. carried_out s e c \<and> db (h @ es) = (k, Some (p @ [c]))"
proof -
  obtain c where c: "carried_out s e c" "es = [(c, False)] \<or> (\<exists>q bs. es = [(StmtBind q bs, False), (c, False)])"
    using assms(3) by (auto simp: ok_events_def)
  have "dml c" using c(1) assms(2) carried_out_call by (auto simp: element_dml_def)
  then have step: "db g = (k, Some p) \<Longrightarrow> db (g @ [(c, False)]) = (k, Some (p @ [c]))" for g
    using assms(1) by (simp add: mysql_transactions_def)
  have "db (h @ [(StmtBind q bs, False)]) = (k, Some p)" for q bs
    using assms(1,4) by (simp add: mysql_transactions_def)
  then have "db (h @ es) = (k, Some (p @ [c]))"
    using c(2) step [OF assms(4)] step by (metis append_Cons append_Nil append_assoc)
  with c(1) show ?thesis by blast
qed

lemma bad_events_effect:
  assumes "mysql_transactions dml db" "element_dml dml s e" "bad_events s e es"
  shows "fst (db (h @ es)) = fst (db h)"
proof -
  have bind: "db (g @ [(StmtBind q bs, f)]) = db g" for g q bs f
    using assms(1) by (simp add: mysql_transactions_def)
  have stmt: "statement_call s e c \<Longrightarrow> fst (db (g @ [(c, True)])) = fst (db g)" for g c
    using assms(1,2) by (simp add: mysql_transactions_def element_dml_def)
  consider q bs where "es = [(StmtBind q bs, True)]"
    | c where "statement_call s e c" "es = [(c, True)]"
    | c q bs where "statement_call s e c" "es = [(StmtBind q bs, False), (c, True)]"
    using assms(3) by (auto simp: bad_events_def)
  then show ?thesis
  proof cases
    case (3 c q bs)
    then have "h @ es = (h @ [(StmtBind q bs, False)]) @ [(c, True)]" by simp
    with 3(1) show ?thesis by (metis bind stmt)
  qed (simp_all add: bind stmt)
qed

lemma bad_events_last: "bad_events s e es \<Longrightarrow> \<exists>g c. es = g @ [(c, True)]"
  by (auto simp: bad_events_def)

lemma execute_element_outcome:
  assumes "stays_connected cl" "cn_handle s" "stmts_wf s" "element_fits e"
  shows "\<exists>r s'. execute_element cl e s = Some (r, s') \<and> element_outcome s e r s'"
proof (cases e)
  case (RawElement sql)
  then show ?thesis
    using raw_outcome [OF assms(1-3)] assms(2,3) by (auto simp: execute_element_def element_outcome_def)
next
  case (PreparedElement stmt)
  then show ?thesis
    using prepared_outcome [OF assms(1-3)] assms
    by (cases stmt) (auto simp: execute_element_def element_outcome_def element_fits_def)
qed

lemma control_statement:
  assumes "stays_connected cl" "control_succeeds cl" "cn_handle s"
    "q \<in> {''START TRANSACTION'', ''COMMIT'', ''ROLLBACK''}"
  shows "\<exists>s'. Execute_sql cl q s = Some (Inr True, s') \<and> cn_events s' = cn_events s @ [(MysqlQuery q, False)]
           \<and> cn_handle s' \<and> cn_stmtList s' = cn_stmtList s"
  using Execute_sql_connected [OF assms(1,3), of q] assms(2,4) by (auto simp: control_succeeds_def)

lemma execute_elements_atomic:
  assumes laws: "mysql_transactions dml db" and cl: "stays_connected cl" "control_succeeds cl" "reports_errors cl"
  shows "cn_handle s \<Longrightarrow> stmts_wf s \<Longrightarrow> db (cn_events s) = (k, Some p) \<Longrightarrow>
     list_all (\<lambda>e. element_dml dml s e \<and> element_fits e) es \<Longrightarrow>
     \<exists>r s'. execute_elements cl es s = Some (r, s') \<and>
       ((\<exists>cs. r = Inr 0 \<and> list_all2 (carried_out s) es cs \<and> db (cn_events s') = (k @ p @ cs, None)) \<or>
        (\<exists>err. r = Inr err \<and> err \<noteq> 0 \<and> db (cn_events s') = (k, None)) \<or>
        (\<exists>f. r = Inl f \<and> fst (db (cn_events s')) = k))"
proof (induction es arbitrary: s p)
  case Nil
  obtain s' where s': "Execute_sql cl ''COMMIT'' s = Some (Inr True, s')"
      "cn_events s' = cn_events s @ [(MysqlQuery ''COMMIT'', False)]"
    using control_statement [OF cl(1,2) Nil.prems(1), of "''COMMIT''"] by blast
  then have "db (cn_events s') = (k @ p, None)"
    using laws Nil.prems(3) by (simp add: mysql_transactions_def)
  with s'(1) show ?case by (simp add: CommitTransaction_def and_then_def)
next
  case (Cons e es)
  have dml: "element_dml dml s e" "element_fits e" using Cons.prems(4) by simp_all
  obtain r1 s1 where x: "execute_element cl e s = Some (r1, s1)" and o: "element_outcome s e r1 s1"
    using execute_element_outcome [OF cl(1) Cons.prems(1,2) dml(2)] by blast
  obtain ev where ev: "cn_events s1 = cn_events s @ ev"
      "case r1 of Inr True \<Rightarrow> ok_events s e ev | Inr False \<Rightarrow> bad_events s e ev | Inl f \<Rightarrow> ev = [] \<or> bad_events s e ev"
    and s1: "cn_handle s1" "same_queries s s1" "stmts_wf s1"
    using o by (auto simp: element_outcome_def)
  consider (ok) "r1 = Inr True" | (failed) "r1 = Inr False" | (stop) f where "r1 = Inl f"
    by (cases r1) auto
  then show ?case
  proof cases
    case ok
    then obtain c where c: "carried_out s e c" "db (cn_events s1) = (k, Some (p @ [c]))"
      using ok_events_effect [OF laws dml(1) _ Cons.prems(3)] ev by auto
    note same = same_queries_transfer [OF s1(2)]
    have "list_all (\<lambda>e. element_dml dml s1 e \<and> element_fits e) es" using Cons.prems(4) same by simp
    from Cons.IH [OF s1(1,3) c(2) this] obtain r s' where
        r: "execute_elements cl es s1 = Some (r, s')"
          "(\<exists>cs. r = Inr 0 \<and> list_all2 (carried_out s1) es cs \<and> db (cn_events s') = (k @ (p @ [c]) @ cs, None)) \<or>
           (\<exists>err. r = Inr err \<and> err \<noteq> 0 \<and> db (cn_events s') = (k, None)) \<or>
           (\<exists>f. r = Inl f \<and> fst (db (cn_events s')) = k)" by blast
    have "execute_elements cl (e # es) s = Some (r, s')"
      using x ok r(1) by (simp add: and_then_def)
    moreover have "list_all2 (carried_out s1) es cs \<Longrightarrow> list_all2 (carried_out s) (e # es) (c # cs)" for cs
      using c(1) same(1) by simp
    ultimately show ?thesis using r(2) by fastforce
  next
    case failed
    obtain s' where s': "Execute_sql cl ''ROLLBACK'' s1 = Some (Inr True, s')"
        "cn_events s' = cn_events s1 @ [(MysqlQuery ''ROLLBACK'', False)]"
      using control_statement [OF cl(1,2) s1(1), of "''ROLLBACK''"] by blast
    have bad: "bad_events s e ev" using ev(2) failed by simp
    have "fst (db (cn_events s1)) = k"
      using bad_events_effect [OF laws dml(1) bad] ev(1) Cons.prems(3) by simp
    then have "db (cn_events s') = (k, None)"
      using laws s'(2) by (simp add: mysql_transactions_def)
    moreover have "mysql_errno cl s1 \<noteq> 0"
      using bad_events_last [OF bad] ev(1) cl(3) by (auto simp: mysql_errno_def reports_errors_def simp flip: append_assoc)
    then have "GetLastError cl s1 \<noteq> 0" by (metis GetLastError_def signed_0 signed_word_eqI)
    ultimately show ?thesis
      using x failed s'(1) by (simp add: and_then_def RollbackTransaction_def Let_def)
  next
    case stop
    have "fst (db (cn_events s1)) = k"
      using ev stop bad_events_effect [OF laws dml(1)] Cons.prems(3) by auto
    with x stop show ?thesis by (simp add: and_then_def)
  qed
qed

lemma ExecuteTransaction_atomic:
  assumes "mysql_transactions dml db" "stays_connected cl" "control_succeeds cl" "reports_errors cl"
    and "cn_handle s" "stmts_wf s" "db (cn_events s) = (k, None)" "queries \<noteq> []"
    and "list_all (\<lambda>e. element_dml dml s e \<and> element_fits e) queries"
  shows "\<exists>r s'. ExecuteTransaction cl queries s = Some (r, s') \<and>
       ((\<exists>cs. r = Inr 0 \<and> list_all2 (carried_out s) queries cs \<and> db (cn_events s') = (k @ cs, None)) \<or>
        (\<exists>err. r = Inr err \<and> err \<noteq> 0 \<and> db (cn_events s') = (k, None)) \<or>
        (\<exists>f. r = Inl f \<and> fst (db (cn_events s')) = k))"
proof -
  obtain s1 where s1: "Execute_sql cl ''START TRANSACTION'' s = Some (Inr True, s1)"
      "cn_events s1 = cn_events s @ [(MysqlQuery ''START TRANSACTION'', False)]" "cn_handle s1" "cn_stmtList s1 = cn_stmtList s"
    using control_statement [OF assms(2,3,5), of "''START TRANSACTION''"] by blast
  have "db (cn_events s1) = (k, Some [])"
    using assms(1,7) s1(2) by (simp add: mysql_transactions_def)
  moreover have "stmts_wf s1" "same_queries s s1" using assms(6) s1(4) by (simp_all add: stmts_wf_def)
  ultimately show ?thesis
    using execute_elements_atomic [OF assms(1-4) s1(3), of k "[]" queries] assms(8,9) s1(1)
      same_queries_transfer [of s s1]
    by (simp add: ExecuteTransaction_def BeginTransaction_def and_then_def)
qed


text \<open>
  Sample clients: \<open>fails\<close> decides which calls fail, and a failed call leaves the error number \<open>err\<close>.
\<close>

definition sample_client :: "(event list \<Rightarrow> call \<Rightarrow> bool) \<Rightarrow> u32 \<Rightarrow> client" where
  "sample_client fails err = \<lparr>cl_fails = fails, cl_errno = (\<lambda>h. if h \<noteq> [] \<and> snd (last h) then err else 0),
     cl_now = (\<lambda>h. 0), cl_time_ms = (\<lambda>h. 1000 * int (length h)),
     cl_param_count = (\<lambda>q. length (filter (\<lambda>c. c = CHR ''?'') q)), cl_row_count = (\<lambda>h. 0),
     cl_field_count = (\<lambda>h. 0), cl_version = (\<lambda>h. 80000)\<rparr>"

definition duplicate_client :: client where
  "duplicate_client = sample_client (\<lambda>h c. c = MysqlQuery ''Q2'') ER_DUP_ENTRY"


text \<open>The server closes the connection at the first \<open>Q2\<close>; connecting again works.\<close>

definition lossy_client :: client where
  "lossy_client = sample_client (\<lambda>h c. c = MysqlQuery ''Q2'' \<and> (c, True) \<notin> set h) CR_SERVER_GONE_ERROR"

text \<open>The sample connection after the history \<open>h\<close>, and what it does with the lossy client.\<close>

abbreviation demo_after :: "event list \<Rightarrow> connection" where
  "demo_after h \<equiv> demo_connection\<lparr>cn_events := h\<rparr>"

definition reconnect_events :: "event list" where
  "reconnect_events = [(MysqlClose, False), (MysqlInit, False),
     (RealConnect ''127.0.0.1'' ''u'' ''p'' ''bot'' 3306 None False, False), (Autocommit, False), (SetCharset, False)]"

lemma lossy_execute:
  assumes "q \<noteq> []" "q \<noteq> ''Q2'' \<or> (MysqlQuery ''Q2'', True) \<in> set h"
  shows "Execute_sql lossy_client q (demo_after h) = Some (Inr True, demo_after (h @ [(MysqlQuery q, False)]))"
  using assms by (subst Execute_sql.simps)
    (auto simp: perform_def Let_def UpdateLastUseTime_def lossy_client_def sample_client_def demo_connection_eq)

lemma lossy_handle:
  "HandleMySQLError lossy_client CR_SERVER_GONE_ERROR 5 (demo_after h) = (Inr True, demo_after (h @ reconnect_events))"
  by (simp add: HandleMySQLError_retried retried_def lost_codes_def drop_handle_def MySQLConnection_Open_def
      real_connect_def perform_def lossy_client_def sample_client_def demo_connection_eq demo_port reconnect_events_def)

lemma lossy_reconnect:
  assumes "(MysqlQuery ''Q2'', True) \<notin> set h"
  shows "Execute_sql lossy_client ''Q2'' (demo_after h) =
         Execute_sql lossy_client ''Q2'' (demo_after (h @ (MysqlQuery ''Q2'', True) # reconnect_events))"
proof -
  have "cn_handle (demo_after h)" by (simp add: demo_connection_eq)
  moreover have "perform lossy_client (MysqlQuery ''Q2'') (demo_after h) = (True, demo_after (h @ [(MysqlQuery ''Q2'', True)]))"
    using assms by (simp add: perform_def lossy_client_def sample_client_def)
  moreover have "mysql_errno lossy_client (demo_after (h @ [(MysqlQuery ''Q2'', True)])) = CR_SERVER_GONE_ERROR"
    by (simp add: mysql_errno_def lossy_client_def sample_client_def)
  ultimately show ?thesis
    by (subst Execute_sql.simps) (simp add: lossy_handle)
qed


text \<open>
  A transaction that was rolled back can be reported as committed.  When a prepared statement fails
  and the connection handle reports no error (the error is on the statement object: the code reads
  \<open>mysql_errno\<close> of the handle, and a statement that was prepared before a reconnection fails this way),
  \<open>ExecuteTransaction\<close> rolls back and returns 0, the code of success.
\<close>
theorem statement_error_reported_as_success:
  assumes "\<And>h. cl_errno cl h = 0" "\<And>h q bs. cl_fails cl h (StmtExecute q bs)" "\<And>h q bs. \<not> cl_fails cl h (StmtBind q bs)"
    and "mysql_transactions dml db" "control_succeeds cl" "cn_handle s" "stmts_wf s" "db (cn_events s) = (k, None)"
    and "unat (ps_index st) < length (cn_stmtList s)" "cn_stmtList s ! unat (ps_index st) = Some m"
    and "length (ps_data st) \<le> ms_paramCount m" "\<And>bs. dml (StmtExecute (ms_query m) bs)"
  shows "\<exists>s'. ExecuteTransaction cl (PreparedElement (Some st) # queries) s = Some (Inr 0, s')
           \<and> (\<exists>es. cn_events s' = es @ [(MysqlQuery ''ROLLBACK'', False)])
           \<and> db (cn_events s') = (k, None)"
proof -
  have conn: "stays_connected cl" by (simp add: stays_connected_def assms(1) retried_def lost_codes_def)
  obtain s1 where s1: "Execute_sql cl ''START TRANSACTION'' s = Some (Inr True, s1)"
      "cn_events s1 = cn_events s @ [(MysqlQuery ''START TRANSACTION'', False)]" "cn_handle s1" "cn_stmtList s1 = cn_stmtList s"
    using control_statement [OF conn assms(5,6), of "''START TRANSACTION''"] by blast
  have wf: "stmt_wf m"
    using assms(7,10) nth_mem [OF assms(9)] by (force simp: stmts_wf_def list_all_iff)
  then obtain m' where b: "BindParameters st m = Inr m'"
    using assms(11) by (simp add: BindParameters_eq Let_def)
  have q: "ms_query m' = ms_query m" using BindParameters_query [OF wf b] by simp
  let ?q = "ms_query m'" and ?bs = "ms_bind m'"
  obtain s2 where p2: "perform cl (StmtBind ?q ?bs) (put_stmt (ps_index st) m' s1) = (False, s2)"
    using assms(3) by (simp add: perform_def)
  obtain s3 where p3: "perform cl (StmtExecute ?q ?bs) s2 = (True, s3)"
    using assms(2) by (simp add: perform_def)
  let ?t = "put_stmt (ps_index st) (ClearParameters m') s3"
  have x: "Execute_stmt cl (Some st) s1 = Some (Inr False, ?t)"
    using Execute_stmt_round [of s1 st m m' cl False s2 True s3 s3] s1 assms(9,10) b p2 p3 conn
    by (simp add: stays_connected_def mysql_errno_def assms(1) fatal_def)
  have t: "cn_handle ?t" "cn_events ?t = cn_events s1 @ [(StmtBind ?q ?bs, False), (StmtExecute ?q ?bs, True)]"
    using perform_fields [of cl "StmtBind ?q ?bs" "put_stmt (ps_index st) m' s1"]
      perform_fields [of cl "StmtExecute ?q ?bs" s2] p2 p3 s1(3) by simp_all
  obtain s' where s': "Execute_sql cl ''ROLLBACK'' ?t = Some (Inr True, s')"
      "cn_events s' = cn_events ?t @ [(MysqlQuery ''ROLLBACK'', False)]"
    using control_statement [OF conn assms(5) t(1), of "''ROLLBACK''"] by blast
  have bad: "bad_events s (PreparedElement (Some st)) [(StmtBind ?q ?bs, False), (StmtExecute ?q ?bs, True)]"
    using assms(9,10) q by (simp add: bad_events_def statement_call_def)
  have "element_dml dml s (PreparedElement (Some st))"
    using assms(9,10,12) by (auto simp: element_dml_def statement_call_def split: call.splits)
  from bad_events_effect [OF assms(4) this bad] have "fst (db (cn_events ?t)) = fst (db (cn_events s1))"
    unfolding t(2) by simp
  also have "\<dots> = k" using assms(4,8) s1(2) by (simp add: mysql_transactions_def)
  finally have "db (cn_events s') = (k, None)" using assms(4) s'(2) by (simp add: mysql_transactions_def)
  then show ?thesis
    using x s1(1) s' assms(1)
    by (simp add: ExecuteTransaction_def BeginTransaction_def RollbackTransaction_def and_then_def execute_element_def
        GetLastError_def mysql_errno_def)
qed

definition stale_client :: client where
  "stale_client = sample_client (\<lambda>h c. case c of StmtExecute _ _ \<Rightarrow> True | _ \<Rightarrow> False) 0"

theorem statement_error_reported_as_success_witness:
  "\<exists>s'. ExecuteTransaction stale_client [PreparedElement (Some (PreparedStatementBase 0 0))]
          (demo_connection\<lparr>cn_stmtList := [Some (MySQLPreparedStatement 0 ''DELETE'')]\<rparr>) = Some (Inr 0, s')
      \<and> (\<exists>es. cn_events s' = es @ [(MysqlQuery ''ROLLBACK'', False)])
      \<and> sql_effects (cn_events s') = ([], None)"
  by (rule statement_error_reported_as_success [OF _ _ _ mysql_transactions_sql_effects, where m = "MySQLPreparedStatement 0 ''DELETE''"])
    (simp_all add: stale_client_def sample_client_def control_succeeds_def demo_connection_eq stmts_wf_def stmt_wf_new
      sql_effects_def PreparedStatementBase_def MySQLPreparedStatement_def stmt_wf_def plain_dml_def)

subsection \<open>Connection strings\<close>

text \<open>
  Opening a connection over the local socket (host \<open>"."\<close>) works only once per connection info: the
  first \<open>Open\<close> replaces the host by \<open>localhost\<close>, so the next one, on a reconnection or for the second
  connection of the pool, takes the branch for a port and dereferences the empty result of parsing
  the socket path as a number.
\<close>
theorem second_socket_open_undefined:
  assumes "ci_Host (cn_info s) = ''.''" "FromString (uint_ty 32) (ci_PortOrSocket (cn_info s)) 10 = None"
    and "MySQLConnection_Open cl s = (Inr 0, s1)" "cn_info s2 = cn_info s1" "\<not> cl_fails cl (cn_events s2) MysqlInit"
  shows "fst (MySQLConnection_Open cl s2) = Inl Undefined"
proof -
  define a where "a = snd (perform cl MysqlInit s)"
  have info: "cn_info a = cn_info s" by (simp add: a_def)
  have "\<not> fst (perform cl MysqlInit s)"
    using assms(3) by (auto simp: MySQLConnection_Open_def case_prod_beta)
  then have "real_connect cl 0 (Some (ci_PortOrSocket (cn_info a))) (a\<lparr>cn_info := (cn_info a)\<lparr>ci_Host := ''localhost''\<rparr>\<rparr>) = (Inr 0, s1)"
    using assms(1,3) info by (simp add: MySQLConnection_Open_def case_prod_beta a_def)
  then have "cn_info s1 = (cn_info s)\<lparr>ci_Host := ''localhost''\<rparr>"
    by (auto simp: real_connect_def Let_def case_prod_beta info split: if_splits)
  then show ?thesis
    using assms(2,4,5) by (simp add: MySQLConnection_Open_def perform_def)
qed

definition socket_connection :: connection where
  "socket_connection = demo_connection\<lparr>cn_handle := False,
     cn_info := (cn_info demo_connection)\<lparr>ci_Host := ''.'', ci_PortOrSocket := ''/tmp/mysql.sock''\<rparr>\<rparr>"

theorem second_socket_open_undefined_witness:
  "let cl = sample_client (\<lambda>h c. False) 0; s1 = snd (MySQLConnection_Open cl socket_connection)
   in fst (MySQLConnection_Open cl socket_connection) = Inr 0 \<and> fst (MySQLConnection_Open cl s1) = Inl Undefined"
proof -
  let ?cl = "sample_client (\<lambda>h c. False) 0"
  let ?s = "socket_connection" and ?s1 = "snd (MySQLConnection_Open (sample_client (\<lambda>h c. False) 0) socket_connection)"
  have o: "fst (MySQLConnection_Open ?cl ?s) = Inr 0"
    by (simp add: MySQLConnection_Open_def real_connect_def perform_def sample_client_def socket_connection_def demo_connection_eq)
  have "FromString (uint_ty 32) ''/tmp/mysql.sock'' 10 = None" by code_simp
  then have "fst (MySQLConnection_Open ?cl ?s1) = Inl Undefined"
    using second_socket_open_undefined [of ?s ?cl ?s1 ?s1] o
    by (simp add: socket_connection_def demo_connection_eq sample_client_def prod_eq_iff)
  with o show ?thesis by (simp add: Let_def)
qed

text \<open>
  A connection string of five or six fields is split into its fields, whatever they contain apart
  from the separator; any other string gives an info with all fields empty.
\<close>
lemma connection_info_fields:
  assumes "list_all (\<lambda>t. CHR '';'' \<notin> set t) fs" "fs \<noteq> []"
  shows "MySQLConnectionInfo (join_with (CHR '';'') fs) =
     (case fs of
        [h, p, u, pw, d] \<Rightarrow> \<lparr>ci_User = u, ci_Password = pw, ci_Database = d, ci_Host = h, ci_PortOrSocket = p, ci_SSL = []\<rparr>
      | [h, p, u, pw, d, ssl] \<Rightarrow> \<lparr>ci_User = u, ci_Password = pw, ci_Database = d, ci_Host = h, ci_PortOrSocket = p, ci_SSL = ssl\<rparr>
      | _ \<Rightarrow> \<lparr>ci_User = [], ci_Password = [], ci_Database = [], ci_Host = [], ci_PortOrSocket = [], ci_SSL = []\<rparr>)"
  using assms by (simp add: MySQLConnectionInfo_def Tokenize_join eval_nat_numeral split: list.splits)

end
