(* ===== verification/Transaction.thy ===== *)
theory Transaction
  imports Connection
begin

section \<open>Transactions and their tasks\<close>

text \<open>
  \<^verbatim>\<open>src/src/server/database/Database/Transaction.cpp\<close> and \<^verbatim>\<open>.h\<close>: the object that collects the statements
  of a transaction, and the two tasks that execute it on the connection of a worker, with the loop
  that retries a deadlocked transaction for a minute.  The type tag of \<^verbatim>\<open>SQLElementData\<close> and its variant
  are set together by \<open>Append\<close> and never apart, so an element is one value of the type
  \<open>sql_element\<close> and the handlers of \<^verbatim>\<open>bad_variant_access\<close> are not reachable.  The mutex that lets one thread retry
  at a time does not change what one task does and is left out.
\<close>

subsection \<open>The transaction\<close>

record transaction =
  tr_queries :: "sql_element list"
  tr_cleanedUp :: bool

definition transaction_new :: transaction where
  "transaction_new = \<lparr>tr_queries = [], tr_cleanedUp = False\<rparr>"

definition Append_sql :: "string \<Rightarrow> transaction \<Rightarrow> transaction" where
  "Append_sql sql t = t\<lparr>tr_queries := tr_queries t @ [RawElement sql]\<rparr>"

definition Append_stmt :: "statement option \<Rightarrow> transaction \<Rightarrow> transaction" where
  "Append_stmt stmt t = t\<lparr>tr_queries := tr_queries t @ [PreparedElement stmt]\<rparr>"

definition GetSize :: "transaction \<Rightarrow> nat" where
  "GetSize t = length (tr_queries t)"

fun cleanup_elements :: "sql_element list \<Rightarrow> unit res" where
  "cleanup_elements [] = Inr ()"
| "cleanup_elements (PreparedElement stmt # es) =
     bind_res (assert_res (stmt \<noteq> None)) (\<lambda>_. cleanup_elements es)"
| "cleanup_elements (RawElement sql # es) = cleanup_elements es"

definition Cleanup :: "transaction \<Rightarrow> transaction res" where
  "Cleanup t =
     (if tr_cleanedUp t then Inr t
      else bind_res (cleanup_elements (tr_queries t)) (\<lambda>_. Inr \<lparr>tr_queries = [], tr_cleanedUp = True\<rparr>))"

subsection \<open>The tasks\<close>

definition DEADLOCK_MAX_RETRY_TIME_MS :: int where
  "DEADLOCK_MAX_RETRY_TIME_MS = 60000"

definition GetTimeMS :: "client \<Rightarrow> connection \<Rightarrow> int \<times> connection" where
  "GetTimeMS cl s = (let s = snd (perform cl ReadClock s) in (cl_time_ms cl (cn_events s), s))"

definition GetMSTimeDiff :: "int \<Rightarrow> int \<Rightarrow> int" where
  "GetMSTimeDiff oldMSTime newMSTime = (if oldMSTime > newMSTime then oldMSTime - newMSTime else newMSTime - oldMSTime)"

definition GetMSTimeDiffToNow :: "client \<Rightarrow> int \<Rightarrow> connection \<Rightarrow> int \<times> connection" where
  "GetMSTimeDiffToNow cl oldMSTime s = (let (now, s) = GetTimeMS cl s in (GetMSTimeDiff oldMSTime now, s))"

definition TryExecute :: "client \<Rightarrow> transaction \<Rightarrow> connection \<Rightarrow> (int res \<times> connection) option" where
  "TryExecute cl t s = ExecuteTransaction cl (tr_queries t) s"

text \<open>The loop over the deadlocked transaction; its value is that an attempt succeeded.\<close>

partial_function (option) deadlock_loop ::
  "client \<Rightarrow> transaction \<Rightarrow> int \<Rightarrow> int \<Rightarrow> connection \<Rightarrow> (bool res \<times> connection) option" where
  "deadlock_loop cl t startMSTime loopDuration s =
     (if loopDuration \<le> DEADLOCK_MAX_RETRY_TIME_MS then
        (case TryExecute cl t s of
           None \<Rightarrow> None
         | Some (Inl e, s) \<Rightarrow> Some (Inl e, s)
         | Some (Inr errorCode, s) \<Rightarrow>
             if errorCode = 0 then Some (Inr True, s)
             else let (loopDuration, s) = GetMSTimeDiffToNow cl startMSTime s
                  in deadlock_loop cl t startMSTime loopDuration s)
      else Some (Inr False, s))"

text \<open>\<open>ExecuteQuery\<close> of both tasks: the value says that the transaction was executed.\<close>

definition execute_task :: "client \<Rightarrow> transaction \<Rightarrow> connection \<Rightarrow> ((bool \<times> transaction) res \<times> connection) option" where
  "execute_task cl t s =
     and_then (TryExecute cl t s)
       (\<lambda>errorCode s.
          if errorCode = 0 then Some (Inr (True, t), s)
          else and_then
            (if errorCode = sint ER_LOCK_DEADLOCK then
               let (startMSTime, s) = GetTimeMS cl s in deadlock_loop cl t startMSTime 0 s
             else Some (Inr False, s))
            (\<lambda>executed s. if executed then Some (Inr (True, t), s)
                           else Some (map_sum id (Pair False) (Cleanup t), s)))"

definition TransactionTask_ExecuteQuery :: "client \<Rightarrow> transaction \<Rightarrow> connection \<Rightarrow> (transaction res \<times> connection) option" where
  "TransactionTask_ExecuteQuery cl t s = and_then (execute_task cl t s) (\<lambda>(_, t) s. Some (Inr t, s))"

text \<open>The task with a result: the value set in the promise, the transaction and the connection afterwards.\<close>

definition TransactionWithResultTask_ExecuteQuery ::
  "client \<Rightarrow> transaction \<Rightarrow> connection \<Rightarrow> ((bool \<times> transaction) res \<times> connection) option" where
  "TransactionWithResultTask_ExecuteQuery cl t s = execute_task cl t s"

subsection \<open>Attempts\<close>

text \<open>
  What one attempt does to the effects, as \<open>ExecuteTransaction\<close> promises it; \<open>attempt_state\<close> is what the
  hypotheses of that promise need of the connection and what every attempt keeps.
\<close>

definition attempt_state :: "(call \<Rightarrow> bool) \<Rightarrow> sql_element list \<Rightarrow> connection \<Rightarrow> bool" where
  "attempt_state dml es s \<longleftrightarrow> cn_handle s \<and> stmts_wf s \<and> list_all (\<lambda>e. element_dml dml s e \<and> element_fits e) es"

definition keeps_connection :: "connection \<Rightarrow> connection \<Rightarrow> bool" where
  "keeps_connection s s' \<longleftrightarrow> cn_handle s' \<and> stmts_wf s' \<and> same_queries s s' \<and> extends s s'"

lemma keeps_connection_refl: "cn_handle s \<Longrightarrow> stmts_wf s \<Longrightarrow> keeps_connection s s"
  by (simp add: keeps_connection_def)

lemma keeps_connection_trans: "keeps_connection a b \<Longrightarrow> keeps_connection b c \<Longrightarrow> keeps_connection a c"
  by (auto simp: keeps_connection_def same_queries_def intro: extends_trans)

lemma attempt_state_keeps: "attempt_state dml es s \<Longrightarrow> keeps_connection s s' \<Longrightarrow> attempt_state dml es s'"
  by (auto simp: attempt_state_def keeps_connection_def same_queries_transfer)

lemma element_outcome_keeps: "element_outcome s e r s' \<Longrightarrow> keeps_connection s s'"
  by (auto simp: element_outcome_def keeps_connection_def extends_def)

lemma Execute_sql_keeps:
  assumes "stays_connected cl" "cn_handle s" "stmts_wf s" "Execute_sql cl sql s = Some (r, s')"
  shows "keeps_connection s s'"
proof (cases "sql = []")
  case True
  then have "s' = s" using assms(4) by (simp add: Execute_sql.simps)
  with assms(2,3) show ?thesis by (simp add: keeps_connection_refl)
next
  case False
  then show ?thesis
    using raw_outcome [OF assms(1-3) False] assms(4) element_outcome_keeps by auto
qed

lemma execute_elements_keeps:
  assumes "stays_connected cl"
  shows "cn_handle s \<Longrightarrow> stmts_wf s \<Longrightarrow> list_all element_fits es \<Longrightarrow> execute_elements cl es s = Some (r, s')
    \<Longrightarrow> keeps_connection s s'"
proof (induction es arbitrary: s)
  case Nil
  obtain r1 where "Execute_sql cl ''COMMIT'' s = Some (r1, s')"
    using Nil.prems(4) by (auto simp: CommitTransaction_def and_then_def split: option.splits sum.splits prod.splits)
  then show ?case by (rule Execute_sql_keeps [OF assms Nil.prems(1,2)])
next
  case (Cons e es)
  obtain r1 s1 where x: "execute_element cl e s = Some (r1, s1)" and "element_outcome s e r1 s1"
    using execute_element_outcome [OF assms Cons.prems(1,2), of e] Cons.prems(3) by auto
  then have k: "keeps_connection s s1" using element_outcome_keeps by blast
  then have s1: "cn_handle s1" "stmts_wf s1" by (simp_all add: keeps_connection_def)
  consider (ok) "r1 = Inr True" | (failed) "r1 = Inr False" | (stop) f where "r1 = Inl f" by (cases r1) auto
  then show ?case
  proof cases
    case ok
    then have "execute_elements cl es s1 = Some (r, s')" using x Cons.prems(4) by (simp add: and_then_def)
    from Cons.IH [OF s1 _ this] Cons.prems(3) k show ?thesis using keeps_connection_trans by auto
  next
    case failed
    then obtain r2 where "Execute_sql cl ''ROLLBACK'' s1 = Some (r2, s')"
      using x Cons.prems(4)
      by (auto simp: RollbackTransaction_def and_then_def Let_def split: option.splits sum.splits prod.splits)
    from Execute_sql_keeps [OF assms s1 this] k show ?thesis using keeps_connection_trans by blast
  next
    case stop
    then show ?thesis using x k Cons.prems(4) by (simp add: and_then_def)
  qed
qed

lemma ExecuteTransaction_keeps:
  assumes "stays_connected cl" "cn_handle s" "stmts_wf s" "list_all element_fits es"
    "ExecuteTransaction cl es s = Some (r, s')"
  shows "keeps_connection s s'"
proof (cases "es = []")
  case True
  then show ?thesis using assms by (auto simp: ExecuteTransaction_def keeps_connection_refl)
next
  case False
  obtain r1 s1 where b: "Execute_sql cl ''START TRANSACTION'' s = Some (r1, s1)"
    using Execute_sql_connected [OF assms(1,2), of "''START TRANSACTION''"] by auto
  have k: "keeps_connection s s1" by (rule Execute_sql_keeps [OF assms(1-3) b])
  then have s1: "cn_handle s1" "stmts_wf s1" by (simp_all add: keeps_connection_def)
  show ?thesis
  proof (cases r1)
    case (Inl f)
    then show ?thesis using b k False assms(5) by (simp add: ExecuteTransaction_def BeginTransaction_def and_then_def)
  next
    case (Inr ok)
    then have "execute_elements cl es s1 = Some (r, s')"
      using b False assms(5) by (simp add: ExecuteTransaction_def BeginTransaction_def and_then_def)
    from execute_elements_keeps [OF assms(1) s1 assms(4) this] k show ?thesis using keeps_connection_trans by blast
  qed
qed

text \<open>The three ways an attempt ends.\<close>

definition attempt_outcome ::
  "(event list \<Rightarrow> effects) \<Rightarrow> call list \<Rightarrow> sql_element list \<Rightarrow> connection \<Rightarrow> int res \<Rightarrow> connection \<Rightarrow> bool" where
  "attempt_outcome db k es s r s' \<longleftrightarrow>
     (\<exists>cs. r = Inr 0 \<and> list_all2 (carried_out s) es cs \<and> db (cn_events s') = (k @ cs, None)) \<or>
     (\<exists>err. r = Inr err \<and> err \<noteq> 0 \<and> db (cn_events s') = (k, None)) \<or>
     (\<exists>f. r = Inl f \<and> fst (db (cn_events s')) = k)"

lemma TryExecute_outcome:
  assumes "mysql_transactions dml db" "stays_connected cl" "control_succeeds cl" "reports_errors cl"
    "attempt_state dml (tr_queries t) s" "db (cn_events s) = (k, None)"
  shows "\<exists>r s'. TryExecute cl t s = Some (r, s') \<and> keeps_connection s s' \<and> attempt_outcome db k (tr_queries t) s r s'"
proof -
  have s: "cn_handle s" "stmts_wf s" "list_all (\<lambda>e. element_dml dml s e \<and> element_fits e) (tr_queries t)"
      "list_all element_fits (tr_queries t)"
    using assms(5) by (auto simp: attempt_state_def list_all_iff)
  obtain r s' where x: "ExecuteTransaction cl (tr_queries t) s = Some (r, s')"
    and o: "attempt_outcome db k (tr_queries t) s r s'"
  proof (cases "tr_queries t = []")
    case True
    then have "attempt_outcome db k (tr_queries t) s (Inr (- 1)) s"
      using assms(6) by (simp add: attempt_outcome_def)
    with True show ?thesis using that [of "Inr (- 1)" s] by (simp add: ExecuteTransaction_def)
  next
    case False
    then show ?thesis
      using ExecuteTransaction_atomic [OF assms(1-4) s(1,2) assms(6) False s(3)] that
      unfolding attempt_outcome_def by blast
  qed
  with ExecuteTransaction_keeps [OF assms(2) s(1,2,4) x] show ?thesis by (auto simp: TryExecute_def)
qed

text \<open>A clock that does not stand still: enough calls take more than the time the loop retries for.\<close>

definition clock_advances :: "client \<Rightarrow> bool" where
  "clock_advances cl \<longleftrightarrow>
     (\<forall>h. \<exists>n. \<forall>h'. n \<le> length h' \<longrightarrow> cl_time_ms cl h + DEADLOCK_MAX_RETRY_TIME_MS < cl_time_ms cl (h @ h'))"

lemma GetTimeMS_facts:
  assumes "GetTimeMS cl s = (now, s')"
  shows "now = cl_time_ms cl (cn_events s')" "\<exists>f. cn_events s' = cn_events s @ [(ReadClock, f)]"
    "cn_handle s' = cn_handle s" "cn_stmtList s' = cn_stmtList s"
  using assms by (auto simp: GetTimeMS_def Let_def)

lemma GetTimeMS_keeps: "cn_handle s \<Longrightarrow> stmts_wf s \<Longrightarrow> GetTimeMS cl s = (now, s') \<Longrightarrow> keeps_connection s s'"
  using GetTimeMS_facts [of cl s now s'] by (auto simp: keeps_connection_def stmts_wf_def extends_def)

lemma read_clock_effects:
  "mysql_transactions dml db \<Longrightarrow> GetTimeMS cl s = (now, s') \<Longrightarrow> db (cn_events s') = db (cn_events s)"
  using GetTimeMS_facts(2) [of cl s now s'] by (auto simp: mysql_transactions_def)

lemma attempt_outcome_keeps:
  "keeps_connection s s1 \<Longrightarrow> attempt_outcome db k es s1 r s' \<Longrightarrow> attempt_outcome db k es s r s'"
  using same_queries_transfer(1) [of s s1] by (simp add: attempt_outcome_def keeps_connection_def)

subsection \<open>The retry loop\<close>

definition loop_outcome ::
  "(event list \<Rightarrow> effects) \<Rightarrow> call list \<Rightarrow> sql_element list \<Rightarrow> connection \<Rightarrow> bool res \<Rightarrow> connection \<Rightarrow> bool" where
  "loop_outcome db k es s r s' \<longleftrightarrow>
     (\<exists>cs. r = Inr True \<and> list_all2 (carried_out s) es cs \<and> db (cn_events s') = (k @ cs, None)) \<or>
     (r = Inr False \<and> db (cn_events s') = (k, None)) \<or>
     (\<exists>f. r = Inl f \<and> fst (db (cn_events s')) = k)"

lemma loop_outcome_keeps:
  "keeps_connection s s1 \<Longrightarrow> loop_outcome db k es s1 r s' \<Longrightarrow> loop_outcome db k es s r s'"
  using same_queries_transfer(1) [of s s1] by (simp add: loop_outcome_def keeps_connection_def)

lemma deadlock_loop_outcome:
  assumes laws: "mysql_transactions dml db" and cl: "stays_connected cl" "control_succeeds cl" "reports_errors cl"
    and n: "\<And>h'. n \<le> length h' \<Longrightarrow> cl_time_ms cl h0 + DEADLOCK_MAX_RETRY_TIME_MS < cl_time_ms cl (h0 @ h')"
  shows "cn_events s = h0 @ h' \<Longrightarrow> (n \<le> length h' \<Longrightarrow> DEADLOCK_MAX_RETRY_TIME_MS < dur) \<Longrightarrow>
    attempt_state dml (tr_queries t) s \<Longrightarrow> db (cn_events s) = (k, None) \<Longrightarrow>
    \<exists>r s'. deadlock_loop cl t (cl_time_ms cl h0) dur s = Some (r, s') \<and> loop_outcome db k (tr_queries t) s r s'"
proof (induction "n - length h'" arbitrary: s h' dur rule: less_induct)
  case less
  show ?case
  proof (cases "dur \<le> DEADLOCK_MAX_RETRY_TIME_MS")
    case False
    then show ?thesis using less.prems(4) by (subst deadlock_loop.simps) (simp add: loop_outcome_def)
  next
    case True
    then have short: "length h' < n" using less.prems(2) by (meson leI not_le)
    obtain r1 s1 where x: "TryExecute cl t s = Some (r1, s1)" and k1: "keeps_connection s s1"
      and o: "attempt_outcome db k (tr_queries t) s r1 s1"
      using TryExecute_outcome [OF laws cl less.prems(3,4)] by blast
    show ?thesis
    proof (cases "\<exists>err. r1 = Inr err \<and> err \<noteq> 0")
      case False
      then show ?thesis using x o True
        by (subst deadlock_loop.simps) (auto simp: attempt_outcome_def loop_outcome_def)
    next
      case err: True
      then have db1: "db (cn_events s1) = (k, None)" using o by (auto simp: attempt_outcome_def)
      obtain now s2 where g: "GetTimeMS cl s1 = (now, s2)" by fastforce
      have k2: "keeps_connection s s2"
        using k1 GetTimeMS_keeps [OF _ _ g] keeps_connection_trans [OF k1] unfolding keeps_connection_def by blast
      then have st: "attempt_state dml (tr_queries t) s2" by (rule attempt_state_keeps [OF less.prems(3)])
      have db2: "db (cn_events s2) = (k, None)" using read_clock_effects [OF laws g] db1 by simp
      obtain h2 where h2: "cn_events s2 = h0 @ h2" "length h' < length h2"
      proof -
        obtain es f where "cn_events s1 = cn_events s @ es" "cn_events s2 = cn_events s1 @ [(ReadClock, f)]"
          using GetTimeMS_facts(2) [OF g] k1 unfolding keeps_connection_def extends_def by blast
        then show thesis using that [of "h' @ es @ [(ReadClock, f)]"] less.prems(1) by simp
      qed
      have now: "now = cl_time_ms cl (h0 @ h2)" using GetTimeMS_facts(1) [OF g] h2(1) by simp
      have "n - length h2 < n - length h'" using h2(2) short by linarith
      moreover have "DEADLOCK_MAX_RETRY_TIME_MS < GetMSTimeDiff (cl_time_ms cl h0) now" if "n \<le> length h2"
        using n [OF that] now by (simp add: GetMSTimeDiff_def DEADLOCK_MAX_RETRY_TIME_MS_def)
      ultimately obtain r s' where
          "deadlock_loop cl t (cl_time_ms cl h0) (GetMSTimeDiff (cl_time_ms cl h0) now) s2 = Some (r, s')"
          "loop_outcome db k (tr_queries t) s2 r s'"
        using less.hyps [OF _ h2(1) _ st db2] by blast
      moreover from err x g have "deadlock_loop cl t (cl_time_ms cl h0) dur s =
          deadlock_loop cl t (cl_time_ms cl h0) (GetMSTimeDiff (cl_time_ms cl h0) now) s2"
        using True by (subst deadlock_loop.simps) (auto simp: GetMSTimeDiffToNow_def)
      ultimately show ?thesis using loop_outcome_keeps [OF k2] by auto
    qed
  qed
qed

lemma retry_outcome:
  assumes laws: "mysql_transactions dml db" and cl: "stays_connected cl" "control_succeeds cl" "reports_errors cl"
    and "clock_advances cl" "attempt_state dml (tr_queries t) s" "db (cn_events s) = (k, None)" "GetTimeMS cl s = (start, s1)"
  shows "\<exists>r s'. deadlock_loop cl t start 0 s1 = Some (r, s') \<and> loop_outcome db k (tr_queries t) s r s'"
proof -
  let ?h = "cn_events s1"
  obtain n where n: "\<And>h'. n \<le> length h' \<Longrightarrow> cl_time_ms cl ?h + DEADLOCK_MAX_RETRY_TIME_MS < cl_time_ms cl (?h @ h')"
    using assms(5) unfolding clock_advances_def by blast
  have "n \<noteq> 0" using n [of "[]"] by (auto simp: DEADLOCK_MAX_RETRY_TIME_MS_def)
  have k1: "keeps_connection s s1"
    using GetTimeMS_keeps [OF _ _ assms(8)] assms(6) by (simp add: attempt_state_def)
  have st: "attempt_state dml (tr_queries t) s1" by (rule attempt_state_keeps [OF assms(6) k1])
  have db1: "db ?h = (k, None)" using read_clock_effects [OF laws assms(8)] assms(7) by simp
  have "\<exists>r s'. deadlock_loop cl t (cl_time_ms cl ?h) 0 s1 = Some (r, s') \<and> loop_outcome db k (tr_queries t) s1 r s'"
    by (rule deadlock_loop_outcome [OF laws cl n, where h' = "[]"]) (use \<open>n \<noteq> 0\<close> st db1 in auto)
  then show ?thesis
    using loop_outcome_keeps [OF k1] GetTimeMS_facts(1) [OF assms(8)] by auto
qed

lemma Cleanup_result: "\<not> tr_cleanedUp t \<Longrightarrow> Cleanup t = Inr t' \<Longrightarrow> t' = \<lparr>tr_queries = [], tr_cleanedUp = True\<rparr>"
  by (auto simp: Cleanup_def bind_res_eq_Inr)


text \<open>A server that answers every \<open>Q2\<close> with a deadlock.\<close>

definition deadlock_client :: client where
  "deadlock_client = sample_client (\<lambda>h c. c = MysqlQuery ''Q2'') ER_LOCK_DEADLOCK"

definition demo_transaction :: transaction where
  "demo_transaction = Append_sql ''Q2'' (Append_sql ''Q1'' transaction_new)"


end
