(* ===== verification/WorkerPool.thy ===== *)
theory WorkerPool
  imports Transaction PCQueue Config Scheduler
begin

section \<open>The database worker pool\<close>

text \<open>
  \<^verbatim>\<open>src/src/server/database/Database/DatabaseWorkerPool.cpp\<close> and the operations of
  \<^verbatim>\<open>DatabaseAsyncOperation.cpp\<close> that its queue carries.  The pool owns the connections, the texts of the
  prepared statements, the numbers of their parameters and the queue of asynchronous operations; each
  connection talks to its own client library state, \<open>cls id\<close>, where \<open>id\<close> numbers the connections in
  the order of their creation.  The connection info is shared by reference, so what \<open>Open\<close> changes in
  it is copied to every connection.  A connection carries the flag of its mutex.  Left out: the file with the
  password (\<open>MakeExtraFile\<close>), the escaping of strings, the debug-only warnings, and the
  queue-checker thread that calls \<open>CheckAsyncQueue\<close>.
\<close>

subsection \<open>State\<close>

record pool_conn =
  pc_id :: nat
  pc_conn :: connection
  pc_locked :: bool

datatype async_op =
    BasicStatementTask string bool
  | PreparedStatementTask "statement option" bool
  | TransactionTask transaction
  | TransactionWithResultTask transaction
  | PingOperation

record db_pool =
  dp_info :: "connection_info option"
  dp_async :: "pool_conn list"
  dp_sync :: "pool_conn list"
  dp_next :: nat
  dp_queue :: "async_op pc_queue"
  dp_statements :: "(u32 \<times> string \<times> ConnectionFlags) list"
  dp_statementSize :: nat
  dp_preparedSize :: "u8 list"
  dp_maxAsyncQueueSize :: nat
  dp_scheduler :: sched

abbreviation (input) MIN_DB_SERVER_VERSION :: nat where "MIN_DB_SERVER_VERSION \<equiv> 50700"
abbreviation (input) MAX_SYNC_CONNECTIONS :: nat where "MAX_SYNC_CONNECTIONS \<equiv> 32"
abbreviation (input) MAX_ASYNC_CONNECTIONS :: nat where "MAX_ASYNC_CONNECTIONS \<equiv> 32"

definition DatabaseWorkerPool :: "int \<Rightarrow> db_pool" where
  "DatabaseWorkerPool t = \<lparr>dp_info = None, dp_async = [], dp_sync = [], dp_next = 0, dp_queue = pc_new,
     dp_statements = [], dp_statementSize = 0, dp_preparedSize = [], dp_maxAsyncQueueSize = 10,
     dp_scheduler = TaskScheduler_new t\<rparr>"

definition SetConnectionInfo :: "string \<Rightarrow> db_pool \<Rightarrow> db_pool" where
  "SetConnectionInfo infoString p = p\<lparr>dp_info := Some (MySQLConnectionInfo infoString)\<rparr>"

subsection \<open>Opening and closing connections\<close>

definition share_info :: "connection_info \<Rightarrow> pool_conn list \<Rightarrow> pool_conn list" where
  "share_info i = map (\<lambda>c. c\<lparr>pc_conn := (pc_conn c)\<lparr>cn_info := i\<rparr>\<rparr>)"

text \<open>The result of \<open>OpenConnection\<close> is the error code; on 0 the new connection is the last of its list.\<close>

definition OpenConnection :: "(nat \<Rightarrow> client) \<Rightarrow> bool \<Rightarrow> bool \<Rightarrow> db_pool \<Rightarrow> u32 res \<times> db_pool" where
  "OpenConnection cls async isDynamic p =
     (case dp_info p of
        None \<Rightarrow> (Inl Undefined, p)
      | Some info \<Rightarrow>
          let cl = cls (dp_next p);
              (r, c) = MySQLConnection_Open cl (MySQLConnection cl info async isDynamic);
              p = p\<lparr>dp_next := Suc (dp_next p), dp_info := Some (cn_info c),
                    dp_async := share_info (cn_info c) (dp_async p), dp_sync := share_info (cn_info c) (dp_sync p)\<rparr>
          in case r of
               Inl e \<Rightarrow> (Inl e, p)
             | Inr err \<Rightarrow>
                 if err \<noteq> 0 then (Inr err, p)
                 else if cl_version cl (cn_events c) < MIN_DB_SERVER_VERSION then (Inr 1, p)
                 else let pc = \<lparr>pc_id = dp_next p - 1, pc_conn = c, pc_locked = False\<rparr>
                      in (Inr 0, if async then p\<lparr>dp_async := dp_async p @ [pc]\<rparr>
                                 else p\<lparr>dp_sync := dp_sync p @ [pc]\<rparr>))"

text \<open>\<open>AddTasks\<close>; the ticks of the scheduler are nanoseconds, the handlers are numbered.\<close>

abbreviation ticks_per_second :: int where "ticks_per_second \<equiv> 1000000000"

definition AddTasks :: "config_mgr \<Rightarrow> db_pool \<Rightarrow> unit res \<times> db_pool" where
  "AddTasks cfg p =
     (let maxQueue = nat (fst (GetOption_int (uint_ty 32) ''MaxQueueSize'' 10 True cfg));
          p = p\<lparr>dp_maxAsyncQueueSize := maxQueue\<rparr>
      in if maxQueue < 10 then (Inl AssertFailure, p)
         else let ping = fst (GetOption_int (uint_ty 32) ''MaxPingTime'' 30 True cfg);
                  sc = TaskScheduler_Schedule (ping * 60 * ticks_per_second) None 0 (dp_scheduler p);
                  sc = TaskScheduler_Schedule (10 * ticks_per_second) None 1 sc;
                  sc = TaskScheduler_Schedule (1 * ticks_per_second) None 2 sc
              in (Inr (), p\<lparr>dp_scheduler := sc\<rparr>))"

definition DatabaseWorkerPool_Open :: "(nat \<Rightarrow> client) \<Rightarrow> config_mgr \<Rightarrow> db_pool \<Rightarrow> u32 res \<times> db_pool" where
  "DatabaseWorkerPool_Open cls cfg p =
     (if dp_info p = None then (Inl AssertFailure, p)
      else case OpenConnection cls True False p of
        (Inl e, p) \<Rightarrow> (Inl e, p)
      | (Inr err, p) \<Rightarrow>
          if err \<noteq> 0 then (Inr err, p)
          else case OpenConnection cls False False p of
            (Inl e, p) \<Rightarrow> (Inl e, p)
          | (Inr err, p) \<Rightarrow>
              if err \<noteq> 0 then (Inr err, p)
              else case AddTasks cfg p of (Inl e, p) \<Rightarrow> (Inl e, p) | (Inr _, p) \<Rightarrow> (Inr err, p))"

definition DatabaseWorkerPool_Close :: "db_pool \<Rightarrow> db_pool" where
  "DatabaseWorkerPool_Close p =
     (if dp_async p = [] \<and> dp_sync p = [] then p
      else p\<lparr>dp_scheduler := TaskScheduler_CancelAll (dp_scheduler p), dp_async := [], dp_sync := []\<rparr>)"

subsection \<open>Prepared statements\<close>

text \<open>\<open>PrepareStatement\<close> of the pool: the texts, by index; an index that is there already is skipped.\<close>

definition Pool_PrepareStatement :: "u32 \<Rightarrow> string \<Rightarrow> ConnectionFlags \<Rightarrow> db_pool \<Rightarrow> db_pool" where
  "Pool_PrepareStatement index sql flags p =
     p\<lparr>dp_statements := emplace index (sql, flags) (dp_statements p)\<rparr>"

definition resize_list :: "nat \<Rightarrow> 'a \<Rightarrow> 'a list \<Rightarrow> 'a list" where
  "resize_list n d xs = take n xs @ replicate (n - length xs) d"

fun prepare_all :: "client \<Rightarrow> (u32 \<times> string \<times> ConnectionFlags) list \<Rightarrow> connection \<Rightarrow> unit res \<times> connection" where
  "prepare_all cl [] c = (Inr (), c)"
| "prepare_all cl ((index, sql, flags) # stmts) c =
     (case PrepareStatement cl index sql flags c of
        (Inl e, c) \<Rightarrow> (Inl e, c)
      | (Inr _, c) \<Rightarrow> prepare_all cl stmts c)"

definition InitPrepareStatement :: "client \<Rightarrow> db_pool \<Rightarrow> connection \<Rightarrow> unit res \<times> connection" where
  "InitPrepareStatement cl p c =
     prepare_all cl (dp_statements p) (c\<lparr>cn_stmtList := resize_list (dp_statementSize p) None (cn_stmtList c)\<rparr>)"

fun prepare_connections :: "(nat \<Rightarrow> client) \<Rightarrow> db_pool \<Rightarrow> pool_conn list \<Rightarrow> unit res \<times> pool_conn list" where
  "prepare_connections cls p [] = (Inr (), [])"
| "prepare_connections cls p (pc # pcs) =
     (case InitPrepareStatement (cls (pc_id pc)) p (pc_conn pc) of
        (Inl e, c) \<Rightarrow> (Inl e, pc\<lparr>pc_conn := c\<rparr> # pcs)
      | (Inr _, c) \<Rightarrow>
          (case prepare_connections cls p pcs of (r, pcs) \<Rightarrow> (r, pc\<lparr>pc_conn := c\<rparr> # pcs)))"

text \<open>
  The lambda \<open>IsValidPrepareStatements\<close>: the sizes of the statements of one connection go to the
  entries that are still 0.
\<close>

fun record_sizes :: "nat \<Rightarrow> mysql_stmt option list \<Rightarrow> u8 list \<Rightarrow> u8 list res" where
  "record_sizes i [] sizes = Inr sizes"
| "record_sizes i (m # ms) sizes =
     (if sizes ! i > 0 then record_sizes (Suc i) ms sizes
      else case m of
        None \<Rightarrow> record_sizes (Suc i) ms sizes
      | Some st \<Rightarrow>
          if ms_paramCount st < 255 then record_sizes (Suc i) ms (sizes[i := of_nat (ms_paramCount st)])
          else Inl AssertFailure)"

definition IsValidPrepareStatements :: "pool_conn \<Rightarrow> db_pool \<Rightarrow> bool res \<times> db_pool" where
  "IsValidPrepareStatements pc p =
     (if pc_locked pc then (Inr False, p)
      else if \<not> PrepareStatements (pc_conn pc) then (Inr False, DatabaseWorkerPool_Close p)
      else let preparedSize = length (cn_stmtList (pc_conn pc));
               sizes = dp_preparedSize p;
               sizes = (if length sizes < preparedSize then resize_list preparedSize 0 sizes else sizes)
           in case record_sizes 0 (cn_stmtList (pc_conn pc)) sizes of
                Inl e \<Rightarrow> (Inl e, p)
              | Inr sizes \<Rightarrow> (Inr True, p\<lparr>dp_preparedSize := sizes\<rparr>))"

fun validate_connections :: "pool_conn list \<Rightarrow> db_pool \<Rightarrow> bool res \<times> db_pool" where
  "validate_connections [] p = (Inr True, p)"
| "validate_connections (pc # pcs) p =
     (case IsValidPrepareStatements pc p of
        (Inr True, p) \<Rightarrow> validate_connections pcs p
      | (r, p) \<Rightarrow> (r, p))"

text \<open>\<open>PrepareStatements\<close>, after the virtual \<open>DoPrepareStatements\<close> has filled in the texts.\<close>

definition Pool_PrepareStatements :: "(nat \<Rightarrow> client) \<Rightarrow> db_pool \<Rightarrow> bool res \<times> db_pool" where
  "Pool_PrepareStatements cls p =
     (case prepare_connections cls p (dp_async p) of
        (Inl e, cs) \<Rightarrow> (Inl e, p\<lparr>dp_async := cs\<rparr>)
      | (Inr _, cs) \<Rightarrow>
          (case prepare_connections cls p (dp_sync p) of
             (Inl e, cs') \<Rightarrow> (Inl e, p\<lparr>dp_async := cs, dp_sync := cs'\<rparr>)
           | (Inr _, cs') \<Rightarrow> validate_connections (cs @ cs') (p\<lparr>dp_async := cs, dp_sync := cs'\<rparr>)))"

definition Pool_GetPreparedStatement :: "u32 \<Rightarrow> db_pool \<Rightarrow> statement res" where
  "Pool_GetPreparedStatement index p =
     (if unat index < length (dp_preparedSize p)
      then Inr (PreparedStatementBase index (dp_preparedSize p ! unat index)) else Inl Undefined)"

subsection \<open>Dynamic connections\<close>

definition update_last :: "('a \<Rightarrow> 'a) \<Rightarrow> 'a list \<Rightarrow> 'a list" where
  "update_last f xs = (if xs = [] then [] else butlast xs @ [f (last xs)])"

text \<open>The statements of the connection that was opened last; the \<open>ASSERT\<close> is on its error flag.\<close>

definition init_last :: "(nat \<Rightarrow> client) \<Rightarrow> bool \<Rightarrow> db_pool \<Rightarrow> unit res \<times> db_pool" where
  "init_last cls async p =
     (let pc = last (if async then dp_async p else dp_sync p);
          (r, c) = InitPrepareStatement (cls (pc_id pc)) p (pc_conn pc);
          p = (if async then p\<lparr>dp_async := update_last (\<lambda>pc. pc\<lparr>pc_conn := c\<rparr>) (dp_async p)\<rparr>
               else p\<lparr>dp_sync := update_last (\<lambda>pc. pc\<lparr>pc_conn := c\<rparr>) (dp_sync p)\<rparr>)
      in case r of
           Inl e \<Rightarrow> (Inl e, p)
         | Inr _ \<Rightarrow> (assert_res (PrepareStatements c), p))"

definition OpenDynamicAsyncConnect :: "(nat \<Rightarrow> client) \<Rightarrow> db_pool \<Rightarrow> unit res \<times> db_pool" where
  "OpenDynamicAsyncConnect cls p =
     (if length (dp_async p) \<ge> MAX_ASYNC_CONNECTIONS then (Inr (), p)
      else case OpenConnection cls True True p of
        (Inl e, p) \<Rightarrow> (Inl e, p)
      | (Inr err, p) \<Rightarrow> if err \<noteq> 0 then (Inr (), p) else init_last cls True p)"

definition OpenDynamicSyncConnect :: "(nat \<Rightarrow> client) \<Rightarrow> db_pool \<Rightarrow> unit res \<times> db_pool" where
  "OpenDynamicSyncConnect cls p =
     (if length (dp_sync p) \<ge> MAX_SYNC_CONNECTIONS then (Inr (), p)
      else case OpenConnection cls False True p of
        (Inl e, p) \<Rightarrow> (Inl e, p)
      | (Inr err, p) \<Rightarrow> if err \<noteq> 0 then (Inr (), p) else init_last cls False p)"

definition CleanupConnections :: "(nat \<Rightarrow> client) \<Rightarrow> db_pool \<Rightarrow> db_pool" where
  "CleanupConnections cls p =
     (let keep = (\<lambda>pc. \<not> CanRemoveConnection (cls (pc_id pc)) (pc_conn pc))
      in p\<lparr>dp_sync := filter keep (dp_sync p), dp_async := filter keep (dp_async p)\<rparr>)"

text \<open>The loop of \<open>CheckAsyncQueue\<close>: \<open>for (i = 0; i < queueSize; i += _maxAsyncQueueSize)\<close>, with a size of at least 10.\<close>

function open_async_loop :: "(nat \<Rightarrow> client) \<Rightarrow> nat \<Rightarrow> nat \<Rightarrow> nat \<Rightarrow> db_pool \<Rightarrow> unit res \<times> db_pool" where
  "open_async_loop cls i queueSize step p =
     (if i < queueSize \<and> 0 < step then
        (case OpenDynamicAsyncConnect cls p of
           (Inl e, p) \<Rightarrow> (Inl e, p)
         | (Inr _, p) \<Rightarrow> open_async_loop cls (i + step) queueSize step p)
      else (Inr (), p))"
  by pat_completeness auto
termination
  by (relation "measure (\<lambda>(cls, i, queueSize, step, p). queueSize - i)") auto

declare open_async_loop.simps [simp del]

definition CheckAsyncQueue :: "(nat \<Rightarrow> client) \<Rightarrow> db_pool \<Rightarrow> unit res \<times> db_pool" where
  "CheckAsyncQueue cls p =
     (let queueSize = PC_Size (dp_queue p)
      in if queueSize < dp_maxAsyncQueueSize p then (Inr (), p)
         else open_async_loop cls 0 queueSize (dp_maxAsyncQueueSize p) p)"

subsection \<open>Taking a connection\<close>

text \<open>
  The endless loop of \<open>GetFreeConnection\<close>: round \<open>k\<close> tries the lock of the connection with the index
  \<open>++i % num_cons\<close>, where \<open>i\<close> has eight bits.  Other threads lock and unlock in between: \<open>is_locked k j\<close> is
  that connection \<open>j\<close> is locked in round \<open>k\<close>.
\<close>

definition probe_index :: "u8 \<Rightarrow> nat \<Rightarrow> nat" where
  "probe_index i num_cons = unat i mod num_cons"

partial_function (option) spin :: "(nat \<Rightarrow> nat \<Rightarrow> bool) \<Rightarrow> nat \<Rightarrow> nat \<Rightarrow> u8 \<Rightarrow> nat option" where
  "spin is_locked num_cons k i =
     (let i = i + 1; j = probe_index i num_cons
      in if \<not> is_locked k j then Some j else spin is_locked num_cons (Suc k) i)"

fun first_free :: "pool_conn list \<Rightarrow> nat \<Rightarrow> nat option" where
  "first_free [] j = None"
| "first_free (pc # pcs) j = (if \<not> pc_locked pc then Some j else first_free pcs (Suc j))"

definition lock_conn :: "nat \<Rightarrow> db_pool \<Rightarrow> db_pool" where
  "lock_conn j p = p\<lparr>dp_sync := (dp_sync p)[j := (dp_sync p ! j)\<lparr>pc_locked := True\<rparr>]\<rparr>"

definition Unlock :: "nat \<Rightarrow> db_pool \<Rightarrow> db_pool" where
  "Unlock j p = p\<lparr>dp_sync := (dp_sync p)[j := (dp_sync p ! j)\<lparr>pc_locked := False\<rparr>]\<rparr>"

text \<open>\<open>num_cons\<close> 0 would divide by zero.\<close>

definition GetFreeConnection ::
  "(nat \<Rightarrow> client) \<Rightarrow> (nat \<Rightarrow> nat \<Rightarrow> bool) \<Rightarrow> db_pool \<Rightarrow> (nat res \<times> db_pool) option" where
  "GetFreeConnection cls is_locked p =
     (case first_free (dp_sync p) 0 of
        Some j \<Rightarrow> Some (Inr j, lock_conn j p)
      | None \<Rightarrow>
          (case OpenDynamicSyncConnect cls p of
             (Inl e, p) \<Rightarrow> Some (Inl e, p)
           | (Inr _, p) \<Rightarrow>
               if dp_sync p = [] then Some (Inl Undefined, p)
               else case spin is_locked (length (dp_sync p)) 0 0 of
                      None \<Rightarrow> None
                    | Some j \<Rightarrow> Some (Inr j, lock_conn j p)))"

definition put_conn :: "nat \<Rightarrow> connection \<Rightarrow> db_pool \<Rightarrow> db_pool" where
  "put_conn j c p = p\<lparr>dp_sync := (dp_sync p)[j := (dp_sync p ! j)\<lparr>pc_conn := c\<rparr>]\<rparr>"

text \<open>Calls that take a connection, work on it and unlock it.\<close>

definition with_connection ::
  "(nat \<Rightarrow> client) \<Rightarrow> (nat \<Rightarrow> nat \<Rightarrow> bool) \<Rightarrow> (client \<Rightarrow> connection \<Rightarrow> ('a res \<times> connection) option) \<Rightarrow> db_pool
   \<Rightarrow> ('a res \<times> db_pool) option" where
  "with_connection cls is_locked f p =
     (case GetFreeConnection cls is_locked p of
        None \<Rightarrow> None
      | Some (Inl e, p) \<Rightarrow> Some (Inl e, p)
      | Some (Inr j, p) \<Rightarrow>
          (case f (cls (pc_id (dp_sync p ! j))) (pc_conn (dp_sync p ! j)) of
             None \<Rightarrow> None
           | Some (Inl e, c) \<Rightarrow> Some (Inl e, put_conn j c p)
           | Some (Inr x, c) \<Rightarrow> Some (Inr x, Unlock j (put_conn j c p))))"

definition DirectExecute_sql ::
  "(nat \<Rightarrow> client) \<Rightarrow> (nat \<Rightarrow> nat \<Rightarrow> bool) \<Rightarrow> string \<Rightarrow> db_pool \<Rightarrow> (bool res \<times> db_pool) option" where
  "DirectExecute_sql cls is_locked sql p =
     (if sql = [] then Some (Inr False, p) else with_connection cls is_locked (\<lambda>cl. Execute_sql cl sql) p)"

definition DirectExecute_stmt ::
  "(nat \<Rightarrow> client) \<Rightarrow> (nat \<Rightarrow> nat \<Rightarrow> bool) \<Rightarrow> statement option \<Rightarrow> db_pool \<Rightarrow> (bool res \<times> db_pool) option" where
  "DirectExecute_stmt cls is_locked stmt p = with_connection cls is_locked (\<lambda>cl. Execute_stmt cl stmt) p"

text \<open>\<open>Query\<close> of the pool; a result without rows is \<open>nullptr\<close>, and a null statement is dereferenced.\<close>

definition Pool_Query_sql ::
  "(nat \<Rightarrow> client) \<Rightarrow> (nat \<Rightarrow> nat \<Rightarrow> bool) \<Rightarrow> string \<Rightarrow> db_pool \<Rightarrow> (result_set option res \<times> db_pool) option" where
  "Pool_Query_sql cls is_locked sql p = with_connection cls is_locked (\<lambda>cl. Query_sql cl sql) p"

definition Pool_Query_stmt ::
  "(nat \<Rightarrow> client) \<Rightarrow> (nat \<Rightarrow> nat \<Rightarrow> bool) \<Rightarrow> statement option \<Rightarrow> db_pool
   \<Rightarrow> ((bool \<times> result_set) option res \<times> db_pool) option" where
  "Pool_Query_stmt cls is_locked stmt p = (case stmt of
       None \<Rightarrow> Some (Inl Undefined, p)
     | Some st \<Rightarrow>
         if \<not> fst (IsAllParamsSet st) then Some (Inr None, p)
         else case with_connection cls is_locked (\<lambda>cl. Query_stmt cl stmt) p of
                Some (Inr (Some (meta, rows, cols)), p) \<Rightarrow>
                  Some (Inr (if rows = 0 then None else Some (meta, rows, cols)), p)
              | r \<Rightarrow> r)"

fun direct_retries :: "client \<Rightarrow> transaction \<Rightarrow> nat \<Rightarrow> connection \<Rightarrow> (unit res \<times> connection) option" where
  "direct_retries cl t 0 c = Some (Inr (), c)"
| "direct_retries cl t (Suc n) c =
     and_then (ExecuteTransaction cl (tr_queries t) c)
       (\<lambda>errorCode c. if errorCode = 0 then Some (Inr (), c) else direct_retries cl t n c)"

definition direct_commit :: "transaction \<Rightarrow> client \<Rightarrow> connection \<Rightarrow> (transaction res \<times> connection) option" where
  "direct_commit t cl c =
     and_then (ExecuteTransaction cl (tr_queries t) c)
       (\<lambda>errorCode c.
          if errorCode = 0 then Some (Inr t, c)
          else and_then (if errorCode = sint ER_LOCK_DEADLOCK then direct_retries cl t 5 c else Some (Inr (), c))
                 (\<lambda>_ c. Some (Cleanup t, c)))"

definition DirectCommitTransaction ::
  "(nat \<Rightarrow> client) \<Rightarrow> (nat \<Rightarrow> nat \<Rightarrow> bool) \<Rightarrow> transaction \<Rightarrow> db_pool \<Rightarrow> (transaction res \<times> db_pool) option" where
  "DirectCommitTransaction cls is_locked t p = with_connection cls is_locked (direct_commit t) p"

subsection \<open>The queue of asynchronous operations\<close>

definition Enqueue :: "async_op \<Rightarrow> db_pool \<Rightarrow> db_pool" where
  "Enqueue op p = p\<lparr>dp_queue := PC_Push op (dp_queue p)\<rparr>"

definition Pool_Execute_sql :: "string \<Rightarrow> db_pool \<Rightarrow> db_pool" where
  "Pool_Execute_sql sql p = (if sql = [] then p else Enqueue (BasicStatementTask sql False) p)"

definition Pool_Execute_stmt :: "statement option \<Rightarrow> db_pool \<Rightarrow> db_pool" where
  "Pool_Execute_stmt stmt p = (case stmt of
       None \<Rightarrow> p
     | Some st \<Rightarrow> if \<not> fst (IsAllParamsSet st) then p else Enqueue (PreparedStatementTask stmt False) p)"

definition AsyncQuery_sql :: "string \<Rightarrow> db_pool \<Rightarrow> db_pool" where
  "AsyncQuery_sql sql p = Enqueue (BasicStatementTask sql True) p"

definition AsyncQuery_stmt :: "statement option \<Rightarrow> db_pool \<Rightarrow> db_pool" where
  "AsyncQuery_stmt stmt p = Enqueue (PreparedStatementTask stmt True) p"

definition Pool_CommitTransaction :: "transaction \<Rightarrow> db_pool \<Rightarrow> db_pool" where
  "Pool_CommitTransaction t p = Enqueue (TransactionTask t) p"

definition AsyncCommitTransaction :: "transaction \<Rightarrow> db_pool \<Rightarrow> db_pool" where
  "AsyncCommitTransaction t p = Enqueue (TransactionWithResultTask t) p"

definition ExecuteOrAppend_sql :: "transaction option \<Rightarrow> string \<Rightarrow> db_pool \<Rightarrow> transaction option \<times> db_pool" where
  "ExecuteOrAppend_sql tr sql p = (case tr of
       None \<Rightarrow> (None, Pool_Execute_sql sql p) | Some t \<Rightarrow> (Some (Append_sql sql t), p))"

definition ExecuteOrAppend_stmt :: "transaction option \<Rightarrow> statement option \<Rightarrow> db_pool \<Rightarrow> transaction option \<times> db_pool" where
  "ExecuteOrAppend_stmt tr stmt p = (case tr of
       None \<Rightarrow> (None, Pool_Execute_stmt stmt p) | Some t \<Rightarrow> (Some (Append_stmt stmt t), p))"

text \<open>\<open>KeepAlive\<close>: \<open>front()\<close> of an empty list is undefined.\<close>

definition KeepAlive :: "(nat \<Rightarrow> client) \<Rightarrow> db_pool \<Rightarrow> unit res \<times> db_pool" where
  "KeepAlive cls p = (case dp_sync p of
       [] \<Rightarrow> (Inl Undefined, p)
     | pc # pcs \<Rightarrow>
         let p = (if pc_locked pc then p
                  else p\<lparr>dp_sync := pc\<lparr>pc_conn := Ping (cls (pc_id pc)) (pc_conn pc)\<rparr> # pcs\<rparr>)
         in (Inr (), Enqueue PingOperation p))"

text \<open>
  \<open>ExecuteQuery\<close> of the operations, on the connection of the worker that took them.  The value is what is
  set in the promise: nothing without one, the result set of a query, the success of a transaction.
\<close>

datatype promised = NoPromise | QueryValue "result_set option" | PreparedValue "(bool \<times> result_set) option" | CommitValue bool

definition run_operation :: "client \<Rightarrow> async_op \<Rightarrow> connection \<Rightarrow> (promised res \<times> connection) option" where
  "run_operation cl op c = (case op of
       BasicStatementTask sql hasResult \<Rightarrow>
         if hasResult then and_then (Query_sql cl sql c) (\<lambda>r c. Some (Inr (QueryValue r), c))
         else and_then (Execute_sql cl sql c) (\<lambda>_ c. Some (Inr NoPromise, c))
     | PreparedStatementTask stmt hasResult \<Rightarrow>
         if hasResult then
           and_then (Query_stmt cl stmt c)
             (\<lambda>r c. Some (Inr (PreparedValue (case r of
                Some (meta, rows, cols) \<Rightarrow> if rows = 0 then None else r | None \<Rightarrow> None)), c))
         else and_then (Execute_stmt cl stmt c) (\<lambda>_ c. Some (Inr NoPromise, c))
     | TransactionTask t \<Rightarrow> and_then (TransactionTask_ExecuteQuery cl t c) (\<lambda>_ c. Some (Inr NoPromise, c))
     | TransactionWithResultTask t \<Rightarrow>
         and_then (TransactionWithResultTask_ExecuteQuery cl t c) (\<lambda>(b, _) c. Some (Inr (CommitValue b), c))
     | PingOperation \<Rightarrow> Some (Inr NoPromise, Ping cl c))"

subsection \<open>Waiting for a connection\<close>

text \<open>The index tried in round \<open>k\<close> of the endless loop.\<close>

definition round_index :: "nat \<Rightarrow> nat \<Rightarrow> nat" where
  "round_index n k = Suc k mod 256 mod n"

lemma spin_round:
  "spin is_locked n k (of_nat k) =
     (if \<not> is_locked k (round_index n k) then Some (round_index n k) else spin is_locked n (Suc k) (of_nat (Suc k)))"
proof -
  have "probe_index (of_nat k + 1) n = round_index n k"
    using unat_of_nat [where ?'a = 8, of "Suc k"] by (simp add: probe_index_def round_index_def add.commute)
  then show ?thesis by (subst spin.simps) (simp add: Let_def add.commute)
qed

lemma spin_until:
  "\<not> is_locked m (round_index n m) \<Longrightarrow> k \<le> m \<Longrightarrow>
   \<exists>k'. k \<le> k' \<and> k' \<le> m \<and> \<not> is_locked k' (round_index n k') \<and> spin is_locked n k (of_nat k) = Some (round_index n k')"
proof (induction "m - k" arbitrary: k)
  case 0
  then show ?case by (auto simp: spin_round [of is_locked n k])
next
  case (Suc d)
  show ?case
  proof (cases "is_locked k (round_index n k)")
    case True
    then have "k \<noteq> m" using Suc.prems(1) by auto
    then have "d = m - Suc k" "Suc k \<le> m" using Suc.hyps(2) Suc.prems(2) by linarith+
    from Suc.hyps(1) [OF this(1) Suc.prems(1) this(2)] True show ?thesis
      by (auto simp: spin_round [of is_locked n k] intro: Suc_leD)
  next
    case False
    then show ?thesis using Suc.prems(2) by (auto simp: spin_round [of is_locked n k])
  qed
qed

lemma round_index_hits:
  assumes "j < n" "n \<le> 256"
  shows "\<exists>m. k \<le> m \<and> m < k + 256 \<and> round_index n m = j"
proof -
  define m where "m = k + (j + 256 * Suc k - Suc k) mod 256"
  have "Suc m mod 256 = (Suc k + (j + 256 * Suc k - Suc k)) mod 256"
    unfolding m_def by (metis add_Suc mod_add_right_eq)
  also have "Suc k + (j + 256 * Suc k - Suc k) = j + 256 * Suc k" by simp
  also have "(j + 256 * Suc k) mod 256 = j" using assms unfolding mod_mult_self2 by simp
  finally have "round_index n m = j" using assms(1) by (simp add: round_index_def)
  moreover have "k \<le> m" "m < k + 256" by (simp_all add: m_def)
  ultimately show ?thesis by blast
qed

text \<open>
  C17: The endless loop of \<open>GetFreeConnection\<close> ends.  With at most 256 connections the 8-bit counter tries
  every connection once in any 256 rounds, so a connection that stays unlocked from some round on is
  found, or another one before it; what is returned was unlocked when it was tried.
\<close>
theorem free_connection_found:
  assumes "j < n" "n \<le> 256" "\<And>k. k0 \<le> k \<Longrightarrow> \<not> is_locked k j"
  shows "\<exists>j' k. spin is_locked n 0 0 = Some j' \<and> j' < n \<and> k < k0 + 256 \<and> \<not> is_locked k j'"
proof -
  obtain m where m: "k0 \<le> m" "m < k0 + 256" "round_index n m = j"
    using round_index_hits [OF assms(1,2)] by blast
  then have "\<not> is_locked m (round_index n m)" using assms(3) by simp
  then obtain k where k: "k \<le> m" "\<not> is_locked k (round_index n k)" "spin is_locked n 0 (of_nat 0) = Some (round_index n k)"
    using spin_until [where is_locked = is_locked and n = n and m = m and k = 0] by auto
  have "round_index n k < n" using assms(1) by (simp add: round_index_def)
  with k m(2) show ?thesis by (intro exI [of _ "round_index n k"] exI [of _ k]) auto
qed

theorem free_connection_found_witness:
  "\<exists>j' (k :: nat). spin (\<lambda>k j. k < 1000 \<or> j \<noteq> 31) 32 0 0 = Some j' \<and> j' < 32 \<and> k < 1000 + 256 \<and> \<not> (k < 1000 \<or> j' \<noteq> 31)"
  by (rule free_connection_found [where j = 31]) simp_all

subsection \<open>What no operation changes in a connection\<close>

lemma dynamic_perform [simp]: "cn_isDynamic (snd (perform cl c s)) = cn_isDynamic s"
  by (simp add: perform_def Let_def)

lemma dynamic_perform_eq: "perform cl c s = (f, s') \<Longrightarrow> cn_isDynamic s' = cn_isDynamic s"
  using dynamic_perform [of cl c s] by simp

lemma dynamic_updates [simp]:
  "cn_isDynamic (UpdateLastUseTime cl s) = cn_isDynamic s" "cn_isDynamic (put_stmt i m s) = cn_isDynamic s"
  by (simp_all add: UpdateLastUseTime_def put_stmt_def)

lemma dynamic_real_connect [simp]: "cn_isDynamic (snd (real_connect cl port sock s)) = cn_isDynamic s"
  by (simp add: real_connect_def Let_def case_prod_beta)

lemma dynamic_Open [simp]: "cn_isDynamic (snd (MySQLConnection_Open cl s)) = cn_isDynamic s"
  by (simp add: MySQLConnection_Open_def Let_def case_prod_beta split: option.splits)

lemma dynamic_drop_handle [simp]: "cn_isDynamic (drop_handle cl e s) = cn_isDynamic s"
  by (simp add: drop_handle_def)

lemma dynamic_HandleMySQLError: "HandleMySQLError cl e a s = (r, s') \<Longrightarrow> cn_isDynamic s' = cn_isDynamic s"
proof (induction "unat (a - 1)" arbitrary: e a s rule: less_induct)
  case less
  show ?case
  proof (cases "retried e")
    case False
    with less.prems show ?thesis by (simp add: HandleMySQLError_other)
  next
    case True
    obtain r1 s1 where o: "MySQLConnection_Open cl (drop_handle cl e s) = (r1, s1)" by fastforce
    have d: "cn_isDynamic s1 = cn_isDynamic s" using dynamic_Open [of cl "drop_handle cl e s"] o by simp
    show ?thesis
    proof (cases "\<exists>l. r1 = Inr l \<and> l \<noteq> 0 \<and> a \<noteq> 1")
      case True
      then obtain l where l: "r1 = Inr l" "l \<noteq> 0" "a \<noteq> 1" by blast
      then have "HandleMySQLError cl l (a - 1) s1 = (r, s')"
        using less.prems o by (simp add: HandleMySQLError_retried [OF \<open>retried e\<close>])
      moreover have "unat (a - 1 - 1) < unat (a - 1)" using attempts_decrease [OF l(3)] by simp
      ultimately show ?thesis using less.hyps d by metis
    next
      case False
      then show ?thesis
        using less.prems o d by (auto simp: HandleMySQLError_retried [OF \<open>retried e\<close>] split: sum.splits if_splits)
    qed
  qed
qed

lemma dynamic_snd_HandleMySQLError [simp]: "cn_isDynamic (snd (HandleMySQLError cl e a s)) = cn_isDynamic s"
  by (metis dynamic_HandleMySQLError prod.collapse)

lemma dynamic_Execute_sql:
  assumes "Execute_sql cl sql s = Some y"
  shows "cn_isDynamic (snd y) = cn_isDynamic s"
proof (rule Execute_sql.raw_induct [where P = "\<lambda>cl sql s y. cn_isDynamic (snd y) = cn_isDynamic s", OF _ assms], goal_cases)
  case (1 f cl sql s y)
  from 1(2) show ?case
    by (auto simp: Let_def dest!: dynamic_perform_eq dynamic_HandleMySQLError 1(1)
        split: prod.splits if_splits sum.splits)
qed

lemma dynamic_Execute_stmt:
  assumes "Execute_stmt cl stmt s = Some y"
  shows "cn_isDynamic (snd y) = cn_isDynamic s"
proof (rule Execute_stmt.raw_induct [where P = "\<lambda>cl stmt s y. cn_isDynamic (snd y) = cn_isDynamic s", OF _ assms], goal_cases)
  case (1 f cl stmt s y)
  from 1(2) show ?case
    by (auto simp: Let_def dest!: dynamic_perform_eq dynamic_HandleMySQLError 1(1)
        split: prod.splits if_splits sum.splits option.splits)
qed

lemma and_then_keeps:
  assumes "and_then m f = Some y" "\<And>r s. m = Some (r, s) \<Longrightarrow> Q s" "\<And>x s. Q s \<Longrightarrow> f x s = Some y \<Longrightarrow> Q (snd y)"
  shows "Q (snd y)"
  using assms by (auto simp: and_then_def split: option.splits prod.splits sum.splits)

lemma dynamic_control:
  "BeginTransaction cl s = Some y1 \<Longrightarrow> cn_isDynamic (snd y1) = cn_isDynamic s"
  "RollbackTransaction cl s = Some y2 \<Longrightarrow> cn_isDynamic (snd y2) = cn_isDynamic s"
  "CommitTransaction cl s = Some y3 \<Longrightarrow> cn_isDynamic (snd y3) = cn_isDynamic s"
  unfolding BeginTransaction_def RollbackTransaction_def CommitTransaction_def
  by (erule and_then_keeps; use dynamic_Execute_sql in fastforce)+

lemma dynamic_execute_element: "execute_element cl e s = Some y \<Longrightarrow> cn_isDynamic (snd y) = cn_isDynamic s"
  by (auto simp: execute_element_def dest: dynamic_Execute_sql dynamic_Execute_stmt split: sql_element.splits if_splits)

lemma dynamic_execute_elements: "execute_elements cl es s = Some y \<Longrightarrow> cn_isDynamic (snd y) = cn_isDynamic s"
proof (induction es arbitrary: s y)
  case Nil
  then show ?case
    by (auto elim!: and_then_keeps dest: dynamic_control(3))
next
  case (Cons e es)
  from Cons.prems show ?case
    unfolding execute_elements.simps
  proof (rule and_then_keeps)
    fix r s1
    assume "execute_element cl e s = Some (r, s1)"
    then show "cn_isDynamic s1 = cn_isDynamic s" using dynamic_execute_element by fastforce
  next
    fix ok s1
    assume d: "cn_isDynamic s1 = cn_isDynamic s"
      and y: "(if \<not> ok then let errorCode = GetLastError cl s1
          in and_then (RollbackTransaction cl s1) (\<lambda>_ s. Some (Inr errorCode, s)) else execute_elements cl es s1) = Some y"
    show "cn_isDynamic (snd y) = cn_isDynamic s"
    proof (cases ok)
      case True
      then show ?thesis using y d Cons.IH by simp
    next
      case False
      then have "and_then (RollbackTransaction cl s1) (\<lambda>_ s. Some (Inr (GetLastError cl s1), s)) = Some y"
        using y by (simp add: Let_def)
      then show ?thesis by (rule and_then_keeps) (use d dynamic_control(2) in fastforce)+
    qed
  qed
qed

lemma dynamic_ExecuteTransaction: "ExecuteTransaction cl es s = Some y \<Longrightarrow> cn_isDynamic (snd y) = cn_isDynamic s"
  unfolding ExecuteTransaction_def
  by (auto split: if_splits elim!: and_then_keeps dest: dynamic_control(1) dynamic_execute_elements)

lemma dynamic_direct_retries: "direct_retries cl t n s = Some y \<Longrightarrow> cn_isDynamic (snd y) = cn_isDynamic s"
proof (induction n arbitrary: s y)
  case (Suc n)
  from Suc.prems show ?case
    unfolding direct_retries.simps
  proof (rule and_then_keeps)
    fix r s1
    assume "ExecuteTransaction cl (tr_queries t) s = Some (r, s1)"
    then show "cn_isDynamic s1 = cn_isDynamic s" using dynamic_ExecuteTransaction [of _ _ _ "(r, s1)"] by simp
  next
    fix err :: int and s1
    assume d: "cn_isDynamic s1 = cn_isDynamic s"
      and y: "(if err = 0 then Some (Inr (), s1) else direct_retries cl t n s1) = Some y"
    show "cn_isDynamic (snd y) = cn_isDynamic s"
      using y d Suc.IH [of s1 y] by (cases "err = 0") auto
  qed
qed simp

lemma dynamic_direct_commit:
  assumes "direct_commit t cl s = Some y"
  shows "cn_isDynamic (snd y) = cn_isDynamic s"
  using assms unfolding direct_commit_def
proof (rule and_then_keeps)
  fix r s1
  assume "ExecuteTransaction cl (tr_queries t) s = Some (r, s1)"
  then show "cn_isDynamic s1 = cn_isDynamic s" using dynamic_ExecuteTransaction [of _ _ _ "(r, s1)"] by simp
next
  fix err :: int and s1
  let ?m = "if err = sint ER_LOCK_DEADLOCK then direct_retries cl t 5 s1 else Some (Inr (), s1)"
  assume d: "cn_isDynamic s1 = cn_isDynamic s"
    and y: "(if err = 0 then Some (Inr t, s1) else and_then ?m (\<lambda>_ c. Some (Cleanup t, c))) = Some y"
  show "cn_isDynamic (snd y) = cn_isDynamic s"
  proof (cases "err = 0")
    case False
    then have "and_then ?m (\<lambda>_ c. Some (Cleanup t, c)) = Some y" using y by simp
    moreover have "?m = Some (r, s2) \<Longrightarrow> cn_isDynamic s2 = cn_isDynamic s" for r s2
      using d dynamic_direct_retries [of cl t 5 s1 "(r, s2)"] by (auto split: if_splits)
    ultimately show ?thesis by (rule and_then_keeps) auto
  qed (use y d in auto)
qed

subsection \<open>The connections of the pool\<close>

definition dyn_flags :: "pool_conn list \<Rightarrow> bool list" where
  "dyn_flags cs = map (\<lambda>pc. cn_isDynamic (pc_conn pc)) cs"

lemma length_dyn_flags [simp]: "length (dyn_flags cs) = length cs"
  by (simp add: dyn_flags_def)

lemma dyn_flags_simps [simp]:
  "dyn_flags (share_info i cs) = dyn_flags cs" "dyn_flags [] = []" "dyn_flags (as @ bs) = dyn_flags as @ dyn_flags bs"
  "dyn_flags (pc # cs) = cn_isDynamic (pc_conn pc) # dyn_flags cs"
  by (simp_all add: dyn_flags_def share_info_def)

lemma dyn_flags_update:
  "j < length cs \<Longrightarrow> cn_isDynamic (pc_conn pc) = cn_isDynamic (pc_conn (cs ! j)) \<Longrightarrow> dyn_flags (cs[j := pc]) = dyn_flags cs"
  by (rule nth_equalityI) (auto simp: dyn_flags_def nth_list_update)

lemma dyn_flags_update_last:
  "cs \<noteq> [] \<Longrightarrow> cn_isDynamic (pc_conn (f (last cs))) = cn_isDynamic (pc_conn (last cs)) \<Longrightarrow>
   dyn_flags (update_last f cs) = dyn_flags cs"
  by (cases cs rule: rev_cases) (simp_all add: update_last_def)

lemma dynamic_new [simp]: "cn_isDynamic (MySQLConnection cl info async dyn) = dyn"
  by (simp add: MySQLConnection_def)

lemma OpenConnection_flags:
  assumes "OpenConnection cls async dyn p = (r, p')"
  shows "dyn_flags (dp_async p') = dyn_flags (dp_async p) @ (if async \<and> r = Inr 0 then [dyn] else [])"
    "dyn_flags (dp_sync p') = dyn_flags (dp_sync p) @ (if \<not> async \<and> r = Inr 0 then [dyn] else [])"
proof -
  have "dyn_flags (dp_async p') = dyn_flags (dp_async p) @ (if async \<and> r = Inr 0 then [dyn] else [])
      \<and> dyn_flags (dp_sync p') = dyn_flags (dp_sync p) @ (if \<not> async \<and> r = Inr 0 then [dyn] else [])"
    using assms
    by (auto simp: OpenConnection_def Let_def case_prod_beta split: option.splits sum.splits if_splits)
  then show "dyn_flags (dp_async p') = dyn_flags (dp_async p) @ (if async \<and> r = Inr 0 then [dyn] else [])"
    "dyn_flags (dp_sync p') = dyn_flags (dp_sync p) @ (if \<not> async \<and> r = Inr 0 then [dyn] else [])" by blast+
qed

lemma dynamic_PrepareStatement: "cn_isDynamic (snd (PrepareStatement cl i sql fl c)) = cn_isDynamic c"
  by (simp add: PrepareStatement_def set_stmt_def Let_def case_prod_beta)

lemma dynamic_prepare_all: "cn_isDynamic (snd (prepare_all cl stmts c)) = cn_isDynamic c"
proof (induction cl stmts c rule: prepare_all.induct)
  case (2 cl index sql flags stmts c)
  then show ?case
    using dynamic_PrepareStatement [of cl index sql flags c] by (auto split: prod.splits sum.splits)
qed simp

lemma dynamic_InitPrepareStatement: "cn_isDynamic (snd (InitPrepareStatement cl p c)) = cn_isDynamic c"
  by (simp add: InitPrepareStatement_def dynamic_prepare_all)

lemma init_last_flags:
  assumes "init_last cls async p = (r, p')" "dp_async p \<noteq> []" "dp_sync p \<noteq> []"
  shows "dyn_flags (dp_async p') = dyn_flags (dp_async p)" "dyn_flags (dp_sync p') = dyn_flags (dp_sync p)"
  using assms
  by (auto simp: init_last_def Let_def case_prod_beta dyn_flags_update_last dynamic_InitPrepareStatement split: sum.splits)

lemma prepare_connections_flags: "dyn_flags (snd (prepare_connections cls p cs)) = dyn_flags cs"
proof (induction cls p cs rule: prepare_connections.induct)
  case (2 cls p pc pcs)
  have "cn_isDynamic (snd (InitPrepareStatement (cls (pc_id pc)) p (pc_conn pc))) = cn_isDynamic (pc_conn pc)"
    by (rule dynamic_InitPrepareStatement)
  with 2 show ?case by (auto split: prod.splits sum.splits)
qed simp

text \<open>The connections that \<open>Open\<close> made stay at the front of their lists.\<close>

definition flags_ok :: "bool list \<Rightarrow> bool" where
  "flags_ok fs \<longleftrightarrow> fs \<noteq> [] \<and> \<not> hd fs \<and> length fs \<le> 32"

definition pool_inv :: "db_pool \<Rightarrow> bool" where
  "pool_inv p \<longleftrightarrow> flags_ok (dyn_flags (dp_async p)) \<and> flags_ok (dyn_flags (dp_sync p))"

lemma flags_ok_snoc: "flags_ok fs \<Longrightarrow> length fs < 32 \<Longrightarrow> flags_ok (fs @ [d])"
  by (auto simp: flags_ok_def)

lemma pool_inv_nonempty: "pool_inv p \<Longrightarrow> dp_async p \<noteq> [] \<and> dp_sync p \<noteq> []"
  by (auto simp: pool_inv_def flags_ok_def)

lemma OpenDynamicAsyncConnect_inv:
  assumes "pool_inv p" "OpenDynamicAsyncConnect cls p = (r, p')"
  shows "pool_inv p'"
proof (cases "length (dp_async p) \<ge> MAX_ASYNC_CONNECTIONS")
  case False
  obtain r1 p1 where o: "OpenConnection cls True True p = (r1, p1)" by fastforce
  have inv: "pool_inv p1"
    using OpenConnection_flags [OF o] assms(1) False flags_ok_snoc by (auto simp: pool_inv_def)
  then show ?thesis
    using assms(2) o False pool_inv_nonempty [OF inv] init_last_flags [of cls True p1 r p']
    by (auto simp: OpenDynamicAsyncConnect_def pool_inv_def split: sum.splits if_splits)
qed (use assms in \<open>simp add: OpenDynamicAsyncConnect_def\<close>)

lemma OpenDynamicSyncConnect_inv:
  assumes "pool_inv p" "OpenDynamicSyncConnect cls p = (r, p')"
  shows "pool_inv p'"
proof (cases "length (dp_sync p) \<ge> MAX_SYNC_CONNECTIONS")
  case False
  obtain r1 p1 where o: "OpenConnection cls False True p = (r1, p1)" by fastforce
  have inv: "pool_inv p1"
    using OpenConnection_flags [OF o] assms(1) False flags_ok_snoc by (auto simp: pool_inv_def)
  then show ?thesis
    using assms(2) o False pool_inv_nonempty [OF inv] init_last_flags [of cls False p1 r p']
    by (auto simp: OpenDynamicSyncConnect_def pool_inv_def split: sum.splits if_splits)
qed (use assms in \<open>simp add: OpenDynamicSyncConnect_def\<close>)

lemma filter_flags_ok:
  assumes "flags_ok (dyn_flags cs)" "\<And>pc. \<not> cn_isDynamic (pc_conn pc) \<Longrightarrow> keep pc"
  shows "flags_ok (dyn_flags (filter keep cs))"
proof (cases cs)
  case Nil
  then show ?thesis using assms(1) by (simp add: flags_ok_def)
next
  case (Cons pc cs')
  then show ?thesis
    using assms by (auto simp: flags_ok_def intro: le_trans [OF length_filter_le])
qed

lemma CleanupConnections_inv: "pool_inv p \<Longrightarrow> pool_inv (CleanupConnections cls p)"
  by (auto simp: CleanupConnections_def pool_inv_def CanRemoveConnection_def Let_def intro!: filter_flags_ok)

lemma open_async_loop_inv: "open_async_loop cls i q n p = (r, p') \<Longrightarrow> pool_inv p \<Longrightarrow> pool_inv p'"
proof (induction cls i q n p rule: open_async_loop.induct)
  case (1 cls i q n p)
  show ?case
  proof (cases "i < q \<and> 0 < n")
    case True
    obtain r1 p1 where o: "OpenDynamicAsyncConnect cls p = (r1, p1)" by fastforce
    then have "pool_inv p1" using OpenDynamicAsyncConnect_inv 1(3) by blast
    then show ?thesis
      using 1(1) [OF True o [symmetric]] 1(2) True o
      by (cases r1) (auto simp: open_async_loop.simps [of cls i q n p])
  next
    case False
    then show ?thesis using 1(2,3) by (auto simp: open_async_loop.simps [of cls i q n p])
  qed
qed

lemma CheckAsyncQueue_inv: "CheckAsyncQueue cls p = (r, p') \<Longrightarrow> pool_inv p \<Longrightarrow> pool_inv p'"
  by (auto simp: CheckAsyncQueue_def Let_def split: if_splits dest: open_async_loop_inv)

lemma dyn_flags_put:
  "cn_isDynamic (pc_conn pc) = cn_isDynamic (pc_conn (cs ! j)) \<Longrightarrow> dyn_flags (cs[j := pc]) = dyn_flags cs"
  by (cases "j < length cs") (simp_all add: dyn_flags_update list_update_beyond)

lemma pool_inv_locks [simp]:
  "pool_inv (lock_conn j p) = pool_inv p" "pool_inv (Unlock j p) = pool_inv p"
  by (simp_all add: pool_inv_def lock_conn_def Unlock_def dyn_flags_put)

lemma pool_inv_queue [simp]: "pool_inv (p\<lparr>dp_queue := q\<rparr>) = pool_inv p" "pool_inv (Enqueue op p) = pool_inv p"
  by (simp_all add: pool_inv_def Enqueue_def)

lemma pool_inv_put_conn:
  "cn_isDynamic c = cn_isDynamic (pc_conn (dp_sync p ! j)) \<Longrightarrow> pool_inv (put_conn j c p) = pool_inv p"
  by (simp add: pool_inv_def put_conn_def dyn_flags_put)

lemma GetFreeConnection_inv:
  assumes "pool_inv p" "GetFreeConnection cls lk p = Some (r, p')"
  shows "pool_inv p'"
proof (cases "first_free (dp_sync p) 0")
  case None
  obtain r1 p1 where o: "OpenDynamicSyncConnect cls p = (r1, p1)" by fastforce
  then have "pool_inv p1" using OpenDynamicSyncConnect_inv assms(1) by blast
  then show ?thesis
    using assms(2) None o by (auto simp: GetFreeConnection_def split: sum.splits if_splits option.splits)
next
  case (Some j)
  then show ?thesis using assms by (auto simp: GetFreeConnection_def)
qed

lemma with_connection_inv:
  assumes "pool_inv p" "with_connection cls lk f p = Some (r, p')"
    "\<And>cl c y. f cl c = Some y \<Longrightarrow> cn_isDynamic (snd y) = cn_isDynamic c"
  shows "pool_inv p'"
proof -
  obtain r1 p1 where g: "GetFreeConnection cls lk p = Some (r1, p1)"
    using assms(2) by (auto simp: with_connection_def split: option.splits)
  have inv: "pool_inv p1" by (rule GetFreeConnection_inv [OF assms(1) g])
  show ?thesis
  proof (cases r1)
    case (Inl e)
    then show ?thesis using assms(2) g inv by (simp add: with_connection_def)
  next
    case (Inr j)
    then show ?thesis
      using assms(2) g inv assms(3)
      by (auto simp: with_connection_def pool_inv_put_conn split: option.splits prod.splits sum.splits)
  qed
qed

lemma validate_connections_lists:
  "validate_connections cs p = (Inr True, p') \<Longrightarrow> dp_async p' = dp_async p \<and> dp_sync p' = dp_sync p"
proof (induction cs arbitrary: p)
  case (Cons pc cs)
  obtain r1 p1 where v: "IsValidPrepareStatements pc p = (r1, p1)" by fastforce
  have "r1 = Inr True" using Cons.prems v by (auto split: sum.splits bool.splits)
  then show ?case
    using Cons v by (auto simp: IsValidPrepareStatements_def Let_def split: if_splits sum.splits)
qed simp

lemma Pool_PrepareStatements_inv:
  assumes "pool_inv p" "Pool_PrepareStatements cls p = (Inr True, p')"
  shows "pool_inv p'"
proof -
  obtain r1 cs where a: "prepare_connections cls p (dp_async p) = (r1, cs)" by fastforce
  obtain r2 cs' where b: "prepare_connections cls p (dp_sync p) = (r2, cs')" by fastforce
  have "dyn_flags cs = dyn_flags (dp_async p)" "dyn_flags cs' = dyn_flags (dp_sync p)"
    using prepare_connections_flags [of cls p "dp_async p"] prepare_connections_flags [of cls p "dp_sync p"] a b by simp_all
  moreover have "dp_async p' = cs \<and> dp_sync p' = cs'"
    using assms(2) a b by (auto simp: Pool_PrepareStatements_def dest: validate_connections_lists split: sum.splits)
  ultimately show ?thesis using assms(1) by (simp add: pool_inv_def)
qed

lemma KeepAlive_inv: "pool_inv p \<Longrightarrow> KeepAlive cls p = (r, p') \<Longrightarrow> pool_inv p'"
  by (auto simp: KeepAlive_def pool_inv_def Enqueue_def Ping_def flags_ok_def Let_def split: list.splits if_splits)

text \<open>The life of an open pool: what its clients, its scheduler and its queue checker do with it.\<close>

inductive pool_step :: "(nat \<Rightarrow> client) \<Rightarrow> db_pool \<Rightarrow> db_pool \<Rightarrow> bool" for cls :: "nat \<Rightarrow> client" where
  dynamic_async: "OpenDynamicAsyncConnect cls p = (Inr (), p') \<Longrightarrow> pool_step cls p p'"
| dynamic_sync: "OpenDynamicSyncConnect cls p = (Inr (), p') \<Longrightarrow> pool_step cls p p'"
| cleanup: "pool_step cls p (CleanupConnections cls p)"
| check_queue: "CheckAsyncQueue cls p = (Inr (), p') \<Longrightarrow> pool_step cls p p'"
| keep_alive: "KeepAlive cls p = (Inr (), p') \<Longrightarrow> pool_step cls p p'"
| prepare: "Pool_PrepareStatements cls p = (Inr True, p') \<Longrightarrow> pool_step cls p p'"
| enqueue: "pool_step cls p (Enqueue op p)"
| dequeue: "PC_Pop (dp_queue p) = Some (op, q) \<Longrightarrow> pool_step cls p (p\<lparr>dp_queue := q\<rparr>)"
| take_connection: "GetFreeConnection cls lk p = Some (Inr j, p') \<Longrightarrow> pool_step cls p p'"
| release: "pool_step cls p (Unlock j p)"
| direct_sql: "DirectExecute_sql cls lk sql p = Some (Inr b, p') \<Longrightarrow> pool_step cls p p'"
| direct_stmt: "DirectExecute_stmt cls lk stmt p = Some (Inr b, p') \<Longrightarrow> pool_step cls p p'"
| direct_transaction: "DirectCommitTransaction cls lk t p = Some (Inr t', p') \<Longrightarrow> pool_step cls p p'"

inductive open_pool :: "(nat \<Rightarrow> client) \<Rightarrow> db_pool \<Rightarrow> bool" for cls :: "nat \<Rightarrow> client" where
  opened: "dp_async p0 = [] \<Longrightarrow> dp_sync p0 = [] \<Longrightarrow> DatabaseWorkerPool_Open cls cfg p0 = (Inr 0, p) \<Longrightarrow> open_pool cls p"
| stepped: "open_pool cls p \<Longrightarrow> pool_step cls p p' \<Longrightarrow> open_pool cls p'"

lemma pool_step_inv: "pool_step cls p p' \<Longrightarrow> pool_inv p \<Longrightarrow> pool_inv p'"
proof (induction rule: pool_step.induct)
  case (direct_sql lk sql p b p')
  then show ?case
    using with_connection_inv [of p cls lk "\<lambda>cl. Execute_sql cl sql"] dynamic_Execute_sql
    by (auto simp: DirectExecute_sql_def split: if_splits)
next
  case (direct_stmt lk stmt p b p')
  then show ?case
    using with_connection_inv [of p cls lk "\<lambda>cl. Execute_stmt cl stmt"] dynamic_Execute_stmt
    by (auto simp: DirectExecute_stmt_def)
next
  case (direct_transaction lk t p t' p')
  then show ?case
    using with_connection_inv [of p cls lk "direct_commit t"] dynamic_direct_commit
    by (auto simp: DirectCommitTransaction_def)
qed (auto dest: OpenDynamicAsyncConnect_inv OpenDynamicSyncConnect_inv CheckAsyncQueue_inv KeepAlive_inv
    Pool_PrepareStatements_inv GetFreeConnection_inv intro: CleanupConnections_inv)

lemma Open_inv:
  assumes "dp_async p0 = []" "dp_sync p0 = []" "DatabaseWorkerPool_Open cls cfg p0 = (Inr 0, p)"
  shows "pool_inv p"
proof -
  obtain r1 p1 where o1: "OpenConnection cls True False p0 = (r1, p1)" by fastforce
  obtain r2 p2 where o2: "OpenConnection cls False False p1 = (r2, p2)" by fastforce
  have r: "r1 = Inr 0" "r2 = Inr 0" and "dp_async p = dp_async p2" "dp_sync p = dp_sync p2"
    using assms(3) o1 o2
    by (auto simp: DatabaseWorkerPool_Open_def AddTasks_def Let_def split: if_splits sum.splits prod.splits)
  then show ?thesis
    using OpenConnection_flags [OF o1] OpenConnection_flags [OF o2] assms(1,2)
    by (simp add: pool_inv_def flags_ok_def)
qed

lemma open_pool_inv: "open_pool cls p \<Longrightarrow> pool_inv p"
  by (induction rule: open_pool.induct) (auto dest: Open_inv pool_step_inv)

text \<open>
  C16: An open pool always has between one and 32 connections of each kind, the first of each being the
  one that \<open>Open\<close> made, whatever sequence of dynamic connections, clean-ups, queue checks, pings and
  statements it goes through.  So \<open>front()\<close> in \<open>KeepAlive\<close> and the remainder by the number
  of connections in \<open>GetFreeConnection\<close> are defined, and every index that is tried is in range.
\<close>
theorem open_pool_connections:
  assumes "open_pool cls p"
  shows "length (dp_sync p) \<in> {1..32} \<and> length (dp_async p) \<in> {1..32}
    \<and> \<not> cn_isDynamic (pc_conn (hd (dp_sync p))) \<and> \<not> cn_isDynamic (pc_conn (hd (dp_async p)))
    \<and> fst (KeepAlive cls p) = Inr ()
    \<and> probe_index i (length (dp_sync p)) < length (dp_sync p)"
proof -
  obtain a as b bs where l: "dp_async p = a # as" "dp_sync p = b # bs"
    using pool_inv_nonempty [OF open_pool_inv [OF assms]] by (meson neq_Nil_conv)
  then show ?thesis
    using open_pool_inv [OF assms]
    by (simp add: pool_inv_def flags_ok_def KeepAlive_def Let_def probe_index_def)
qed

definition demo_clients :: "nat \<Rightarrow> client" where
  "demo_clients i = sample_client (\<lambda>h c. False) 0"

definition demo_pool :: db_pool where
  "demo_pool = (DatabaseWorkerPool 0)\<lparr>dp_info := Some (cn_info demo_connection)\<rparr>"

definition demo_config :: config_mgr where
  "demo_config = \<lparr>config_filename = '''', configOptions = [], usingDistConfig = False\<rparr>"

lemma demo_pool_opens: "fst (DatabaseWorkerPool_Open demo_clients demo_config demo_pool) = Inr 0"
  by (simp add: DatabaseWorkerPool_Open_def OpenConnection_def demo_pool_def DatabaseWorkerPool_def demo_connection_eq
      demo_clients_def sample_client_def MySQLConnection_def UpdateLastUseTime_def MySQLConnection_Open_def perform_def
      demo_port real_connect_def AddTasks_def GetOption_int_def GetValueDefault_int_def demo_config_def Let_def)

theorem open_pool_connections_witness:
  "let p = CleanupConnections demo_clients (snd (DatabaseWorkerPool_Open demo_clients demo_config demo_pool))
   in length (dp_sync p) \<in> {1..32} \<and> fst (KeepAlive demo_clients p) = Inr ()"
proof -
  let ?p = "snd (DatabaseWorkerPool_Open demo_clients demo_config demo_pool)"
  have "dp_async demo_pool = []" "dp_sync demo_pool = []" by (simp_all add: demo_pool_def DatabaseWorkerPool_def)
  moreover have "DatabaseWorkerPool_Open demo_clients demo_config demo_pool = (Inr 0, ?p)"
    using demo_pool_opens by (simp add: prod_eq_iff)
  ultimately have "open_pool demo_clients ?p" by (rule opened)
  then have "open_pool demo_clients (CleanupConnections demo_clients ?p)"
    by (rule stepped) (rule cleanup)
  from open_pool_connections [OF this] show ?thesis by (simp add: Let_def)
qed

text \<open>
  A dynamic connection that is in use is removed when its last use lies a second back: \<open>CleanupConnections\<close>
  does not look at its lock, and a statement that runs for longer refreshes the time only at its end.
\<close>

lemma cleanup_removes_connection_in_use:
  assumes "pc \<in> set (dp_sync p)" "pc_locked pc" "cn_isDynamic (pc_conn pc)"
    "cl_now (cls (pc_id pc)) (cn_events (pc_conn pc)) - cn_lastUseTime (pc_conn pc) \<ge> 1000"
  shows "pc \<notin> set (dp_sync (CleanupConnections cls p))"
  using assms by (simp add: CleanupConnections_def CanRemoveConnection_def DYNAMIC_CONNECTION_TIMEOUT_def Let_def)

subsection \<open>From the texts of the statements to bound parameters\<close>

definition prepared_on :: "ConnectionFlags \<Rightarrow> ConnectionFlags \<Rightarrow> bool" where
  "prepared_on connection_flags flags \<longleftrightarrow> flag_bits connection_flags AND flag_bits flags \<noteq> 0"

definition stmt_entry :: "client \<Rightarrow> ConnectionFlags \<Rightarrow> string \<Rightarrow> ConnectionFlags \<Rightarrow> mysql_stmt option" where
  "stmt_entry cl cflags sql flags =
     (if prepared_on cflags flags then Some (MySQLPreparedStatement (cl_param_count cl sql) sql) else None)"

lemma perform_cn_flags [simp]: "cn_flags (snd (perform cl c s)) = cn_flags s"
  by (simp add: perform_def Let_def)

lemma PrepareStatement_result:
  assumes "PrepareStatement cl i sql fl c = (Inr (), c')"
  shows "cn_flags c' = cn_flags c" "length (cn_stmtList c') = length (cn_stmtList c)"
    "cn_prepareError c \<Longrightarrow> cn_prepareError c'" "k \<noteq> unat i \<Longrightarrow> cn_stmtList c' ! k = cn_stmtList c ! k"
    "\<not> cn_prepareError c' \<Longrightarrow> unat i < length (cn_stmtList c) \<and> cn_stmtList c' ! unat i = stmt_entry cl (cn_flags c) sql fl"
  using assms
  by (auto simp: PrepareStatement_def set_stmt_def stmt_entry_def prepared_on_def Let_def case_prod_beta split: if_splits)

lemma prepare_all_result:
  assumes "prepare_all cl stmts c = (Inr (), c')" "distinct (map fst stmts)"
  shows "cn_flags c' = cn_flags c \<and> length (cn_stmtList c') = length (cn_stmtList c)
    \<and> (cn_prepareError c \<longrightarrow> cn_prepareError c')
    \<and> (\<forall>k. k \<notin> unat ` fst ` set stmts \<longrightarrow> cn_stmtList c' ! k = cn_stmtList c ! k)
    \<and> (\<not> cn_prepareError c' \<longrightarrow> (\<forall>i sql fl. (i, sql, fl) \<in> set stmts \<longrightarrow>
         unat i < length (cn_stmtList c) \<and> cn_stmtList c' ! unat i = stmt_entry cl (cn_flags c) sql fl))"
  using assms
proof (induction cl stmts c rule: prepare_all.induct)
  case (2 cl i sql fl stmts c)
  obtain r c1 where p: "PrepareStatement cl i sql fl c = (r, c1)" by fastforce
  then have r: "r = Inr ()" using "2.prems"(1) by (cases r) auto
  then have rest: "prepare_all cl stmts c1 = (Inr (), c')" using "2.prems"(1) p by simp
  have d: "distinct (map fst stmts)" and i: "unat i \<notin> unat ` fst ` set stmts"
    using "2.prems"(2) by (auto simp: inj_image_mem_iff [OF inj_unsigned])
  note one = PrepareStatement_result [OF p [unfolded r]]
  note IH = "2.IH" [OF p [symmetric] r rest d]
  show ?case
  proof (intro conjI allI impI)
    show "cn_flags c' = cn_flags c" "length (cn_stmtList c') = length (cn_stmtList c)"
      "cn_prepareError c \<Longrightarrow> cn_prepareError c'" using IH one by auto
    show "cn_stmtList c' ! k = cn_stmtList c ! k" if "k \<notin> unat ` fst ` set ((i, sql, fl) # stmts)" for k
      using that IH one(4) by auto
    fix i' sql' fl'
    assume ok: "\<not> cn_prepareError c'" and mem: "(i', sql', fl') \<in> set ((i, sql, fl) # stmts)"
    then have "\<not> cn_prepareError c1" using IH by blast
    then show "unat i' < length (cn_stmtList c)" "cn_stmtList c' ! unat i' = stmt_entry cl (cn_flags c) sql' fl'"
      using IH ok mem one(1,2,5) i by auto
  qed
qed simp

text \<open>Sizes that are 0 or the number of parameters \<open>cnt k\<close> of the statement \<open>k\<close>, and the sizes one connection records.\<close>

definition sizes_ok :: "(nat \<Rightarrow> nat) \<Rightarrow> u8 list \<Rightarrow> bool" where
  "sizes_ok cnt sizes \<longleftrightarrow> (\<forall>k < length sizes. sizes ! k = 0 \<or> unat (sizes ! k) = cnt k)"

definition sizes_grow :: "(nat \<Rightarrow> nat) \<Rightarrow> u8 list \<Rightarrow> u8 list \<Rightarrow> bool" where
  "sizes_grow cnt sizes sizes' \<longleftrightarrow> length sizes \<le> length sizes' \<and>
     (\<forall>k < length sizes. unat (sizes ! k) = cnt k \<longrightarrow> unat (sizes' ! k) = cnt k)"

lemma sizes_grow_refl [simp]: "sizes_grow cnt s s"
  by (simp add: sizes_grow_def)

lemma sizes_grow_trans: "sizes_grow cnt a b \<Longrightarrow> sizes_grow cnt b c \<Longrightarrow> sizes_grow cnt a c"
  by (auto simp: sizes_grow_def)

lemma sizes_set:
  assumes "sizes_ok cnt sizes" "i < length sizes" "cnt i < 255"
  shows "sizes_ok cnt (sizes[i := of_nat (cnt i)])" "sizes_grow cnt sizes (sizes[i := of_nat (cnt i)])"
    "unat (sizes[i := of_nat (cnt i)] ! i) = cnt i"
proof -
  have "unat (of_nat (cnt i) :: u8) = cnt i" using assms(3) by (simp add: unat_of_nat_u8)
  then show "sizes_ok cnt (sizes[i := of_nat (cnt i)])" "sizes_grow cnt sizes (sizes[i := of_nat (cnt i)])"
    "unat (sizes[i := of_nat (cnt i)] ! i) = cnt i"
    using assms by (auto simp: sizes_ok_def sizes_grow_def nth_list_update)
qed

lemma record_sizes_result:
  assumes "record_sizes i ms sizes = Inr sizes'" "i + length ms \<le> length sizes" "sizes_ok cnt sizes"
    "\<And>j st. j < length ms \<Longrightarrow> ms ! j = Some st \<Longrightarrow> ms_paramCount st = cnt (i + j)"
  shows "length sizes' = length sizes \<and> sizes_ok cnt sizes' \<and> sizes_grow cnt sizes sizes'
    \<and> (\<forall>j < length ms. ms ! j \<noteq> None \<longrightarrow> unat (sizes' ! (i + j)) = cnt (i + j))"
  using assms
proof (induction ms arbitrary: i sizes)
  case (Cons m ms)
  have cnt: "\<And>j st. j < length ms \<Longrightarrow> ms ! j = Some st \<Longrightarrow> ms_paramCount st = cnt (Suc i + j)"
    using Cons.prems(4) [of "Suc _"] by simp
  have i: "i < length sizes" using Cons.prems(2) by simp
  obtain sizes1 where rest: "record_sizes (Suc i) ms sizes1 = Inr sizes'" and s1: "length sizes1 = length sizes"
      "sizes_ok cnt sizes1" "sizes_grow cnt sizes sizes1" "m \<noteq> None \<Longrightarrow> unat (sizes1 ! i) = cnt i"
  proof (cases "sizes ! i > 0 \<or> m = None")
    case True
    then have "m \<noteq> None \<Longrightarrow> unat (sizes ! i) = cnt i" using Cons.prems(3) i by (auto simp: sizes_ok_def)
    then show ?thesis
      using that [of sizes] Cons.prems(1,3) True by (auto split: if_splits option.splits)
  next
    case False
    then obtain st where st: "m = Some st" by blast
    have c: "ms_paramCount st = cnt i" using Cons.prems(4) [of 0 st] st by simp
    then have "cnt i < 255" "record_sizes (Suc i) ms (sizes[i := of_nat (cnt i)]) = Inr sizes'"
      using Cons.prems(1) False st by (auto split: if_splits)
    then show ?thesis using that [OF _ _ sizes_set [OF Cons.prems(3) i]] by simp
  qed
  have len: "Suc i + length ms \<le> length sizes1" using Cons.prems(2) s1(1) by simp
  have IH: "length sizes' = length sizes1" "sizes_ok cnt sizes'" "sizes_grow cnt sizes1 sizes'"
    "\<And>j. j < length ms \<Longrightarrow> ms ! j \<noteq> None \<Longrightarrow> unat (sizes' ! (Suc i + j)) = cnt (Suc i + j)"
    using Cons.IH [OF rest len s1(2) cnt] by blast+
  have "unat (sizes' ! (i + j)) = cnt (i + j)" if "j < length (m # ms)" "(m # ms) ! j \<noteq> None" for j
  proof (cases j)
    case 0
    then show ?thesis using that s1(1,4) IH(3) i by (simp add: sizes_grow_def)
  next
    case (Suc j')
    then show ?thesis using that IH(4) [of j'] by simp
  qed
  then show ?case using IH(1,2) s1(1) sizes_grow_trans [OF s1(3) IH(3)] by simp
qed simp

definition entries_ok :: "(nat \<Rightarrow> nat) \<Rightarrow> pool_conn \<Rightarrow> bool" where
  "entries_ok cnt pc \<longleftrightarrow> (\<forall>k < length (cn_stmtList (pc_conn pc)). \<forall>st. cn_stmtList (pc_conn pc) ! k = Some st \<longrightarrow> ms_paramCount st = cnt k)"

definition recorded :: "(nat \<Rightarrow> nat) \<Rightarrow> u8 list \<Rightarrow> pool_conn \<Rightarrow> bool" where
  "recorded cnt sizes pc \<longleftrightarrow> (\<forall>k < length (cn_stmtList (pc_conn pc)). cn_stmtList (pc_conn pc) ! k \<noteq> None \<longrightarrow>
     k < length sizes \<and> unat (sizes ! k) = cnt k)"

lemma recorded_grow: "recorded cnt a pc \<Longrightarrow> sizes_grow cnt a b \<Longrightarrow> recorded cnt b pc"
  by (auto simp: recorded_def sizes_grow_def)

lemma resize_sizes:
  assumes "sizes_ok cnt sizes" "length sizes < n"
  shows "sizes_ok cnt (resize_list n 0 sizes)" "sizes_grow cnt sizes (resize_list n 0 sizes)" "length (resize_list n 0 sizes) = n"
  using assms by (auto simp: sizes_ok_def sizes_grow_def resize_list_def nth_append)

lemma IsValidPrepareStatements_result:
  assumes "IsValidPrepareStatements pc p = (Inr True, p')" "\<not> cn_prepareError (pc_conn pc) \<Longrightarrow> entries_ok cnt pc"
    "sizes_ok cnt (dp_preparedSize p)"
  shows "sizes_ok cnt (dp_preparedSize p') \<and> sizes_grow cnt (dp_preparedSize p) (dp_preparedSize p')
    \<and> recorded cnt (dp_preparedSize p') pc \<and> \<not> cn_prepareError (pc_conn pc)"
proof -
  let ?ms = "cn_stmtList (pc_conn pc)"
  define sizes where "sizes = (if length (dp_preparedSize p) < length ?ms
     then resize_list (length ?ms) 0 (dp_preparedSize p) else dp_preparedSize p)"
  have s: "sizes_ok cnt sizes" "sizes_grow cnt (dp_preparedSize p) sizes" "0 + length ?ms \<le> length sizes"
    using resize_sizes [OF assms(3)] assms(3) by (auto simp: sizes_def)
  have r: "record_sizes 0 ?ms sizes = Inr (dp_preparedSize p')" "\<not> cn_prepareError (pc_conn pc)"
    using assms(1) by (auto simp: IsValidPrepareStatements_def PrepareStatements_def Let_def sizes_def split: if_splits sum.splits)
  have cnt: "\<And>j st. j < length ?ms \<Longrightarrow> ?ms ! j = Some st \<Longrightarrow> ms_paramCount st = cnt (0 + j)"
    using assms(2) [OF r(2)] by (simp add: entries_ok_def)
  show ?thesis
    using record_sizes_result [OF r(1) s(3,1) cnt] s r(2) sizes_grow_trans [OF s(2)]
    by (auto simp: recorded_def)
qed

lemma validate_connections_result:
  assumes "validate_connections cs p = (Inr True, p')" "\<And>pc. pc \<in> set cs \<Longrightarrow> \<not> cn_prepareError (pc_conn pc) \<Longrightarrow> entries_ok cnt pc"
    "sizes_ok cnt (dp_preparedSize p)"
  shows "sizes_grow cnt (dp_preparedSize p) (dp_preparedSize p')
    \<and> (\<forall>pc \<in> set cs. recorded cnt (dp_preparedSize p') pc \<and> \<not> cn_prepareError (pc_conn pc))"
  using assms
proof (induction cs arbitrary: p)
  case (Cons pc cs)
  obtain r p1 where v: "IsValidPrepareStatements pc p = (r, p1)" by fastforce
  then have rest: "r = Inr True" "validate_connections cs p1 = (Inr True, p')"
    using Cons.prems(1) by (auto split: sum.splits bool.splits)
  note one = IsValidPrepareStatements_result [OF v [unfolded rest(1)] Cons.prems(2) [of pc, simplified] Cons.prems(3)]
  have two: "sizes_grow cnt (dp_preparedSize p1) (dp_preparedSize p')"
    "\<forall>pc \<in> set cs. recorded cnt (dp_preparedSize p') pc \<and> \<not> cn_prepareError (pc_conn pc)"
    using Cons.IH [OF rest(2)] Cons.prems(2) one by auto
  then show ?case using one recorded_grow sizes_grow_trans by (metis list.set_intros(1) set_ConsD)
qed simp

lemma prepare_connections_result:
  assumes "prepare_connections cls p cs = (Inr (), cs')" "pc' \<in> set cs'"
  shows "\<exists>pc \<in> set cs. InitPrepareStatement (cls (pc_id pc)) p (pc_conn pc) = (Inr (), pc_conn pc')"
  using assms
proof (induction cs arbitrary: cs')
  case (Cons pc cs)
  then show ?case by (fastforce split: prod.splits sum.splits)
qed simp

text \<open>The number of parameters of the statement with the index \<open>k\<close>.\<close>

definition param_counts :: "(string \<Rightarrow> nat) \<Rightarrow> (u32 \<times> string \<times> ConnectionFlags) list \<Rightarrow> nat \<Rightarrow> nat" where
  "param_counts markers stmts k = (case map_of stmts (of_nat k) of Some (sql, fl) \<Rightarrow> markers sql | None \<Rightarrow> 0)"

lemma InitPrepareStatement_entries:
  assumes "InitPrepareStatement cl p c = (Inr (), c')" "cn_stmtList c = []" "distinct (map fst (dp_statements p))"
    "cl_param_count cl = markers" "\<not> cn_prepareError c'"
  shows "cn_flags c' = cn_flags c"
    "\<And>k st. k < length (cn_stmtList c') \<Longrightarrow> cn_stmtList c' ! k = Some st \<Longrightarrow> ms_paramCount st = param_counts markers (dp_statements p) k"
    "\<And>i sql fl. (i, sql, fl) \<in> set (dp_statements p) \<Longrightarrow>
       unat i < length (cn_stmtList c') \<and> cn_stmtList c' ! unat i = stmt_entry cl (cn_flags c) sql fl"
proof -
  let ?c = "c\<lparr>cn_stmtList := replicate (dp_statementSize p) None\<rparr>"
  have "prepare_all cl (dp_statements p) ?c = (Inr (), c')"
    using assms(1,2) by (simp add: InitPrepareStatement_def resize_list_def)
  note all = prepare_all_result [OF this assms(3)]
  show "cn_flags c' = cn_flags c" using all by simp
  show entry: "unat i < length (cn_stmtList c') \<and> cn_stmtList c' ! unat i = stmt_entry cl (cn_flags c) sql fl"
    if "(i, sql, fl) \<in> set (dp_statements p)" for i sql fl
    using all assms(5) that by auto
  fix k st
  assume k: "k < length (cn_stmtList c')" and st: "cn_stmtList c' ! k = Some st"
  show "ms_paramCount st = param_counts markers (dp_statements p) k"
  proof (cases "k \<in> unat ` fst ` set (dp_statements p)")
    case True
    then obtain i sql fl where i: "(i, sql, fl) \<in> set (dp_statements p)" "k = unat i" by auto
    then have "map_of (dp_statements p) i = Some (sql, fl)" using assms(3) by (simp add: map_of_eq_Some_iff)
    moreover have "st = MySQLPreparedStatement (markers sql) sql"
      using entry [OF i(1)] st i(2) assms(4) by (auto simp: stmt_entry_def split: if_splits)
    ultimately show ?thesis using i(2) by (simp add: param_counts_def MySQLPreparedStatement_def)
  next
    case False
    then have "cn_stmtList c' ! k = None" using all k by auto
    then show ?thesis using st by simp
  qed
qed

lemma set_arguments_bind:
  assumes "length args = unat capacity" "m = MySQLPreparedStatement (unat capacity) sql"
  shows "\<exists>st' m'. SetArguments args (PreparedStatementBase index capacity) = Inr st' \<and> fst (IsAllParamsSet st')
           \<and> BindParameters st' m = Inr m'"
proof -
  have cap: "unat capacity \<le> 255" using unat_bounds(1) [of capacity] by linarith
  have "set_data_from 0 args (PreparedStatementBase index capacity) =
      Inr \<lparr>ps_index = index, ps_paramsSet = replicate (length args) True, ps_data = args\<rparr>"
    using set_data_from_eq [of 0 "PreparedStatementBase index capacity" args] assms(1) cap
    by (simp add: PreparedStatementBase_def)
  moreover have "first_unset (replicate (unat capacity) True) 0 = (True, 0)" by (rule first_unset_all) simp
  moreover have "stmt_wf m" "ms_paramCount m = unat capacity"
    using stmt_wf_new [OF cap] assms(2) by (simp_all add: MySQLPreparedStatement_def)
  ultimately show ?thesis
    using assms(1) by (auto simp: SetArguments_def BindParameters_eq IsAllParamsSet_def Let_def)
qed

lemma prepared_pool_binds:
  assumes "Pool_PrepareStatements cls p = (Inr True, p')" "distinct (map fst (dp_statements p))"
    and "\<And>pc. pc \<in> set (dp_async p @ dp_sync p) \<Longrightarrow> cn_stmtList (pc_conn pc) = []" "dp_preparedSize p = []"
    and "\<And>i. cl_param_count (cls i) = markers"
    and "(index, sql, flags) \<in> set (dp_statements p)"
    and "pc \<in> set (dp_async p' @ dp_sync p')" "prepared_on (cn_flags (pc_conn pc)) flags"
  shows "\<exists>st m. Pool_GetPreparedStatement index p' = Inr st \<and> length (ps_data st) = markers sql
    \<and> GetPreparedStatement index (pc_conn pc) = Inr (Some m) \<and> ms_query m = sql
    \<and> (\<forall>args. length args = markers sql \<longrightarrow>
         (\<exists>st' m'. SetArguments args st = Inr st' \<and> fst (IsAllParamsSet st') \<and> BindParameters st' m = Inr m'))"
proof -
  let ?cnt = "param_counts markers (dp_statements p)"
  obtain cs where a: "prepare_connections cls p (dp_async p) = (Inr (), cs)"
    using assms(1) by (auto simp: Pool_PrepareStatements_def split: prod.splits sum.splits)
  obtain cs' where b: "prepare_connections cls p (dp_sync p) = (Inr (), cs')"
    using assms(1) a by (auto simp: Pool_PrepareStatements_def split: prod.splits sum.splits)
  let ?p = "p\<lparr>dp_async := cs, dp_sync := cs'\<rparr>"
  have v: "validate_connections (cs @ cs') ?p = (Inr True, p')"
    using assms(1) a b by (simp add: Pool_PrepareStatements_def)
  have lists: "dp_async p' = cs" "dp_sync p' = cs'" using validate_connections_lists [OF v] by simp_all
  have init: "\<exists>pc0 \<in> set (dp_async p @ dp_sync p). InitPrepareStatement (cls (pc_id pc0)) p (pc_conn pc0) = (Inr (), pc_conn pc')"
    if "pc' \<in> set (cs @ cs')" for pc'
    using that prepare_connections_result [OF a] prepare_connections_result [OF b] by auto
  have entries: "entries_ok ?cnt pc'" if "pc' \<in> set (cs @ cs')" "\<not> cn_prepareError (pc_conn pc')" for pc'
    using init [OF that(1)] InitPrepareStatement_entries(2) [OF _ assms(3) assms(2) assms(5) that(2)]
    unfolding entries_ok_def by blast
  have ok: "recorded ?cnt (dp_preparedSize p') pc" "\<not> cn_prepareError (pc_conn pc)"
    using validate_connections_result [OF v entries] assms(4,7) lists by (auto simp: sizes_ok_def)
  obtain pc0 where pc0: "pc0 \<in> set (dp_async p @ dp_sync p)"
      "InitPrepareStatement (cls (pc_id pc0)) p (pc_conn pc0) = (Inr (), pc_conn pc)"
    using init assms(7) lists by auto
  note e = InitPrepareStatement_entries [OF pc0(2) assms(3) [OF pc0(1)] assms(2) assms(5) ok(2)]
  define m where "m = MySQLPreparedStatement (markers sql) sql"
  have i: "unat index < length (cn_stmtList (pc_conn pc))" "cn_stmtList (pc_conn pc) ! unat index = Some m"
    using e(1) e(3) [OF assms(6)] assms(5,8) by (auto simp: stmt_entry_def m_def)
  have "map_of (dp_statements p) index = Some (sql, flags)" using assms(2,6) by (simp add: map_of_eq_Some_iff)
  then have c: "?cnt (unat index) = markers sql" by (simp add: param_counts_def)
  have size: "unat index < length (dp_preparedSize p')" "unat (dp_preparedSize p' ! unat index) = markers sql"
    using ok(1) i c by (auto simp: recorded_def)
  let ?st = "PreparedStatementBase index (dp_preparedSize p' ! unat index)"
  have "\<exists>st' m'. SetArguments args ?st = Inr st' \<and> fst (IsAllParamsSet st') \<and> BindParameters st' m = Inr m'"
    if "length args = markers sql" for args
    using set_arguments_bind [of args "dp_preparedSize p' ! unat index" m sql index] that size(2)
    by (simp add: m_def)
  then show ?thesis
    using i size by (auto simp: Pool_GetPreparedStatement_def GetPreparedStatement_def m_def PreparedStatementBase_def
        MySQLPreparedStatement_def intro!: exI [of _ ?st] exI [of _ m])
qed

text \<open>
  What the pool hands out fits what the connections prepared.  After \<open>PrepareStatements\<close> succeeded on
  fresh connections, a statement that was registered for a kind of connection is prepared on every
  connection of that kind; the statement object \<open>GetPreparedStatement\<close> returns has as many
  parameters as the query has markers; and when that many arguments are set, binding them on any of these
  connections passes all assertions.
\<close>
theorem pool_statements_bind:
  assumes "Pool_PrepareStatements cls p = (Inr True, p')" "distinct (map fst (dp_statements p))"
    and "\<And>pc. pc \<in> set (dp_async p @ dp_sync p) \<Longrightarrow> cn_stmtList (pc_conn pc) = []" "dp_preparedSize p = []"
    and "\<And>i. cl_param_count (cls i) = markers"
    and "(index, sql, flags) \<in> set (dp_statements p)"
    and "pc \<in> set (dp_async p' @ dp_sync p')" "prepared_on (cn_flags (pc_conn pc)) flags"
  shows "\<exists>st m. Pool_GetPreparedStatement index p' = Inr st \<and> length (ps_data st) = markers sql
    \<and> GetPreparedStatement index (pc_conn pc) = Inr (Some m) \<and> ms_query m = sql
    \<and> (\<forall>args. length args = markers sql \<longrightarrow>
         (\<exists>st' m'. SetArguments args st = Inr st' \<and> fst (IsAllParamsSet st') \<and> BindParameters st' m = Inr m'))"
  by (rule prepared_pool_binds [OF assms])

definition stmt_pool :: db_pool where
  "stmt_pool = demo_pool\<lparr>dp_sync := [\<lparr>pc_id = 0, pc_conn = demo_connection, pc_locked = False\<rparr>],
     dp_statements := [(0, ''SELECT ?'', Sync)], dp_statementSize := 1\<rparr>"

definition stmt_conn :: pool_conn where
  "stmt_conn = \<lparr>pc_id = 0, pc_conn = demo_connection\<lparr>cn_stmtList := [Some (MySQLPreparedStatement 1 ''SELECT ?'')],
     cn_events := [(StmtInit, False), (StmtPrepare ''SELECT ?'', False)]\<rparr>, pc_locked = False\<rparr>"

lemma stmt_pool_prepares:
  "Pool_PrepareStatements demo_clients stmt_pool = (Inr True, stmt_pool\<lparr>dp_sync := [stmt_conn], dp_preparedSize := [1]\<rparr>)"
  by (simp add: Pool_PrepareStatements_def stmt_pool_def stmt_conn_def demo_pool_def DatabaseWorkerPool_def demo_connection_eq
      InitPrepareStatement_def resize_list_def PrepareStatement_def flag_bits_def perform_def set_stmt_def
      demo_clients_def sample_client_def IsValidPrepareStatements_def PrepareStatements_def MySQLPreparedStatement_def)

theorem pool_statements_bind_witness:
  "\<exists>st m. Pool_GetPreparedStatement 0 (stmt_pool\<lparr>dp_sync := [stmt_conn], dp_preparedSize := [1]\<rparr>) = Inr st \<and> length (ps_data st) = 1
    \<and> GetPreparedStatement 0 (pc_conn stmt_conn) = Inr (Some m) \<and> ms_query m = ''SELECT ?''
    \<and> (\<exists>st' m'. SetArguments [PInt32 7] st = Inr st' \<and> fst (IsAllParamsSet st') \<and> BindParameters st' m = Inr m')"
proof -
  let ?markers = "\<lambda>q. length (filter (\<lambda>c. c = CHR ''?'') q)"
  have p: "distinct (map fst (dp_statements stmt_pool))"
    "\<And>pc. pc \<in> set (dp_async stmt_pool @ dp_sync stmt_pool) \<Longrightarrow> cn_stmtList (pc_conn pc) = []" "dp_preparedSize stmt_pool = []"
    "(0, ''SELECT ?'', Sync) \<in> set (dp_statements stmt_pool)"
    by (auto simp: stmt_pool_def demo_pool_def DatabaseWorkerPool_def demo_connection_eq)
  have m: "\<And>i. cl_param_count (demo_clients i) = ?markers" by (simp add: demo_clients_def sample_client_def)
  have c: "stmt_conn \<in> set (dp_async (stmt_pool\<lparr>dp_sync := [stmt_conn], dp_preparedSize := [1]\<rparr>)
      @ dp_sync (stmt_pool\<lparr>dp_sync := [stmt_conn], dp_preparedSize := [1]\<rparr>))"
    "prepared_on (cn_flags (pc_conn stmt_conn)) Sync"
    by (simp_all add: stmt_conn_def demo_connection_eq prepared_on_def flag_bits_def)
  from pool_statements_bind [OF stmt_pool_prepares p(1,2,3) m p(4) c]
  obtain st m where "Pool_GetPreparedStatement 0 (stmt_pool\<lparr>dp_sync := [stmt_conn], dp_preparedSize := [1]\<rparr>) = Inr st"
    "length (ps_data st) = 1" "GetPreparedStatement 0 (pc_conn stmt_conn) = Inr (Some m)" "ms_query m = ''SELECT ?''"
    "\<forall>args. length args = 1 \<longrightarrow> (\<exists>st' m'. SetArguments args st = Inr st' \<and> fst (IsAllParamsSet st') \<and> BindParameters st' m = Inr m')"
    by auto
  then show ?thesis by (intro exI [of _ st] exI [of _ m]) simp
qed

end
