(* ===== verification/Callbacks.thy ===== *)
theory Callbacks
  imports Interfaces Connection
begin

section \<open>Callbacks of asynchronous queries\<close>

text \<open>
  How the results of the asynchronous operations come back to the thread that updates the program:
  \<^verbatim>\<open>AsyncCallbackProcessor.h\<close> (\<open>ProcessReadyCallbacks\<close>), \<^verbatim>\<open>QueryCallback.cpp\<close> (one future and a
  queue of callables, each of which may chain the next query), the callbacks of transactions and of query holders
  (\<^verbatim>\<open>Transaction.cpp\<close>, \<^verbatim>\<open>QueryHolder.cpp\<close>), \<^verbatim>\<open>AsyncCallbackMgr.cpp\<close>, and the query holder itself.

  Futures are numbers, handed out in order by the operation that creates the promise.  A worker sets a
  promise between two passes of the processor; a pass asks each future at most once, so a promise set during a
  pass is one set before it or after it.  Callables are numbers too; what they do to the callback
  they are called on and to the processor is a parameter of the definitions, the list of their operations for the
  value they are called with.
\<close>

subsection \<open>Promises and the processor\<close>

text \<open>
  The state of a promise: a promise destroyed before it has a value leaves an exception in the future, which
  \<open>get\<close> throws; nothing catches it, so the process ends.
\<close>

datatype 'r promise = Pending | Fulfilled 'r | Broken

record 'r cb_world =
  cw_promises :: "nat \<Rightarrow> 'r promise"
  cw_next :: nat
  cw_calls :: "(nat \<times> nat \<times> 'r) list"

text \<open>
  \<open>InvokeIfReady\<close> of a callback type: whether it is complete, the callback afterwards and the
  callbacks that its callable added to the processor.
\<close>

type_synonym ('t, 'w) invoke = "'t \<Rightarrow> 'w \<Rightarrow> (bool \<times> 't \<times> 't list \<times> 'w) res"

definition AddCallback :: "'t \<Rightarrow> 't list \<Rightarrow> 't list" where
  "AddCallback query callbacks = callbacks @ [query]"

fun remove_if_ready :: "('t, 'w) invoke \<Rightarrow> 't list \<Rightarrow> 't list \<Rightarrow> 'w \<Rightarrow> ('t list \<times> 't list \<times> 'w) res" where
  "remove_if_ready invoke [] callbacks w = Inr ([], callbacks, w)"
| "remove_if_ready invoke (c # cs) callbacks w =
     bind_res (invoke c w) (\<lambda>(complete, c, added, w).
       bind_res (remove_if_ready invoke cs (fold AddCallback added callbacks) w) (\<lambda>(kept, callbacks, w).
         Inr (if complete then kept else c # kept, callbacks, w)))"

text \<open>The vector is moved away first, so what the callables add is in front of what was kept.\<close>

definition ProcessReadyCallbacks :: "('t, 'w) invoke \<Rightarrow> 't list \<Rightarrow> 'w \<Rightarrow> ('t list \<times> 'w) res" where
  "ProcessReadyCallbacks invoke callbacks w =
     (if callbacks = [] then Inr ([], w)
      else bind_res (remove_if_ready invoke callbacks [] w) (\<lambda>(updateCallbacks, callbacks, w).
             Inr (callbacks @ updateCallbacks, w)))"

subsection \<open>Query callbacks\<close>

text \<open>
  A callback has the future of its query (\<open>None\<close> once it was moved from), the kind of the query, and
  its queue of callables with their kinds.
\<close>

record query_callback =
  qc_future :: "nat option"
  qc_isPrepared :: bool
  qc_callbacks :: "(bool \<times> nat) list"

definition QueryCallback :: "bool \<Rightarrow> nat \<Rightarrow> query_callback" where
  "QueryCallback prepared result = \<lparr>qc_future = Some result, qc_isPrepared = prepared, qc_callbacks = []\<rparr>"

text \<open>\<open>WithChainingCallback\<close> and \<open>WithChainingPreparedCallback\<close>; the variants without chaining wrap their callable.\<close>

definition WithChainingCallback :: "nat \<Rightarrow> query_callback \<Rightarrow> query_callback res" where
  "WithChainingCallback callback q =
     bind_res (assert_res (qc_callbacks q \<noteq> [] \<or> \<not> qc_isPrepared q)) (\<lambda>_.
       Inr (q\<lparr>qc_callbacks := qc_callbacks q @ [(False, callback)]\<rparr>))"

definition WithChainingPreparedCallback :: "nat \<Rightarrow> query_callback \<Rightarrow> query_callback res" where
  "WithChainingPreparedCallback callback q =
     bind_res (assert_res (qc_callbacks q \<noteq> [] \<or> qc_isPrepared q)) (\<lambda>_.
       Inr (q\<lparr>qc_callbacks := qc_callbacks q @ [(True, callback)]\<rparr>))"

definition SetNextQuery :: "query_callback \<Rightarrow> query_callback \<Rightarrow> query_callback res" where
  "SetNextQuery next_query q =
     bind_res (assert_res (qc_isPrepared q = qc_isPrepared next_query)) (\<lambda>_.
       Inr (q\<lparr>qc_future := qc_future next_query\<rparr>))"

text \<open>
  What a callable does: set the next query of its callback to a new asynchronous query of some kind, append a
  callable to its callback, or give a new query with its callables to the processor.
\<close>

datatype cb_op = NextQuery bool | Chain bool nat | AddQuery bool "(bool \<times> nat) list"

definition AsyncQuery :: "bool \<Rightarrow> 'r cb_world \<Rightarrow> query_callback \<times> 'r cb_world" where
  "AsyncQuery prepared w = (QueryCallback prepared (cw_next w), w\<lparr>cw_next := cw_next w + 1\<rparr>)"

definition with_callable :: "bool \<times> nat \<Rightarrow> query_callback \<Rightarrow> query_callback res" where
  "with_callable c = (if fst c then WithChainingPreparedCallback (snd c) else WithChainingCallback (snd c))"

fun with_callables :: "(bool \<times> nat) list \<Rightarrow> query_callback \<Rightarrow> query_callback res" where
  "with_callables [] q = Inr q"
| "with_callables (c # cs) q = bind_res (with_callable c q) (with_callables cs)"

fun run_cb_ops ::
  "cb_op list \<Rightarrow> query_callback \<Rightarrow> query_callback list \<Rightarrow> 'r cb_world
   \<Rightarrow> (query_callback \<times> query_callback list \<times> 'r cb_world) res" where
  "run_cb_ops [] q added w = Inr (q, added, w)"
| "run_cb_ops (NextQuery prepared # ops) q added w =
     (let (next_query, w) = AsyncQuery prepared w
      in bind_res (SetNextQuery next_query q) (\<lambda>q. run_cb_ops ops q added w))"
| "run_cb_ops (Chain prepared callback # ops) q added w =
     bind_res (with_callable (prepared, callback) q) (\<lambda>q. run_cb_ops ops q added w)"
| "run_cb_ops (AddQuery prepared callables # ops) q added w =
     (let (query, w) = AsyncQuery prepared w
      in bind_res (with_callables callables query) (\<lambda>query. run_cb_ops ops q (AddCallback query added) w))"

definition checkStateAndReturnCompletion :: "query_callback \<Rightarrow> (bool \<times> query_callback) res" where
  "checkStateAndReturnCompletion q =
     (let q = q\<lparr>qc_callbacks := tl (qc_callbacks q)\<rparr>;
          hasNext = (qc_future q \<noteq> None)
      in if qc_callbacks q = [] then bind_res (assert_res (\<not> hasNext)) (\<lambda>_. Inr (True, q))
         else if \<not> hasNext then Inr (True, q)
         else bind_res (assert_res (qc_isPrepared q = fst (hd (qc_callbacks q)))) (\<lambda>_. Inr (False, q)))"

text \<open>
  \<open>front\<close> of an empty queue is undefined, also when the future is not ready, and so is reading the member of the
  union that is not active, which happens when the first callable has another kind than the query.
\<close>

definition QueryCallback_InvokeIfReady :: "(nat \<Rightarrow> 'r \<Rightarrow> cb_op list) \<Rightarrow> (query_callback, 'r cb_world) invoke" where
  "QueryCallback_InvokeIfReady code q w =
     (case qc_callbacks q of
        [] \<Rightarrow> Inl Undefined
      | (prepared, callback) # _ \<Rightarrow>
          (case qc_future q of
             None \<Rightarrow> Inr (False, q, [], w)
           | Some f \<Rightarrow>
               (case cw_promises w f of
                  Pending \<Rightarrow> Inr (False, q, [], w)
                | Broken \<Rightarrow> Inl (if prepared = qc_isPrepared q then Aborted else Undefined)
                | Fulfilled v \<Rightarrow>
                    if prepared \<noteq> qc_isPrepared q then Inl Undefined
                    else bind_res (run_cb_ops (code callback v) (q\<lparr>qc_future := None\<rparr>) []
                                     (w\<lparr>cw_calls := cw_calls w @ [(callback, f, v)]\<rparr>)) (\<lambda>(q, added, w).
                           bind_res (checkStateAndReturnCompletion q) (\<lambda>(complete, q).
                             Inr (complete, q, added, w))))))"

subsection \<open>The callbacks that are called once\<close>

text \<open>
  \<open>TransactionCallback\<close>, \<open>SQLQueryHolderCallback\<close> and \<open>AsyncCallback\<close>.  An empty callable throws, and so
  does the \<open>get\<close> of a broken promise; the holder's callback does not call \<open>get\<close>, and \<open>AsyncCallback\<close> calls
  nothing at all, its work having been done by the thread that \<open>std::async\<close> started.
\<close>

record once_callback =
  oc_future :: "nat option"
  oc_callback :: "nat option"

definition TransactionCallback_Invoke :: "(once_callback, 'r cb_world) invoke" where
  "TransactionCallback_Invoke c w =
     (case oc_future c of
        None \<Rightarrow> Inr (False, c, [], w)
      | Some f \<Rightarrow>
          (case cw_promises w f of
             Pending \<Rightarrow> Inr (False, c, [], w)
           | Broken \<Rightarrow> Inl Aborted
           | Fulfilled v \<Rightarrow>
               (case oc_callback c of
                  None \<Rightarrow> Inl Aborted
                | Some callback \<Rightarrow>
                    Inr (True, c\<lparr>oc_future := None\<rparr>, [], w\<lparr>cw_calls := cw_calls w @ [(callback, f, v)]\<rparr>))))"

definition SQLQueryHolderCallback_Invoke :: "(once_callback, unit cb_world) invoke" where
  "SQLQueryHolderCallback_Invoke c w =
     (case oc_future c of
        None \<Rightarrow> Inr (False, c, [], w)
      | Some f \<Rightarrow>
          (if cw_promises w f = Pending then Inr (False, c, [], w)
           else case oc_callback c of
                  None \<Rightarrow> Inl Aborted
                | Some callback \<Rightarrow> Inr (True, c, [], w\<lparr>cw_calls := cw_calls w @ [(callback, f, ())]\<rparr>)))"

definition AsyncCallback_Invoke :: "(once_callback, unit cb_world) invoke" where
  "AsyncCallback_Invoke c w =
     (case oc_future c of
        None \<Rightarrow> Inr (False, c, [], w)
      | Some f \<Rightarrow> Inr (cw_promises w f \<noteq> Pending, c, [], w))"

definition AddAsyncCallback :: "once_callback list \<Rightarrow> 'r cb_world \<Rightarrow> once_callback list \<times> 'r cb_world" where
  "AddAsyncCallback callbacks w =
     (AddCallback \<lparr>oc_future = Some (cw_next w), oc_callback = None\<rparr> callbacks, w\<lparr>cw_next := cw_next w + 1\<rparr>)"

subsection \<open>The contract of a callback type\<close>

text \<open>
  What the processor needs of \<open>InvokeIfReady\<close>: a callback that is not ready is left as it is, and a call does
  not change which other callbacks are ready.  The callbacks that are called once are complete when they
  return.
\<close>

locale async_callback =
  fixes invoke :: "('t, 'w) invoke"
    and usable :: "'t \<Rightarrow> bool"
    and ready :: "'w \<Rightarrow> 't \<Rightarrow> bool"
  assumes not_ready: "usable c \<Longrightarrow> \<not> ready w c \<Longrightarrow> invoke c w = Inr (False, c, [], w)"
    and ready_stable: "invoke c w = Inr (b, c', added, w') \<Longrightarrow> ready w' d = ready w d"
begin

lemma idle_remove:
  "(\<And>c. c \<in> set cs \<Longrightarrow> usable c \<and> \<not> ready w c) \<Longrightarrow> remove_if_ready invoke cs callbacks w = Inr (cs, callbacks, w)"
  by (induction cs) (simp_all add: not_ready)

lemma idle_pass:
  "(\<And>c. c \<in> set cs \<Longrightarrow> usable c \<and> \<not> ready w c) \<Longrightarrow> ProcessReadyCallbacks invoke cs w = Inr (cs, w)"
  by (simp add: ProcessReadyCallbacks_def idle_remove)

end

locale once_callbacks = async_callback invoke usable ready
  for invoke :: "('t, 'w) invoke"
    and usable :: "'t \<Rightarrow> bool"
    and ready :: "'w \<Rightarrow> 't \<Rightarrow> bool" +
  assumes complete_once: "ready w c \<Longrightarrow> invoke c w = Inr (b, c', added, w') \<Longrightarrow> b \<and> added = []"
    and all_usable: "usable c"
begin

lemma remove_unready:
  "remove_if_ready invoke cs callbacks w = Inr (kept, callbacks', w')
   \<Longrightarrow> kept = filter (\<lambda>c. \<not> ready w c) cs \<and> callbacks' = callbacks"
proof (induction cs arbitrary: callbacks w kept)
  case (Cons c cs)
  obtain b c' added v rest where i: "invoke c w = Inr (b, c', added, v)"
    and r: "remove_if_ready invoke cs (fold AddCallback added callbacks) v = Inr (rest, callbacks', w')"
    and k: "kept = (if b then rest else c' # rest)"
    using Cons.prems by (auto simp: bind_res_eq_Inr)
  have s: "ready v = ready w" using ready_stable [OF i] by blast
  show ?case
  proof (cases "ready w c")
    case True
    with complete_once [OF True i] Cons.IH [OF r] s k show ?thesis by simp
  next
    case False
    then have "b = False \<and> c' = c \<and> added = []" using not_ready [OF all_usable, of w c] i by simp
    with Cons.IH [OF r] s k False show ?thesis by simp
  qed
qed simp

text \<open>A pass removes the callbacks that are ready and keeps the others, in their order.\<close>

lemma pass_keeps_unready:
  "ProcessReadyCallbacks invoke cs w = Inr (cs', w') \<Longrightarrow> cs' = filter (\<lambda>c. \<not> ready w c) cs"
  by (auto simp: ProcessReadyCallbacks_def bind_res_eq_Inr split: if_splits dest!: remove_unready)

end

definition future_ready :: "'r cb_world \<Rightarrow> nat option \<Rightarrow> bool" where
  "future_ready w f = (case f of None \<Rightarrow> False | Some n \<Rightarrow> (case cw_promises w n of Pending \<Rightarrow> False | _ \<Rightarrow> True))"

lemma future_ready_simps [simp]:
  "\<not> future_ready w None"
  "future_ready w (Some n) \<longleftrightarrow> cw_promises w n \<noteq> Pending"
  "future_ready (w\<lparr>cw_calls := cs\<rparr>) f = future_ready w f"
  "future_ready (w\<lparr>cw_next := k\<rparr>) f = future_ready w f"
  by (simp_all add: future_ready_def split: promise.splits option.splits)

interpretation transaction_cb: once_callbacks TransactionCallback_Invoke "\<lambda>_. True" "\<lambda>w c. future_ready w (oc_future c)"
  by unfold_locales (auto simp: TransactionCallback_Invoke_def split: option.splits promise.splits)

interpretation holder_cb: once_callbacks SQLQueryHolderCallback_Invoke "\<lambda>_. True" "\<lambda>w c. future_ready w (oc_future c)"
  by unfold_locales (auto simp: SQLQueryHolderCallback_Invoke_def split: option.splits if_splits)

interpretation async_cb: once_callbacks AsyncCallback_Invoke "\<lambda>_. True" "\<lambda>w c. future_ready w (oc_future c)"
  by unfold_locales (auto simp: AsyncCallback_Invoke_def split: option.splits)

subsection \<open>What the operations of a callable keep\<close>

lemma run_cb_ops_promises: "run_cb_ops ops q added w = Inr (q', added', w') \<Longrightarrow> cw_promises w' = cw_promises w"
  by (induction ops q added w rule: run_cb_ops.induct) (auto simp: bind_res_eq_Inr AsyncQuery_def)

lemma run_cb_ops_calls: "run_cb_ops ops q added w = Inr (q', added', w') \<Longrightarrow> cw_calls w' = cw_calls w"
  by (induction ops q added w rule: run_cb_ops.induct) (auto simp: bind_res_eq_Inr AsyncQuery_def)

lemma future_ready_cong: "cw_promises w' = cw_promises w \<Longrightarrow> future_ready w' f = future_ready w f"
  by (cases f) simp_all

lemma query_invoke_promises:
  "QueryCallback_InvokeIfReady code q w = Inr (b, q', added, w') \<Longrightarrow> cw_promises w' = cw_promises w"
  by (auto simp: QueryCallback_InvokeIfReady_def bind_res_eq_Inr dest!: run_cb_ops_promises
      split: list.splits option.splits promise.splits if_splits)

interpretation query_cb: async_callback "QueryCallback_InvokeIfReady code" "\<lambda>q. qc_callbacks q \<noteq> []"
  "\<lambda>w q. future_ready w (qc_future q)"
proof unfold_locales
  fix q :: query_callback and w :: "'a cb_world"
  assume "qc_callbacks q \<noteq> []" and "\<not> future_ready w (qc_future q)"
  then show "QueryCallback_InvokeIfReady code q w = Inr (False, q, [], w)"
    by (auto simp: QueryCallback_InvokeIfReady_def neq_Nil_conv split: option.splits)
qed (rule future_ready_cong, erule query_invoke_promises)


subsection \<open>Every result is delivered once\<close>

text \<open>
  The futures that wait in the processor, and those whose values were passed to a callable.  The states of the
  processor in a run of the program: queries are issued and given to it with their callables, workers set
  promises, passes are made.
\<close>

definition awaited :: "query_callback \<Rightarrow> nat multiset" where
  "awaited q = (case qc_future q of None \<Rightarrow> {#} | Some f \<Rightarrow> {#f#})"

definition waiting :: "query_callback list \<Rightarrow> nat multiset" where
  "waiting qs = \<Sum>\<^sub># (mset (map awaited qs))"

definition delivered :: "'r cb_world \<Rightarrow> nat multiset" where
  "delivered w = mset (map (\<lambda>(callback, f, v). f) (cw_calls w))"

definition issued :: "'r cb_world \<Rightarrow> nat multiset" where
  "issued w = mset [0..<cw_next w]"

definition next_queries :: "cb_op list \<Rightarrow> nat" where
  "next_queries ops = length (filter (\<lambda>op. case op of NextQuery _ \<Rightarrow> True | _ \<Rightarrow> False) ops)"

definition fresh_world :: "'r cb_world" where
  "fresh_world = \<lparr>cw_promises = \<lambda>_. Pending, cw_next = 0, cw_calls = []\<rparr>"

inductive processor_reach :: "(nat \<Rightarrow> 'r \<Rightarrow> cb_op list) \<Rightarrow> query_callback list \<Rightarrow> 'r cb_world \<Rightarrow> bool"
  for code :: "nat \<Rightarrow> 'r \<Rightarrow> cb_op list" where
  start: "processor_reach code [] fresh_world"
| issue: "processor_reach code cs w \<Longrightarrow> AsyncQuery prepared w = (q, w') \<Longrightarrow> with_callables callables q = Inr q'
    \<Longrightarrow> processor_reach code (AddCallback q' cs) w'"
| promise_set: "processor_reach code cs w \<Longrightarrow> f < cw_next w \<Longrightarrow> cw_promises w f = Pending
    \<Longrightarrow> processor_reach code cs (w\<lparr>cw_promises := (cw_promises w)(f := r)\<rparr>)"
| pass: "processor_reach code cs w \<Longrightarrow> ProcessReadyCallbacks (QueryCallback_InvokeIfReady code) cs w = Inr (cs', w')
    \<Longrightarrow> processor_reach code cs' w'"

lemma waiting_simps [simp]:
  "waiting [] = {#}" "waiting (q # qs) = awaited q + waiting qs" "waiting (qs @ rs) = waiting qs + waiting rs"
  by (simp_all add: waiting_def)

lemma awaited_simps [simp]:
  "qc_future q = None \<Longrightarrow> awaited q = {#}" "qc_future q = Some f \<Longrightarrow> awaited q = {#f#}"
  by (simp_all add: awaited_def)

lemma issued_Suc: "issued (w\<lparr>cw_next := Suc (cw_next w)\<rparr>) = add_mset (cw_next w) (issued w)"
  by (simp add: issued_def)

lemma fold_AddCallback [simp]: "fold AddCallback added callbacks = callbacks @ added"
  by (induction added arbitrary: callbacks) (simp_all add: AddCallback_def)

lemma with_callable_future: "with_callable c q = Inr q' \<Longrightarrow> qc_future q' = qc_future q \<and> qc_isPrepared q' = qc_isPrepared q"
  by (auto simp: with_callable_def WithChainingPreparedCallback_def WithChainingCallback_def bind_res_eq_Inr
      split: if_splits)

lemma with_callables_future: "with_callables cs q = Inr q' \<Longrightarrow> qc_future q' = qc_future q \<and> qc_isPrepared q' = qc_isPrepared q"
  by (induction cs arbitrary: q) (auto simp: bind_res_eq_Inr dest: with_callable_future)

lemma run_cb_ops_futures:
  "run_cb_ops ops q added w = Inr (q', added', w') \<Longrightarrow> next_queries ops \<le> (if qc_future q = None then 1 else 0)
   \<Longrightarrow> awaited q' + waiting added' + issued w = awaited q + waiting added + issued w'"
proof (induction ops q added w rule: run_cb_ops.induct)
  case (1 q added w)
  then show ?case by simp
next
  case (2 prepared ops q added w)
  have n: "qc_future q = None" "next_queries ops = 0"
    using "2.prems"(2) by (auto simp: next_queries_def split: if_splits)
  define w1 where "w1 = w\<lparr>cw_next := cw_next w + 1\<rparr>"
  define q1 where "q1 = q\<lparr>qc_future := Some (cw_next w)\<rparr>"
  have r: "run_cb_ops ops q1 added w1 = Inr (q', added', w')"
    using "2.prems"(1)
    by (auto simp: AsyncQuery_def SetNextQuery_def QueryCallback_def bind_res_eq_Inr w1_def q1_def)
  have s: "SetNextQuery (QueryCallback prepared (cw_next w)) q = Inr q1"
    using "2.prems"(1) by (auto simp: AsyncQuery_def SetNextQuery_def QueryCallback_def bind_res_eq_Inr q1_def)
  have "awaited q' + waiting added' + issued w1 = awaited q1 + waiting added + issued w'"
    using "2.IH" [of "AsyncQuery prepared w" "QueryCallback prepared (cw_next w)" w1 q1] r n by (simp add: AsyncQuery_def w1_def q1_def s)
  then show ?case using n by (simp add: w1_def issued_Suc q1_def)
next
  case (3 prepared callback ops q added w)
  obtain q1 where c: "with_callable (prepared, callback) q = Inr q1" and r: "run_cb_ops ops q1 added w = Inr (q', added', w')"
    using "3.prems"(1) by (auto simp: bind_res_eq_Inr)
  have f: "qc_future q1 = qc_future q" using with_callable_future [OF c] by simp
  then have "awaited q1 = awaited q" by (simp add: awaited_def)
  with "3.IH" [of q1] r "3.prems"(2) f show ?case by (simp add: next_queries_def)
next
  case (4 prepared callables ops q added w)
  define w1 where "w1 = w\<lparr>cw_next := cw_next w + 1\<rparr>"
  obtain q1 where c: "with_callables callables (QueryCallback prepared (cw_next w)) = Inr q1"
    and r: "run_cb_ops ops q (added @ [q1]) w1 = Inr (q', added', w')"
    using "4.prems"(1) by (auto simp: bind_res_eq_Inr AsyncQuery_def AddCallback_def w1_def)
  have "qc_future q1 = Some (cw_next w)" using with_callables_future [OF c] by (simp add: QueryCallback_def)
  moreover have "awaited q' + waiting added' + issued w1 = awaited q + waiting (added @ [q1]) + issued w'"
    using "4.IH" [of "AsyncQuery prepared w" "QueryCallback prepared (cw_next w)" w1 q1] r "4.prems"(2)
    by (simp add: AsyncQuery_def w1_def AddCallback_def next_queries_def)
  ultimately show ?case by (simp add: w1_def issued_Suc)
qed

lemma checkState_complete:
  "checkStateAndReturnCompletion q = Inr (complete, q')
   \<Longrightarrow> qc_future q' = qc_future q \<and> qc_callbacks q' = tl (qc_callbacks q) \<and> qc_isPrepared q' = qc_isPrepared q
       \<and> (complete \<longleftrightarrow> qc_future q = None)"
  by (auto simp: checkStateAndReturnCompletion_def Let_def bind_res_eq_Inr assert_res_eq_Inr split: if_splits)

lemma query_invoke_futures:
  assumes "\<And>h v. next_queries (code h v) \<le> 1"
    and "QueryCallback_InvokeIfReady code q w = Inr (complete, q', added, w')"
  shows "awaited q' + waiting added + delivered w' + issued w = awaited q + delivered w + issued w'
    \<and> (complete \<longrightarrow> awaited q' = {#})"
proof (cases "future_ready w (qc_future q)")
  case False
  have "qc_callbacks q \<noteq> []" using assms(2) by (auto simp: QueryCallback_InvokeIfReady_def)
  from query_cb.not_ready [OF this False] assms(2) show ?thesis by simp
next
  case True
  then obtain f p h rest v q1 where f: "qc_future q = Some f" and h: "qc_callbacks q = (p, h) # rest"
    and r: "run_cb_ops (code h v) (q\<lparr>qc_future := None\<rparr>) [] (w\<lparr>cw_calls := cw_calls w @ [(h, f, v)]\<rparr>) = Inr (q1, added, w')"
    and c: "checkStateAndReturnCompletion q1 = Inr (complete, q')"
    using assms(2)
    by (auto simp: QueryCallback_InvokeIfReady_def bind_res_eq_Inr
        split: list.splits option.splits promise.splits if_splits)
  have "awaited q1 + waiting added + issued w = issued w'"
    using run_cb_ops_futures [OF r] assms(1) [of h v] by (simp add: issued_def)
  moreover have "delivered w' = add_mset f (delivered w)"
    using run_cb_ops_calls [OF r] by (simp add: delivered_def)
  moreover have "awaited q' = awaited q1" "complete \<longrightarrow> awaited q' = {#}"
    using checkState_complete [OF c] by (simp_all add: awaited_def)
  ultimately show ?thesis using f by (simp add: ac_simps)
qed

lemma remove_if_ready_futures:
  assumes "\<And>h v. next_queries (code h v) \<le> 1"
  shows "remove_if_ready (QueryCallback_InvokeIfReady code) cs callbacks w = Inr (kept, callbacks', w')
    \<Longrightarrow> waiting kept + waiting callbacks' + delivered w' + issued w = waiting cs + waiting callbacks + delivered w + issued w'"
proof (induction cs arbitrary: callbacks w kept)
  case (Cons c cs)
  obtain b c' added v rest where i: "QueryCallback_InvokeIfReady code c w = Inr (b, c', added, v)"
    and r: "remove_if_ready (QueryCallback_InvokeIfReady code) cs (callbacks @ added) v = Inr (rest, callbacks', w')"
    and k: "kept = (if b then rest else c' # rest)"
    using Cons.prems by (auto simp: bind_res_eq_Inr)
  have w: "waiting kept = awaited c' + waiting rest"
    using query_invoke_futures [OF assms i] k by simp
  have 1: "awaited c' + waiting added + delivered v + issued w = awaited c + delivered w + issued v"
    using query_invoke_futures [OF assms i] by blast
  have 2: "waiting rest + waiting callbacks' + delivered w' + issued v =
      waiting cs + (waiting callbacks + waiting added) + delivered v + issued w'"
    using Cons.IH [OF r] by simp
  show ?case
  proof (rule multiset_eqI)
    fix a
    show "count (waiting kept + waiting callbacks' + delivered w' + issued w) a =
        count (waiting (c # cs) + waiting callbacks + delivered w + issued w') a"
      using arg_cong [OF 1, of "\<lambda>m. count m a"] arg_cong [OF 2, of "\<lambda>m. count m a"] w by simp
  qed
qed simp

lemma results_accounted:
  assumes "\<And>h v. next_queries (code h v) \<le> 1"
  shows "processor_reach code cs w \<Longrightarrow> waiting cs + delivered w = issued w"
proof (induction rule: processor_reach.induct)
  case start
  show ?case by (simp add: fresh_world_def delivered_def issued_def)
next
  case (issue cs w prepared q w' callables q')
  have q': "awaited q' = {#cw_next w#}"
    using with_callables_future [OF issue(3)] issue(2) by (auto simp: AsyncQuery_def QueryCallback_def)
  have "w' = w\<lparr>cw_next := Suc (cw_next w)\<rparr>" using issue(2) by (simp add: AsyncQuery_def)
  then have "issued w' = add_mset (cw_next w) (issued w)" "delivered w' = delivered w"
    by (simp_all add: issued_Suc delivered_def)
  with q' issue.IH show ?case by (simp add: AddCallback_def)
next
  case (promise_set cs w f r)
  then show ?case by (simp add: delivered_def issued_def)
next
  case (pass cs w cs' w')
  show ?case
  proof (cases "cs = []")
    case True
    with pass show ?thesis by (simp add: ProcessReadyCallbacks_def)
  next
    case False
    then obtain kept callbacks where r: "remove_if_ready (QueryCallback_InvokeIfReady code) cs [] w = Inr (kept, callbacks, w')"
      and "cs' = callbacks @ kept"
      using pass(2) by (auto simp: ProcessReadyCallbacks_def bind_res_eq_Inr)
    then have "waiting cs' + delivered w' + issued w = waiting cs + delivered w + issued w'"
      using remove_if_ready_futures [OF assms r] by (simp add: ac_simps)
    with pass.IH show ?thesis by (simp add: ac_simps)
  qed
qed

definition calls_true :: "'r cb_world \<Rightarrow> bool" where
  "calls_true w \<longleftrightarrow> (\<forall>(callback, f, v) \<in> set (cw_calls w). cw_promises w f = Fulfilled v)"

lemma query_invoke_calls_true:
  assumes "QueryCallback_InvokeIfReady code q w = Inr (complete, q', added, w')" "calls_true w"
  shows "calls_true w'"
proof -
  have "set (cw_calls w') \<subseteq> set (cw_calls w) \<union> {(h, f, v) | h f v. cw_promises w f = Fulfilled v}"
    using assms(1)
    by (auto simp: QueryCallback_InvokeIfReady_def bind_res_eq_Inr dest!: run_cb_ops_calls
        split: list.splits option.splits promise.splits if_splits)
  then show ?thesis
    using assms(2) query_invoke_promises [OF assms(1)] by (fastforce simp: calls_true_def)
qed

lemma remove_if_ready_calls_true:
  "remove_if_ready (QueryCallback_InvokeIfReady code) cs callbacks w = Inr (kept, callbacks', w') \<Longrightarrow> calls_true w
   \<Longrightarrow> calls_true w'"
proof (induction cs arbitrary: callbacks w kept)
  case (Cons c cs)
  then obtain b c' added v rest where "QueryCallback_InvokeIfReady code c w = Inr (b, c', added, v)"
    and r: "remove_if_ready (QueryCallback_InvokeIfReady code) cs (callbacks @ added) v = Inr (rest, callbacks', w')"
    by (auto simp: bind_res_eq_Inr)
  then have "calls_true v" using query_invoke_calls_true Cons.prems(2) by blast
  with Cons.IH [OF r] show ?case .
qed simp

lemma reach_calls_true: "processor_reach code cs w \<Longrightarrow> calls_true w"
proof (induction rule: processor_reach.induct)
  case start
  show ?case by (simp add: calls_true_def fresh_world_def)
next
  case (issue cs w prepared q w' callables q')
  then show ?case by (auto simp: calls_true_def AsyncQuery_def)
next
  case (promise_set cs w f r)
  then show ?case by (fastforce simp: calls_true_def)
next
  case (pass cs w cs' w')
  then show ?case
    by (auto simp: ProcessReadyCallbacks_def bind_res_eq_Inr dest: remove_if_ready_calls_true split: if_splits)
qed

text \<open>
  C19: In every run of the program whose callables set at most one next query, every asynchronous query that
  was issued is exactly once either still awaited by the processor or delivered to a callable, and what
  was delivered is the value that the worker put into its promise.
\<close>

theorem results_delivered_once:
  assumes "\<forall>h v. next_queries (code h v) \<le> 1" and "processor_reach code cs w"
  shows "waiting cs + delivered w = mset [0..<cw_next w]
    \<and> (\<forall>(callback, f, v) \<in> set (cw_calls w). cw_promises w f = Fulfilled v)"
  using results_accounted [of code cs w] reach_calls_true [OF assms(2)] assms by (simp add: issued_def calls_true_def)

definition demo_code :: "nat \<Rightarrow> nat \<Rightarrow> cb_op list" where
  "demo_code h v = (if h = 0 then [NextQuery True, AddQuery True [(True, 2)]] else [])"

definition demo_callback :: query_callback where
  "demo_callback = \<lparr>qc_future = Some 0, qc_isPrepared = True, qc_callbacks = [(True, 0), (True, 1)]\<rparr>"

definition demo_issued :: "nat cb_world" where
  "demo_issued = \<lparr>cw_promises = (\<lambda>_. Pending)(0 := Fulfilled 7), cw_next = 1, cw_calls = []\<rparr>"

definition demo_passed :: "nat cb_world" where
  "demo_passed = \<lparr>cw_promises = (\<lambda>_. Pending)(0 := Fulfilled 7), cw_next = 3, cw_calls = [(0, 0, 7)]\<rparr>"

lemmas callback_defs = AddCallback_def QueryCallback_def WithChainingCallback_def WithChainingPreparedCallback_def
  SetNextQuery_def AsyncQuery_def with_callable_def checkStateAndReturnCompletion_def QueryCallback_InvokeIfReady_def
  ProcessReadyCallbacks_def

lemma demo_issued_reach: "processor_reach demo_code [demo_callback] demo_issued"
proof -
  have "processor_reach demo_code (AddCallback demo_callback []) (fresh_world\<lparr>cw_next := 1\<rparr>)"
    by (rule processor_reach.issue [OF processor_reach.start, of True "QueryCallback True 0" "fresh_world\<lparr>cw_next := 1\<rparr>" "[(True, 0), (True, 1)]"])
      (simp_all add: callback_defs fresh_world_def demo_callback_def)
  from processor_reach.promise_set [OF this, of 0 "Fulfilled 7"] show ?thesis
    by (simp add: fresh_world_def demo_issued_def AddCallback_def)
qed

lemma demo_pass:
  "ProcessReadyCallbacks (QueryCallback_InvokeIfReady demo_code) [demo_callback] demo_issued =
     Inr ([\<lparr>qc_future = Some 2, qc_isPrepared = True, qc_callbacks = [(True, 2)]\<rparr>,
           \<lparr>qc_future = Some 1, qc_isPrepared = True, qc_callbacks = [(True, 1)]\<rparr>], demo_passed)"
  by (simp add: callback_defs demo_callback_def demo_issued_def demo_code_def demo_passed_def)

theorem results_delivered_once_witness:
  "waiting [\<lparr>qc_future = Some 2, qc_isPrepared = True, qc_callbacks = [(True, 2)]\<rparr>,
            \<lparr>qc_future = Some 1, qc_isPrepared = True, qc_callbacks = [(True, 1)]\<rparr>]
     + delivered demo_passed = mset [0..<3]"
  using results_delivered_once [of demo_code, OF _ processor_reach.pass [OF demo_issued_reach demo_pass]]
  by (simp add: demo_code_def next_queries_def demo_passed_def)

subsection \<open>Chains of mixed kinds\<close>

lemma run_cb_ops_keeps:
  "run_cb_ops ops q added w = Inr (q', added', w')
   \<Longrightarrow> qc_isPrepared q' = qc_isPrepared q \<and> (\<exists>more. qc_callbacks q' = qc_callbacks q @ more)"
  by (induction ops q added w rule: run_cb_ops.induct)
    (fastforce simp: bind_res_eq_Inr AsyncQuery_def SetNextQuery_def with_callable_def
      WithChainingCallback_def WithChainingPreparedCallback_def split: if_splits)+

lemma mixed_chain_completes:
  assumes "qc_callbacks q = (qc_isPrepared q, h) # (\<not> qc_isPrepared q, h') # rest"
    and "QueryCallback_InvokeIfReady code q w = Inr (complete, q', added, w')"
  shows "complete \<or> (q' = q \<and> w' = w)"
proof (cases "future_ready w (qc_future q)")
  case False
  with query_cb.not_ready [of q w] assms show ?thesis by simp
next
  case True
  then obtain f v q1 where r: "run_cb_ops (code h v) (q\<lparr>qc_future := None\<rparr>) [] (w\<lparr>cw_calls := cw_calls w @ [(h, f, v)]\<rparr>) = Inr (q1, added, w')"
    and c: "checkStateAndReturnCompletion q1 = Inr (complete, q')"
    using assms by (auto simp: QueryCallback_InvokeIfReady_def bind_res_eq_Inr
        split: option.splits promise.splits if_splits)
  show ?thesis
    using run_cb_ops_keeps [OF r] c assms(1)
    by (auto simp: checkStateAndReturnCompletion_def Let_def bind_res_eq_Inr assert_res_eq_Inr split: if_splits)
qed

text \<open>
  A chain whose second callable has the other kind than its query is accepted when it is built, but the
  second callable is never called: a pass leaves such a callback as it is, completes it without going on, or
  stops the process at an assertion.
\<close>

theorem mixed_chain_never_continues:
  "\<exists>q. with_callables [(prepared, h), (\<not> prepared, h')] (QueryCallback prepared f) = Inr q
     \<and> (\<forall>w complete q' added w'. QueryCallback_InvokeIfReady code q w = Inr (complete, q', added, w')
          \<longrightarrow> complete \<or> (q' = q \<and> w' = w))"
proof -
  let ?q = "\<lparr>qc_future = Some f, qc_isPrepared = prepared, qc_callbacks = [(prepared, h), (\<not> prepared, h')]\<rparr>"
  have "with_callables [(prepared, h), (\<not> prepared, h')] (QueryCallback prepared f) = Inr ?q"
    by (cases prepared) (simp_all add: callback_defs)
  moreover have "\<And>w complete q' added w'. QueryCallback_InvokeIfReady code ?q w = Inr (complete, q', added, w')
      \<Longrightarrow> complete \<or> (q' = ?q \<and> w' = w)"
    by (rule mixed_chain_completes) simp_all
  ultimately show ?thesis by blast
qed

theorem mixed_chain_never_continues_witness:
  "\<exists>q. with_callables [(True, 0), (False, 1)] (QueryCallback True 0) = Inr q
     \<and> (\<exists>q'. QueryCallback_InvokeIfReady (\<lambda>h v. []) q demo_issued = Inr (True, q', [], demo_issued\<lparr>cw_calls := [(0, 0, 7)]\<rparr>))
     \<and> QueryCallback_InvokeIfReady demo_code q demo_issued = Inl AssertFailure
     \<and> (\<forall>w complete q' added w'. QueryCallback_InvokeIfReady demo_code q w = Inr (complete, q', added, w')
          \<longrightarrow> complete \<or> (q' = q \<and> w' = w))"
  using mixed_chain_never_continues [of True 0 1 0 demo_code]
  by (simp add: callback_defs demo_issued_def demo_code_def assert_res_def)

subsection \<open>Callbacks with one callable\<close>

text \<open>
  The way the bot uses the processor: every query has one callable of its own kind, and a callable only
  issues further queries of that sort.
\<close>

definition simple_callback :: "query_callback \<Rightarrow> bool" where
  "simple_callback q = (case qc_callbacks q of [(prepared, h)] \<Rightarrow> prepared = qc_isPrepared q | _ \<Rightarrow> False)"

definition simple_op :: "cb_op \<Rightarrow> bool" where
  "simple_op op = (case op of AddQuery prepared [(prepared', h)] \<Rightarrow> prepared' = prepared | _ \<Rightarrow> False)"

definition delivery :: "'r cb_world \<Rightarrow> query_callback \<Rightarrow> (nat \<times> nat \<times> 'r) list" where
  "delivery w q = (case (qc_callbacks q, qc_future q) of
       ((prepared, h) # _, Some f) \<Rightarrow> (case cw_promises w f of Fulfilled v \<Rightarrow> [(h, f, v)] | _ \<Rightarrow> [])
     | _ \<Rightarrow> [])"

definition unbroken :: "'r cb_world \<Rightarrow> query_callback \<Rightarrow> bool" where
  "unbroken w q = (case qc_future q of None \<Rightarrow> True | Some f \<Rightarrow> (case cw_promises w f of Broken \<Rightarrow> False | _ \<Rightarrow> True))"

lemma simple_callbackD: "simple_callback q \<Longrightarrow> \<exists>h. qc_callbacks q = [(qc_isPrepared q, h)]"
  by (auto simp: simple_callback_def split: list.splits)

lemma simple_opD: "simple_op op \<Longrightarrow> \<exists>prepared h. op = AddQuery prepared [(prepared, h)]"
  by (auto simp: simple_op_def split: cb_op.splits list.splits)

lemma simple_query: "\<exists>q'. with_callables [(prepared, h)] (QueryCallback prepared f) = Inr q' \<and> simple_callback q'"
  by (cases prepared) (simp_all add: callback_defs simple_callback_def)

lemma simple_ops_run:
  "list_all simple_op ops
   \<Longrightarrow> \<exists>new w'. run_cb_ops ops q added w = Inr (q, added @ new, w') \<and> list_all simple_callback new"
proof (induction ops arbitrary: added w)
  case (Cons op ops)
  obtain prepared h where o: "op = AddQuery prepared [(prepared, h)]" using simple_opD [of op] Cons.prems by auto
  obtain q' where q': "with_callables [(prepared, h)] (QueryCallback prepared (cw_next w)) = Inr q'" "simple_callback q'"
    using simple_query by blast
  obtain new w' where "run_cb_ops ops q (added @ [q']) (w\<lparr>cw_next := cw_next w + 1\<rparr>) = Inr (q, (added @ [q']) @ new, w')"
    "list_all simple_callback new"
    using Cons.IH [of "added @ [q']" "w\<lparr>cw_next := cw_next w + 1\<rparr>"] Cons.prems by auto
  with q' show ?case by (intro exI [of _ "q' # new"] exI [of _ w']) (simp add: o AsyncQuery_def AddCallback_def)
qed simp

lemma simple_invoke:
  assumes "simple_callback q" "unbroken w q" "\<And>h v. list_all simple_op (code h v)"
  shows "\<exists>complete q' added w'. QueryCallback_InvokeIfReady code q w = Inr (complete, q', added, w')
    \<and> list_all simple_callback added \<and> cw_calls w' = cw_calls w @ delivery w q
    \<and> (if future_ready w (qc_future q) then complete else \<not> complete \<and> q' = q)"
proof (cases "future_ready w (qc_future q)")
  case False
  have d: "delivery w q = []"
    using False by (auto simp: delivery_def split: list.splits option.splits promise.splits)
  have "qc_callbacks q \<noteq> []" using simple_callbackD [OF assms(1)] by auto
  from query_cb.not_ready [OF this False] d False show ?thesis by auto
next
  case True
  obtain h where h: "qc_callbacks q = [(qc_isPrepared q, h)]" using simple_callbackD [OF assms(1)] by blast
  obtain f v where f: "qc_future q = Some f" and v: "cw_promises w f = Fulfilled v"
    using True assms(2) by (cases "qc_future q") (auto simp: unbroken_def split: promise.splits)
  define q1 where "q1 = q\<lparr>qc_future := None\<rparr>"
  define w1 where "w1 = w\<lparr>cw_calls := cw_calls w @ [(h, f, v)]\<rparr>"
  obtain new w' where r: "run_cb_ops (code h v) q1 [] w1 = Inr (q1, new, w')" and s: "list_all simple_callback new"
    using simple_ops_run [OF assms(3), of h v q1 "[]" w1] by auto
  have "QueryCallback_InvokeIfReady code q w = Inr (True, q1\<lparr>qc_callbacks := []\<rparr>, new, w')"
    using r by (simp add: QueryCallback_InvokeIfReady_def h f v checkStateAndReturnCompletion_def
        q1_def [symmetric] w1_def [symmetric]) (simp add: q1_def h)
  moreover have "cw_calls w' = cw_calls w @ delivery w q"
    using run_cb_ops_calls [OF r] by (simp add: w1_def delivery_def h f v)
  ultimately show ?thesis using s True by auto
qed

lemma simple_remove:
  assumes code: "\<And>h v. list_all simple_op (code h v)"
  shows "list_all simple_callback cs \<Longrightarrow> list_all (unbroken w) cs
    \<Longrightarrow> \<exists>new w'. remove_if_ready (QueryCallback_InvokeIfReady code) cs callbacks w
          = Inr (filter (\<lambda>q. \<not> future_ready w (qc_future q)) cs, callbacks @ new, w')
        \<and> list_all simple_callback new \<and> cw_calls w' = cw_calls w @ concat (map (delivery w) cs)"
proof (induction cs arbitrary: callbacks w)
  case (Cons q cs)
  then obtain complete q' added v where i: "QueryCallback_InvokeIfReady code q w = Inr (complete, q', added, v)"
    and a: "list_all simple_callback added" "cw_calls v = cw_calls w @ delivery w q"
    and c: "if future_ready w (qc_future q) then complete else \<not> complete \<and> q' = q"
    using simple_invoke [of q w code] code by auto
  have p: "cw_promises v = cw_promises w" by (rule query_invoke_promises [OF i])
  have eqs: "future_ready v = future_ready w" "delivery v = delivery w" "unbroken v = unbroken w"
    by (rule ext, simp add: future_ready_def delivery_def unbroken_def p cong: option.case_cong list.case_cong prod.case_cong)+
  obtain new w' where "remove_if_ready (QueryCallback_InvokeIfReady code) cs (callbacks @ added) v
        = Inr (filter (\<lambda>q. \<not> future_ready v (qc_future q)) cs, (callbacks @ added) @ new, w')"
      "list_all simple_callback new" "cw_calls w' = cw_calls v @ concat (map (delivery v) cs)"
    using Cons.IH [of v "callbacks @ added"] Cons.prems eqs by auto
  with i a c eqs show ?case
    by (intro exI [of _ "added @ new"] exI [of _ w']) auto
qed simp

text \<open>
  C20: For callbacks with one callable of the kind of their query and promises that keep their values, a pass of the
  processor always returns: it calls the callables of the queries whose results are there, each once, in the order
  of the processor and with the result; it keeps the callbacks still without a result unchanged and in order, behind
  those the callables added, which are again of this sort.
\<close>

theorem ready_callbacks_called:
  assumes "\<forall>h v. list_all simple_op (code h v)"
    and "list_all simple_callback cs" and "list_all (unbroken w) cs"
  shows "\<exists>new w'. ProcessReadyCallbacks (QueryCallback_InvokeIfReady code) cs w
          = Inr (new @ filter (\<lambda>q. \<not> future_ready w (qc_future q)) cs, w')
        \<and> list_all simple_callback new \<and> cw_calls w' = cw_calls w @ concat (map (delivery w) cs)"
  using simple_remove [of code cs w "[]"] assms by (cases "cs = []") (auto simp: ProcessReadyCallbacks_def)

definition plain_callback :: "nat \<Rightarrow> nat \<Rightarrow> query_callback" where
  "plain_callback f h = \<lparr>qc_future = Some f, qc_isPrepared = True, qc_callbacks = [(True, h)]\<rparr>"

theorem ready_callbacks_called_witness:
  "\<exists>new w'. ProcessReadyCallbacks (QueryCallback_InvokeIfReady (\<lambda>h v. if h = 4 then [AddQuery False [(False, 6)]] else []))
       [plain_callback 1 5, plain_callback 0 4] demo_issued = Inr (new @ [plain_callback 1 5], w')
     \<and> list_all simple_callback new \<and> cw_calls w' = [(4, 0, 7)]"
  using ready_callbacks_called
    [of "\<lambda>h v. if h = 4 then [AddQuery False [(False, 6)]] else []" "[plain_callback 1 5, plain_callback 0 4]" demo_issued]
  by (simp add: simple_op_def simple_callback_def unbroken_def plain_callback_def demo_issued_def delivery_def future_ready_def)

subsection \<open>Query holders\<close>

text \<open>
  A holder maps an index to a query and its result, both variants in the source.  A result of
  \<open>Query(sql)\<close> also has its row cursor, which \<open>NextRow\<close> moves; that of a statement is read without moving it.
  \<open>GetResult\<close> is \<open>const\<close> but shares the result, so it returns the holder with the moved cursor.  Reading the other
  alternative of the variant throws and is caught.
\<close>

datatype holder_query = HolderSql string | HolderStmt "statement option"

datatype holder_result = HolderResult "(result_set \<times> nat) option" | HolderPrepared "(bool \<times> result_set) option"

type_synonym query_holder = "(nat \<times> (holder_query \<times> holder_result)) list"

definition cursor_NextRow :: "result_set \<times> nat \<Rightarrow> bool \<times> (result_set \<times> nat)" where
  "cursor_NextRow r = (let ((rows, cols), pos) = r in if pos < rows then (True, ((rows, cols), pos + 1)) else (False, r))"

definition set_holder_result :: "nat \<Rightarrow> holder_result \<Rightarrow> query_holder \<Rightarrow> query_holder" where
  "set_holder_result index r h = map (\<lambda>(i, q, r'). (i, q, if i = index then r else r')) h"

definition GetResult :: "nat \<Rightarrow> query_holder \<Rightarrow> (result_set \<times> nat) option \<times> query_holder" where
  "GetResult index h =
     (case map_of h index of
        Some (_, HolderResult (Some ((rows, cols), pos))) \<Rightarrow>
          if rows = 0 then (None, h)
          else let (b, r) = cursor_NextRow ((rows, cols), pos);
                   h = set_holder_result index (HolderResult (Some r)) h
               in (if b then Some r else None, h)
      | _ \<Rightarrow> (None, h))"

definition GetPreparedResult :: "nat \<Rightarrow> query_holder \<Rightarrow> (bool \<times> result_set) option" where
  "GetPreparedResult index h =
     (case map_of h index of
        Some (_, HolderPrepared (Some (meta, rows, cols))) \<Rightarrow> if rows = 0 then None else Some (meta, rows, cols)
      | _ \<Rightarrow> None)"

definition SetResult :: "nat \<Rightarrow> result_set option \<Rightarrow> query_holder \<Rightarrow> query_holder" where
  "SetResult index result h =
     set_holder_result index (HolderResult (case result of
        None \<Rightarrow> None | Some (rows, cols) \<Rightarrow> if rows = 0 then None else Some ((rows, cols), 0))) h"

definition SetPreparedResult :: "nat \<Rightarrow> (bool \<times> result_set) option \<Rightarrow> query_holder \<Rightarrow> query_holder" where
  "SetPreparedResult index result h =
     set_holder_result index (HolderPrepared (case result of
        None \<Rightarrow> None | Some (meta, rows, cols) \<Rightarrow> if rows = 0 then None else Some (meta, rows, cols))) h"

definition Holder_AddQuery :: "nat \<Rightarrow> string \<Rightarrow> query_holder \<Rightarrow> bool \<times> query_holder" where
  "Holder_AddQuery index sql h =
     (if map_of h index \<noteq> None then (False, h) else (True, emplace index (HolderSql sql, HolderResult None) h))"

definition AddPreparedQuery :: "nat \<Rightarrow> statement option \<Rightarrow> query_holder \<Rightarrow> bool \<times> query_holder" where
  "AddPreparedQuery index stmt h =
     (if map_of h index \<noteq> None then (False, h) else (True, emplace index (HolderStmt stmt, HolderResult None) h))"

fun holder_loop :: "client \<Rightarrow> query_holder \<Rightarrow> query_holder \<Rightarrow> connection \<Rightarrow> (query_holder res \<times> connection) option" where
  "holder_loop cl [] h c = Some (Inr h, c)"
| "holder_loop cl ((index, HolderSql sql, _) # qs) h c =
     and_then (Query_sql cl sql c) (\<lambda>r c. holder_loop cl qs (SetResult index r h) c)"
| "holder_loop cl ((index, HolderStmt stmt, _) # qs) h c =
     and_then (Query_stmt cl stmt c) (\<lambda>r c. holder_loop cl qs (SetPreparedResult index r h) c)"

definition SQLQueryHolderTask_ExecuteQuery :: "client \<Rightarrow> query_holder \<Rightarrow> connection \<Rightarrow> (query_holder res \<times> connection) option" where
  "SQLQueryHolderTask_ExecuteQuery cl h c = holder_loop cl h h c"

lemma map_of_set_holder_result:
  "map_of (set_holder_result index r h) i =
     (if i = index then map_option (\<lambda>(q, _). (q, r)) (map_of h i) else map_of h i)"
  by (induction h) (auto simp: set_holder_result_def)

lemma and_then_SomeE:
  "and_then m f = Some (Inr y, s') \<Longrightarrow> (\<And>x s. m = Some (Inr x, s) \<Longrightarrow> f x s = Some (Inr y, s') \<Longrightarrow> P) \<Longrightarrow> P"
  by (auto simp: and_then_def split: option.splits sum.splits prod.splits)

text \<open>What a query of the holder answered is what its result says.\<close>

definition answered :: "client \<Rightarrow> holder_query \<Rightarrow> holder_result \<Rightarrow> bool" where
  "answered cl q r = (case q of
       HolderSql sql \<Rightarrow> (\<exists>c c' a. Query_sql cl sql c = Some (Inr a, c')
         \<and> r = HolderResult (case a of None \<Rightarrow> None | Some (rows, cols) \<Rightarrow> if rows = 0 then None else Some ((rows, cols), 0)))
     | HolderStmt stmt \<Rightarrow> (\<exists>c c' a. Query_stmt cl stmt c = Some (Inr a, c')
         \<and> r = HolderPrepared (case a of None \<Rightarrow> None | Some (meta, rows, cols) \<Rightarrow> if rows = 0 then None else Some (meta, rows, cols))))"

lemma holder_loop_results:
  "holder_loop cl qs h c = Some (Inr h', c') \<Longrightarrow> distinct (map fst qs) \<Longrightarrow> (\<And>i q r. (i, q, r) \<in> set qs \<Longrightarrow> \<exists>r'. map_of h i = Some (q, r'))
   \<Longrightarrow> (\<forall>(i, q, r) \<in> set qs. \<exists>r'. map_of h' i = Some (q, r') \<and> answered cl q r')
     \<and> (\<forall>i. i \<notin> fst ` set qs \<longrightarrow> map_of h' i = map_of h i)"
proof (induction cl qs h c rule: holder_loop.induct)
  case (1 cl h c)
  then show ?case by simp
next
  case (2 cl index sql r0 qs h c)
  obtain r c1 where r: "Query_sql cl sql c = Some (Inr r, c1)" and l: "holder_loop cl qs (SetResult index r h) c1 = Some (Inr h', c')"
    using "2.prems"(1) by (auto elim: and_then_SomeE)
  obtain r' where h: "map_of h index = Some (HolderSql sql, r')" using "2.prems"(3) [of index "HolderSql sql" r0] by auto
  have n: "index \<notin> fst ` set qs" using "2.prems"(2) by simp
  have "(\<forall>(i, q, r) \<in> set qs. \<exists>r'. map_of h' i = Some (q, r') \<and> answered cl q r')
     \<and> (\<forall>i. i \<notin> fst ` set qs \<longrightarrow> map_of h' i = map_of (SetResult index r h) i)"
  proof (rule "2.IH" [OF l])
    show "distinct (map fst qs)" using "2.prems"(2) by simp
    show "\<exists>r'. map_of (SetResult index r h) i = Some (q, r')" if "(i, q, r1) \<in> set qs" for i q r1
      using "2.prems"(3) [of i q r1] that n by (force simp: SetResult_def map_of_set_holder_result)
  qed
  moreover have "\<exists>r'. map_of (SetResult index r h) index = Some (HolderSql sql, r') \<and> answered cl (HolderSql sql) r'"
    using r h by (auto simp: SetResult_def map_of_set_holder_result answered_def)
  ultimately show ?case using n by (auto simp: SetResult_def map_of_set_holder_result)
next
  case (3 cl index stmt r0 qs h c)
  obtain r c1 where r: "Query_stmt cl stmt c = Some (Inr r, c1)" and l: "holder_loop cl qs (SetPreparedResult index r h) c1 = Some (Inr h', c')"
    using "3.prems"(1) by (auto elim: and_then_SomeE)
  obtain r' where h: "map_of h index = Some (HolderStmt stmt, r')" using "3.prems"(3) [of index "HolderStmt stmt" r0] by auto
  have n: "index \<notin> fst ` set qs" using "3.prems"(2) by simp
  have "(\<forall>(i, q, r) \<in> set qs. \<exists>r'. map_of h' i = Some (q, r') \<and> answered cl q r')
     \<and> (\<forall>i. i \<notin> fst ` set qs \<longrightarrow> map_of h' i = map_of (SetPreparedResult index r h) i)"
  proof (rule "3.IH" [OF l])
    show "distinct (map fst qs)" using "3.prems"(2) by simp
    show "\<exists>r'. map_of (SetPreparedResult index r h) i = Some (q, r')" if "(i, q, r1) \<in> set qs" for i q r1
      using "3.prems"(3) [of i q r1] that n by (force simp: SetPreparedResult_def map_of_set_holder_result)
  qed
  moreover have "\<exists>r'. map_of (SetPreparedResult index r h) index = Some (HolderStmt stmt, r') \<and> answered cl (HolderStmt stmt) r'"
    using r h by (auto simp: SetPreparedResult_def map_of_set_holder_result answered_def)
  ultimately show ?case using n by (auto simp: SetPreparedResult_def map_of_set_holder_result)
qed

text \<open>
  The indices of a holder are distinct, and after the task every index has the answer of its own
  query, of the kind of the query.
\<close>

lemma holder_indices:
  "distinct (map fst h) \<Longrightarrow> distinct (map fst (snd (Holder_AddQuery index sql h)))"
  "distinct (map fst h) \<Longrightarrow> distinct (map fst (snd (AddPreparedQuery index stmt h)))"
  by (simp_all add: Holder_AddQuery_def AddPreparedQuery_def distinct_emplace)

lemma holder_task_answers:
  assumes "distinct (map fst h)" and "SQLQueryHolderTask_ExecuteQuery cl h c = Some (Inr h', c')"
    and "map_of h index = Some (q, r)"
  shows "\<exists>r'. map_of h' index = Some (q, r') \<and> answered cl q r'"
proof -
  have l: "holder_loop cl h h c = Some (Inr h', c')" using assms(2) by (simp add: SQLQueryHolderTask_ExecuteQuery_def)
  have "\<forall>(i, q, r) \<in> set h. \<exists>r'. map_of h' i = Some (q, r') \<and> answered cl q r'"
    by (rule conjunct1 [OF holder_loop_results [OF l assms(1)]]) (use assms(1) in auto)
  with map_of_SomeD [OF assms(3)] show ?thesis by blast
qed

text \<open>Asked twice, a holder gives the second row of the result as the current one, or nothing when there is only one row.\<close>

lemma second_get_moves_cursor:
  assumes "map_of h index = Some (q, HolderResult (Some ((rows, cols), 0)))" "0 < rows"
  shows "fst (GetResult index h) = Some ((rows, cols), 1)"
    and "fst (GetResult index (snd (GetResult index h))) = (if rows = 1 then None else Some ((rows, cols), 2))"
  using assms by (auto simp: GetResult_def cursor_NextRow_def map_of_set_holder_result)

end
