(* ===== verification/Utf8.thy ===== *)
theory Utf8
  imports StrUtil
begin

unbundle bit_operations_syntax

section \<open>UTF-8 and wide strings\<close>

text \<open>
  The conversions between UTF-8 and UTF-16 that the bot uses for the names of players:
  the checked functions of the bundled UTF8-CPP (\<^verbatim>\<open>src/deps/utf8cpp/utf8/core.h\<close> and \<^verbatim>\<open>checked.h\<close>),
  \<open>Utf8toWStr\<close> and \<open>WStrToUtf8\<close> of \<^verbatim>\<open>Util.cpp\<close> and the case mapping of wide characters in \<^verbatim>\<open>Util.h\<close>.

  Octets, UTF-16 units and code points are natural numbers; the shifts of an octet by at most 18
  bits stay within \<^verbatim>\<open>uint32_t\<close>, the casts to \<^verbatim>\<open>uint8_t\<close> and \<^verbatim>\<open>uint16_t\<close> and the one sum that wraps around are
  written out.  An iterator is the list of what is left from it to the end.
\<close>

subsection \<open>Octets\<close>

definition mask8 :: "nat \<Rightarrow> nat" where
  "mask8 oc = 0xff AND oc"

definition mask16 :: "nat \<Rightarrow> nat" where
  "mask16 oc = 0xffff AND oc"

definition is_trail :: "nat \<Rightarrow> bool" where
  "is_trail oc \<longleftrightarrow> drop_bit 6 (mask8 oc) = 0x2"

definition is_lead_surrogate :: "nat \<Rightarrow> bool" where
  "is_lead_surrogate cp \<longleftrightarrow> 0xd800 \<le> cp \<and> cp \<le> 0xdbff"

definition is_trail_surrogate :: "nat \<Rightarrow> bool" where
  "is_trail_surrogate cp \<longleftrightarrow> 0xdc00 \<le> cp \<and> cp \<le> 0xdfff"

definition is_surrogate :: "nat \<Rightarrow> bool" where
  "is_surrogate cp \<longleftrightarrow> 0xd800 \<le> cp \<and> cp \<le> 0xdfff"

definition is_code_point_valid :: "nat \<Rightarrow> bool" where
  "is_code_point_valid cp \<longleftrightarrow> cp \<le> 0x10ffff \<and> \<not> is_surrogate cp"

definition sequence_length :: "nat \<Rightarrow> nat" where
  "sequence_length lead =
     (let lead = mask8 lead
      in if lead < 0x80 then 1
         else if drop_bit 5 lead = 0x6 then 2
         else if drop_bit 4 lead = 0xe then 3
         else if drop_bit 3 lead = 0x1e then 4
         else 0)"

definition is_overlong_sequence :: "nat \<Rightarrow> nat \<Rightarrow> bool" where
  "is_overlong_sequence cp len =
     (if cp < 0x80 then len \<noteq> 1
      else if cp < 0x800 then len \<noteq> 2
      else if cp < 0x10000 then len \<noteq> 3
      else False)"

datatype utf_error = NOT_ENOUGH_ROOM | INVALID_LEAD | INCOMPLETE_SEQUENCE | OVERLONG_SEQUENCE | INVALID_CODE_POINT

subsection \<open>Decoding one code point\<close>

text \<open>
  A failed step is \<open>Inl\<close> of its error.  The functions \<open>get_sequence_x\<close> return the code point and the iterator
  at the last octet of the sequence.
\<close>

fun and_next :: "'e + 'a \<Rightarrow> ('a \<Rightarrow> 'e + 'b) \<Rightarrow> 'e + 'b" where
  "and_next (Inl e) f = Inl e"
| "and_next (Inr x) f = f x"

definition increase_safely :: "nat list \<Rightarrow> utf_error + nat list" where
  "increase_safely it =
     (case tl it of
        [] \<Rightarrow> Inl NOT_ENOUGH_ROOM
      | oc # _ \<Rightarrow> if \<not> is_trail oc then Inl INCOMPLETE_SEQUENCE else Inr (tl it))"

definition get_sequence_1 :: "nat list \<Rightarrow> utf_error + nat \<times> nat list" where
  "get_sequence_1 it = (if it = [] then Inl NOT_ENOUGH_ROOM else Inr (mask8 (hd it), it))"

definition get_sequence_2 :: "nat list \<Rightarrow> utf_error + nat \<times> nat list" where
  "get_sequence_2 it =
     (if it = [] then Inl NOT_ENOUGH_ROOM
      else let code_point = mask8 (hd it)
           in and_next (increase_safely it) (\<lambda>it.
                Inr ((push_bit 6 code_point AND 0x7ff) + (hd it AND 0x3f), it)))"

definition get_sequence_3 :: "nat list \<Rightarrow> utf_error + nat \<times> nat list" where
  "get_sequence_3 it =
     (if it = [] then Inl NOT_ENOUGH_ROOM
      else let code_point = mask8 (hd it)
           in and_next (increase_safely it) (\<lambda>it.
                let code_point = (push_bit 12 code_point AND 0xffff) + (push_bit 6 (mask8 (hd it)) AND 0xfff)
                in and_next (increase_safely it) (\<lambda>it. Inr (code_point + (hd it AND 0x3f), it))))"

definition get_sequence_4 :: "nat list \<Rightarrow> utf_error + nat \<times> nat list" where
  "get_sequence_4 it =
     (if it = [] then Inl NOT_ENOUGH_ROOM
      else let code_point = mask8 (hd it)
           in and_next (increase_safely it) (\<lambda>it.
                let code_point = (push_bit 18 code_point AND 0x1fffff) + (push_bit 12 (mask8 (hd it)) AND 0x3ffff)
                in and_next (increase_safely it) (\<lambda>it.
                     let code_point = code_point + (push_bit 6 (mask8 (hd it)) AND 0xfff)
                     in and_next (increase_safely it) (\<lambda>it. Inr (code_point + (hd it AND 0x3f), it)))))"

definition validate_next :: "nat list \<Rightarrow> utf_error + nat \<times> nat list" where
  "validate_next it =
     (if it = [] then Inl NOT_ENOUGH_ROOM
      else let len = sequence_length (hd it)
           in if len = 0 then Inl INVALID_LEAD
              else and_next
                (if len = 1 then get_sequence_1 it
                 else if len = 2 then get_sequence_2 it
                 else if len = 3 then get_sequence_3 it
                 else get_sequence_4 it)
                (\<lambda>(cp, it).
                   if is_code_point_valid cp then
                     if \<not> is_overlong_sequence cp len then Inr (cp, tl it) else Inl OVERLONG_SEQUENCE
                   else Inl INVALID_CODE_POINT))"

subsection \<open>The checked interface\<close>

datatype utf8_exception = invalid_code_point nat | invalid_utf8 nat | invalid_utf16 nat | not_enough_room

definition append_cp :: "nat \<Rightarrow> utf8_exception + nat list" where
  "append_cp cp =
     (if \<not> is_code_point_valid cp then Inl (invalid_code_point cp)
      else if cp < 0x80 then Inr [cp mod 256]
      else if cp < 0x800 then
        Inr [(drop_bit 6 cp OR 0xc0) mod 256, ((cp AND 0x3f) OR 0x80) mod 256]
      else if cp < 0x10000 then
        Inr [(drop_bit 12 cp OR 0xe0) mod 256, ((drop_bit 6 cp AND 0x3f) OR 0x80) mod 256, ((cp AND 0x3f) OR 0x80) mod 256]
      else
        Inr [(drop_bit 18 cp OR 0xf0) mod 256, ((drop_bit 12 cp AND 0x3f) OR 0x80) mod 256,
             ((drop_bit 6 cp AND 0x3f) OR 0x80) mod 256, ((cp AND 0x3f) OR 0x80) mod 256])"

text \<open>On an error \<open>validate_next\<close> leaves the iterator where it was; the code point of the exception is then zero.\<close>

definition next_cp :: "nat list \<Rightarrow> utf8_exception + nat \<times> nat list" where
  "next_cp it =
     (case validate_next it of
        Inr r \<Rightarrow> Inr r
      | Inl NOT_ENOUGH_ROOM \<Rightarrow> Inl not_enough_room
      | Inl INVALID_CODE_POINT \<Rightarrow> Inl (invalid_code_point 0)
      | Inl _ \<Rightarrow> Inl (invalid_utf8 (hd it)))"

fun utf16to8 :: "nat list \<Rightarrow> utf8_exception + nat list" where
  "utf16to8 [] = Inr []"
| "utf16to8 [u] =
     (let cp = mask16 u
      in if is_lead_surrogate cp then Inl (invalid_utf16 cp)
         else if is_trail_surrogate cp then Inl (invalid_utf16 cp)
         else append_cp cp)"
| "utf16to8 (u # v # us) =
     (let cp = mask16 u
      in if is_lead_surrogate cp then
           let trail_surrogate = mask16 v
           in if is_trail_surrogate trail_surrogate then
                and_next (append_cp ((push_bit 10 cp + trail_surrogate + 0xfca02400) mod 2 ^ 32)) (\<lambda>os.
                  and_next (utf16to8 us) (\<lambda>rest. Inr (os @ rest)))
              else Inl (invalid_utf16 trail_surrogate)
         else if is_trail_surrogate cp then Inl (invalid_utf16 cp)
         else and_next (append_cp cp) (\<lambda>os. and_next (utf16to8 (v # us)) (\<lambda>rest. Inr (os @ rest))))"

definition units_of :: "nat \<Rightarrow> nat list" where
  "units_of cp =
     (if cp > 0xffff then [(drop_bit 10 cp + 0xd7c0) mod 65536, ((cp AND 0x3ff) + 0xdc00) mod 65536]
      else [cp mod 65536])"

lemma increase_safely_shorter: "increase_safely it = Inr it' \<Longrightarrow> it' \<noteq> [] \<and> length it' < length it"
  by (cases it) (auto simp: increase_safely_def split: list.splits if_splits)

lemma and_next_eq_Inr [simp]: "and_next m f = Inr y \<longleftrightarrow> (\<exists>x. m = Inr x \<and> f x = Inr y)"
  by (cases m) simp_all

lemma validate_next_shorter: "validate_next it = Inr (cp, it') \<Longrightarrow> length it' < length it"
  by (auto simp: validate_next_def get_sequence_1_def get_sequence_2_def get_sequence_3_def get_sequence_4_def Let_def
      dest!: increase_safely_shorter split: if_splits)

lemma next_cp_Inr [simp]: "next_cp it = Inr r \<longleftrightarrow> validate_next it = Inr r"
  by (auto simp: next_cp_def split: sum.splits utf_error.splits)

function utf8to16 :: "nat list \<Rightarrow> utf8_exception + nat list" where
  "utf8to16 it =
     (if it = [] then Inr []
      else case next_cp it of
             Inl e \<Rightarrow> Inl e
           | Inr (cp, it') \<Rightarrow> and_next (utf8to16 it') (\<lambda>rest. Inr (units_of cp @ rest)))"
  by pat_completeness auto

termination
  by (relation "measure length") (auto dest: validate_next_shorter)

declare utf8to16.simps [simp del]

subsection \<open>The octets of a code point\<close>

lemma and_mask_mod: "(n :: nat) AND (2 ^ k - 1) = n mod 2 ^ k"
  by (simp only: mask_eq_exp_minus_1 [symmetric] take_bit_eq_mask [symmetric] take_bit_eq_mod)

lemma mask_and_mod: "(2 ^ k - 1) AND (n :: nat) = n mod 2 ^ k"
  using and_mask_mod [of n k] by (simp only: and.commute)

lemmas and_low_bits =
  and_mask_mod [of _ 6, simplified] and_mask_mod [of _ 10, simplified] and_mask_mod [of _ 11, simplified]
  and_mask_mod [of _ 12, simplified] and_mask_mod [of _ 16, simplified] and_mask_mod [of _ 18, simplified]
  and_mask_mod [of _ 21, simplified] mask_and_mod [of 8, simplified] mask_and_mod [of 16, simplified]

lemmas or_lead_bits = or_disjoint [of _ 6 2, simplified] or_disjoint [of _ 6 3, simplified]
  or_disjoint [of _ 5 7, simplified] or_disjoint [of _ 4 15, simplified]

lemma shift_low_bits: "(a::nat) < m \<Longrightarrow> (c * m + a) * s mod (m * s) = a * s"
  by (metis mod_less mod_mult_mult2 mod_mult_self3)

definition encode_cp :: "nat \<Rightarrow> nat list" where
  "encode_cp cp =
     (if cp < 0x80 then [cp]
      else if cp < 0x800 then [192 + cp div 64, 128 + cp mod 64]
      else if cp < 0x10000 then [224 + cp div 4096, 128 + cp div 64 mod 64, 128 + cp mod 64]
      else [240 + cp div 262144, 128 + cp div 4096 mod 64, 128 + cp div 64 mod 64, 128 + cp mod 64])"

lemma append_cp_eq: "append_cp cp = (if is_code_point_valid cp then Inr (encode_cp cp) else Inl (invalid_code_point cp))"
proof (cases "is_code_point_valid cp")
  case True
  then have "cp \<le> 1114111" by (simp add: is_code_point_valid_def)
  then have "cp < 2048 \<Longrightarrow> cp div 64 < 32" "cp < 65536 \<Longrightarrow> cp div 4096 < 16" "cp div 262144 < 8"
    by simp_all
  then show ?thesis
    using True
    by (auto simp: append_cp_def encode_cp_def and_low_bits drop_bit_eq_div or_lead_bits)
qed (simp add: append_cp_def)

lemma trail_octet: "oc < 256 \<Longrightarrow> is_trail oc \<longleftrightarrow> (\<exists>b < 64. oc = 128 + b)"
proof -
  assume o: "oc < 256"
  have "is_trail oc \<longleftrightarrow> oc div 64 = 2" using o by (simp add: is_trail_def mask8_def and_low_bits drop_bit_eq_div)
  also have "\<dots> \<longleftrightarrow> 128 \<le> oc \<and> oc < 192" by auto
  also have "\<dots> \<longleftrightarrow> (\<exists>b < 64. oc = 128 + b)" by (auto intro: exI [of _ "oc - 128"])
  finally show ?thesis .
qed

lemma lead_octet:
  assumes "oc < 256"
  shows "sequence_length oc =
    (if oc < 128 then 1 else if 192 \<le> oc \<and> oc < 224 then 2 else if 224 \<le> oc \<and> oc < 240 then 3
     else if 240 \<le> oc \<and> oc < 248 then 4 else 0)"
proof -
  have "oc div 32 = 6 \<longleftrightarrow> 192 \<le> oc \<and> oc < 224" "oc div 16 = 14 \<longleftrightarrow> 224 \<le> oc \<and> oc < 240"
    "oc div 8 = 30 \<longleftrightarrow> 240 \<le> oc \<and> oc < 248" by auto
  then show ?thesis using assms by (simp add: sequence_length_def mask8_def and_low_bits drop_bit_eq_div)
qed

lemma increase_safely_Inr:
  assumes "list_all (\<lambda>oc. oc < 256) (x # it)"
  shows "increase_safely (x # it) = Inr it' \<longleftrightarrow> (\<exists>b rest. b < 64 \<and> it = (128 + b) # rest \<and> it' = it)"
  using assms by (cases it) (auto simp: increase_safely_def trail_octet split: if_splits)

lemma sequence_values:
  assumes "b < 64" "c < 64" "d < 64"
  shows "a < 32 \<Longrightarrow> (push_bit 6 (mask8 (192 + a)) AND 0x7ff) + ((128 + b) AND 0x3f) = 64 * a + b"
    and "a < 16 \<Longrightarrow> (push_bit 12 (mask8 (224 + a)) AND 0xffff) + (push_bit 6 (mask8 (128 + b)) AND 0xfff)
           + ((128 + c) AND 0x3f) = 4096 * a + 64 * b + c"
    and "a < 8 \<Longrightarrow> (push_bit 18 (mask8 (240 + a)) AND 0x1fffff) + (push_bit 12 (mask8 (128 + b)) AND 0x3ffff)
           + (push_bit 6 (mask8 (128 + c)) AND 0xfff) + ((128 + d) AND 0x3f) = 262144 * a + 4096 * b + 64 * c + d"
proof -
  have low: "\<And>x. x < 64 \<Longrightarrow> (128 + x) mod 64 = (x :: nat)" using shift_low_bits [of _ 64 2 1] by simp
  show "a < 32 \<Longrightarrow> (push_bit 6 (mask8 (192 + a)) AND 0x7ff) + ((128 + b) AND 0x3f) = 64 * a + b"
    using shift_low_bits [of a 32 6 64] low assms by (simp add: mask8_def and_low_bits push_bit_eq_mult)
  show "a < 16 \<Longrightarrow> (push_bit 12 (mask8 (224 + a)) AND 0xffff) + (push_bit 6 (mask8 (128 + b)) AND 0xfff)
           + ((128 + c) AND 0x3f) = 4096 * a + 64 * b + c"
    using shift_low_bits [of a 16 14 4096] shift_low_bits [of b 64 2 64] low assms
    by (simp add: mask8_def and_low_bits push_bit_eq_mult)
  show "a < 8 \<Longrightarrow> (push_bit 18 (mask8 (240 + a)) AND 0x1fffff) + (push_bit 12 (mask8 (128 + b)) AND 0x3ffff)
           + (push_bit 6 (mask8 (128 + c)) AND 0xfff) + ((128 + d) AND 0x3f) = 262144 * a + 4096 * b + 64 * c + d"
    using shift_low_bits [of a 8 30 262144] shift_low_bits [of b 64 2 4096] shift_low_bits [of c 64 2 64] low assms
    by (simp add: mask8_def and_low_bits push_bit_eq_mult)
qed

lemma div_64_64: "(n :: nat) div 4096 = n div 64 div 64" "n div 262144 = n div 64 div 64 div 64"
  using div_mult2_eq [of n 64 64] div_mult2_eq [of n 4096 64] by simp_all

lemma low64: "r < 64 \<Longrightarrow> (64 * x + r) div 64 = (x :: nat) \<and> (64 * x + r) mod 64 = r"
  by simp

lemma encode_values:
  assumes "b < 64" "c < 64" "d < 64"
  shows "a < 32 \<Longrightarrow> 128 \<le> 64 * a + b \<Longrightarrow> encode_cp (64 * a + b) = [192 + a, 128 + b]"
    and "a < 16 \<Longrightarrow> 2048 \<le> 64 * (64 * a + b) + c \<Longrightarrow> encode_cp (64 * (64 * a + b) + c) = [224 + a, 128 + b, 128 + c]"
    and "65536 \<le> 64 * (64 * (64 * a + b) + c) + d
      \<Longrightarrow> encode_cp (64 * (64 * (64 * a + b) + c) + d) = [240 + a, 128 + b, 128 + c, 128 + d]"
proof -
  show "a < 32 \<Longrightarrow> 128 \<le> 64 * a + b \<Longrightarrow> encode_cp (64 * a + b) = [192 + a, 128 + b]"
    using assms by (simp add: encode_cp_def)
  let ?n = "64 * (64 * a + b) + c"
  have n: "?n div 64 = 64 * a + b" "?n mod 64 = c" "(64 * a + b) div 64 = a" "(64 * a + b) mod 64 = b"
    using low64 [OF assms(2), of "64 * a + b"] low64 [OF assms(1), of a] by blast+
  then show "a < 16 \<Longrightarrow> 2048 \<le> ?n \<Longrightarrow> encode_cp ?n = [224 + a, 128 + b, 128 + c]"
    using assms unfolding encode_cp_def div_64_64 by (simp only: n) simp
  let ?m = "64 * ?n + d"
  have "?m div 64 = ?n" "?m mod 64 = d" using low64 [OF assms(3), of ?n] by blast+
  with n show "65536 \<le> ?m \<Longrightarrow> encode_cp ?m = [240 + a, 128 + b, 128 + c, 128 + d]"
    unfolding encode_cp_def div_64_64 by (simp only:) simp
qed

lemma digits64: "(cp :: nat) = 64 * (cp div 64) + cp mod 64"
    "cp = 64 * (64 * (cp div 4096) + cp div 64 mod 64) + cp mod 64"
    "cp = 64 * (64 * (64 * (cp div 262144) + cp div 4096 mod 64) + cp div 64 mod 64) + cp mod 64"
  unfolding div_64_64 mult_div_mod_eq by simp_all

subsection \<open>Decoding inverts encoding\<close>

definition octets :: "nat list \<Rightarrow> bool" where
  "octets os \<longleftrightarrow> list_all (\<lambda>oc. oc < 256) os"

lemma octets_simps [simp]:
  "octets []" "octets (oc # os) \<longleftrightarrow> oc < 256 \<and> octets os" "octets (xs @ ys) \<longleftrightarrow> octets xs \<and> octets ys"
  by (simp_all add: octets_def)

lemma encode_cp_octets: "is_code_point_valid cp \<Longrightarrow> octets (encode_cp cp) \<and> encode_cp cp \<noteq> []"
proof -
  assume "is_code_point_valid cp"
  then have "cp div 262144 < 16" by (intro less_mult_imp_div_less) (simp add: is_code_point_valid_def)
  moreover have "cp < 2048 \<Longrightarrow> cp div 64 < 32" "cp < 65536 \<Longrightarrow> cp div 4096 < 16" by simp_all
  moreover have "\<And>x. x mod 64 < (128 :: nat)" by (rule order_less_trans [of _ 64]) simp_all
  ultimately show ?thesis by (auto simp: encode_cp_def)
qed

lemma increase_safely_iff:
  "octets os \<Longrightarrow> increase_safely (x # os) = Inr it' \<longleftrightarrow> (\<exists>b rest. b < 64 \<and> os = (128 + b) # rest \<and> it' = os)"
  by (cases os) (auto simp: increase_safely_def trail_octet split: if_splits)

lemma get_sequence_2_iff:
  assumes "octets os" "a < 32"
  shows "get_sequence_2 ((192 + a) # os) = Inr (cp, it') \<longleftrightarrow>
    (\<exists>b rest. b < 64 \<and> os = (128 + b) # rest \<and> cp = 64 * a + b \<and> it' = (128 + b) # rest)"
  using assms sequence_values(1) [of _ 0 0 a] by (auto simp: get_sequence_2_def increase_safely_iff)

lemma get_sequence_3_iff:
  assumes "octets os" "a < 16"
  shows "get_sequence_3 ((224 + a) # os) = Inr (cp, it') \<longleftrightarrow>
    (\<exists>b c rest. b < 64 \<and> c < 64 \<and> os = (128 + b) # (128 + c) # rest \<and> cp = 64 * (64 * a + b) + c
       \<and> it' = (128 + c) # rest)"
  using assms sequence_values(2) [of _ _ 0 a] by (auto simp: get_sequence_3_def increase_safely_iff)

lemma get_sequence_4_iff:
  assumes "octets os" "a < 8"
  shows "get_sequence_4 ((240 + a) # os) = Inr (cp, it') \<longleftrightarrow>
    (\<exists>b c d rest. b < 64 \<and> c < 64 \<and> d < 64 \<and> os = (128 + b) # (128 + c) # (128 + d) # rest
       \<and> cp = 64 * (64 * (64 * a + b) + c) + d \<and> it' = (128 + d) # rest)"
  using assms sequence_values(3) [of _ _ _ a] by (auto simp: get_sequence_4_def increase_safely_iff)

lemma is_trail_low [simp]: "is_trail (128 + x mod 64)"
proof -
  have "x mod 64 < 64" by simp
  then show ?thesis by (subst trail_octet) auto
qed

lemma validate_next_encode:
  assumes "is_code_point_valid cp"
  shows "validate_next (encode_cp cp @ rest) = Inr (cp, rest)"
proof -
  note v = assms
  have m: "\<And>x. x mod 64 < (64 :: nat)" by simp
  have "cp \<le> 1114111" using assms by (simp add: is_code_point_valid_def)
  then have hi: "cp div 262144 < 8" by (intro less_mult_imp_div_less) simp
  have lo: "cp < 2048 \<Longrightarrow> cp div 64 < 32" "cp < 65536 \<Longrightarrow> cp div 4096 < 16" by (auto intro: less_mult_imp_div_less)
  consider "cp < 128" | "128 \<le> cp" "cp < 2048" | "2048 \<le> cp" "cp < 65536" | "65536 \<le> cp" by linarith
  then show ?thesis
  proof cases
    case 1
    then show ?thesis
      using v by (simp add: validate_next_def encode_cp_def lead_octet get_sequence_1_def mask8_def and_low_bits
          is_overlong_sequence_def)
  next
    case 2
    have "get_sequence_2 ((192 + cp div 64) # (128 + cp mod 64) # rest) = Inr (cp, (128 + cp mod 64) # rest)"
      using sequence_values(1) [of "cp mod 64" 0 0 "cp div 64"] m lo(1) 2
      by (simp add: get_sequence_2_def increase_safely_def)
    then show ?thesis using 2 lo v by (simp add: validate_next_def encode_cp_def lead_octet is_overlong_sequence_def)
  next
    case 3
    have "get_sequence_3 ((224 + cp div 4096) # (128 + cp div 64 mod 64) # (128 + cp mod 64) # rest)
        = Inr (cp, (128 + cp mod 64) # rest)"
      using sequence_values(2) [of "cp div 64 mod 64" "cp mod 64" 0 "cp div 4096"] m lo(2) 3 digits64(2) [of cp]
      by (simp add: get_sequence_3_def increase_safely_def)
    then show ?thesis using 3 lo v by (simp add: validate_next_def encode_cp_def lead_octet is_overlong_sequence_def)
  next
    case 4
    have "get_sequence_4 ((240 + cp div 262144) # (128 + cp div 4096 mod 64) # (128 + cp div 64 mod 64) # (128 + cp mod 64) # rest)
        = Inr (cp, (128 + cp mod 64) # rest)"
      using sequence_values(3) [of "cp div 4096 mod 64" "cp div 64 mod 64" "cp mod 64" "cp div 262144"] m hi digits64(3) [of cp]
      by (simp add: get_sequence_4_def increase_safely_def)
    then show ?thesis using 4 hi v by (simp add: validate_next_def encode_cp_def lead_octet is_overlong_sequence_def)
  qed
qed

lemma validate_next_decode:
  assumes "octets it" "validate_next it = Inr (cp, rest)"
  shows "is_code_point_valid cp \<and> it = encode_cp cp @ rest"
proof -
  obtain oc os where it: "it = oc # os" using assms(2) by (cases it) (simp_all add: validate_next_def)
  have oc: "oc < 256" "octets os" using assms(1) it by simp_all
  let ?len = "sequence_length oc"
  obtain it' where l: "?len \<noteq> 0"
    and g: "(if ?len = 1 then get_sequence_1 it else if ?len = 2 then get_sequence_2 it
             else if ?len = 3 then get_sequence_3 it else get_sequence_4 it) = Inr (cp, it')"
    and v: "is_code_point_valid cp" "\<not> is_overlong_sequence cp ?len" and r: "rest = tl it'"
    using assms(2) it by (auto simp: validate_next_def Let_def split: if_splits)
  from l consider "?len = 1" "oc < 128" | a where "?len = 2" "a < 32" "oc = 192 + a"
    | a where "?len = 3" "a < 16" "oc = 224 + a" | a where "?len = 4" "a < 8" "oc = 240 + a"
    unfolding lead_octet [OF oc(1)] by (force split: if_splits dest: le_Suc_ex)
  then show ?thesis
  proof cases
    case 1
    then show ?thesis
      using g r v it by (auto simp: get_sequence_1_def mask8_def and_low_bits encode_cp_def)
  next
    case (2 a)
    then show ?thesis
      using g r v it get_sequence_2_iff [OF oc(2) 2(2)] encode_values(1) [of _ 0 0 a]
      by (auto simp: is_overlong_sequence_def split: if_splits)
  next
    case (3 a)
    then show ?thesis
      using g r v it get_sequence_3_iff [OF oc(2) 3(2)] encode_values(2) [of _ _ 0 a]
      by (auto simp: is_overlong_sequence_def split: if_splits)
  next
    case (4 a)
    then show ?thesis
      using g r v it get_sequence_4_iff [OF oc(2) 4(2)] encode_values(3) [of _ _ _ a]
      by (auto simp: is_overlong_sequence_def split: if_splits)
  qed
qed

subsection \<open>The conversions are inverse to each other\<close>

definition units16 :: "nat list \<Rightarrow> bool" where
  "units16 us \<longleftrightarrow> list_all (\<lambda>u. u < 65536) us"

lemma units16_simps [simp]:
  "units16 []" "units16 (u # us) \<longleftrightarrow> u < 65536 \<and> units16 us" "units16 (us @ vs) \<longleftrightarrow> units16 us \<and> units16 vs"
  by (simp_all add: units16_def)

lemma utf8to16_encode:
  assumes "is_code_point_valid cp"
  shows "utf8to16 (encode_cp cp @ it) = and_next (utf8to16 it) (\<lambda>rest. Inr (units_of cp @ rest))"
proof -
  have "next_cp (encode_cp cp @ it) = Inr (cp, it)" using validate_next_encode [OF assms] by simp
  then show ?thesis using encode_cp_octets [OF assms] by (subst utf8to16.simps) (simp del: next_cp_Inr)
qed

lemma split_1024: "(cp :: nat) div 1024 = h \<Longrightarrow> cp mod 1024 = l \<Longrightarrow> cp = h * 1024 + l"
  by (metis div_mult_mod_eq)

lemma units_of_high:
  assumes "is_code_point_valid cp" "65535 < cp"
  shows "units_of cp = [cp div 1024 + 55232, cp mod 1024 + 56320]"
    and "is_lead_surrogate (cp div 1024 + 55232)" and "is_trail_surrogate (cp mod 1024 + 56320)"
    and "(push_bit 10 (cp div 1024 + 55232) + (cp mod 1024 + 56320) + 0xfca02400) mod 2 ^ 32 = cp"
proof -
  have "cp \<le> 1114111" using assms(1) by (simp add: is_code_point_valid_def)
  then have hi: "cp div 1024 < 1088" by (intro less_mult_imp_div_less) simp
  have "64 * 1024 \<le> cp" using assms(2) by simp
  then have "64 \<le> cp div 1024" using div_le_mono [of "64 * 1024" cp 1024] by simp
  then show "is_lead_surrogate (cp div 1024 + 55232)" using hi by (simp add: is_lead_surrogate_def)
  have lo: "cp mod 1024 < 1024" by simp
  then show "is_trail_surrogate (cp mod 1024 + 56320)" by (simp add: is_trail_surrogate_def)
  show "units_of cp = [cp div 1024 + 55232, cp mod 1024 + 56320]"
    using assms(2) hi lo by (simp add: units_of_def and_low_bits drop_bit_eq_div)
  have "push_bit 10 (cp div 1024 + 55232) + (cp mod 1024 + 56320) + 0xfca02400 = cp + 2 ^ 32"
    using split_1024 [of cp] by (simp add: push_bit_eq_mult algebra_simps)
  then show "(push_bit 10 (cp div 1024 + 55232) + (cp mod 1024 + 56320) + 0xfca02400) mod 2 ^ 32 = cp"
    using \<open>cp \<le> 1114111\<close> by simp
qed

lemma utf16to8_units:
  assumes "is_code_point_valid cp"
  shows "utf16to8 (units_of cp @ us) = and_next (utf16to8 us) (\<lambda>rest. Inr (encode_cp cp @ rest))"
    and "units16 (units_of cp)"
proof -
  show "units16 (units_of cp)" by (simp add: units_of_def)
  show "utf16to8 (units_of cp @ us) = and_next (utf16to8 us) (\<lambda>rest. Inr (encode_cp cp @ rest))"
  proof (cases "65535 < cp")
    case True
    note u = units_of_high [OF assms True]
    have "mask16 (cp div 1024 + 55232) = cp div 1024 + 55232" "mask16 (cp mod 1024 + 56320) = cp mod 1024 + 56320"
      using u(2,3) by (simp_all add: mask16_def and_low_bits is_lead_surrogate_def is_trail_surrogate_def)
    with u assms show ?thesis by (simp add: append_cp_eq)
  next
    case False
    then have "units_of cp = [cp]" "mask16 cp = cp" "\<not> is_lead_surrogate cp" "\<not> is_trail_surrogate cp"
      using assms by (auto simp: units_of_def mask16_def and_low_bits is_code_point_valid_def is_surrogate_def
          is_lead_surrogate_def is_trail_surrogate_def)
    then show ?thesis using assms by (cases us) (simp_all add: append_cp_eq)
  qed
qed

lemma utf8to16_then_back:
  "octets s \<Longrightarrow> utf8to16 s = Inr w \<Longrightarrow> utf16to8 w = Inr s \<and> units16 w"
proof (induction s arbitrary: w rule: utf8to16.induct)
  case (1 s)
  show ?case
  proof (cases "s = []")
    case True
    with "1.prems" show ?thesis by (simp add: utf8to16.simps)
  next
    case False
    then obtain cp it r where n: "next_cp s = Inr (cp, it)" and r: "utf8to16 it = Inr r" and w: "w = units_of cp @ r"
      using "1.prems"(2) by (subst (asm) utf8to16.simps) (auto split: sum.splits)
    have v: "is_code_point_valid cp" and s: "s = encode_cp cp @ it"
      using validate_next_decode [OF "1.prems"(1)] n by simp_all
    then have "octets it" using "1.prems"(1) by simp
    from "1.IH" [OF False n refl this r] utf16to8_units [OF v] s w show ?thesis by simp
  qed
qed

lemma surrogate_pair:
  assumes "is_lead_surrogate u" "is_trail_surrogate v"
  defines "cp \<equiv> (push_bit 10 u + v + 0xfca02400) mod 2 ^ 32"
  shows "is_code_point_valid cp" and "units_of cp = [u, v]"
proof -
  obtain h l where u: "u = h + 55232" and v: "v = l + 56320" and hl: "64 \<le> h" "h < 1088" "l < 1024"
  proof -
    have "55296 \<le> u" "u \<le> 56319" "56320 \<le> v" "v \<le> 57343"
      using assms(1,2) by (simp_all add: is_lead_surrogate_def is_trail_surrogate_def)
    then show thesis by (intro that [of "u - 55232" "v - 56320"]) simp_all
  qed
  have "push_bit 10 u + v + 0xfca02400 = (h * 1024 + l) + 2 ^ 32"
    by (simp add: u v push_bit_eq_mult algebra_simps)
  moreover have "h * 1024 + l < 1114112" "65536 \<le> h * 1024 + l" using hl by simp_all
  ultimately have cp: "cp = h * 1024 + l" "65535 < cp" "cp \<le> 1114111" by (simp_all add: cp_def)
  then show "is_code_point_valid cp" by (simp add: is_code_point_valid_def is_surrogate_def)
  moreover have "cp div 1024 = h" "cp mod 1024 = l" using hl cp(1) by simp_all
  ultimately show "units_of cp = [u, v]" using units_of_high(1) [of cp] cp(2) u v by simp
qed

lemma plain_unit: "u < 65536 \<Longrightarrow> is_code_point_valid u \<Longrightarrow> units_of u = [u]"
  by (simp add: units_of_def)

lemma utf16to8_then_back:
  "units16 w \<Longrightarrow> utf16to8 w = Inr s \<Longrightarrow> utf8to16 s = Inr w \<and> octets s"
proof (induction w arbitrary: s rule: utf16to8.induct)
  case 1
  then show ?case by (simp add: utf8to16.simps)
next
  case (2 u)
  then have "mask16 u = u" by (simp add: mask16_def and_low_bits)
  with 2 have v: "is_code_point_valid u" "s = encode_cp u"
    by (auto simp: append_cp_eq split: if_splits)
  then show ?case
    using utf8to16_encode [OF v(1), of "[]"] encode_cp_octets [OF v(1)] plain_unit [OF _ v(1)] "2.prems"(1)
    by (simp add: utf8to16.simps)
next
  case (3 u v us)
  have m: "mask16 u = u" "mask16 v = v" using "3.prems"(1) by (simp_all add: mask16_def and_low_bits)
  show ?case
  proof (cases "is_lead_surrogate u")
    case True
    define cp where "cp = (push_bit 10 u + v + 0xfca02400) mod 2 ^ 32"
    obtain rest where t: "is_trail_surrogate v" and r: "utf16to8 us = Inr rest" and s: "s = encode_cp cp @ rest"
      using "3.prems"(2) True m by (auto simp: append_cp_eq Let_def cp_def split: if_splits)
    have c: "is_code_point_valid cp" "units_of cp = [u, v]"
      using surrogate_pair [OF True t] by (simp_all add: cp_def)
    have "utf8to16 rest = Inr us \<and> octets rest" using "3.IH"(1) [of u v rest] True t r m "3.prems"(1) by simp
    then show ?thesis using utf8to16_encode [OF c(1)] encode_cp_octets [OF c(1)] c(2) s by simp
  next
    case False
    then obtain rest where c: "is_code_point_valid u" and r: "utf16to8 (v # us) = Inr rest" and s: "s = encode_cp u @ rest"
      and t: "\<not> is_trail_surrogate u"
      using "3.prems"(2) m by (auto simp: append_cp_eq Let_def split: if_splits)
    have "utf8to16 rest = Inr (v # us) \<and> octets rest" using "3.IH"(2) [of u rest] False t r m "3.prems"(1) c by simp
    then show ?thesis
      using utf8to16_encode [OF c] encode_cp_octets [OF c] plain_unit [OF _ c] "3.prems"(1) s by simp
  qed
qed

subsection \<open>Wide strings\<close>

text \<open>
  \<open>Utf8toWStr\<close> and \<open>WStrToUtf8\<close> for strings: the value, and the string written to the reference argument.
  The second writes into a buffer of four octets per unit, which \<open>utf16to8_fits\<close> shows to be enough.
\<close>

definition string_octets :: "string \<Rightarrow> nat list" where
  "string_octets s = map of_char s"

definition octets_string :: "nat list \<Rightarrow> string" where
  "octets_string os = map char_of os"

definition Utf8toWStr :: "string \<Rightarrow> bool \<times> nat list" where
  "Utf8toWStr utf8str = (case utf8to16 (string_octets utf8str) of Inl _ \<Rightarrow> (False, []) | Inr wstr \<Rightarrow> (True, wstr))"

definition WStrToUtf8 :: "nat list \<Rightarrow> bool \<times> string" where
  "WStrToUtf8 wstr = (case utf16to8 wstr of Inl _ \<Rightarrow> (False, []) | Inr os \<Rightarrow> (True, octets_string os))"

definition wcharToLower :: "nat \<Rightarrow> nat" where
  "wcharToLower wchar =
     (if 0x41 \<le> wchar \<and> wchar \<le> 0x5A then wchar mod 65536 + 0x20
      else if 0xC0 \<le> wchar \<and> wchar \<le> 0xD6 then wchar mod 65536 + 0x20
      else if 0xD8 \<le> wchar \<and> wchar \<le> 0xDE then wchar mod 65536 + 0x20
      else if 0x100 \<le> wchar \<and> wchar \<le> 0x12E \<and> wchar mod 2 = 0 then wchar mod 65536 + 1
      else if wchar = 0x1E9E then 0xDF
      else if wchar = 0x401 then 0x451
      else if 0x410 \<le> wchar \<and> wchar \<le> 0x42F then wchar mod 65536 + 0x20
      else wchar)"

definition wcharToUpper :: "nat \<Rightarrow> nat" where
  "wcharToUpper wchar =
     (if 0x61 \<le> wchar \<and> wchar \<le> 0x7A then wchar mod 65536 - 0x20
      else if wchar = 0xDF then 0x1E9E
      else if 0xE0 \<le> wchar \<and> wchar \<le> 0xF6 then wchar mod 65536 - 0x20
      else if 0xF8 \<le> wchar \<and> wchar \<le> 0xFE then wchar mod 65536 - 0x20
      else if 0x101 \<le> wchar \<and> wchar \<le> 0x12F \<and> wchar mod 2 = 1 then wchar mod 65536 - 1
      else if 0x430 \<le> wchar \<and> wchar \<le> 0x44F then wchar mod 65536 - 0x20
      else if wchar = 0x451 then 0x401
      else wchar)"

definition wstrToUpper :: "nat list \<Rightarrow> nat list" where
  "wstrToUpper str = map wcharToUpper str"

definition wstrToLower :: "nat list \<Rightarrow> nat list" where
  "wstrToLower str = map wcharToLower str"

lemma octets_string_octets [simp]: "octets (string_octets s)"
  by (simp add: octets_def string_octets_def list_all_iff)

lemma octets_string_inverse [simp]: "octets_string (string_octets s) = s"
  by (simp add: octets_string_def string_octets_def comp_def)

lemma string_octets_inverse: "octets os \<Longrightarrow> string_octets (octets_string os) = os"
  by (induction os) (simp_all add: octets_string_def string_octets_def)

lemma wide_string_inverse:
  "Utf8toWStr s = (True, w) \<longleftrightarrow> units16 w \<and> WStrToUtf8 w = (True, s)"
proof
  assume "Utf8toWStr s = (True, w)"
  then have "utf8to16 (string_octets s) = Inr w" by (auto simp: Utf8toWStr_def split: sum.splits)
  from utf8to16_then_back [OF octets_string_octets this]
  show "units16 w \<and> WStrToUtf8 w = (True, s)" by (simp add: WStrToUtf8_def)
next
  assume a: "units16 w \<and> WStrToUtf8 w = (True, s)"
  then obtain os where o: "utf16to8 w = Inr os" "s = octets_string os"
    by (auto simp: WStrToUtf8_def split: sum.splits)
  with utf16to8_then_back [of w os] a show "Utf8toWStr s = (True, w)"
    by (simp add: Utf8toWStr_def string_octets_inverse)
qed

text \<open>
  C26: The two conversions are inverse to each other: a string is valid UTF-8 with the wide string \<open>w\<close> exactly when
  \<open>w\<close> is valid UTF-16 and is converted back to that string.
\<close>

theorem wide_string_roundtrip:
  "Utf8toWStr s = (True, w) \<longleftrightarrow> units16 w \<and> WStrToUtf8 w = (True, s)"
  by (rule wide_string_inverse)

lemma length_encode_cp: "length (encode_cp cp) \<le> 4" "cp < 65536 \<Longrightarrow> length (encode_cp cp) \<le> 3"
  by (simp_all add: encode_cp_def)

lemma utf16to8_fits: "utf16to8 w = Inr os \<Longrightarrow> length os \<le> 4 * length w"
proof (induction w arbitrary: os rule: utf16to8.induct)
  case (3 u v us)
  show ?case
  proof (cases "is_lead_surrogate (mask16 u)")
    case True
    define cp where "cp = (push_bit 10 (mask16 u) + mask16 v + 0xfca02400) mod 2 ^ 32"
    obtain rest where "utf16to8 us = Inr rest" "os = encode_cp cp @ rest" and t: "is_trail_surrogate (mask16 v)"
      and c: "is_code_point_valid cp"
      using "3.prems" True by (auto simp: append_cp_eq Let_def cp_def split: if_splits)
    with "3.IH"(1) [OF refl True refl t, of rest] length_encode_cp(1) [of cp]
    show ?thesis by simp
  next
    case False
    then obtain rest where "utf16to8 (v # us) = Inr rest" "os = encode_cp (mask16 u) @ rest" "\<not> is_trail_surrogate (mask16 u)"
      and "is_code_point_valid (mask16 u)"
      using "3.prems" by (auto simp: append_cp_eq Let_def split: if_splits)
    with "3.IH"(2) [of "mask16 u" rest] False length_encode_cp(1) [of "mask16 u"]
    show ?thesis by (simp add: append_cp_eq)
  qed
qed (auto simp: append_cp_eq length_encode_cp Let_def split: if_splits)

text \<open>The case mapping: lower case is stable, and upper case of a lower case letter comes back.\<close>

lemma wcharToLower_idem [simp]: "wcharToLower (wcharToLower c) = wcharToLower c"
  by (simp add: wcharToLower_def mod_Suc)

lemma wcharToLower_Upper [simp]: "wcharToLower (wcharToUpper (wcharToLower c)) = wcharToLower c"
proof -
  define d where "d = wcharToLower c"
  have d: "wcharToLower d = d" by (simp add: d_def)
  consider "0x61 \<le> d" "d \<le> 0x7A" | "d = 0xDF" | "0xE0 \<le> d" "d \<le> 0xF6" | "0xF8 \<le> d" "d \<le> 0xFE"
    | "0x101 \<le> d" "d \<le> 0x12F" "d mod 2 = 1" | "0x430 \<le> d" "d \<le> 0x44F" | "d = 0x451" | "wcharToUpper d = d"
    by (cases "wcharToUpper d = d") (auto simp: wcharToUpper_def split: if_splits)
  then have "wcharToLower (wcharToUpper d) = d"
  proof cases
    case 5
    then obtain k where "d = 2 * k + 1" by (metis oddE odd_iff_mod_2_eq_one)
    with 5 show ?thesis by (simp add: wcharToUpper_def wcharToLower_def)
  qed (use d in \<open>auto simp: wcharToUpper_def wcharToLower_def\<close>)
  then show ?thesis by (simp add: d_def)
qed

lemma wchar_not_space:
  "wcharToLower c = 32 \<longleftrightarrow> c = 32" "wcharToUpper c = 32 \<longleftrightarrow> c = 32"
  by (auto simp: wcharToLower_def wcharToUpper_def split: if_splits)

lemma space_in_encode: "is_code_point_valid cp \<Longrightarrow> 32 \<in> set (encode_cp cp) \<longleftrightarrow> cp = 32"
  by (auto simp: encode_cp_def)

lemma space_in_units: "is_code_point_valid cp \<Longrightarrow> 32 \<in> set (units_of cp) \<longleftrightarrow> cp = 32"
  using units_of_high(1) [of cp] by (cases "65535 < cp") (auto simp: units_of_def)

lemma space_in_wide: "octets s \<Longrightarrow> utf8to16 s = Inr w \<Longrightarrow> 32 \<in> set s \<longleftrightarrow> 32 \<in> set w"
proof (induction s arbitrary: w rule: utf8to16.induct)
  case (1 s)
  show ?case
  proof (cases "s = []")
    case True
    with "1.prems" show ?thesis by (simp add: utf8to16.simps)
  next
    case False
    then obtain cp it r where n: "next_cp s = Inr (cp, it)" and r: "utf8to16 it = Inr r" and w: "w = units_of cp @ r"
      using "1.prems"(2) by (subst (asm) utf8to16.simps) (auto split: sum.splits)
    have v: "is_code_point_valid cp" and s: "s = encode_cp cp @ it"
      using validate_next_decode [OF "1.prems"(1)] n by simp_all
    then have "octets it" using "1.prems"(1) by simp
    from "1.IH" [OF False n refl this r] space_in_encode [OF v] space_in_units [OF v] s w show ?thesis by auto
  qed
qed

lemma Utf8toWStr_space: "Utf8toWStr s = (True, w) \<Longrightarrow> CHR '' '' \<in> set s \<longleftrightarrow> 32 \<in> set w"
proof -
  assume "Utf8toWStr s = (True, w)"
  then have u: "utf8to16 (string_octets s) = Inr w" by (auto simp: Utf8toWStr_def split: sum.splits)
  have "(of_char c = (32 :: nat)) = (of_char c = (of_char (CHR '' '') :: nat))" for c by simp
  then have "of_char c = (32 :: nat) \<longleftrightarrow> c = CHR '' ''" for c by (simp only: of_char_eq_iff)
  then have "CHR '' '' \<in> set s \<longleftrightarrow> (32 :: nat) \<in> set (string_octets s)"
    by (auto simp: string_octets_def image_iff eq_commute [of "32 :: nat"])
  then show ?thesis using space_in_wide [OF octets_string_octets u] by simp
qed

end
