(* ===== verification/Embed.thy ===== *)
theory Embed
  imports Prelude
begin

section \<open>Embedded messages\<close>

text \<open>
  \<^verbatim>\<open>src/src/server/bot/Discord/DiscordEmbedMsg.cpp\<close> and \<^verbatim>\<open>DisccordCommon.h\<close>: the message the bot composes,
  with the limits Discord sets.  The message object belongs to the library D++, so it is the
  sequence of the calls that were made on it.
\<close>

datatype DiscordMessageColor = Blue | Red | Orange | Purple | Indigo | Yellow | Teal | Cyan | Gray | White

definition color_value :: "DiscordMessageColor \<Rightarrow> u32" where
  "color_value c = (case c of
       Blue \<Rightarrow> 0x28a745 | Red \<Rightarrow> 0xdc3545 | Orange \<Rightarrow> 0xfd7e14 | Purple \<Rightarrow> 0x6f42c1 | Indigo \<Rightarrow> 0x6610f2
     | Yellow \<Rightarrow> 0xffc107 | Teal \<Rightarrow> 0x20c997 | Cyan \<Rightarrow> 0x17a2b8 | Gray \<Rightarrow> 0xadb5bd | White \<Rightarrow> 0xffffff)"

datatype embed_call =
    EmbedTimestamp int
  | EmbedColor u32
  | EmbedTitle string
  | EmbedDescription string
  | EmbedDescriptionAppend string
  | EmbedField string string bool
  | EmbedFooter string string

record embed_msg =
  em_message :: "embed_call list"
  em_fieldsCount :: nat

definition MAX_EMBED_FIELDS :: nat where
  "MAX_EMBED_FIELDS = 24"

definition MAX_EMBED_FIELDS_NAME :: nat where
  "MAX_EMBED_FIELDS_NAME = 256"

definition MAX_EMBED_FIELDS_VALUE :: nat where
  "MAX_EMBED_FIELDS_VALUE = 1024"

definition embed_call :: "embed_call \<Rightarrow> embed_msg \<Rightarrow> embed_msg" where
  "embed_call c m = m\<lparr>em_message := em_message m @ [c]\<rparr>"

definition DiscordEmbedMsg :: "int \<Rightarrow> embed_msg" where
  "DiscordEmbedMsg epoch = embed_call (EmbedTimestamp epoch) \<lparr>em_message = [], em_fieldsCount = 0\<rparr>"

definition SetColor :: "DiscordMessageColor \<Rightarrow> embed_msg \<Rightarrow> embed_msg" where
  "SetColor color = embed_call (EmbedColor (color_value color))"

definition SetTitle :: "string \<Rightarrow> embed_msg \<Rightarrow> embed_msg" where
  "SetTitle title = embed_call (EmbedTitle title)"

text \<open>A description that is too long is only logged.\<close>

definition SetDescription :: "string \<Rightarrow> embed_msg \<Rightarrow> embed_msg" where
  "SetDescription description = embed_call (EmbedDescription description)"

definition AddDescription :: "string \<Rightarrow> embed_msg \<Rightarrow> embed_msg" where
  "AddDescription description = embed_call (EmbedDescriptionAppend description)"

definition AddEmbedField :: "string \<Rightarrow> string \<Rightarrow> bool \<Rightarrow> embed_msg \<Rightarrow> embed_msg" where
  "AddEmbedField name val isInline m =
     (let m = m\<lparr>em_fieldsCount := em_fieldsCount m + 1\<rparr>
      in if em_fieldsCount m > MAX_EMBED_FIELDS then m
         else if length name > MAX_EMBED_FIELDS_NAME then m
         else if length val > MAX_EMBED_FIELDS_VALUE then m
         else embed_call (EmbedField name val isInline) m)"

definition SetFooterText :: "string \<Rightarrow> embed_msg \<Rightarrow> embed_msg" where
  "SetFooterText footer = embed_call (EmbedFooter footer [])"

subsection \<open>Limits\<close>

definition embed_fields :: "embed_call list \<Rightarrow> (string \<times> string) list" where
  "embed_fields cs = concat (map (\<lambda>c. case c of EmbedField name val _ \<Rightarrow> [(name, val)] | _ \<Rightarrow> []) cs)"

definition field_fits :: "string \<times> string \<Rightarrow> bool" where
  "field_fits f \<longleftrightarrow> length (fst f) \<le> 256 \<and> length (snd f) \<le> 1024"

definition embed_inv :: "embed_msg \<Rightarrow> bool" where
  "embed_inv m \<longleftrightarrow> length (embed_fields (em_message m)) \<le> em_fieldsCount m
     \<and> length (embed_fields (em_message m)) \<le> 24 \<and> list_all field_fits (embed_fields (em_message m))"

text \<open>The operations of the class, and the messages that they can compose.\<close>

datatype embed_op =
    OpColor DiscordMessageColor | OpTitle string | OpDescription string | OpAddDescription string
  | OpField string string bool | OpFooter string

fun run_embed_op :: "embed_op \<Rightarrow> embed_msg \<Rightarrow> embed_msg" where
  "run_embed_op (OpColor c) = SetColor c"
| "run_embed_op (OpTitle t) = SetTitle t"
| "run_embed_op (OpDescription d) = SetDescription d"
| "run_embed_op (OpAddDescription d) = AddDescription d"
| "run_embed_op (OpField n v i) = AddEmbedField n v i"
| "run_embed_op (OpFooter f) = SetFooterText f"

lemma embed_fields_simps [simp]:
  "embed_fields [] = []"
  "embed_fields (c # cs) = (case c of EmbedField name val _ \<Rightarrow> (name, val) # embed_fields cs | _ \<Rightarrow> embed_fields cs)"
  "embed_fields (cs @ ds) = embed_fields cs @ embed_fields ds"
  by (simp_all add: embed_fields_def split: embed_call.splits)

lemmas embed_limits_defs = MAX_EMBED_FIELDS_def MAX_EMBED_FIELDS_NAME_def MAX_EMBED_FIELDS_VALUE_def
lemmas embed_setters = SetColor_def SetTitle_def SetDescription_def AddDescription_def SetFooterText_def embed_call_def

lemma embed_inv_new: "embed_inv (DiscordEmbedMsg epoch)"
  by (simp add: embed_inv_def DiscordEmbedMsg_def embed_call_def)

lemma AddEmbedField_inv: "embed_inv m \<Longrightarrow> embed_inv (AddEmbedField name val isInline m)"
  by (auto simp: embed_inv_def AddEmbedField_def embed_limits_defs embed_call_def Let_def field_fits_def)

lemma run_embed_op_inv: "embed_inv m \<Longrightarrow> embed_inv (run_embed_op op m)"
  by (cases op) (simp_all add: AddEmbedField_inv, simp_all add: embed_inv_def embed_setters)

lemma run_embed_ops_inv: "embed_inv m \<Longrightarrow> embed_inv (fold run_embed_op ops m)"
  by (induction ops arbitrary: m) (simp_all add: run_embed_op_inv)

text \<open>
  The fields of a message to which fields are added that fit: the first twenty-four of them.
\<close>

lemma fold_AddEmbedField:
  assumes "list_all (\<lambda>(n, v). field_fits (n, v)) fs"
  shows "em_fieldsCount (fold (\<lambda>(n, v). AddEmbedField n v i) fs m) = em_fieldsCount m + length fs
    \<and> em_message (fold (\<lambda>(n, v). AddEmbedField n v i) fs m)
      = em_message m @ map (\<lambda>(n, v). EmbedField n v i) (take (24 - em_fieldsCount m) fs)"
  using assms
proof (induction fs arbitrary: m)
  case (Cons f fs)
  obtain n v where f: "f = (n, v)" by (cases f)
  have c: "em_fieldsCount (AddEmbedField n v i m) = em_fieldsCount m + 1"
    by (simp add: AddEmbedField_def embed_call_def Let_def)
  have m: "em_message (AddEmbedField n v i m) = em_message m @ (if em_fieldsCount m < 24 then [EmbedField n v i] else [])"
    using Cons.prems f by (simp add: AddEmbedField_def embed_call_def embed_limits_defs Let_def field_fits_def)
  show ?case
    using Cons.IH [of "AddEmbedField n v i m"] Cons.prems f c m
    by (cases "em_fieldsCount m < 24") (simp_all add: take_Cons')
qed simp

text \<open>
  C28: Whatever operations compose a message, it has at most twenty-four fields, none with a name of more than 256
  bytes or a value of more than 1024 bytes.
\<close>

theorem embed_limits:
  "length (embed_fields (em_message (fold run_embed_op ops (DiscordEmbedMsg epoch)))) \<le> 24
   \<and> list_all (\<lambda>(name, val). length name \<le> 256 \<and> length val \<le> 1024)
       (embed_fields (em_message (fold run_embed_op ops (DiscordEmbedMsg epoch))))"
  using run_embed_ops_inv [OF embed_inv_new, of ops epoch]
  by (auto simp: embed_inv_def field_fits_def list_all_iff)

end
