(* ===== verification/Texts.thy ===== *)
theory Texts
  imports Main
begin

section \<open>The texts of the bot\<close>

text \<open>
  The Russian texts of \<^verbatim>\<open>src/src/server/bot/Discord/DiscordMgr.cpp\<close> as their UTF-8 octets, each with an English
  gloss.  A pair of braces is a place that the formatting fills in.
\<close>

text \<open>role check, running\<close>

definition txt_check_roles_running :: string where
  "txt_check_roles_running = map char_of [208, 159, 209, 128, 208, 190, 208, 178, 208, 181, 209, 128, 208, 186, 208, 176, 32, 209, 128, 208,
     190, 208, 187, 208, 181, 208, 185, 32, 45, 32, 208, 146, 209, 139, 208, 191, 208, 190, 208, 187,
     208, 189, 208, 181, 208, 189, 208, 184, 208, 181 :: nat]"

text \<open>you are not the author of this request\<close>

definition txt_not_author :: string where
  "txt_not_author = map char_of [208, 146, 209, 139, 32, 208, 189, 208, 181, 32, 209, 143, 208, 178, 208, 187, 209, 143, 208, 181,
     209, 130, 208, 181, 209, 129, 209, 140, 32, 208, 176, 208, 178, 209, 130, 208, 190, 209, 128, 208,
     190, 208, 188, 32, 209, 141, 209, 130, 208, 190, 208, 179, 208, 190, 32, 208, 183, 208, 176, 208,
     191, 209, 128, 208, 190, 209, 129, 208, 176 :: nat]"

text \<open>strange situation, no idea what was pressed\<close>

definition txt_strange :: string where
  "txt_strange = map char_of [208, 161, 209, 130, 209, 128, 208, 176, 208, 189, 208, 189, 208, 176, 209, 143, 32, 209, 129, 208,
     184, 209, 130, 209, 131, 208, 176, 209, 134, 208, 184, 209, 143, 44, 32, 208, 189, 208, 181, 32,
     208, 188, 208, 190, 208, 179, 209, 131, 32, 208, 191, 208, 190, 208, 189, 209, 143, 209, 130, 209,
     140, 44, 32, 208, 186, 209, 131, 208, 180, 208, 176, 32, 208, 178, 209, 139, 32, 208, 189, 208,
     176, 208, 182, 208, 176, 208, 187, 208, 184, 32, 208, 190, 46, 208, 190 :: nat]"

text \<open>the request was deleted\<close>

definition txt_request_deleted :: string where
  "txt_request_deleted = map char_of [208, 151, 208, 176, 208, 191, 209, 128, 208, 190, 209, 129, 32, 209, 131, 208, 180, 208, 176, 208,
     187, 209, 145, 208, 189 :: nat]"

text \<open>strange situation (2)\<close>

definition txt_strange_2 :: string where
  "txt_strange_2 = map char_of [208, 161, 209, 130, 209, 128, 208, 176, 208, 189, 208, 189, 208, 176, 209, 143, 32, 209, 129, 208,
     184, 209, 130, 209, 131, 208, 176, 209, 134, 208, 184, 209, 143, 32, 40, 50, 41, 44, 32, 208, 189,
     208, 181, 32, 208, 188, 208, 190, 208, 179, 209, 131, 32, 208, 191, 208, 190, 208, 189, 209, 143,
     209, 130, 209, 140, 44, 32, 208, 186, 209, 131, 208, 180, 208, 176, 32, 208, 178, 209, 139, 32,
     208, 189, 208, 176, 208, 182, 208, 176, 208, 187, 208, 184, 32, 208, 190, 46, 208, 190 :: nat]"

text \<open>no request for a check was found\<close>

definition txt_request_not_found :: string where
  "txt_request_not_found = map char_of [208, 157, 208, 181, 32, 208, 189, 208, 176, 208, 185, 208, 180, 208, 181, 208, 189, 32, 208, 183,
     208, 176, 208, 191, 209, 128, 208, 190, 209, 129, 32, 208, 189, 208, 176, 32, 208, 191, 209, 128,
     208, 190, 208, 178, 208, 181, 209, 128, 208, 186, 209, 131 :: nat]"

text \<open>the request was sent to the server\<close>

definition txt_request_sent :: string where
  "txt_request_sent = map char_of [208, 151, 208, 176, 208, 191, 209, 128, 208, 190, 209, 129, 32, 208, 189, 208, 176, 32, 209, 129,
     208, 181, 209, 128, 208, 178, 208, 181, 209, 128, 32, 208, 180, 208, 184, 209, 129, 208, 186, 208,
     190, 209, 128, 208, 180, 208, 176, 32, 208, 177, 209, 139, 208, 187, 32, 208, 190, 209, 130, 208,
     191, 209, 128, 208, 176, 208, 178, 208, 187, 208, 181, 208, 189 :: nat]"

text \<open>joining the guild\<close>

definition txt_join :: string where
  "txt_join = map char_of [208, 146, 209, 129, 209, 130, 209, 131, 208, 191, 208, 187, 208, 181, 208, 189, 208, 184, 208, 181,
     32, 208, 178, 32, 208, 179, 208, 184, 208, 187, 209, 140, 208, 180, 208, 184, 209, 142 :: nat]"

text \<open>the nickname {} is not correct\<close>

definition txt_bad_nick :: string where
  "txt_bad_nick = map char_of [208, 146, 208, 178, 208, 181, 208, 180, 209, 145, 208, 189, 208, 189, 209, 139, 208, 185, 32, 208,
     189, 208, 184, 208, 186, 32, 96, 123, 125, 96, 32, 208, 189, 208, 181, 208, 186, 208, 190, 209,
     128, 209, 128, 208, 181, 208, 186, 209, 130, 208, 189, 209, 139, 208, 185 :: nat]"

text \<open>the item level {} is not correct\<close>

definition txt_bad_ilvl :: string where
  "txt_bad_ilvl = map char_of [208, 146, 208, 178, 208, 181, 208, 180, 209, 145, 208, 189, 208, 189, 209, 139, 208, 185, 32, 209,
     131, 209, 128, 208, 190, 208, 178, 208, 181, 208, 189, 209, 140, 32, 208, 191, 209, 128, 208, 181,
     208, 180, 208, 188, 208, 181, 209, 130, 208, 190, 208, 178, 32, 96, 123, 125, 96, 32, 208, 189,
     208, 181, 208, 186, 208, 190, 209, 128, 209, 128, 208, 181, 208, 186, 209, 130, 208, 189, 209, 139,
     208, 185 :: nat]"

text \<open>nickname in the guild\<close>

definition txt_field_nick :: string where
  "txt_field_nick = map char_of [208, 157, 208, 184, 208, 186, 32, 208, 178, 32, 208, 179, 208, 184, 208, 187, 209, 140, 208, 180,
     208, 184, 208, 184 :: nat]"

text \<open>specialisation\<close>

definition txt_field_spec :: string where
  "txt_field_spec = map char_of [208, 161, 208, 191, 208, 181, 209, 134, 208, 184, 208, 176, 208, 187, 208, 184, 208, 183, 208, 176,
     209, 134, 208, 184, 209, 143 :: nat]"

text \<open>item level\<close>

definition txt_field_ilvl :: string where
  "txt_field_ilvl = map char_of [208, 163, 209, 128, 208, 190, 208, 178, 208, 181, 208, 189, 209, 140, 32, 208, 191, 209, 128, 208,
     181, 208, 180, 208, 188, 208, 181, 209, 130, 208, 190, 208, 178 :: nat]"

text \<open>the request for the role was sent\<close>

definition txt_role_requested :: string where
  "txt_role_requested = map char_of [208, 151, 208, 176, 208, 191, 209, 128, 208, 190, 209, 129, 32, 208, 189, 208, 176, 32, 208, 178,
     209, 139, 208, 180, 208, 176, 209, 135, 209, 131, 32, 209, 128, 208, 190, 208, 187, 208, 184, 32,
     208, 190, 209, 130, 208, 191, 209, 128, 208, 176, 208, 178, 208, 187, 208, 181, 208, 189 :: nat]"

text \<open>the character {} is already in the base\<close>

definition txt_already_known :: string where
  "txt_already_known = map char_of [208, 159, 208, 181, 209, 128, 209, 129, 208, 190, 208, 189, 208, 176, 208, 182, 32, 96, 123, 125,
     96, 32, 209, 131, 208, 182, 208, 181, 32, 208, 181, 209, 129, 209, 130, 209, 140, 32, 208, 178, 32,
     208, 177, 208, 176, 208, 183, 208, 181 :: nat]"

text \<open>the character {} was added to the base\<close>

definition txt_added :: string where
  "txt_added = map char_of [208, 159, 208, 181, 209, 128, 209, 129, 208, 190, 208, 189, 208, 176, 208, 182, 32, 96, 123, 125,
     96, 32, 208, 177, 209, 139, 208, 187, 32, 208, 180, 208, 190, 208, 177, 208, 176, 208, 178, 208,
     187, 208, 181, 208, 189, 32, 208, 178, 32, 208, 177, 208, 176, 208, 183, 209, 131, 46 :: nat]"

text \<open>giving the role of a member\<close>

definition txt_role_given :: string where
  "txt_role_given = map char_of [208, 146, 209, 139, 208, 180, 208, 176, 209, 135, 208, 176, 32, 209, 128, 208, 190, 208, 187, 208,
     184, 32, 209, 131, 209, 135, 208, 176, 209, 129, 209, 130, 208, 189, 208, 184, 208, 186, 208, 176,
     32, 208, 179, 208, 184, 208, 187, 209, 140, 208, 180, 208, 184, 208, 184 :: nat]"

text \<open>the user got the role of a member\<close>

definition txt_got_role :: string where
  "txt_got_role = map char_of [60, 64, 123, 125, 62, 32, 208, 191, 208, 190, 208, 187, 209, 131, 209, 135, 208, 184, 208, 187, 32,
     209, 128, 208, 190, 208, 187, 209, 140, 32, 209, 131, 209, 135, 208, 176, 209, 129, 209, 130, 208,
     189, 208, 184, 208, 186, 208, 176 :: nat]"

text \<open>role check\<close>

definition txt_check_roles :: string where
  "txt_check_roles = map char_of [208, 159, 209, 128, 208, 190, 208, 178, 208, 181, 209, 128, 208, 186, 208, 176, 32, 209, 128, 208,
     190, 208, 187, 208, 181, 208, 185 :: nat]"

text \<open>the role does not exist, with a mention and a number\<close>

definition txt_no_such_role :: string where
  "txt_no_such_role = map char_of [208, 163, 208, 186, 208, 176, 208, 183, 208, 176, 208, 189, 208, 189, 208, 190, 208, 185, 32, 209,
     128, 208, 190, 208, 187, 208, 184, 32, 208, 189, 208, 181, 32, 209, 129, 209, 131, 209, 137, 208,
     181, 209, 129, 209, 130, 208, 178, 209, 131, 208, 181, 209, 130, 58, 32, 60, 64, 38, 123, 125, 62,
     32, 40, 123, 125, 41 :: nat]"

text \<open>no users found; an empty server?\<close>

definition txt_no_members :: string where
  "txt_no_members = map char_of [208, 159, 208, 190, 208, 187, 209, 140, 208, 183, 208, 190, 208, 178, 208, 176, 209, 130, 208, 181,
     208, 187, 208, 184, 32, 208, 189, 208, 181, 32, 208, 189, 208, 176, 208, 185, 208, 180, 208, 181,
     208, 189, 209, 139, 46, 32, 208, 159, 209, 131, 209, 129, 209, 130, 208, 190, 208, 185, 32, 209,
     129, 208, 181, 209, 128, 208, 178, 208, 181, 209, 128, 63 :: nat]"

text \<open>no users that match\<close>

definition txt_nobody_matches :: string where
  "txt_nobody_matches = map char_of [208, 159, 208, 190, 208, 187, 209, 140, 208, 183, 208, 190, 208, 178, 208, 176, 209, 130, 208, 181,
     208, 187, 208, 184, 32, 208, 191, 208, 190, 32, 209, 131, 209, 129, 208, 187, 208, 190, 208, 178,
     208, 184, 209, 142, 32, 208, 189, 208, 181, 32, 208, 189, 208, 176, 208, 185, 208, 180, 208, 181,
     208, 189, 209, 139 :: nat]"

text \<open>keep the role\<close>

definition txt_keep_role :: string where
  "txt_keep_role = map char_of [208, 158, 209, 129, 209, 130, 208, 176, 208, 178, 208, 184, 209, 130, 209, 140, 32, 209, 128, 208,
     190, 208, 187, 209, 140 :: nat]"

text \<open>the mention of a role and its number\<close>

definition txt_role_format :: string where
  "txt_role_format = map char_of [60, 64, 38, 123, 125, 62, 32, 40, 123, 125, 41 :: nat]"

text \<open>delete the role\<close>

definition txt_delete_role :: string where
  "txt_delete_role = map char_of [208, 163, 208, 180, 208, 176, 208, 187, 208, 184, 209, 130, 209, 140, 32, 209, 128, 208, 190, 208,
     187, 209, 140 :: nat]"

text \<open>confirm\<close>

definition txt_confirm_label :: string where
  "txt_confirm_label = map char_of [208, 159, 208, 190, 208, 180, 209, 130, 208, 178, 208, 181, 209, 128, 208, 180, 208, 184, 209, 130,
     209, 140, 33 :: nat]"

text \<open>delete the request\<close>

definition txt_delete_label :: string where
  "txt_delete_label = map char_of [208, 163, 208, 180, 208, 176, 208, 187, 208, 184, 209, 130, 209, 140, 32, 208, 183, 208, 176, 208,
     191, 209, 128, 208, 190, 209, 129 :: nat]"

text \<open>members of the guild\<close>

definition txt_members :: string where
  "txt_members = map char_of [208, 163, 209, 135, 208, 176, 209, 129, 209, 130, 208, 189, 208, 184, 208, 186, 208, 184, 32, 208,
     179, 208, 184, 208, 187, 209, 140, 208, 180, 208, 184, 208, 184 :: nat]"

text \<open>no members found\<close>

definition txt_members_not_found :: string where
  "txt_members_not_found = map char_of [208, 163, 209, 135, 208, 176, 99, 209, 130, 208, 189, 208, 184, 208, 186, 208, 184, 32, 208, 189,
     208, 181, 32, 208, 189, 208, 176, 208, 185, 208, 180, 208, 181, 208, 189, 209, 139 :: nat]"

text \<open>number of members\<close>

definition txt_member_count :: string where
  "txt_member_count = map char_of [208, 154, 208, 190, 208, 187, 208, 184, 209, 135, 208, 181, 209, 129, 209, 130, 208, 178, 208, 190,
     32, 209, 131, 209, 135, 208, 176, 209, 129, 209, 130, 208, 189, 208, 184, 208, 186, 208, 190, 208,
     178 :: nat]"

text \<open>specialisation {}, item level {}\<close>

definition txt_spec_ilvl :: string where
  "txt_spec_ilvl = map char_of [208, 161, 208, 191, 208, 181, 208, 186, 58, 32, 96, 123, 125, 96, 46, 32, 208, 152, 208, 187, 208,
     178, 208, 187, 58, 32, 96, 123, 125, 96 :: nat]"

text \<open>removing a member of the guild\<close>

definition txt_remove_member :: string where
  "txt_remove_member = map char_of [208, 163, 208, 180, 208, 176, 208, 187, 208, 181, 208, 189, 208, 184, 208, 181, 32, 209, 131, 209,
     135, 208, 176, 209, 130, 208, 189, 208, 184, 208, 186, 208, 176, 32, 208, 179, 208, 184, 208, 187,
     209, 140, 208, 180, 208, 184, 208, 184 :: nat]"

text \<open>the player was removed from the base\<close>

definition txt_player_removed :: string where
  "txt_player_removed = map char_of [208, 152, 208, 179, 209, 128, 208, 190, 208, 186, 32, 209, 131, 208, 180, 208, 176, 208, 187, 209,
     145, 208, 189, 32, 208, 184, 208, 183, 32, 208, 177, 208, 176, 208, 183, 209, 139 :: nat]"

text \<open>the player {} is not in the base\<close>

definition txt_player_unknown :: string where
  "txt_player_unknown = map char_of [208, 152, 208, 179, 209, 128, 208, 190, 208, 186, 32, 96, 123, 125, 96, 32, 208, 189, 208, 181, 32,
     208, 189, 208, 176, 208, 185, 208, 180, 208, 181, 208, 189, 32, 208, 178, 32, 208, 177, 208, 176,
     208, 183, 208, 181 :: nat]"

text \<open>joining the guild, the title of the form\<close>

definition txt_modal_title :: string where
  "txt_modal_title = map char_of [208, 146, 209, 129, 209, 130, 209, 131, 208, 191, 208, 184, 209, 130, 209, 140, 32, 208, 178, 32,
     208, 179, 208, 184, 208, 187, 209, 140, 208, 180, 208, 184, 209, 142 :: nat]"

text \<open>nickname\<close>

definition txt_label_nick :: string where
  "txt_label_nick = map char_of [208, 157, 208, 184, 208, 186 :: nat]"

text \<open>specialisation, the label of the form\<close>

definition txt_label_spec :: string where
  "txt_label_spec = map char_of [208, 161, 208, 191, 208, 181, 209, 134, 208, 184, 208, 176, 208, 187, 208, 184, 208, 183, 208, 176,
     209, 134, 208, 184, 209, 143 :: nat]"

text \<open>average item level\<close>

definition txt_label_ilvl :: string where
  "txt_label_ilvl = map char_of [208, 161, 209, 128, 208, 181, 208, 180, 208, 189, 208, 184, 208, 185, 32, 209, 131, 209, 128, 208,
     190, 208, 178, 208, 181, 208, 189, 209, 140, 32, 208, 191, 209, 128, 208, 181, 208, 180, 208, 188,
     208, 181, 209, 130, 208, 190, 208, 178 :: nat]"

text \<open>join the guild and get the role of a member\<close>

definition txt_cmd_add :: string where
  "txt_cmd_add = map char_of [208, 146, 209, 129, 209, 130, 209, 131, 208, 191, 208, 184, 209, 130, 209, 140, 32, 208, 178, 32,
     208, 179, 208, 184, 208, 187, 209, 140, 208, 180, 208, 184, 209, 142, 32, 208, 184, 32, 208, 191,
     208, 190, 208, 187, 209, 131, 209, 135, 208, 184, 209, 130, 209, 140, 32, 209, 128, 208, 190, 208,
     187, 209, 140, 32, 209, 131, 209, 135, 208, 176, 209, 129, 209, 130, 208, 189, 208, 184, 208, 186,
     208, 176 :: nat]"

text \<open>remove a member\<close>

definition txt_cmd_del :: string where
  "txt_cmd_del = map char_of [208, 163, 208, 180, 208, 176, 208, 187, 208, 184, 209, 130, 209, 140, 32, 209, 131, 209, 135, 208,
     176, 209, 129, 209, 130, 208, 189, 208, 184, 208, 186, 208, 176 :: nat]"

text \<open>list of the members\<close>

definition txt_cmd_list :: string where
  "txt_cmd_list = map char_of [208, 159, 208, 190, 208, 187, 209, 131, 209, 135, 208, 184, 209, 130, 209, 140, 32, 209, 129, 208,
     191, 208, 184, 209, 129, 208, 190, 208, 186, 32, 209, 131, 209, 135, 208, 176, 209, 129, 209, 130,
     208, 189, 208, 184, 208, 186, 208, 190, 208, 178 :: nat]"

text \<open>check the roles of the members (at most 25 people)\<close>

definition txt_cmd_check :: string where
  "txt_cmd_check = map char_of [208, 159, 209, 128, 208, 190, 208, 178, 208, 181, 209, 128, 208, 184, 209, 130, 209, 140, 32, 209,
     128, 208, 190, 208, 187, 208, 184, 32, 209, 131, 209, 135, 208, 176, 209, 129, 209, 130, 208, 189,
     208, 184, 208, 186, 208, 190, 208, 178, 32, 40, 50, 53, 32, 209, 135, 208, 181, 208, 187, 208, 190,
     208, 178, 208, 181, 208, 186, 32, 208, 188, 208, 176, 208, 186, 209, 129, 208, 184, 208, 188, 209,
     131, 208, 188, 41 :: nat]"

text \<open>nickname in the game\<close>

definition txt_opt_nick :: string where
  "txt_opt_nick = map char_of [208, 157, 208, 184, 208, 186, 32, 208, 178, 32, 208, 184, 208, 179, 209, 128, 208, 181 :: nat]"

text \<open>the role to keep\<close>

definition txt_opt_keep :: string where
  "txt_opt_keep = map char_of [208, 160, 208, 190, 208, 187, 209, 140, 44, 32, 208, 186, 208, 190, 209, 130, 208, 190, 209, 128,
     209, 131, 209, 142, 32, 208, 189, 209, 131, 208, 182, 208, 189, 208, 190, 32, 208, 190, 209, 129,
     209, 130, 208, 176, 208, 178, 208, 184, 209, 130, 209, 140 :: nat]"

text \<open>the role to delete from those that have the one to keep\<close>

definition txt_opt_del :: string where
  "txt_opt_del = map char_of [208, 160, 208, 190, 208, 187, 209, 140, 44, 32, 208, 186, 208, 190, 209, 130, 208, 190, 209, 128,
     209, 131, 209, 142, 32, 208, 189, 209, 131, 208, 182, 208, 189, 208, 190, 32, 209, 131, 208, 180,
     208, 176, 208, 187, 208, 184, 209, 130, 209, 140, 44, 32, 208, 181, 209, 129, 208, 187, 208, 184,
     32, 208, 181, 209, 129, 209, 130, 209, 140, 32, 209, 130, 208, 176, 44, 32, 208, 186, 208, 190,
     209, 130, 208, 190, 209, 128, 209, 131, 209, 142, 32, 208, 189, 209, 131, 208, 182, 208, 189, 208,
     190, 32, 208, 190, 209, 129, 209, 130, 208, 176, 208, 178, 208, 184, 209, 130, 209, 140 :: nat]"

text \<open>greatest number of users to delete the role from\<close>

definition txt_opt_max :: string where
  "txt_opt_max = map char_of [208, 156, 208, 176, 208, 186, 209, 129, 208, 184, 208, 188, 208, 176, 208, 187, 209, 140, 208, 189,
     208, 190, 208, 181, 32, 208, 186, 208, 190, 208, 187, 208, 184, 209, 135, 208, 181, 209, 129, 209,
     130, 208, 178, 208, 190, 32, 208, 191, 208, 190, 208, 187, 209, 140, 208, 183, 208, 190, 208, 178,
     208, 176, 209, 130, 208, 181, 208, 187, 208, 181, 208, 185, 32, 208, 180, 208, 187, 209, 143, 32,
     209, 131, 208, 180, 208, 176, 208, 187, 208, 181, 208, 189, 208, 184, 209, 143, 32, 209, 128, 208,
     190, 208, 187, 208, 184 :: nat]"

end
