(* ===== verification/Bot.thy ===== *)
theory Bot
  imports Interfaces StrUtil Utf8 Embed Texts Statement
begin

section \<open>The Discord bot\<close>

text \<open>
  \<^verbatim>\<open>src/src/server/bot/Discord/DiscordMgr.cpp\<close> and \<^verbatim>\<open>DiscordConfigMgr.cpp\<close>: the handlers of the slash
  commands, of the buttons and of the form, the requests that wait for confirmation, and the configuration of the
  guilds.  A handler is a function from the event and the state of the bot to the actions it takes through
  the library D++ and the database, and the new state.  What the library and the database answer synchronously is part
  of the event; what they answer later is an event of its own, and the continuation that waits for it is in the
  state.  The handlers that wait for the database (\<open>GuildGetPlayersHandler\<close>, \<open>GuildDelHandler\<close>) run
  to their end with the rows that the query returns; there the reply and the messages of the callback come from two
  threads, in no particular order.  Discord checks the types of the parameters of a command.
\<close>

subsection \<open>Actions and events\<close>

datatype action =
    Reply u64 "embed_call list" bool "(string \<times> string) list"
  | Dialog string string "(string \<times> string) list list"
  | MessageCreate u64 "embed_call list"
  | MessageDelete u64 u64
  | MemberDeleteRole u64 u64 u64
  | MemberAddRole u64 u64 u64
  | GetMember u64 u64
  | DbExecute nat "PreparedStatementData list"
  | DbAsyncQuery nat "PreparedStatementData list"

record interaction =
  in_channel :: u64
  in_guild :: u64
  in_user :: u64
  in_now :: int

record ConfirmButton =
  cb_KeepRoleId :: u64
  cb_DeleteRoleId :: u64
  cb_GuildId :: u64
  cb_Members :: "u64 list"

record DiscordGuildConfig =
  gc_EnableRoleCheck :: bool
  gc_EnableRoleAdd :: bool
  gc_RoleIdUser :: u64
  gc_RoleIdFriend :: u64

text \<open>The callbacks that wait for an answer, with what they captured.\<close>

datatype continuation =
    NicknameSelected u64 u64 u64 string string u32
  | MemberFetched u64 u64 u64 u64
  | RoleAdded u64 u64

record bot =
  bt_confirmButtons :: "(u64 \<times> ConfirmButton) list"
  bt_guildConfigs :: "(u64 \<times> DiscordGuildConfig) list"
  bt_waiting :: "continuation list"

type_synonym bot_op = "bot \<Rightarrow> action list \<times> bot"

text \<open>A row of the table of players: nickname, item level, specialisation.\<close>

type_synonym player_row = "string \<times> u32 \<times> string"

subsection \<open>Formatting\<close>

text \<open>\<open>StringFormat\<close> with as many arguments as there are places for them.\<close>

fun StringFormat :: "string \<Rightarrow> string list \<Rightarrow> string" where
  "StringFormat [] args = []"
| "StringFormat [c] args = [c]"
| "StringFormat (c # d # cs) args =
     (if c = CHR ''{'' \<and> d = CHR ''}'' then (case args of [] \<Rightarrow> [] | a # as \<Rightarrow> a @ StringFormat cs as)
      else c # StringFormat (d # cs) args)"

definition show_u64 :: "u64 \<Rightarrow> string" where
  "show_u64 n = show_nat (unat n)"

definition show_i32 :: "u32 \<Rightarrow> string" where
  "show_i32 n = show_int (sint n)"

definition reply_embed :: "interaction \<Rightarrow> embed_msg \<Rightarrow> action" where
  "reply_embed i m = Reply (in_channel i) (em_message m) True []"

definition SendEmbedMessage :: "embed_msg \<Rightarrow> u64 \<Rightarrow> action" where
  "SendEmbedMessage m channelID = MessageCreate channelID (em_message m)"

subsection \<open>Requests that wait for confirmation\<close>

definition GetConfirmButton :: "u64 \<Rightarrow> bot \<Rightarrow> ConfirmButton option" where
  "GetConfirmButton authorId b = map_of (bt_confirmButtons b) authorId"

definition AddConfirmButton :: "u64 \<Rightarrow> ConfirmButton \<Rightarrow> bot \<Rightarrow> bot" where
  "AddConfirmButton authorId confirmButton b =
     (case GetConfirmButton authorId b of
        Some _ \<Rightarrow> b\<lparr>bt_confirmButtons := map (\<lambda>(k, v). (k, if k = authorId then confirmButton else v)) (bt_confirmButtons b)\<rparr>
      | None \<Rightarrow> b\<lparr>bt_confirmButtons := emplace authorId confirmButton (bt_confirmButtons b)\<rparr>)"

definition DeleteConfirmButton :: "u64 \<Rightarrow> bot \<Rightarrow> bot" where
  "DeleteConfirmButton authorId b = b\<lparr>bt_confirmButtons := map_erase authorId (bt_confirmButtons b)\<rparr>"

subsection \<open>The check of the roles\<close>

text \<open>The parameters of the command, and what the library answers: the roles it knows and the members it lists.\<close>

record check_roles =
  cr_role_keep :: u64
  cr_role_del :: u64
  cr_max_users :: u64
  cr_find_role :: "u64 \<Rightarrow> bool"
  cr_members :: "u64 \<Rightarrow> u16 \<Rightarrow> (u64 \<times> u64 list) list"

fun found_roles :: "u64 \<Rightarrow> u64 \<Rightarrow> u64 list \<Rightarrow> bool \<times> bool \<Rightarrow> bool \<times> bool" where
  "found_roles keep del [] found = found"
| "found_roles keep del (memberRoleId # roles) (foundKeepRole, foundDelRole) =
     (if memberRoleId = keep then found_roles keep del roles (True, foundDelRole)
      else if memberRoleId = del then found_roles keep del roles (foundKeepRole, True)
      else found_roles keep del roles (foundKeepRole, foundDelRole))"

fun select_members :: "u64 \<Rightarrow> u64 \<Rightarrow> (u64 \<times> u64 list) list \<Rightarrow> u64 list" where
  "select_members keep del [] = []"
| "select_members keep del ((memberId, roles) # members) =
     (let (foundKeepRole, foundDelRole) = found_roles keep del roles (False, False)
      in if foundKeepRole \<and> foundDelRole then memberId # select_members keep del members
         else select_members keep del members)"

fun list_members :: "u8 \<Rightarrow> u64 list \<Rightarrow> embed_msg \<Rightarrow> embed_msg" where
  "list_members index [] m = m"
| "list_members index (memberId # members) m =
     list_members (index + 1) members
       (AddDescription (show_nat (unat (index + 1)) @ ''. <@'' @ show_u64 memberId @ ''>'' @ [CHR 0x0A]) m)"

text \<open>
  A role that is not found is printed as the null pointer of the search, converted to an integer.  The buttons of the
  reply carry the number of the author.
\<close>

definition CheckRolesHandler :: "interaction \<Rightarrow> check_roles \<Rightarrow> bot_op" where
  "CheckRolesHandler i c b =
     (let embedMsg = SetTitle txt_check_roles (DiscordEmbedMsg (in_now i));
          refuse = (\<lambda>description. ([reply_embed i (SetDescription description (SetColor Red embedMsg))], b));
          authorId = in_user i
      in if \<not> cr_find_role c (cr_role_keep c) then refuse (StringFormat txt_no_such_role [show_u64 0, show_u64 0])
         else if \<not> cr_find_role c (cr_role_del c) then refuse (StringFormat txt_no_such_role [show_u64 0, show_u64 0])
         else
           let members = cr_members c (in_guild i) (ucast (cr_max_users c))
           in if members = [] then refuse txt_no_members
              else
                let selected = select_members (cr_role_keep c) (cr_role_del c) members;
                    confirmButton = \<lparr>cb_KeepRoleId = cr_role_keep c, cb_DeleteRoleId = cr_role_del c,
                                      cb_GuildId = in_guild i, cb_Members = selected\<rparr>
                in if selected = [] then refuse txt_nobody_matches
                   else
                     let embedMsg = SetColor Indigo embedMsg;
                         embedMsg = AddEmbedField txt_keep_role
                           (StringFormat txt_role_format [show_u64 (cr_role_keep c), show_u64 (cr_role_keep c)]) False embedMsg;
                         embedMsg = AddEmbedField txt_delete_role
                           (StringFormat txt_role_format [show_u64 (cr_role_del c), show_u64 (cr_role_del c)]) False embedMsg;
                         embedMsg = list_members 0 selected embedMsg
                     in ([Reply (in_channel i) (em_message embedMsg) True
                            [(txt_confirm_label, show_u64 authorId @ ''_Confirm''),
                             (txt_delete_label, show_u64 authorId @ ''_Delete'')]],
                         AddConfirmButton authorId confirmButton b))"

definition on_button_click :: "interaction \<Rightarrow> u64 \<Rightarrow> string \<Rightarrow> bot_op" where
  "on_button_click i messageId custom_id b =
     (let authorID = in_user i;
          embedMsg = SetTitle txt_check_roles_running (DiscordEmbedMsg (in_now i));
          answer = (\<lambda>color description. reply_embed i (SetDescription description (SetColor color embedMsg)));
          isAuthor = starts_with custom_id (show_u64 authorID);
          isConfirm = (custom_id = show_u64 authorID @ ''_Confirm'');
          isDelete = (custom_id = show_u64 authorID @ ''_Delete'')
      in if \<not> isAuthor then ([answer Red txt_not_author], b)
         else if \<not> isConfirm \<and> \<not> isDelete then ([answer Red txt_strange], b)
         else if isDelete then ([MessageDelete messageId (in_channel i), answer Indigo txt_request_deleted], b)
         else if \<not> isConfirm then ([answer Red txt_strange_2], b)
         else case GetConfirmButton authorID b of
                None \<Rightarrow> ([answer Red txt_request_not_found], b)
              | Some confirm \<Rightarrow>
                  (answer Indigo txt_request_sent #
                     map (\<lambda>memberId. MemberDeleteRole (cb_GuildId confirm) memberId (cb_DeleteRoleId confirm)) (cb_Members confirm),
                   DeleteConfirmButton authorID b))"

subsection \<open>Joining the guild\<close>

text \<open>
  \<open>NormalizePlayerName\<close> returns the name it leaves in its argument; when the conversion back fails, that is the
  empty string.
\<close>

definition NormalizePlayerName :: "string \<Rightarrow> bool \<times> string" where
  "NormalizePlayerName name =
     (if name = [] then (False, name)
      else if CHR '' '' \<in> set name then (False, name)
      else let (converted, tmp) = Utf8toWStr name
           in if \<not> converted then (False, name)
              else let tmp = wstrToLower tmp;
                       tmp = (if tmp \<noteq> [] then tmp[0 := wcharToUpper (tmp ! 0)] else tmp)
                   in WStrToUtf8 tmp)"

definition DISCORD_SEL_NICKNAMES :: nat where "DISCORD_SEL_NICKNAMES = 0"

definition DISCORD_SEL_NICKNAME :: nat where "DISCORD_SEL_NICKNAME = 1"

definition DISCORD_DEL_NICKNAME :: nat where "DISCORD_DEL_NICKNAME = 2"

definition DISCORD_INS_NICKNAME :: nat where "DISCORD_INS_NICKNAME = 3"

definition GetConfig :: "u64 \<Rightarrow> bot \<Rightarrow> DiscordGuildConfig option" where
  "GetConfig guildId b = map_of (bt_guildConfigs b) guildId"

definition wait_for :: "continuation \<Rightarrow> bot \<Rightarrow> bot" where
  "wait_for k b = b\<lparr>bt_waiting := bt_waiting b @ [k]\<rparr>"

definition AddGuildNickName :: "u64 \<Rightarrow> u64 \<Rightarrow> u64 \<Rightarrow> string \<Rightarrow> string \<Rightarrow> u32 \<Rightarrow> bot_op" where
  "AddGuildNickName guildId userId channelId nickName gameSpec ilvl b =
     (let saveNickName = snd (NormalizePlayerName nickName)
      in ([DbAsyncQuery DISCORD_SEL_NICKNAME [PUInt64 guildId, PString saveNickName]],
          wait_for (NicknameSelected guildId userId channelId saveNickName gameSpec ilvl) b))"

definition on_form_submit :: "interaction \<Rightarrow> string \<Rightarrow> string \<Rightarrow> string \<Rightarrow> bot_op" where
  "on_form_submit i nickName gameSpec ilvlStr b =
     (let embedMsg = SetTitle txt_join (DiscordEmbedMsg (in_now i));
          refuse = (\<lambda>description. ([reply_embed i (SetDescription description (SetColor Red embedMsg))], b));
          (normal, nickName) = NormalizePlayerName nickName
      in if \<not> normal then refuse (StringFormat txt_bad_nick [nickName])
         else case FromString (sint_ty 32) ilvlStr 10 of
                None \<Rightarrow> refuse (StringFormat txt_bad_ilvl [ilvlStr])
              | Some avgIlvl \<Rightarrow>
                  let embedMsg = SetColor Cyan embedMsg;
                      embedMsg = AddEmbedField txt_field_nick nickName False embedMsg;
                      embedMsg = AddEmbedField txt_field_spec gameSpec False embedMsg;
                      embedMsg = AddEmbedField txt_field_ilvl ilvlStr False embedMsg;
                      embedMsg = SetDescription txt_role_requested embedMsg;
                      (actions, b) = AddGuildNickName (in_guild i) (in_user i) (in_channel i) nickName gameSpec
                                       (word_of_int avgIlvl) b
                  in (reply_embed i embedMsg # actions, b))"

text \<open>The three callbacks of \<open>AddGuildNickName\<close>, each with the answer it waited for.\<close>

definition nickname_selected ::
  "int \<Rightarrow> u64 \<Rightarrow> u64 \<Rightarrow> u64 \<Rightarrow> string \<Rightarrow> string \<Rightarrow> u32 \<Rightarrow> bool \<Rightarrow> bot_op" where
  "nickname_selected epoch guildId userId channelId saveNickName gameSpec ilvl result b =
     (let embedMsg = SetTitle txt_join (DiscordEmbedMsg epoch)
      in if result then
           ([SendEmbedMessage (SetDescription (StringFormat txt_already_known [saveNickName]) (SetColor Red embedMsg)) channelId], b)
         else
           let insert = DbExecute DISCORD_INS_NICKNAME
                          [PUInt64 guildId, PUInt64 userId, PString saveNickName, PInt32 ilvl, PString gameSpec];
               embedMsg = SetDescription (StringFormat txt_added [saveNickName]) (SetColor Indigo embedMsg);
               (fetch, b) = (case GetConfig guildId b of
                   Some guildConfig \<Rightarrow>
                     if gc_EnableRoleAdd guildConfig then
                       ([GetMember guildId userId],
                        wait_for (MemberFetched guildId userId channelId (gc_RoleIdUser guildConfig)) b)
                     else ([], b)
                 | None \<Rightarrow> ([], b))
           in (insert # fetch @ [SendEmbedMessage embedMsg channelId], b))"

definition member_fetched :: "u64 \<Rightarrow> u64 \<Rightarrow> u64 \<Rightarrow> u64 \<Rightarrow> u64 list option \<Rightarrow> bot_op" where
  "member_fetched guildId userId channelId roleIdUser userRoles b =
     (case userRoles of
        None \<Rightarrow> ([], b)
      | Some roles \<Rightarrow>
          if roleIdUser \<in> set roles then ([], b)
          else ([MemberAddRole guildId userId roleIdUser], wait_for (RoleAdded userId channelId) b))"

definition role_added :: "int \<Rightarrow> u64 \<Rightarrow> u64 \<Rightarrow> bot_op" where
  "role_added epoch userId channelId b =
     ([SendEmbedMessage
         (SetDescription (StringFormat txt_got_role [show_u64 userId])
            (SetColor Teal (SetTitle txt_role_given (DiscordEmbedMsg epoch)))) channelId], b)"

subsection \<open>The list of the players\<close>

definition player_value :: "u32 \<Rightarrow> string \<Rightarrow> string" where
  "player_value ilvl gameSpec = StringFormat txt_spec_ilvl [gameSpec, show_i32 ilvl]"

definition members_message :: "int \<Rightarrow> embed_msg" where
  "members_message epoch = SetColor Indigo (SetTitle txt_members (DiscordEmbedMsg epoch))"

text \<open>
  The loop over the rows.  The message created after a full one is a variable of the inner block: it hides
  the outer one there and is gone at the end of the block.
\<close>

fun players_loop :: "u64 \<Rightarrow> u8 \<Rightarrow> player_row list \<Rightarrow> embed_msg \<Rightarrow> action list" where
  "players_loop channelId cnt [] msg = [SendEmbedMessage msg channelId]"
| "players_loop channelId cnt ((nickName, ilvl, gameSpec) # rows) msg =
     (let cnt = cnt + 1;
          sent = (if cnt \<ge> 23 then [SendEmbedMessage msg channelId] else [])
      in sent @ players_loop channelId cnt rows (AddEmbedField nickName (player_value ilvl gameSpec) False msg))"

definition GuildGetPlayersHandler :: "interaction \<Rightarrow> player_row list option \<Rightarrow> bot_op" where
  "GuildGetPlayersHandler i result b =
     (let replyMsg = SetTitle txt_members (DiscordEmbedMsg (in_now i));
          select = DbAsyncQuery DISCORD_SEL_NICKNAMES [PUInt64 (in_guild i)]
      in case result of
           None \<Rightarrow> ([select, reply_embed i (SetDescription txt_members_not_found (SetColor Red replyMsg))], b)
         | Some rows \<Rightarrow>
             let replyMsg = AddEmbedField txt_member_count (show_nat (length rows)) False (SetColor Cyan replyMsg)
             in (select # reply_embed i replyMsg # players_loop (in_channel i) 0 rows (members_message (in_now i)), b))"

subsection \<open>Removing a player\<close>

fun remove_player :: "u64 \<Rightarrow> string \<Rightarrow> player_row list \<Rightarrow> embed_msg \<Rightarrow> action list \<times> embed_msg" where
  "remove_player guildId targetNickname [] replyMsg =
     ([], SetDescription (StringFormat txt_player_unknown [targetNickname]) (SetColor Yellow replyMsg))"
| "remove_player guildId targetNickname ((nickName, ilvl, gameSpec) # rows) replyMsg =
     (if StringEqualI nickName targetNickname then
        ([DbExecute DISCORD_DEL_NICKNAME [PUInt64 guildId, PString nickName]],
         AddEmbedField nickName (player_value ilvl gameSpec) False
           (SetDescription txt_player_removed (SetColor Yellow replyMsg)))
      else remove_player guildId targetNickname rows replyMsg)"

definition GuildDelHandler :: "interaction \<Rightarrow> string \<Rightarrow> player_row list option \<Rightarrow> bot_op" where
  "GuildDelHandler i nickname result b =
     (let targetNickname = snd (NormalizePlayerName nickname);
          replyMsg = SetTitle txt_remove_member (DiscordEmbedMsg (in_now i));
          select = DbAsyncQuery DISCORD_SEL_NICKNAMES [PUInt64 (in_guild i)]
      in case result of
           None \<Rightarrow> ([select, reply_embed i (SetDescription txt_members_not_found (SetColor Red replyMsg))], b)
         | Some rows \<Rightarrow>
             let (deleted, replyMsg) = remove_player (in_guild i) targetNickname rows replyMsg
             in (select # deleted @ [reply_embed i replyMsg], b))"

subsection \<open>Dispatch\<close>

text \<open>The rows of the form: a component with its label and its identifier, each a short text.\<close>

definition GuildAddHandler :: bot_op where
  "GuildAddHandler b =
     ([Dialog ''addModal'' txt_modal_title
         [[(txt_label_nick, ''nickname'')], [(txt_label_spec, ''gamespec'')], [(txt_label_ilvl, ''avgilvl'')]]], b)"

text \<open>The parameters of a command and, for the two commands that select the players, the rows of the answer.\<close>

record slash_params =
  sp_check :: check_roles
  sp_nickname :: string
  sp_rows :: "player_row list option"

definition on_slashcommand :: "interaction \<Rightarrow> string \<Rightarrow> slash_params \<Rightarrow> bot_op" where
  "on_slashcommand i commandName p =
     (if commandName = ''guild-add'' then GuildAddHandler
      else if commandName = ''check-roles'' then CheckRolesHandler i (sp_check p)
      else if commandName = ''guild-players-list'' then GuildGetPlayersHandler i (sp_rows p)
      else if commandName = ''guild-delete'' then GuildDelHandler i (sp_nickname p) (sp_rows p)
      else Pair [])"

datatype answer = Selected bool | Fetched "u64 list option" | Confirmed

definition resume :: "int \<Rightarrow> continuation \<Rightarrow> answer \<Rightarrow> bot_op" where
  "resume epoch k a = (case (k, a) of
       (NicknameSelected g u ch nick spec ilvl, Selected result) \<Rightarrow> nickname_selected epoch g u ch nick spec ilvl result
     | (MemberFetched g u ch role, Fetched roles) \<Rightarrow> member_fetched g u ch role roles
     | (RoleAdded u ch, Confirmed) \<Rightarrow> role_added epoch u ch
     | _ \<Rightarrow> Pair [])"

datatype bot_event =
    SlashCommand interaction string slash_params
  | ButtonClick interaction u64 string
  | FormSubmit interaction string string string
  | Answered nat int answer

definition handle_event :: "bot_event \<Rightarrow> bot_op" where
  "handle_event e b = (case e of
       SlashCommand i commandName p \<Rightarrow> on_slashcommand i commandName p b
     | ButtonClick i messageId custom_id \<Rightarrow> on_button_click i messageId custom_id b
     | FormSubmit i nickName gameSpec ilvlStr \<Rightarrow> on_form_submit i nickName gameSpec ilvlStr b
     | Answered n epoch a \<Rightarrow>
         if n < length (bt_waiting b)
         then resume epoch (bt_waiting b ! n) a (b\<lparr>bt_waiting := take n (bt_waiting b) @ drop (Suc n) (bt_waiting b)\<rparr>)
         else ([], b))"

text \<open>A run of the bot: the actions of each event, and the state at the end.\<close>

fun run_events :: "bot_event list \<Rightarrow> bot \<Rightarrow> action list list \<times> bot" where
  "run_events [] b = ([], b)"
| "run_events (e # es) b =
     (let (actions, b) = handle_event e b; (rest, b) = run_events es b in (actions # rest, b))"

subsection \<open>The commands\<close>

text \<open>
  The commands that are registered in every guild of the bot.  The second call of \<open>set_max_length\<close> replaces the value of
  the first.
\<close>

datatype command_option_type = co_string | co_role | co_integer

record command_option =
  co_type :: command_option_type
  co_name :: string
  co_description :: string
  co_required :: bool
  co_max_length :: "int option"
  co_min_value :: "int option"
  co_max_value :: "int option"

record slashcommand =
  sc_name :: string
  sc_description :: string
  sc_options :: "command_option list"
  sc_default_permissions :: "u64 option"

definition command_option :: "command_option_type \<Rightarrow> string \<Rightarrow> string \<Rightarrow> bool \<Rightarrow> command_option" where
  "command_option ty name description required =
     \<lparr>co_type = ty, co_name = name, co_description = description, co_required = required,
      co_max_length = None, co_min_value = None, co_max_value = None\<rparr>"

definition set_max_length :: "int \<Rightarrow> command_option \<Rightarrow> command_option" where
  "set_max_length n c = c\<lparr>co_max_length := Some n\<rparr>"

definition bot_commands :: "slashcommand list" where
  "bot_commands =
     (let nickname = set_max_length 15 (set_max_length 2 (command_option co_string ''nickname'' txt_opt_nick True));
          maxUsers = (command_option co_integer ''max_users'' txt_opt_max True)\<lparr>co_min_value := Some 1, co_max_value := Some 20\<rparr>
      in [\<lparr>sc_name = ''guild-add'', sc_description = txt_cmd_add, sc_options = [], sc_default_permissions = None\<rparr>,
          \<lparr>sc_name = ''guild-delete'', sc_description = txt_cmd_del, sc_options = [nickname], sc_default_permissions = Some 0\<rparr>,
          \<lparr>sc_name = ''guild-players-list'', sc_description = txt_cmd_list, sc_options = [], sc_default_permissions = Some 0\<rparr>,
          \<lparr>sc_name = ''check-roles'', sc_description = txt_cmd_check,
           sc_options = [command_option co_role ''role_keep'' txt_opt_keep True,
                         command_option co_role ''role_del'' txt_opt_del True, maxUsers],
           sc_default_permissions = Some 0\<rparr>])"

text \<open>The callback with the guilds of the bot; \<open>None\<close> is an error.\<close>

definition register_commands :: "u64 list option \<Rightarrow> (slashcommand \<times> u64) list" where
  "register_commands guilds = (case guilds of
       None \<Rightarrow> [] | Some ids \<Rightarrow> concat (map (\<lambda>guild. map (\<lambda>c. (c, guild)) bot_commands) ids))"

subsection \<open>The configuration of the guilds\<close>

fun load_guild_configs :: "(u64 \<times> DiscordGuildConfig) list \<Rightarrow> bot \<Rightarrow> bot" where
  "load_guild_configs [] b = b"
| "load_guild_configs ((guildId, config) # rows) b =
     (if GetConfig guildId b \<noteq> None then load_guild_configs rows b
      else load_guild_configs rows (b\<lparr>bt_guildConfigs := emplace guildId config (bt_guildConfigs b)\<rparr>))"

definition DiscordConfigMgr_LoadConfig :: "(u64 \<times> DiscordGuildConfig) list option \<Rightarrow> bot \<Rightarrow> bot" where
  "DiscordConfigMgr_LoadConfig result b = (case result of None \<Rightarrow> b | Some rows \<Rightarrow> load_guild_configs rows b)"

text \<open>\<open>DiscordMgr::LoadConfig\<close> stops the process when there is no token, \<open>CheckGuild\<close> when there is no guild.\<close>

definition DiscordMgr_LoadConfig :: "string \<Rightarrow> (u64 \<times> DiscordGuildConfig) list option \<Rightarrow> bot \<Rightarrow> bot res" where
  "DiscordMgr_LoadConfig botToken result b =
     (if botToken = [] then Inl Aborted else Inr (DiscordConfigMgr_LoadConfig result b))"

definition CheckGuild :: "u64 list \<Rightarrow> unit res" where
  "CheckGuild guilds = (if guilds = [] then Inl Aborted else Inr ())"

section \<open>Normalized names\<close>

lemma units16_case: "c < 65536 \<Longrightarrow> wcharToLower c < 65536" "c < 65536 \<Longrightarrow> wcharToUpper c < 65536"
  by (auto simp: wcharToLower_def wcharToUpper_def)

text \<open>The wide string of a normalized name.\<close>

definition capitalized :: "nat list \<Rightarrow> nat list" where
  "capitalized w = (case wstrToLower w of [] \<Rightarrow> [] | c # cs \<Rightarrow> wcharToUpper c # cs)"

lemma NormalizePlayerName_eq:
  "name \<noteq> [] \<Longrightarrow> CHR '' '' \<notin> set name \<Longrightarrow> Utf8toWStr name = (True, w) \<Longrightarrow> NormalizePlayerName name = WStrToUtf8 (capitalized w)"
  by (cases "wstrToLower w") (simp_all add: NormalizePlayerName_def capitalized_def)

lemma NormalizePlayerName_True:
  assumes "NormalizePlayerName name = (True, n)"
  obtains w where "name \<noteq> []" "CHR '' '' \<notin> set name" "Utf8toWStr name = (True, w)" "WStrToUtf8 (capitalized w) = (True, n)"
proof -
  obtain w where 1: "name \<noteq> []" "CHR '' '' \<notin> set name" "Utf8toWStr name = (True, w)"
    using assms by (auto simp: NormalizePlayerName_def Let_def split: if_splits prod.splits)
  then show thesis using that assms NormalizePlayerName_eq [OF 1] by simp
qed

lemma capitalized_idem: "capitalized (capitalized w) = capitalized w"
  by (cases w) (simp_all add: capitalized_def wstrToLower_def)

lemma capitalized_units16: "units16 w \<Longrightarrow> units16 (capitalized w)"
  by (cases w) (auto simp: capitalized_def wstrToLower_def units16_def list_all_iff units16_case)

lemma capitalized_space: "32 \<in> set (capitalized w) \<longleftrightarrow> 32 \<in> set w"
  by (cases w) (auto simp: capitalized_def wstrToLower_def wchar_not_space eq_commute [of 32] image_iff)

text \<open>
  C27: A name that was normalized is not empty, has no space and is left as it is by another
  normalization; names that differ only in the case of their letters are normalized to the same name.
\<close>

theorem normalized_name_stable:
  assumes "NormalizePlayerName name = (True, n)"
  shows "NormalizePlayerName n = (True, n) \<and> n \<noteq> [] \<and> CHR '' '' \<notin> set n
    \<and> (\<forall>other w w'. other \<noteq> [] \<and> Utf8toWStr name = (True, w) \<and> Utf8toWStr other = (True, w') \<and> wstrToLower w' = wstrToLower w
         \<longrightarrow> NormalizePlayerName other = (True, n))"
proof -
  obtain w where w: "name \<noteq> []" "CHR '' '' \<notin> set name" "Utf8toWStr name = (True, w)" "WStrToUtf8 (capitalized w) = (True, n)"
    using NormalizePlayerName_True [OF assms] by blast
  have u: "units16 w" using wide_string_inverse [of name w] w(3) by simp
  have n: "Utf8toWStr n = (True, capitalized w)"
    using wide_string_inverse [of n "capitalized w"] w(4) capitalized_units16 [OF u] by simp
  have sp: "CHR '' '' \<notin> set n"
    using Utf8toWStr_space [OF n] Utf8toWStr_space [OF w(3)] w(2) by (simp add: capitalized_space)
  have ne: "n \<noteq> []"
  proof
    assume "n = []"
    then have "capitalized w = []" using n by (simp add: Utf8toWStr_def string_octets_def utf8to16.simps)
    then have "w = []" by (cases w) (simp_all add: capitalized_def wstrToLower_def)
    then have "name = []" using wide_string_inverse [of name w] w(3) by (simp add: WStrToUtf8_def octets_string_def)
    with w(1) show False by simp
  qed
  have "NormalizePlayerName n = (True, n)"
    using NormalizePlayerName_eq [OF ne sp n] w(4) by (simp add: capitalized_idem)
  moreover have "NormalizePlayerName other = (True, n)"
    if "other \<noteq> []" "Utf8toWStr other = (True, w')" "wstrToLower w' = wstrToLower w" for other w'
  proof -
    have c: "capitalized w' = capitalized w" using that(3) by (simp add: capitalized_def)
    have "CHR '' '' \<notin> set other"
      using Utf8toWStr_space [OF that(2)] Utf8toWStr_space [OF w(3)] w(2) capitalized_space [of w] capitalized_space [of w'] c by simp
    then show ?thesis using NormalizePlayerName_eq [OF that(1) _ that(2)] w(4) c by simp
  qed
  ultimately show ?thesis using ne sp w(3) by auto
qed

lemma ascii_utf8to16:
  "list_all (\<lambda>c. c < 128) cs \<Longrightarrow> utf8to16 cs = Inr cs"
proof (induction cs)
  case (Cons c cs)
  then have "is_code_point_valid c" "encode_cp c = [c]" "units_of c = [c]"
    by (auto simp: is_code_point_valid_def is_surrogate_def encode_cp_def units_of_def)
  with utf8to16_encode [of c cs] Cons show ?case by simp
qed (simp add: utf8to16.simps)

theorem normalized_name_stable_witness:
  "NormalizePlayerName ''wINFIDO'' = (True, ''Winfido'') \<and> NormalizePlayerName ''Winfido'' = (True, ''Winfido'')"
proof -
  have u: "Utf8toWStr ''wINFIDO'' = (True, [119, 73, 78, 70, 73, 68, 79])"
    by (simp add: Utf8toWStr_def string_octets_def ascii_utf8to16)
  have c: "capitalized [119, 73, 78, 70, 73, 68, 79] = [87, 105, 110, 102, 105, 100, 111]"
    by (simp add: capitalized_def wstrToLower_def wcharToLower_def wcharToUpper_def)
  have "Utf8toWStr ''Winfido'' = (True, [87, 105, 110, 102, 105, 100, 111])"
    by (simp add: Utf8toWStr_def string_octets_def ascii_utf8to16)
  then have "WStrToUtf8 [87, 105, 110, 102, 105, 100, 111] = (True, ''Winfido'')"
    using wide_string_inverse by blast
  with NormalizePlayerName_eq [OF _ _ u] c have n: "NormalizePlayerName ''wINFIDO'' = (True, ''Winfido'')" by simp
  with normalized_name_stable [OF n] show ?thesis by simp
qed

section \<open>Role deletions\<close>

interpretation confirm_buttons: keyed_store "\<lambda>b a. GetConfirmButton a b" AddConfirmButton DeleteConfirmButton
proof unfold_locales
  fix a a' :: u64 and r :: ConfirmButton and b :: bot
  have u: "map_of (map (\<lambda>(k, v). (k, if k = a then r else v)) m) a' = (if a' = a then map_option (\<lambda>_. r) (map_of m a') else map_of m a')" for m
    by (induction m) auto
  show "GetConfirmButton a' (AddConfirmButton a r b) = (if a' = a then Some r else GetConfirmButton a' b)"
    using u by (auto simp: GetConfirmButton_def AddConfirmButton_def map_of_emplace split: option.splits)
  show "GetConfirmButton a' (DeleteConfirmButton a b) = (if a' = a then None else GetConfirmButton a' b)"
    by (simp add: GetConfirmButton_def DeleteConfirmButton_def map_of_map_erase)
qed

lemma found_roles_eq:
  "found_roles keep del roles (fk, fd) = (fk \<or> keep \<in> set roles, fd \<or> (del \<noteq> keep \<and> del \<in> set roles))"
  by (induction roles arbitrary: fk fd) auto

lemma select_members_eq:
  "select_members keep del members =
     map fst (filter (\<lambda>(m, roles). keep \<in> set roles \<and> del \<in> set roles \<and> del \<noteq> keep) members)"
  by (induction keep del members rule: select_members.induct) (auto simp: found_roles_eq)

text \<open>The request that a check of the roles makes, when it makes one.\<close>

definition request_of :: "interaction \<Rightarrow> check_roles \<Rightarrow> ConfirmButton option" where
  "request_of i c =
     (let both = map fst (filter (\<lambda>(m, roles). cr_role_keep c \<in> set roles \<and> cr_role_del c \<in> set roles \<and> cr_role_del c \<noteq> cr_role_keep c)
                   (cr_members c (in_guild i) (ucast (cr_max_users c))))
      in if cr_find_role c (cr_role_keep c) \<and> cr_find_role c (cr_role_del c) \<and> both \<noteq> []
         then Some \<lparr>cb_KeepRoleId = cr_role_keep c, cb_DeleteRoleId = cr_role_del c, cb_GuildId = in_guild i, cb_Members = both\<rparr>
         else None)"

definition role_deletions :: "action list \<Rightarrow> action list" where
  "role_deletions actions = filter (\<lambda>a. case a of MemberDeleteRole _ _ _ \<Rightarrow> True | _ \<Rightarrow> False) actions"

lemma role_deletions_simps [simp]:
  "role_deletions [] = []"
  "role_deletions (a # as) = (case a of MemberDeleteRole _ _ _ \<Rightarrow> [a] | _ \<Rightarrow> []) @ role_deletions as"
  "role_deletions (as @ cs) = role_deletions as @ role_deletions cs"
  by (simp_all add: role_deletions_def split: action.splits)

lemma role_deletions_map: "role_deletions (map (\<lambda>m. MemberDeleteRole g m r) ms) = map (\<lambda>m. MemberDeleteRole g m r) ms"
  by (induction ms) simp_all

lemma CheckRolesHandler_effect:
  "role_deletions (fst (CheckRolesHandler i c b)) = []
   \<and> snd (CheckRolesHandler i c b) = (case request_of i c of None \<Rightarrow> b | Some r \<Rightarrow> AddConfirmButton (in_user i) r b)"
  by (auto simp: CheckRolesHandler_def request_of_def Let_def select_members_eq reply_embed_def)

text \<open>
  The abstract machine: for every author the request that waits, if any.  A check of the roles puts a request in
  place of the author's last one, the author's own confirmation takes it away and carries it out.
\<close>

definition confirms :: "bot_event \<Rightarrow> u64 \<Rightarrow> bool" where
  "confirms e a = (case e of ButtonClick i _ custom_id \<Rightarrow> in_user i = a \<and> custom_id = show_u64 a @ ''_Confirm'' | _ \<Rightarrow> False)"

definition requests :: "bot_event \<Rightarrow> u64 \<Rightarrow> ConfirmButton option" where
  "requests e a = (case e of
       SlashCommand i commandName p \<Rightarrow>
         if commandName = ''check-roles'' \<and> in_user i = a then request_of i (sp_check p) else None
     | _ \<Rightarrow> None)"

definition after_event :: "bot_event \<Rightarrow> (u64 \<Rightarrow> ConfirmButton option) \<Rightarrow> u64 \<Rightarrow> ConfirmButton option" where
  "after_event e p a = (if confirms e a then None else case requests e a of Some r \<Rightarrow> Some r | None \<Rightarrow> p a)"

definition carried_out :: "bot_event \<Rightarrow> (u64 \<Rightarrow> ConfirmButton option) \<Rightarrow> action list" where
  "carried_out e p = (case e of
       ButtonClick i _ _ \<Rightarrow>
         (if confirms e (in_user i) then
            case p (in_user i) of
              Some r \<Rightarrow> map (\<lambda>m. MemberDeleteRole (cb_GuildId r) m (cb_DeleteRoleId r)) (cb_Members r)
            | None \<Rightarrow> []
          else [])
     | _ \<Rightarrow> [])"

fun deletions_spec :: "bot_event list \<Rightarrow> (u64 \<Rightarrow> ConfirmButton option) \<Rightarrow> action list list" where
  "deletions_spec [] p = []"
| "deletions_spec (e # es) p = carried_out e p # deletions_spec es (after_event e p)"

lemma slash_effect:
  "role_deletions (fst (on_slashcommand i n p b)) = []
   \<and> GetConfirmButton a (snd (on_slashcommand i n p b)) =
       (case requests (SlashCommand i n p) a of Some r \<Rightarrow> Some r | None \<Rightarrow> GetConfirmButton a b)"
proof (cases "n = ''check-roles''")
  case True
  then show ?thesis
    using CheckRolesHandler_effect [of i "sp_check p" b] confirm_buttons.lookup_put
    by (auto simp: on_slashcommand_def requests_def split: option.splits)
next
  case False
  have "role_deletions (players_loop ch k rows m) = []" for ch k rows m
    by (induction ch k rows m rule: players_loop.induct) (simp_all add: SendEmbedMessage_def Let_def)
  moreover have "role_deletions (fst (remove_player g t rows m)) = []" for g t rows m
    by (induction g t rows m rule: remove_player.induct) simp_all
  ultimately show ?thesis
    using False
    by (auto simp: on_slashcommand_def requests_def GuildAddHandler_def GuildGetPlayersHandler_def GuildDelHandler_def
        reply_embed_def Let_def split: option.splits prod.splits) (metis fst_conv)+
qed

lemma button_effect:
  "role_deletions (fst (on_button_click i m c b)) = carried_out (ButtonClick i m c) (\<lambda>a. GetConfirmButton a b)
   \<and> GetConfirmButton a (snd (on_button_click i m c b)) =
       (if confirms (ButtonClick i m c) a then None else GetConfirmButton a b)"
proof (cases "c = show_u64 (in_user i) @ ''_Confirm''")
  case True
  then show ?thesis
    using confirm_buttons.lookup_erase
    by (auto simp: on_button_click_def carried_out_def confirms_def reply_embed_def Let_def role_deletions_map split: option.splits)
next
  case False
  then show ?thesis
    by (auto simp: on_button_click_def carried_out_def confirms_def reply_embed_def Let_def)
qed

lemma GetConfirmButton_waiting [simp]:
  "GetConfirmButton a (wait_for k b) = GetConfirmButton a b"
  "GetConfirmButton a (b\<lparr>bt_waiting := ks\<rparr>) = GetConfirmButton a b"
  by (simp_all add: GetConfirmButton_def wait_for_def)

lemma resume_effect:
  "role_deletions (fst (resume epoch k ans b)) = [] \<and> GetConfirmButton a (snd (resume epoch k ans b)) = GetConfirmButton a b"
  by (auto simp: resume_def nickname_selected_def member_fetched_def role_added_def SendEmbedMessage_def Let_def
      split: continuation.splits answer.splits option.splits)

lemma form_effect:
  "role_deletions (fst (on_form_submit i n s l b)) = [] \<and> GetConfirmButton a (snd (on_form_submit i n s l b)) = GetConfirmButton a b"
  by (auto simp: on_form_submit_def AddGuildNickName_def reply_embed_def Let_def split: option.splits prod.splits)

lemma event_effect:
  "role_deletions (fst (handle_event e b)) = carried_out e (\<lambda>a. GetConfirmButton a b)
   \<and> GetConfirmButton a (snd (handle_event e b)) = after_event e (\<lambda>a. GetConfirmButton a b) a"
proof (cases e)
  case (SlashCommand i n p)
  with slash_effect show ?thesis by (simp add: handle_event_def carried_out_def after_event_def confirms_def)
next
  case (ButtonClick i m c)
  with button_effect show ?thesis by (simp add: handle_event_def after_event_def requests_def)
next
  case (FormSubmit i n s l)
  with form_effect show ?thesis by (simp add: handle_event_def carried_out_def after_event_def confirms_def requests_def)
next
  case (Answered n epoch ans)
  with resume_effect show ?thesis by (simp add: handle_event_def carried_out_def after_event_def confirms_def requests_def)
qed

lemma run_events_refines:
  "map role_deletions (fst (run_events es b)) = deletions_spec es (\<lambda>a. GetConfirmButton a b)"
proof (induction es arbitrary: b)
  case (Cons e es)
  obtain actions b' where h: "handle_event e b = (actions, b')" by (cases "handle_event e b")
  obtain rest b'' where r: "run_events es b' = (rest, b'')" by (cases "run_events es b'")
  have "(\<lambda>a. GetConfirmButton a b') = after_event e (\<lambda>a. GetConfirmButton a b)"
    using event_effect [of e b] h by auto
  then show ?case using Cons.IH [of b'] event_effect [of e b] h r by simp
qed simp

definition new_bot :: "(u64 \<times> DiscordGuildConfig) list \<Rightarrow> bot" where
  "new_bot configs = \<lparr>bt_confirmButtons = [], bt_guildConfigs = configs, bt_waiting = []\<rparr>"

lemma deletions_spec_nth: "n < length es \<Longrightarrow> deletions_spec es p ! n = carried_out (es ! n) (fold after_event (take n es) p)"
  by (induction es p arbitrary: n rule: deletions_spec.induct) (auto simp: nth_Cons split: nat.splits)

lemma pending_request:
  "fold after_event es (\<lambda>_. None) a = Some r
   \<Longrightarrow> \<exists>k < length es. requests (es ! k) a = Some r \<and> (\<forall>j. k < j \<and> j < length es \<longrightarrow> \<not> confirms (es ! j) a)"
proof (induction es arbitrary: r rule: rev_induct)
  case (snoc e es)
  show ?case
  proof (cases "requests e a")
    case None
    then have n: "\<not> confirms e a" and "fold after_event es (\<lambda>_. None) a = Some r"
      using snoc.prems by (auto simp: after_event_def [of e] split: if_splits)
    then obtain k where "k < length es" "requests (es ! k) a = Some r" "\<forall>j. k < j \<and> j < length es \<longrightarrow> \<not> confirms (es ! j) a"
      using snoc.IH by blast
    with n show ?thesis by (intro exI [of _ k]) (auto simp: nth_append less_Suc_eq)
  next
    case (Some r')
    then have "r' = r" using snoc.prems by (auto simp: after_event_def [of e] split: if_splits)
    with Some show ?thesis by (intro exI [of _ "length es"]) auto
  qed
qed simp

lemma length_run_events [simp]: "length (fst (run_events es b)) = length es"
  by (induction es arbitrary: b) (simp_all add: Let_def split: prod.splits, metis fst_conv)

lemma deletions_of_event:
  assumes "n < length es"
  shows "role_deletions (fst (run_events es (new_bot configs)) ! n) = carried_out (es ! n) (fold after_event (take n es) (\<lambda>_. None))"
proof -
  have "role_deletions (fst (run_events es (new_bot configs)) ! n) = map role_deletions (fst (run_events es (new_bot configs))) ! n"
    using assms by simp
  also have "\<dots> = carried_out (es ! n) (fold after_event (take n es) (\<lambda>_. None))"
    using deletions_spec_nth [OF assms] by (simp add: run_events_refines new_bot_def GetConfirmButton_def)
  finally show ?thesis .
qed

lemma carried_out_memD:
  assumes "MemberDeleteRole g m r \<in> set (carried_out e p)"
  shows "\<exists>u req. confirms e u \<and> p u = Some req \<and> cb_GuildId req = g \<and> cb_DeleteRoleId req = r \<and> m \<in> set (cb_Members req)"
proof (cases e)
  case (ButtonClick i mid cid)
  have c: "confirms e (in_user i)"
  proof (rule ccontr)
    assume "\<not> confirms e (in_user i)"
    then have "carried_out e p = []" using ButtonClick by (simp add: carried_out_def)
    with assms show False by simp
  qed
  show ?thesis
  proof (cases "p (in_user i)")
    case None
    then have "carried_out e p = []" using ButtonClick by (simp add: carried_out_def)
    with assms show ?thesis by simp
  next
    case (Some req)
    then have "carried_out e p = map (\<lambda>m. MemberDeleteRole (cb_GuildId req) m (cb_DeleteRoleId req)) (cb_Members req)"
      using c ButtonClick by (simp add: carried_out_def)
    with assms have "cb_GuildId req = g \<and> cb_DeleteRoleId req = r \<and> m \<in> set (cb_Members req)" by auto
    with c Some show ?thesis by blast
  qed
qed (use assms in \<open>simp_all add: carried_out_def\<close>)

text \<open>
  C3: In every run of the bot, a role is deleted from a member only when a user presses the confirmation of a
  request of their own: the request is the check of the roles that this user made earlier in the run, in that guild
  and for that role, it was not confirmed before, and when it was made the member had both the role to keep and the role
  to delete.
\<close>

theorem role_deletions_confirmed:
  assumes "n < length es"
    and "MemberDeleteRole g m r \<in> set (fst (run_events es (new_bot configs)) ! n)"
  shows "\<exists>k i p. k < n \<and> es ! k = SlashCommand i ''check-roles'' p \<and> confirms (es ! n) (in_user i)
    \<and> (\<forall>j. k < j \<and> j < n \<longrightarrow> \<not> confirms (es ! j) (in_user i))
    \<and> in_guild i = g \<and> cr_role_del (sp_check p) = r \<and> cr_role_keep (sp_check p) \<noteq> r
    \<and> (\<exists>roles. (m, roles) \<in> set (cr_members (sp_check p) g (ucast (cr_max_users (sp_check p))))
         \<and> r \<in> set roles \<and> cr_role_keep (sp_check p) \<in> set roles)"
proof -
  let ?p = "fold after_event (take n es) (\<lambda>_. None)"
  have "MemberDeleteRole g m r \<in> set (carried_out (es ! n) ?p)"
    using assms(2) deletions_of_event [OF assms(1), of configs, symmetric] by (simp add: role_deletions_def)
  from carried_out_memD [OF this] obtain u req where c: "confirms (es ! n) u" and "?p u = Some req"
    and req: "cb_GuildId req = g" "cb_DeleteRoleId req = r" "m \<in> set (cb_Members req)"
    by blast
  then obtain k where k: "k < n" "requests (es ! k) u = Some req" "\<forall>j. k < j \<and> j < n \<longrightarrow> \<not> confirms (es ! j) u"
    using pending_request [of "take n es" u req] assms(1) by (auto simp: less_imp_le)
  then obtain i p where i: "es ! k = SlashCommand i ''check-roles'' p" "in_user i = u" "request_of i (sp_check p) = Some req"
    by (auto simp: requests_def split: bot_event.splits if_splits)
  have "in_guild i = g" "cr_role_del (sp_check p) = r" "cr_role_keep (sp_check p) \<noteq> r"
    "\<exists>roles. (m, roles) \<in> set (cr_members (sp_check p) g (ucast (cr_max_users (sp_check p))))
       \<and> r \<in> set roles \<and> cr_role_keep (sp_check p) \<in> set roles"
    using i(3) req by (auto simp: request_of_def Let_def split: if_splits) blast+
  with k c i show ?thesis by blast
qed

definition demo_check :: check_roles where
  "demo_check = \<lparr>cr_role_keep = 10, cr_role_del = 20, cr_max_users = 5, cr_find_role = (\<lambda>_. True),
     cr_members = (\<lambda>_ _. [(7, [10, 20]), (8, [20])])\<rparr>"

definition demo_slash :: bot_event where
  "demo_slash = SlashCommand \<lparr>in_channel = 1, in_guild = 2, in_user = 3, in_now = 0\<rparr> ''check-roles''
     \<lparr>sp_check = demo_check, sp_nickname = [], sp_rows = None\<rparr>"

definition demo_click :: bot_event where
  "demo_click = ButtonClick \<lparr>in_channel = 1, in_guild = 2, in_user = 3, in_now = 1\<rparr> 99 ''3_Confirm''"

lemma demo_request: "request_of \<lparr>in_channel = 1, in_guild = 2, in_user = 3, in_now = 0\<rparr> demo_check
    = Some \<lparr>cb_KeepRoleId = 10, cb_DeleteRoleId = 20, cb_GuildId = 2, cb_Members = [7]\<rparr>"
  by (simp add: request_of_def demo_check_def)

lemma show_u64_digit: "show_u64 3 = ''3''"
proof -
  have "char_of (51 :: nat) = CHR ''3''" by code_simp
  then show ?thesis by (simp add: show_u64_def show_nat.simps [of 3] digit_char_def)
qed

lemma demo_deletion: "role_deletions (fst (run_events [demo_slash, demo_click] (new_bot [])) ! 1) = [MemberDeleteRole 2 7 20]"
  using deletions_of_event [of 1 "[demo_slash, demo_click]" "[]"]
  by (simp add: demo_slash_def demo_click_def carried_out_def confirms_def after_event_def requests_def demo_request show_u64_digit)

theorem role_deletions_confirmed_witness:
  "MemberDeleteRole 2 7 20 \<in> set (fst (run_events [demo_slash, demo_click] (new_bot [])) ! 1)
   \<and> (\<exists>k < 1. \<exists>i p. [demo_slash, demo_click] ! k = SlashCommand i ''check-roles'' p \<and> in_guild i = 2
        \<and> cr_role_del (sp_check p) = 20)"
proof -
  have "MemberDeleteRole 2 7 20 \<in> set (role_deletions (fst (run_events [demo_slash, demo_click] (new_bot [])) ! 1))"
    by (simp only: demo_deletion) simp
  then have a: "MemberDeleteRole 2 7 20 \<in> set (fst (run_events [demo_slash, demo_click] (new_bot [])) ! 1)"
    by (simp add: role_deletions_def)
  show ?thesis using a role_deletions_confirmed [OF _ a] by auto
qed

section \<open>The players of a guild\<close>

text \<open>The field of a player, and the message with the fields of some players.\<close>

definition player_field :: "player_row \<Rightarrow> string \<times> string" where
  "player_field row = (case row of (nickName, ilvl, gameSpec) \<Rightarrow> (nickName, player_value ilvl gameSpec))"

definition players_message :: "int \<Rightarrow> player_row list \<Rightarrow> embed_call list" where
  "players_message epoch rows =
     em_message (members_message epoch) @ map (\<lambda>(n, v). EmbedField n v False) (map player_field rows)"

definition filled_message :: "int \<Rightarrow> player_row list \<Rightarrow> embed_msg" where
  "filled_message epoch rows = fold (\<lambda>(n, v). AddEmbedField n v False) (map player_field rows) (members_message epoch)"

lemma filled_message_eq:
  assumes "list_all (\<lambda>row. field_fits (player_field row)) rows"
  shows "em_message (filled_message epoch rows) = players_message epoch (take 24 rows)"
proof -
  have f: "list_all (\<lambda>(n, v). field_fits (n, v)) (map player_field rows)"
    using assms by (simp add: list_all_iff)
  have "em_fieldsCount (members_message epoch) = 0"
    by (simp add: members_message_def embed_setters DiscordEmbedMsg_def)
  then show ?thesis
    using fold_AddEmbedField [OF f, of False "members_message epoch"]
    by (simp add: filled_message_def players_message_def take_map)
qed

lemma count_wraps: "(23 :: u8) \<le> of_nat n \<longleftrightarrow> 23 \<le> n mod 256"
  by (simp add: word_le_nat_alt unat_of_nat)

lemma players_loop_eq:
  "k \<le> length rows \<Longrightarrow>
   players_loop ch (of_nat k) (drop k rows) (filled_message epoch (take k rows)) =
     map (\<lambda>j. SendEmbedMessage (filled_message epoch (take j rows)) ch)
       (filter (\<lambda>j. 23 \<le> Suc j mod 256) [k..<length rows] @ [length rows])"
proof (induction "length rows - k" arbitrary: k)
  case 0
  then show ?case by simp
next
  case (Suc d)
  then have k: "k < length rows" by simp
  obtain n l s where row: "rows ! k = (n, l, s)" by (cases "rows ! k")
  have d: "drop k rows = (n, l, s) # drop (Suc k) rows" using k row by (metis Cons_nth_drop_Suc)
  have m: "AddEmbedField n (player_value l s) False (filled_message epoch (take k rows)) = filled_message epoch (take (Suc k) rows)"
    using k row by (simp add: filled_message_def take_Suc_conv_app_nth player_field_def)
  have c: "23 \<le> (of_nat k :: u8) + 1 \<longleftrightarrow> 23 \<le> Suc k mod 256" using count_wraps [of "Suc k"] by (simp add: add.commute)
  have u: "[k..<length rows] = k # [Suc k..<length rows]" using k by (simp add: upt_rec)
  have "players_loop ch (of_nat (Suc k)) (drop (Suc k) rows) (filled_message epoch (take (Suc k) rows)) =
      map (\<lambda>j. SendEmbedMessage (filled_message epoch (take j rows)) ch)
        (filter (\<lambda>j. 23 \<le> Suc j mod 256) [Suc k..<length rows] @ [length rows])"
    by (rule Suc.hyps(1)) (use Suc.hyps(2) k in simp_all)
  then show ?case using m c by (simp add: d u Let_def add.commute)
qed

text \<open>
  The messages that list the players of a guild, for rows whose fields fit: each has the first rows of the answer, at
  most twenty-four of them.  From the twenty-third row on (as counted in eight bits) the message is sent once
  more before each row, and the last is sent after the loop.  So up to twenty-two players are listed in one message,
  while a player after the twenty-fourth is in no message at all.
\<close>

theorem players_list_messages:
  assumes "list_all (\<lambda>row. field_fits (player_field row)) rows"
  shows "players_loop ch 0 rows (members_message epoch) =
    map (\<lambda>k. MessageCreate ch (players_message epoch (take (min k 24) rows)))
      (filter (\<lambda>k. 23 \<le> (k + 1) mod 256) [0..<length rows] @ [length rows])"
proof -
  have "list_all (\<lambda>row. field_fits (player_field row)) (take k rows)" for k
    using assms by (auto simp: list_all_iff dest: in_set_takeD)
  then have m: "em_message (filled_message epoch (take k rows)) = players_message epoch (take (min k 24) rows)" for k
    by (simp add: filled_message_eq min.commute)
  have z: "filled_message epoch [] = members_message epoch" by (simp add: filled_message_def)
  show ?thesis using players_loop_eq [of 0 rows ch epoch] z by (simp add: SendEmbedMessage_def m)
qed

lemma length_StringFormat: "length (StringFormat fmt args) \<le> length fmt + sum_list (map length args)"
proof (induction fmt args rule: StringFormat.induct)
  case (3 c d cs args)
  then show ?case by (cases args) (fastforce split: if_splits)+
qed simp_all

theorem players_list_messages_witness:
  "players_loop 1 0 (replicate 30 (''a'', 5, ''b'')) (members_message 0) =
     map (\<lambda>k. MessageCreate 1 (players_message 0 (replicate (min k 24) (''a'', 5, ''b'')))) [22..<31]"
proof -
  have s: "show_i32 5 = [digit_char 5]" by (simp add: show_i32_def show_int_def show_nat.simps [of 5])
  have "length txt_spec_ilvl \<le> 100" by (simp add: txt_spec_ilvl_def)
  then have "length (StringFormat txt_spec_ilvl [''b'', show_i32 5]) \<le> 1024"
    using length_StringFormat [of txt_spec_ilvl "[''b'', show_i32 5]"] by (simp add: s)
  then have f: "list_all (\<lambda>row. field_fits (player_field row)) (replicate 30 (''a'', 5, ''b''))"
    by (simp add: player_field_def player_value_def field_fits_def list_all_iff)
  have k: "filter (\<lambda>k. 23 \<le> (k + 1) mod 256) [0..<length (replicate 30 (''a'', 5 :: u32, ''b''))] @ [30] = [22..<31]"
    by (simp only: length_replicate) code_simp
  have "players_loop 1 0 (replicate 30 (''a'', 5, ''b'')) (members_message 0) =
      map (\<lambda>k. MessageCreate 1 (players_message 0 (take (min k 24) (replicate 30 (''a'', 5, ''b''))))) [22..<31]"
    using players_list_messages [OF f, of 1 0] unfolding k [symmetric] by (simp only: length_replicate)
  then show ?thesis by (simp add: min_def cong: map_cong)
qed

section \<open>What the bot does to the database\<close>

definition database_writes :: "action list \<Rightarrow> action list" where
  "database_writes actions = filter (\<lambda>a. case a of DbExecute _ _ \<Rightarrow> True | _ \<Rightarrow> False) actions"

lemma database_writes_simps [simp]:
  "database_writes [] = []"
  "database_writes (a # as) = (case a of DbExecute _ _ \<Rightarrow> [a] | _ \<Rightarrow> []) @ database_writes as"
  "database_writes (as @ cs) = database_writes as @ database_writes cs"
  by (simp_all add: database_writes_def split: action.splits)

lemma remove_player_find:
  "fst (remove_player g target rows m) =
     (case find (\<lambda>(nick, _). StringEqualI nick target) rows of
        None \<Rightarrow> []
      | Some (nick, _) \<Rightarrow> [DbExecute DISCORD_DEL_NICKNAME [PUInt64 g, PString nick]])"
  by (induction g target rows m rule: remove_player.induct) simp_all

text \<open>
  The command that removes a player writes to the database at most once: it deletes the player of that guild whose
  nickname equals the normalized one up to the case of ASCII letters, the first of the answer, and nothing when there
  is none.
\<close>

theorem guild_delete_first_match:
  "database_writes (fst (GuildDelHandler i nickname (Some rows) b)) =
     (case find (\<lambda>(nick, _). StringEqualI nick (snd (NormalizePlayerName nickname))) rows of
        None \<Rightarrow> []
      | Some (nick, _) \<Rightarrow> [DbExecute DISCORD_DEL_NICKNAME [PUInt64 (in_guild i), PString nick]])"
proof -
  let ?t = "snd (NormalizePlayerName nickname)"
  obtain deleted m where r: "remove_player (in_guild i) ?t rows (SetTitle txt_remove_member (DiscordEmbedMsg (in_now i))) = (deleted, m)"
    by (cases "remove_player (in_guild i) ?t rows (SetTitle txt_remove_member (DiscordEmbedMsg (in_now i)))")
  have "deleted = (case find (\<lambda>(nick, _). StringEqualI nick ?t) rows of
      None \<Rightarrow> [] | Some (nick, _) \<Rightarrow> [DbExecute DISCORD_DEL_NICKNAME [PUInt64 (in_guild i), PString nick]])"
    using remove_player_find [of "in_guild i" ?t rows] r by (metis fst_conv)
  moreover have "database_writes (fst (GuildDelHandler i nickname (Some rows) b)) = database_writes deleted"
    by (simp add: GuildDelHandler_def Let_def reply_embed_def r)
  ultimately show ?thesis by (simp split: option.splits prod.splits)
qed

text \<open>
  The prepared statement of an action and its arguments; the number of arguments is that of the parameters of the
  statement with this index.
\<close>

definition action_statement :: "action \<Rightarrow> (nat \<times> PreparedStatementData list) option" where
  "action_statement a = (case a of
       DbExecute n args \<Rightarrow> Some (n, args) | DbAsyncQuery n args \<Rightarrow> Some (n, args) | _ \<Rightarrow> None)"

definition statement_arity :: "nat \<Rightarrow> nat" where
  "statement_arity n = (if n = DISCORD_SEL_NICKNAMES then 1 else if n = DISCORD_SEL_NICKNAME then 2
     else if n = DISCORD_DEL_NICKNAME then 2 else 5)"

definition statement_fits :: "action \<Rightarrow> bool" where
  "statement_fits a = (case action_statement a of
       None \<Rightarrow> True | Some (n, args) \<Rightarrow> n < 4 \<and> length args = statement_arity n)"

lemmas statement_index_defs = DISCORD_SEL_NICKNAMES_def DISCORD_SEL_NICKNAME_def DISCORD_DEL_NICKNAME_def DISCORD_INS_NICKNAME_def

lemma statement_fits_simps [simp]:
  "statement_fits (Reply c m f bs)" "statement_fits (Dialog n t rs)" "statement_fits (MessageCreate c m)"
  "statement_fits (MessageDelete k c)" "statement_fits (MemberDeleteRole g u r)" "statement_fits (MemberAddRole g u r)"
  "statement_fits (GetMember g u)"
  "statement_fits (DbAsyncQuery DISCORD_SEL_NICKNAMES [x])"
  "statement_fits (DbAsyncQuery DISCORD_SEL_NICKNAME [x, y])"
  "statement_fits (DbExecute DISCORD_DEL_NICKNAME [x, y])"
  "statement_fits (DbExecute DISCORD_INS_NICKNAME [x, y, z, v, w])"
  by (simp_all add: statement_fits_def action_statement_def statement_arity_def statement_index_defs)

lemma players_loop_fits: "list_all statement_fits (players_loop ch k rows m)"
  by (induction ch k rows m rule: players_loop.induct) (simp_all add: SendEmbedMessage_def Let_def)

lemma remove_player_fits: "list_all statement_fits (fst (remove_player g t rows m))"
  by (induction g t rows m rule: remove_player.induct) simp_all

lemma slash_fits: "list_all statement_fits (fst (on_slashcommand i n p b))"
proof -
  have "list_all statement_fits (fst (GuildDelHandler i x rows b))" for x rows
    using remove_player_fits by (auto simp: GuildDelHandler_def Let_def reply_embed_def split: option.splits prod.splits) (metis fst_conv)
  moreover have "list_all statement_fits (fst (GuildGetPlayersHandler i rows b))" for rows
    using players_loop_fits by (auto simp: GuildGetPlayersHandler_def Let_def reply_embed_def split: option.splits)
  ultimately show ?thesis
    by (simp add: on_slashcommand_def GuildAddHandler_def CheckRolesHandler_def Let_def reply_embed_def)
qed

lemma button_fits: "list_all statement_fits (fst (on_button_click i m c b))"
  by (auto simp: on_button_click_def Let_def reply_embed_def list_all_iff split: option.splits)

lemma form_fits: "list_all statement_fits (fst (on_form_submit i n s l b))"
  by (auto simp: on_form_submit_def AddGuildNickName_def reply_embed_def Let_def split: option.splits prod.splits)

lemma resume_fits: "list_all statement_fits (fst (resume epoch k a b))"
  by (auto simp: resume_def nickname_selected_def member_fetched_def role_added_def SendEmbedMessage_def Let_def
      split: continuation.splits answer.splits option.splits)

lemma event_statements_fit: "list_all statement_fits (fst (handle_event e b))"
  by (cases e) (simp_all add: handle_event_def slash_fits button_fits form_fits resume_fits)

end
