(* ===== verification/DiscordDatabase.thy ===== *)
theory DiscordDatabase
  imports WorkerPool Bot
begin

section \<open>The bot's database\<close>

text \<open>
  \<^verbatim>\<open>src/src/server/database/Database/Implementation/DiscordDatabase.cpp\<close>: the statements of the pool the bot works with, and
  the property that ties the bot to the pool, to the statement objects and to the connections: what the bot puts
  into its statements is what the connections prepared.
\<close>

definition SetStatementSize :: "nat \<Rightarrow> db_pool \<Rightarrow> db_pool" where
  "SetStatementSize statementSize p = p\<lparr>dp_statementSize := statementSize\<rparr>"

definition sql_sel_nicknames :: string where
  "sql_sel_nicknames = ''SELECT `nickname`, `ilvl`, `game_spec`, `twinks` FROM `guild_players` WHERE `discord_guild_id` = ?''"

definition sql_sel_nickname :: string where
  "sql_sel_nickname = ''SELECT `nickname` FROM `guild_players` WHERE `discord_guild_id` = ? AND `nickname` = ?''"

definition sql_del_nickname :: string where
  "sql_del_nickname = ''DELETE FROM `guild_players` WHERE `discord_guild_id` = ? AND `nickname` = ?''"

definition sql_ins_nickname :: string where
  "sql_ins_nickname =
     ''INSERT INTO `guild_players` (`discord_guild_id`, `user_id`, `nickname`, `ilvl`, `game_spec`) VALUES (?, ?, ?, ?, ?)''"

definition sql_upd_nickname :: string where
  "sql_upd_nickname = ''UPDATE `guild_players` SET `twinks` = ? WHERE `discord_guild_id` = ? AND nickname LIKE ?''"

definition sql_upd_ilvl :: string where
  "sql_upd_ilvl = ''UPDATE `guild_players` SET `ilvl` = ? WHERE `discord_guild_id` = ? AND nickname LIKE ?''"

definition DoPrepareStatements :: "db_pool \<Rightarrow> db_pool" where
  "DoPrepareStatements p =
     (let p = SetStatementSize 6 p;
          p = Pool_PrepareStatement (of_nat DISCORD_SEL_NICKNAMES) sql_sel_nicknames Async p;
          p = Pool_PrepareStatement (of_nat DISCORD_SEL_NICKNAME) sql_sel_nickname Async p;
          p = Pool_PrepareStatement (of_nat DISCORD_DEL_NICKNAME) sql_del_nickname Async p;
          p = Pool_PrepareStatement (of_nat DISCORD_INS_NICKNAME) sql_ins_nickname Async p;
          p = Pool_PrepareStatement 4 sql_upd_nickname Async p
      in Pool_PrepareStatement 5 sql_upd_ilvl Async p)"

definition markers :: "string \<Rightarrow> nat" where
  "markers sql = length (filter (\<lambda>c. c = CHR ''?'') sql)"

definition statement_text :: "nat \<Rightarrow> string" where
  "statement_text n = [sql_sel_nicknames, sql_sel_nickname, sql_del_nickname, sql_ins_nickname, sql_upd_nickname, sql_upd_ilvl] ! n"

lemma Pool_PrepareStatement_new:
  "map_of (dp_statements p) index = None
   \<Longrightarrow> dp_statements (Pool_PrepareStatement index sql flags p) = dp_statements p @ [(index, sql, flags)]"
  by (simp add: Pool_PrepareStatement_def emplace_def)

lemma DoPrepareStatements_statements:
  "dp_statements p = [] \<Longrightarrow> dp_statements (DoPrepareStatements p) =
     [(0, sql_sel_nicknames, Async), (1, sql_sel_nickname, Async), (2, sql_del_nickname, Async),
      (3, sql_ins_nickname, Async), (4, sql_upd_nickname, Async), (5, sql_upd_ilvl, Async)]"
  by (simp add: DoPrepareStatements_def SetStatementSize_def Pool_PrepareStatement_new statement_index_defs Let_def)

lemma statement_registered:
  assumes "n < 4" "dp_statements p = []"
  shows "(of_nat n, statement_text n, Async) \<in> set (dp_statements (DoPrepareStatements p))"
proof -
  from assms(1) consider "n = 0" | "n = 1" | "n = 2" | "n = 3" by linarith
  then show ?thesis
    by cases (simp_all add: DoPrepareStatements_statements [OF assms(2)] statement_text_def)
qed

lemma DoPrepareStatements_frame:
  "dp_async (DoPrepareStatements p) = dp_async p" "dp_sync (DoPrepareStatements p) = dp_sync p"
  "dp_preparedSize (DoPrepareStatements p) = dp_preparedSize p"
  by (simp_all add: DoPrepareStatements_def SetStatementSize_def Let_def) (simp_all add: Pool_PrepareStatement_def)

lemma statement_markers: "n < 4 \<Longrightarrow> markers (statement_text n) = statement_arity n"
proof -
  assume "n < 4"
  then consider "n = 0" | "n = 1" | "n = 2" | "n = 3" by linarith
  then show ?thesis
    by cases (simp_all add: markers_def statement_text_def statement_arity_def statement_index_defs
        sql_sel_nicknames_def sql_sel_nickname_def sql_del_nickname_def sql_ins_nickname_def)
qed

text \<open>
  C4: Every statement the bot executes or queries, in whatever state and for whatever event, goes through: in a pool whose
  connections have prepared the statements of \<open>DoPrepareStatements\<close>, the pool has the statement object, its arguments
  are set without an assertion failing and all of them are set, and an asynchronous connection has the statement
  prepared and binds the arguments.  It rests on the client library counting the markers of a statement.
\<close>

theorem bot_statements_bind:
  assumes "Pool_PrepareStatements cls (DoPrepareStatements p) = (Inr True, p')" "dp_statements p = []"
    and "\<forall>pc. pc \<in> set (dp_async p @ dp_sync p) \<longrightarrow> cn_stmtList (pc_conn pc) = []" "dp_preparedSize p = []"
    and "\<forall>i. cl_param_count (cls i) = markers"
    and "pc \<in> set (dp_async p')" "prepared_on (cn_flags (pc_conn pc)) Async"
    and "a \<in> set (fst (handle_event e b))" "action_statement a = Some (n, args)"
  shows "\<exists>st st' m m'. Pool_GetPreparedStatement (of_nat n) p' = Inr st \<and> SetArguments args st = Inr st'
    \<and> fst (IsAllParamsSet st') \<and> GetPreparedStatement (of_nat n) (pc_conn pc) = Inr (Some m) \<and> BindParameters st' m = Inr m'"
proof -
  have "statement_fits a" using event_statements_fit [of e b] assms(8) by (simp add: list_all_iff)
  then have n: "n < 4" "length args = markers (statement_text n)"
    using assms(9) statement_markers by (simp_all add: statement_fits_def)
  have "distinct (map fst (dp_statements (DoPrepareStatements p)))"
    using DoPrepareStatements_statements [OF assms(2)] by simp
  moreover have "\<And>pc. pc \<in> set (dp_async (DoPrepareStatements p) @ dp_sync (DoPrepareStatements p)) \<Longrightarrow> cn_stmtList (pc_conn pc) = []"
    "dp_preparedSize (DoPrepareStatements p) = []" "\<And>i. cl_param_count (cls i) = markers"
    using assms(3-5) by (simp_all only: DoPrepareStatements_frame)
  moreover have "pc \<in> set (dp_async p' @ dp_sync p')" using assms(6) by simp
  ultimately have "\<exists>st m. Pool_GetPreparedStatement (of_nat n) p' = Inr st \<and> length (ps_data st) = markers (statement_text n)
    \<and> GetPreparedStatement (of_nat n) (pc_conn pc) = Inr (Some m) \<and> ms_query m = statement_text n
    \<and> (\<forall>args. length args = markers (statement_text n) \<longrightarrow>
         (\<exists>st' m'. SetArguments args st = Inr st' \<and> fst (IsAllParamsSet st') \<and> BindParameters st' m = Inr m'))"
    using prepared_pool_binds [OF assms(1) _ _ _ _ statement_registered [OF n(1) assms(2)] _ assms(7)] by blast
  then show ?thesis using n(2) by blast
qed

text \<open>A pool with one asynchronous connection, before and after its statements are prepared.\<close>

definition discord_conn :: "mysql_stmt option list \<Rightarrow> (call \<times> bool) list \<Rightarrow> pool_conn" where
  "discord_conn stmts events =
     \<lparr>pc_id = 0, pc_conn = demo_connection\<lparr>cn_flags := Async, cn_stmtList := stmts, cn_events := events\<rparr>, pc_locked = False\<rparr>"

definition discord_pool :: db_pool where
  "discord_pool = demo_pool\<lparr>dp_async := [discord_conn [] []]\<rparr>"

definition discord_texts :: "string list" where
  "discord_texts = [sql_sel_nicknames, sql_sel_nickname, sql_del_nickname, sql_ins_nickname, sql_upd_nickname, sql_upd_ilvl]"

definition discord_prepared :: pool_conn where
  "discord_prepared = discord_conn (map (\<lambda>sql. Some (MySQLPreparedStatement (markers sql) sql)) discord_texts)
     (concat (map (\<lambda>sql. [(StmtInit, False), (StmtPrepare sql, False)]) discord_texts))"

lemma prepare_discord:
  assumes "unat index < length stmts"
  shows "PrepareStatement (demo_clients i) index sql Async (pc_conn (discord_conn stmts events)) =
    (Inr (), pc_conn (discord_conn (stmts[unat index := Some (MySQLPreparedStatement (markers sql) sql)])
       (events @ [(StmtInit, False), (StmtPrepare sql, False)])))"
  using assms
  by (simp add: PrepareStatement_def discord_conn_def flag_bits_def perform_def set_stmt_def demo_connection_eq
      demo_clients_def sample_client_def markers_def)

lemma discord_markers:
  "markers sql_sel_nicknames = 1" "markers sql_sel_nickname = 2" "markers sql_del_nickname = 2" "markers sql_ins_nickname = 5"
  "markers sql_upd_nickname = 3" "markers sql_upd_ilvl = 3"
  by (simp_all add: markers_def sql_sel_nicknames_def sql_sel_nickname_def sql_del_nickname_def sql_ins_nickname_def
      sql_upd_nickname_def sql_upd_ilvl_def)

lemma list_update_numeral: "(x # xs)[numeral k := v] = x # xs[pred_numeral k := v]"
  by (simp add: numeral_eq_Suc)

lemma discord_connection_prepares:
  "InitPrepareStatement (demo_clients 0) (DoPrepareStatements discord_pool) (pc_conn (discord_conn [] [])) = (Inr (), pc_conn discord_prepared)"
proof -
  have s: "dp_statements discord_pool = []" by (simp add: discord_pool_def demo_pool_def DatabaseWorkerPool_def)
  have n: "dp_statementSize (DoPrepareStatements discord_pool) = 6"
    by (simp add: DoPrepareStatements_def SetStatementSize_def Let_def) (simp add: Pool_PrepareStatement_def)
  have l: "(pc_conn (discord_conn [] []))\<lparr>cn_stmtList := stmts\<rparr> = pc_conn (discord_conn stmts [])" for stmts
    by (simp add: discord_conn_def)
  have r: "replicate 6 (None :: mysql_stmt option) = [None, None, None, None, None, None]" by (simp add: numeral_eq_Suc)
  have "cn_stmtList (pc_conn (discord_conn [] [])) = []" by (simp add: discord_conn_def)
  then show ?thesis
    by (simp add: InitPrepareStatement_def DoPrepareStatements_statements [OF s] n l r resize_list_def prepare_discord
        discord_prepared_def discord_texts_def list_update_numeral)
qed

lemma discord_pool_prepares:
  "Pool_PrepareStatements demo_clients (DoPrepareStatements discord_pool) =
     (Inr True, (DoPrepareStatements discord_pool)\<lparr>dp_async := [discord_prepared], dp_preparedSize := [1, 2, 2, 5, 3, 3]\<rparr>)"
proof -
  let ?p = "DoPrepareStatements discord_pool"
  have p: "dp_async ?p = [discord_conn [] []]" "dp_sync ?p = []" "dp_preparedSize ?p = []"
    by (simp_all add: DoPrepareStatements_frame discord_pool_def demo_pool_def DatabaseWorkerPool_def)
  have c: "pc_id (discord_conn s e) = 0" "(discord_conn s e)\<lparr>pc_conn := pc_conn (discord_conn s' e')\<rparr> = discord_conn s' e'"
    "\<not> pc_locked (discord_conn s e)" "cn_stmtList (pc_conn (discord_conn s e)) = s" "PrepareStatements (pc_conn (discord_conn s e))" for s e s' e'
    by (simp_all add: discord_conn_def PrepareStatements_def demo_connection_eq)
  have a: "prepare_connections demo_clients ?p (dp_async ?p) = (Inr (), [discord_prepared])"
    by (simp add: p(1) c discord_connection_prepares) (simp add: discord_prepared_def c)
  have b: "prepare_connections demo_clients ?p (dp_sync ?p) = (Inr (), [])" by (simp add: p(2))
  have z: "[0 :: u8, 0, 0, 0, 0, 0] = replicate 6 0" by (simp add: numeral_eq_Suc)
  have "IsValidPrepareStatements discord_prepared (?p\<lparr>dp_async := [discord_prepared], dp_sync := []\<rparr>) =
      (Inr True, ?p\<lparr>dp_async := [discord_prepared], dp_sync := [], dp_preparedSize := [1, 2, 2, 5, 3, 3]\<rparr>)"
    by (simp add: IsValidPrepareStatements_def discord_prepared_def c p(3) resize_list_def discord_texts_def discord_markers
        MySQLPreparedStatement_def z [symmetric])
  then show ?thesis unfolding Pool_PrepareStatements_def a b using p(2) by simp
qed

theorem bot_statements_bind_witness:
  "\<exists>st st' m m'. Pool_GetPreparedStatement 0
       ((DoPrepareStatements discord_pool)\<lparr>dp_async := [discord_prepared], dp_preparedSize := [1, 2, 2, 5, 3, 3]\<rparr>) = Inr st
    \<and> SetArguments [PUInt64 2] st = Inr st' \<and> fst (IsAllParamsSet st')
    \<and> GetPreparedStatement 0 (pc_conn discord_prepared) = Inr (Some m) \<and> BindParameters st' m = Inr m'"
proof -
  let ?i = "\<lparr>in_channel = 1, in_guild = 2, in_user = 3, in_now = 0\<rparr>"
  let ?e = "SlashCommand ?i ''guild-players-list'' \<lparr>sp_check = demo_check, sp_nickname = [], sp_rows = None\<rparr>"
  have d: "dp_statements discord_pool = []" "dp_preparedSize discord_pool = []"
    "\<forall>pc. pc \<in> set (dp_async discord_pool @ dp_sync discord_pool) \<longrightarrow> cn_stmtList (pc_conn pc) = []"
    by (simp_all add: discord_pool_def demo_pool_def DatabaseWorkerPool_def discord_conn_def)
  have m: "\<forall>i. cl_param_count (demo_clients i) = markers"
    by (simp add: demo_clients_def sample_client_def markers_def fun_eq_iff)
  have c: "prepared_on (cn_flags (pc_conn discord_prepared)) Async"
    by (simp add: discord_prepared_def discord_conn_def prepared_on_def flag_bits_def)
  have e: "DbAsyncQuery 0 [PUInt64 2] \<in> set (fst (handle_event ?e (new_bot [])))"
    by (simp add: handle_event_def on_slashcommand_def GuildGetPlayersHandler_def DISCORD_SEL_NICKNAMES_def)
  show ?thesis
    using bot_statements_bind [OF discord_pool_prepares d(1,3,2) m _ c e, of 0 "[PUInt64 2]"]
    by (simp add: action_statement_def)
qed

end
