(* ===== verification/DBUpdater.thy ===== *)
theory DBUpdater
  imports WorkerPool Updater
begin

section \<open>Creating, filling and updating a database\<close>

text \<open>
  \<^verbatim>\<open>src/src/server/database/Updater/DBUpdater.cpp\<close> and \<^verbatim>\<open>DatabaseWorkerPool::MakeExtraFile\<close>.  Scripts are
  not run through the client library but by the command line client \<^verbatim>\<open>mysql\<close>, which \<open>ApplyFile\<close> starts
  as a process; queries and the statements of the update fetcher go through the pool.

  The world of the updater (\<open>updater_world\<close>) is the configuration, the file system, the exit code of a
  process by its command line, the answer of the user on the terminal, the rows of the two update
  tables, and the client library.  The rows of \<^verbatim>\<open>updates_include\<close> are given twice: as they are first,
  and as they are after its script ran again.  The context (\<open>upd_ctx\<close>) is what the code changes: the pool, the
  files it writes, the static path of the executable, and the processes it started, in order.
  An operation is a function of the context; \<open>None\<close> is that it does not return (the loops over a
  connection), \<open>Inl\<close> that the process ends.  The type of scripts is the one of a build against
  MySQL 8 on Unix.  Progress output and logging are left out.
\<close>

subsection \<open>The world and the context\<close>

record updater_world =
  uw_config :: config_mgr
  uw_config_path :: string
  uw_git_source :: string
  uw_git_mysql :: string
  uw_regular_file :: "string \<Rightarrow> bool"
  uw_search_path :: "string \<Rightarrow> string"
  uw_absolute :: "string \<Rightarrow> string"
  uw_entries :: "string \<Rightarrow> string list"
  uw_make_dir :: "string \<Rightarrow> bool"
  uw_opens :: "string \<Rightarrow> bool"
  uw_exit :: "string \<Rightarrow> string list \<Rightarrow> int"
  uw_answer :: string
  uw_fetch :: fetch_env
  uw_include :: "(string \<times> string) list"
  uw_include_restored :: "(string \<times> string) list"
  uw_updates :: "(string \<times> string \<times> string \<times> u64) list"
  uw_clients :: "nat \<Rightarrow> client"
  uw_locked :: "nat \<Rightarrow> nat \<Rightarrow> bool"

record named_pool =
  np_name :: string
  np_type :: u8
  np_extra :: string
  np_pool :: db_pool

type_synonym process_run = "string \<times> string list"

record upd_ctx =
  uc_pool :: named_pool
  uc_files :: "string \<rightharpoonup> string"
  uc_corrected :: string
  uc_runs :: "process_run list"

type_synonym 'a uop = "upd_ctx \<Rightarrow> ('a res \<times> upd_ctx) option"

definition ureturn :: "'a \<Rightarrow> 'a uop" where
  "ureturn x s = Some (Inr x, s)"

definition ufail :: "fault \<Rightarrow> 'a uop" where
  "ufail e s = Some (Inl e, s)"

definition ubind :: "'a uop \<Rightarrow> ('a \<Rightarrow> 'b uop) \<Rightarrow> 'b uop" where
  "ubind f g s = (case f s of
       None \<Rightarrow> None
     | Some (Inl e, s') \<Rightarrow> Some (Inl e, s')
     | Some (Inr x, s') \<Rightarrow> g x s')"

text \<open>An operation of the pool.\<close>

definition on_pool :: "(db_pool \<Rightarrow> ('a res \<times> db_pool) option) \<Rightarrow> 'a uop" where
  "on_pool f s = (case f (np_pool (uc_pool s)) of
       None \<Rightarrow> None
     | Some (r, p) \<Rightarrow> Some (r, s\<lparr>uc_pool := (uc_pool s)\<lparr>np_pool := p\<rparr>\<rparr>))"

subsection \<open>Paths and names\<close>

text \<open>\<open>BuiltInConfig\<close>: the option, or what the build recorded when it is empty.\<close>

definition GetStringWithDefaultValueFromFunction :: "updater_world \<Rightarrow> string \<Rightarrow> string \<Rightarrow> string" where
  "GetStringWithDefaultValueFromFunction W key getter =
     (let value = fst (GetValueDefault_string key [] True (uw_config W))
      in if value = [] then getter else value)"

definition GetSourceDirectory :: "updater_world \<Rightarrow> string" where
  "GetSourceDirectory W = GetStringWithDefaultValueFromFunction W ''SourceDirectory'' (uw_git_source W)"

definition GetMySQLExecutable :: "updater_world \<Rightarrow> string" where
  "GetMySQLExecutable W = GetStringWithDefaultValueFromFunction W ''MySQLExecutable'' (uw_git_mysql W)"

definition GetCorrectedMySQLExecutable :: "updater_world \<Rightarrow> upd_ctx \<Rightarrow> string" where
  "GetCorrectedMySQLExecutable W s =
     (if uc_corrected s \<noteq> [] then uc_corrected s else GetMySQLExecutable W)"

definition CheckExecutable :: "updater_world \<Rightarrow> bool uop" where
  "CheckExecutable W s =
     (if \<not> uw_regular_file W (GetCorrectedMySQLExecutable W s) then
        let exe = uw_search_path W ''mysql''
        in if exe \<noteq> [] \<and> uw_regular_file W exe
           then Some (Inr True, s\<lparr>uc_corrected := uw_absolute W exe\<rparr>)
           else Some (Inr False, s)
      else Some (Inr True, s))"

definition GetDBModuleName :: "named_pool \<Rightarrow> string" where
  "GetDBModuleName np = ''db_'' @ map ascii_lower (np_name np) @ ''/''"

definition GetBaseFilesDirectory :: "updater_world \<Rightarrow> named_pool \<Rightarrow> string" where
  "GetBaseFilesDirectory W np =
     GetSourceDirectory W @ ''/data/sql/base/'' @ ''db_'' @ map ascii_lower (np_name np) @ ''/''"

definition DBUpdater_IsEnabled :: "named_pool \<Rightarrow> u32 \<Rightarrow> bool" where
  "DBUpdater_IsEnabled np updateMask = (and updateMask (ucast (np_type np)) \<noteq> 0)"

subsection \<open>The file with the password\<close>

definition extra_file :: "updater_world \<Rightarrow> named_pool \<Rightarrow> string" where
  "extra_file W np = path_append (path_append (uw_config_path W) ''DB'') (np_name np @ ''Config.cnf'')"

definition password_file :: "string \<Rightarrow> string" where
  "password_file pw = ''[client]'' @ [CHR 10] @ ''password = '' @ [CHR 0x22] @ pw @ [CHR 0x22] @ [CHR 10]"

definition MakeExtraFile :: "updater_world \<Rightarrow> unit uop" where
  "MakeExtraFile W s =
     (let np = uc_pool s; file = extra_file W np
      in if \<not> uw_make_dir W (path_append (uw_config_path W) ''DB'') then Some (Inl AssertFailure, s)
         else let s = s\<lparr>uc_pool := np\<lparr>np_extra := file\<rparr>\<rparr>
              in if uc_files s file \<noteq> None then Some (Inr (), s)
                 else if \<not> uw_opens W file then Some (Inl Aborted, s)
                 else case dp_info (np_pool np) of
                        None \<Rightarrow> Some (Inl Undefined, s)
                      | Some info \<Rightarrow> Some (Inr (), s\<lparr>uc_files := (uc_files s)(file \<mapsto> password_file (ci_Password info))\<rparr>))"

text \<open>\<open>DatabaseWorkerPool::SetConnectionInfo\<close> with its second half.\<close>

definition set_connection_info :: "updater_world \<Rightarrow> string \<Rightarrow> unit uop" where
  "set_connection_info W infoString =
     ubind (on_pool (\<lambda>p. Some (Inr (), SetConnectionInfo infoString p))) (\<lambda>_. MakeExtraFile W)"

subsection \<open>Running a script\<close>

text \<open>
  The command line.  \<open>port_or_socket[0]\<close> of an empty string is undefined.  The password is not among the
  arguments: the client reads it from the extra file.
\<close>

definition mysql_args :: "string \<Rightarrow> connection_info \<Rightarrow> string \<Rightarrow> string \<Rightarrow> string list res" where
  "mysql_args extra info database path =
     (case ci_PortOrSocket info of
        [] \<Rightarrow> Inl Undefined
      | c # cs \<Rightarrow> Inr
          ([''--defaults-extra-file='' @ extra, ''-h'' @ ci_Host info, ''-u'' @ ci_User info]
           @ (if \<not> is_digit c then [''-P0'', ''--protocol=SOCKET'', ''-S'' @ ci_PortOrSocket info]
              else [''-P'' @ ci_PortOrSocket info])
           @ [''--default-character-set=utf8mb4'', ''--max-allowed-packet=1GB'']
           @ (if ci_SSL info = ''ssl'' then [''--ssl-mode=REQUIRED''] else [])
           @ [''-e'', ''BEGIN; SOURCE '' @ path @ ''; COMMIT;'']
           @ (if database \<noteq> [] then [database] else [])))"

text \<open>The command line for a script in this context; \<open>None\<close> stands for the pool's own database.\<close>

definition command :: "updater_world \<Rightarrow> string option \<Rightarrow> string \<Rightarrow> upd_ctx \<Rightarrow> process_run res" where
  "command W database path s =
     (case dp_info (np_pool (uc_pool s)) of
        None \<Rightarrow> Inl Undefined
      | Some info \<Rightarrow>
          bind_res (mysql_args (np_extra (uc_pool s)) info
                      (case database of Some d \<Rightarrow> d | None \<Rightarrow> ci_Database info) path)
            (\<lambda>args. Inr (GetCorrectedMySQLExecutable W s, args)))"

text \<open>\<open>False\<close> is that \<open>UpdateException\<close> is thrown.\<close>

definition exits_ok :: "updater_world \<Rightarrow> process_run \<Rightarrow> bool" where
  "exits_ok W run = (uw_exit W (fst run) (snd run) = 0)"

definition DBUpdater_ApplyFile :: "updater_world \<Rightarrow> string option \<Rightarrow> string \<Rightarrow> bool uop" where
  "DBUpdater_ApplyFile W database path s =
     (case command W database path s of
        Inl e \<Rightarrow> Some (Inl e, s)
      | Inr run \<Rightarrow> Some (Inr (exits_ok W run), s\<lparr>uc_runs := uc_runs s @ [run]\<rparr>))"

definition Retrieve :: "updater_world \<Rightarrow> string \<Rightarrow> result_set option uop" where
  "Retrieve W query = on_pool (Pool_Query_sql (uw_clients W) (uw_locked W) query)"

definition DBUpdater_Apply :: "updater_world \<Rightarrow> string \<Rightarrow> unit uop" where
  "DBUpdater_Apply W query =
     ubind (on_pool (DirectExecute_sql (uw_clients W) (uw_locked W) query)) (\<lambda>_. ureturn ())"

subsection \<open>Creating a database\<close>

abbreviation (input) temp_file :: string where "temp_file \<equiv> ''create_table.sql''"

definition create_sql :: "string \<Rightarrow> string" where
  "create_sql database = ''CREATE DATABASE `'' @ database
     @ ''` DEFAULT CHARACTER SET UTF8MB4 COLLATE utf8mb4_general_ci;'' @ [CHR 10, CHR 10]"

definition set_file :: "string \<Rightarrow> string option \<Rightarrow> unit uop" where
  "set_file path c s = Some (Inr (), s\<lparr>uc_files := (uc_files s)(path := c)\<rparr>)"

definition DBUpdater_Create :: "updater_world \<Rightarrow> bool uop" where
  "DBUpdater_Create W s =
     (case dp_info (np_pool (uc_pool s)) of
        None \<Rightarrow> Some (Inl Undefined, s)
      | Some info \<Rightarrow>
          if uw_answer W \<noteq> [] \<and> take 1 (uw_answer W) \<noteq> ''y'' then Some (Inr False, s)
          else if \<not> uw_opens W temp_file then Some (Inr False, s)
          else ubind (set_file temp_file (Some (create_sql (ci_Database info)))) (\<lambda>_.
               ubind (DBUpdater_ApplyFile W (Some []) temp_file) (\<lambda>ok.
               ubind (set_file temp_file None) (\<lambda>_. ureturn ok))) s)"

subsection \<open>Filling an empty database\<close>

fun populate_files :: "updater_world \<Rightarrow> string list \<Rightarrow> bool uop" where
  "populate_files W [] = ureturn True"
| "populate_files W (path # paths) =
     (if extension path \<noteq> ''.sql'' then populate_files W paths
      else ubind (DBUpdater_ApplyFile W None path) (\<lambda>ok. if ok then populate_files W paths else ureturn False))"

definition DBUpdater_Populate :: "updater_world \<Rightarrow> bool uop" where
  "DBUpdater_Populate W =
     ubind (Retrieve W ''SHOW TABLES'') (\<lambda>result.
       if (case result of Some (rows, cols) \<Rightarrow> rows > 0 | None \<Rightarrow> False) then ureturn True
       else ubind (CheckExecutable W) (\<lambda>found. if \<not> found then ureturn False else (\<lambda>s.
         let dirPath = GetBaseFilesDirectory W (uc_pool s)
         in if dirPath = [] then Some (Inr False, s)
            else if \<not> is_directory (uw_fetch W) dirPath then Some (Inr False, s)
            else if length (filter (\<lambda>p. extension p = ''.sql'') (uw_entries W dirPath)) = 0 then Some (Inr False, s)
            else populate_files W (uw_entries W dirPath) s)))"

subsection \<open>Updating a database\<close>

definition CheckUpdateTable :: "updater_world \<Rightarrow> string \<Rightarrow> bool uop" where
  "CheckUpdateTable W tableName =
     ubind (Retrieve W (''SHOW TABLES LIKE '' @ sq @ tableName @ sq)) (\<lambda>checkTable.
       case checkTable of
         Some _ \<Rightarrow> ureturn True
       | None \<Rightarrow> (\<lambda>s. DBUpdater_ApplyFile W None (GetBaseFilesDirectory W (uc_pool s) @ tableName @ ''.sql'') s))"

text \<open>
  The environment the fetcher is constructed with: the source directory, the name of the pool's
  directory, the modules or the directories given, and the callback that runs a script.
\<close>

definition fetcher :: "updater_world \<Rightarrow> string \<Rightarrow> string list option \<Rightarrow> upd_ctx \<Rightarrow> fetch_env" where
  "fetcher W modulesList setDirectories s = (uw_fetch W)\<lparr>
     source_directory := GetSourceDirectory W,
     db_module_name := GetDBModuleName (uc_pool s),
     set_directories := setDirectories,
     modules_list := modulesList,
     run_file := (\<lambda>p. case command W None p s of Inl e \<Rightarrow> False | Inr run \<Rightarrow> exits_ok W run)\<rparr>"

text \<open>The calls of the fetcher, carried out in order.\<close>

fun perform_actions :: "updater_world \<Rightarrow> action list \<Rightarrow> unit uop" where
  "perform_actions W [] = ureturn ()"
| "perform_actions W (ApplyFile p # acts) =
     ubind (DBUpdater_ApplyFile W None p) (\<lambda>_. perform_actions W acts)"
| "perform_actions W (Apply q # acts) =
     ubind (DBUpdater_Apply W (render q)) (\<lambda>_. perform_actions W acts)"

definition include_query :: string where
  "include_query = ''SELECT `path`, `state` FROM `updates_include`''"

definition updates_query :: string where
  "updates_query = ''SELECT `name`, `hash`, `state`, UNIX_TIMESTAMP(`timestamp`) FROM `updates` ORDER BY `name` ASC''"

definition retrieve_include :: "updater_world \<Rightarrow> fetch_env \<Rightarrow> (string \<times> string) list \<Rightarrow> (string \<times> string) list option uop" where
  "retrieve_include W E rows =
     (if set_directories E \<noteq> None then ureturn None
      else ubind (Retrieve W include_query) (\<lambda>r. ureturn (map_option (\<lambda>_. rows) r)))"

text \<open>
  \<open>UpdateFetcher::Update\<close> on the pool: the two halves of \<open>GetFileList\<close> with the queries between them, the
  query for the applied files, and then the calls of the fetcher.  What the fetcher decides does not
  depend on the outcome of its statements, so its list of calls can be computed first.
\<close>

definition apply_fetched ::
  "updater_world \<Rightarrow> fetch_env \<Rightarrow> (string \<times> string) list option \<Rightarrow> (string \<times> string) list option \<Rightarrow> (fetch_error + UpdateResult) uop" where
  "apply_fetched W E rows rows' =
     (case snd (GetFileList E rows rows') of
        Inl err \<Rightarrow> ureturn (Inl err)
      | Inr available \<Rightarrow>
          if set_directories E \<noteq> None \<and> available = []
          then ureturn (Inr \<lparr>updated = 0, recent = 0, archived = 0\<rparr>)
          else ubind (Retrieve W updates_query) (\<lambda>r.
                 let (acts, res) = Update E rows rows' (case r of Some _ \<Rightarrow> uw_updates W | None \<Rightarrow> [])
                 in ubind (perform_actions W (drop (length (fst (GetFileList E rows rows'))) acts)) (\<lambda>_. ureturn res)))"

definition run_fetcher :: "updater_world \<Rightarrow> fetch_env \<Rightarrow> (fetch_error + UpdateResult) uop" where
  "run_fetcher W E =
     ubind (retrieve_include W E (uw_include W)) (\<lambda>rows.
       let calls = fst (GetFileList E rows None)
       in ubind (perform_actions W calls) (\<lambda>_.
          ubind (if calls \<noteq> [] \<and> run_file E (include_file E)
                 then retrieve_include W E (uw_include_restored W) else ureturn None)
            (apply_fetched W E rows)))"

definition update_pool :: "updater_world \<Rightarrow> string \<Rightarrow> string list option \<Rightarrow> bool uop" where
  "update_pool W modulesList setDirectories =
     ubind (CheckExecutable W) (\<lambda>found.
       if \<not> found then ureturn False
       else if \<not> is_directory (uw_fetch W) (GetSourceDirectory W) then ureturn False
       else ubind (CheckUpdateTable W ''updates'') (\<lambda>ok.
         if \<not> ok then ureturn False
         else ubind (CheckUpdateTable W ''updates_include'') (\<lambda>ok.
           if \<not> ok then ureturn False
           else (\<lambda>s. ubind (run_fetcher W (fetcher W modulesList setDirectories s)) (\<lambda>result.
             case result of
               Inl UpdateException \<Rightarrow> ureturn False
             | Inl FetchAbort \<Rightarrow> ufail Aborted
             | Inr _ \<Rightarrow> ureturn True) s))))"

definition DBUpdater_Update :: "updater_world \<Rightarrow> string \<Rightarrow> bool uop" where
  "DBUpdater_Update W modulesList = update_pool W modulesList None"

definition DBUpdater_Update_directories :: "updater_world \<Rightarrow> string list option \<Rightarrow> bool uop" where
  "DBUpdater_Update_directories W setDirectories = update_pool W [] setDirectories"

subsection \<open>What the queries leave alone\<close>

text \<open>
  Once the host is not \<^verbatim>\<open>"."\<close> (an opened pool has replaced it), nothing the queries do to the pool
  changes the connection info.
\<close>

lemma real_connect_info: "cn_info (snd (real_connect cl port sock s)) = cn_info s"
  by (auto simp: real_connect_def Let_def case_prod_beta)

lemma MySQLConnection_Open_info:
  assumes "ci_Host (cn_info s) \<noteq> ''.''"
  shows "cn_info (snd (MySQLConnection_Open cl s)) = cn_info s"
  using assms by (auto simp: MySQLConnection_Open_def Let_def case_prod_beta real_connect_info split: option.splits)

lemma MySQLConnection_cn_info [simp]: "cn_info (MySQLConnection cl info async dyn) = info"
  by (simp add: MySQLConnection_def Let_def UpdateLastUseTime_def)

lemma OpenConnection_info:
  assumes "dp_info p = Some info" and "ci_Host info \<noteq> ''.''"
  shows "dp_info (snd (OpenConnection cls async dyn p)) = Some info"
proof -
  obtain r c where o: "MySQLConnection_Open (cls (dp_next p)) (MySQLConnection (cls (dp_next p)) info async dyn) = (r, c)"
    by fastforce
  then have "cn_info c = info"
    using MySQLConnection_Open_info [of "MySQLConnection (cls (dp_next p)) info async dyn" "cls (dp_next p)"] assms(2) by simp
  then show ?thesis using assms(1) o by (auto simp: OpenConnection_def Let_def split: sum.splits)
qed

lemma OpenDynamicSyncConnect_info:
  assumes "dp_info p = Some info" and "ci_Host info \<noteq> ''.''"
  shows "dp_info (snd (OpenDynamicSyncConnect cls p)) = Some info"
  using OpenConnection_info [OF assms, of cls False True] assms(1)
  by (auto simp: OpenDynamicSyncConnect_def init_last_def Let_def split: prod.splits sum.splits)

lemma GetFreeConnection_info:
  assumes "dp_info p = Some info" and "ci_Host info \<noteq> ''.''" and "GetFreeConnection cls lk p = Some (r, p')"
  shows "dp_info p' = Some info"
  using OpenDynamicSyncConnect_info [OF assms(1,2), of cls] assms(1,3)
  by (auto simp: GetFreeConnection_def lock_conn_def split: option.splits prod.splits sum.splits if_splits)

lemma with_connection_info:
  assumes "dp_info p = Some info" and "ci_Host info \<noteq> ''.''" and "with_connection cls lk f p = Some (r, p')"
  shows "dp_info p' = Some info"
  using assms(3) GetFreeConnection_info [OF assms(1,2), of cls lk]
  by (auto simp: with_connection_def put_conn_def Unlock_def split: option.splits prod.splits sum.splits)

subsection \<open>Reasoning about the operations\<close>

text \<open>
  The operations run scripts in a fixed setting: the executable, the extra file and the connection
  info, \<open>setting\<close>.  \<open>uspec X f Q\<close> says that \<open>f\<close> keeps the setting, and, when it returns \<open>r\<close>, has
  started the processes of some scripts \<open>ps\<close>, in this order, with \<open>Q r ps\<close>.
\<close>

type_synonym setting = "string \<times> string \<times> string \<times> connection_info"

definition in_setting :: "updater_world \<Rightarrow> setting \<Rightarrow> upd_ctx \<Rightarrow> bool" where
  "in_setting W X s = (case X of (exe, name, extra, info) \<Rightarrow>
     GetCorrectedMySQLExecutable W s = exe \<and> np_name (uc_pool s) = name \<and> np_extra (uc_pool s) = extra
     \<and> dp_info (np_pool (uc_pool s)) = Some info \<and> ci_Host info \<noteq> ''.'')"

fun script_run :: "setting \<Rightarrow> string \<Rightarrow> process_run" where
  "script_run (exe, name, extra, info) path =
     (exe, case mysql_args extra info (ci_Database info) path of Inl e \<Rightarrow> [] | Inr args \<Rightarrow> args)"

definition uspec :: "updater_world \<Rightarrow> setting \<Rightarrow> 'a uop \<Rightarrow> ('a \<Rightarrow> string list \<Rightarrow> bool) \<Rightarrow> bool" where
  "uspec W X f Q = (\<forall>s r s'. in_setting W X s \<longrightarrow> f s = Some (Inr r, s') \<longrightarrow>
     in_setting W X s' \<and> (\<exists>ps. uc_runs s' = uc_runs s @ map (script_run X) ps \<and> Q r ps))"

lemma uspecD:
  assumes "uspec W X f Q" and "in_setting W X s" and "f s = Some (Inr r, s')"
  obtains ps where "in_setting W X s'" and "uc_runs s' = uc_runs s @ map (script_run X) ps" and "Q r ps"
  using assms unfolding uspec_def by blast

lemma uspec_mono: "uspec W X f Q \<Longrightarrow> (\<And>r ps. Q r ps \<Longrightarrow> Q' r ps) \<Longrightarrow> uspec W X f Q'"
  unfolding uspec_def by blast

lemma uspec_return: "uspec W X (ureturn x) (\<lambda>r ps. r = x \<and> ps = [])"
  by (auto simp: uspec_def ureturn_def)

lemma uspec_bind:
  assumes "uspec W X f Q" and "\<And>x ps1. Q x ps1 \<Longrightarrow> uspec W X (g x) (\<lambda>r ps2. P r (ps1 @ ps2))"
  shows "uspec W X (ubind f g) P"
  unfolding uspec_def
proof (intro allI impI)
  fix s r s' assume s: "in_setting W X s" and b: "ubind f g s = Some (Inr r, s')"
  then obtain x s1 where f: "f s = Some (Inr x, s1)" and g: "g x s1 = Some (Inr r, s')"
    by (auto simp: ubind_def split: option.splits prod.splits sum.splits)
  obtain ps1 where 1: "in_setting W X s1" "uc_runs s1 = uc_runs s @ map (script_run X) ps1" "Q x ps1"
    using uspecD [OF assms(1) s f] .
  obtain ps2 where "in_setting W X s'" "uc_runs s' = uc_runs s1 @ map (script_run X) ps2" "P r (ps1 @ ps2)"
    using uspecD [OF assms(2) [OF 1(3)] 1(1) g] .
  then show "in_setting W X s' \<and> (\<exists>ps. uc_runs s' = uc_runs s @ map (script_run X) ps \<and> P r ps)"
    using 1 by (intro conjI exI [of _ "ps1 @ ps2"]) auto
qed

lemma uspec_state:
  assumes "\<And>s. in_setting W X s \<Longrightarrow> uspec W X (f s) Q"
  shows "uspec W X (\<lambda>s. f s s) Q"
  using assms unfolding uspec_def by blast

lemma uspec_on_pool:
  assumes "\<And>p r p' info. dp_info p = Some info \<Longrightarrow> ci_Host info \<noteq> ''.'' \<Longrightarrow> f p = Some (r, p') \<Longrightarrow> dp_info p' = Some info"
  shows "uspec W X (on_pool f) (\<lambda>r ps. ps = [])"
  unfolding uspec_def
proof (intro allI impI)
  fix s r s' assume s: "in_setting W X s" and f: "on_pool f s = Some (Inr r, s')"
  from f obtain p' where p': "f (np_pool (uc_pool s)) = Some (Inr r, p')"
    and s': "s' = s\<lparr>uc_pool := (uc_pool s)\<lparr>np_pool := p'\<rparr>\<rparr>"
    by (auto simp: on_pool_def split: option.splits)
  have "in_setting W X s'"
    using s s' assms [OF _ _ p'] by (auto simp: in_setting_def GetCorrectedMySQLExecutable_def)
  then show "in_setting W X s' \<and> (\<exists>ps. uc_runs s' = uc_runs s @ map (script_run X) ps \<and> ps = [])"
    using s' by simp
qed

lemma uspec_Retrieve: "uspec W X (Retrieve W q) (\<lambda>r ps. ps = [])"
  unfolding Retrieve_def Pool_Query_sql_def by (rule uspec_on_pool) (rule with_connection_info)

lemma uspec_Apply: "uspec W X (DBUpdater_Apply W q) (\<lambda>r ps. ps = [])"
proof -
  have "uspec W X (on_pool (DirectExecute_sql (uw_clients W) (uw_locked W) q)) (\<lambda>r ps. ps = [])"
    by (rule uspec_on_pool) (auto simp: DirectExecute_sql_def split: if_splits dest: with_connection_info)
  then show ?thesis unfolding DBUpdater_Apply_def
    by (rule uspec_bind) (rule uspec_mono [OF uspec_return], simp)
qed

lemma uspec_ApplyFile: "uspec W X (DBUpdater_ApplyFile W None p) (\<lambda>r ps. ps = [p] \<and> r = exits_ok W (script_run X p))"
  by (cases X) (auto simp: uspec_def DBUpdater_ApplyFile_def command_def in_setting_def bind_res_eq_Inr
      GetCorrectedMySQLExecutable_def split: sum.splits option.splits)

subsection \<open>The scripts an operation runs\<close>

text \<open>Scripts run one after another, up to the first whose process fails.\<close>

definition stops_at_failure :: "(string \<Rightarrow> bool) \<Rightarrow> string list \<Rightarrow> bool \<Rightarrow> bool" where
  "stops_at_failure ok ps b = ((\<forall>p \<in> set (butlast ps). ok p) \<and> (b \<longrightarrow> (\<forall>p \<in> set ps. ok p)))"

lemma stops_at_failure_Nil [simp]: "stops_at_failure ok [] b"
  by (simp add: stops_at_failure_def)

lemma stops_at_failure_Cons: "stops_at_failure ok (p # ps) b \<longleftrightarrow> (ps = [] \<and> (b \<longrightarrow> ok p)) \<or> (ok p \<and> stops_at_failure ok ps b)"
  by (cases ps) (auto simp: stops_at_failure_def)

lemma stops_at_failure_append:
  assumes "stops_at_failure ok ps True" and "stops_at_failure ok qs b"
  shows "stops_at_failure ok (ps @ qs) b"
  using assms by (auto simp: stops_at_failure_def butlast_append)

lemma file_actions_runs:
  "stops_at_failure (run_file E) (run_paths (file_actions E available hashes e f)) (file_ok E available hashes e f)"
  by (auto simp: stops_at_failure_def file_actions_def file_ok_def Let_def needs_run_def split: option.splits)

lemma apply_files_runs:
  "apply_files E available hashes fs u = (u', ok) \<Longrightarrow>
     \<exists>tr. trace u' = trace u @ tr \<and> stops_at_failure (run_file E) (run_paths tr) ok"
proof (induction fs arbitrary: u)
  case Nil
  then show ?case by auto
next
  case (Cons f fs)
  let ?e = "map_of (applied u) (filename (fst f))"
  obtain u1 ok1 where u1: "ApplyUpdateFile E available hashes f u = (u1, ok1)" by (cases "ApplyUpdateFile E available hashes f u")
  have t1: "trace u1 = trace u @ file_actions E available hashes ?e f" and ok1: "ok1 = file_ok E available hashes ?e f"
    using ApplyUpdateFile_eq [OF refl, of E available hashes f u] u1 by auto
  note r1 = file_actions_runs [of E available hashes ?e f]
  show ?case
  proof (cases ok1)
    case True
    then have "apply_files E available hashes fs u1 = (u', ok)" using Cons.prems u1 by simp
    from Cons.IH [OF this] obtain tr where "trace u' = trace u1 @ tr" "stops_at_failure (run_file E) (run_paths tr) ok"
      by auto
    then show ?thesis using t1 ok1 r1 True
      by (intro exI [of _ "file_actions E available hashes ?e f @ tr"]) (auto intro: stops_at_failure_append)
  next
    case False
    then show ?thesis using Cons.prems u1 t1 ok1 r1 by auto
  qed
qed

lemma update_with_runs:
  assumes "update_with E available app = (u, res)"
  shows "stops_at_failure (run_file E) (run_paths (trace u)) (\<exists>r. res = Inr r)"
proof -
  obtain u1 ok where u1: "apply_files E available (hash_to_name app) (phase_order available)
      \<lparr>applied = app, trace = [], imported = 0\<rparr> = (u1, ok)"
    by fastforce
  have "stops_at_failure (run_file E) (run_paths (trace u1)) ok"
    using apply_files_runs [OF u1] by auto
  then show ?thesis using assms u1 by (auto simp: update_with_def Let_def split: if_splits)
qed

lemma GetFileList_runs:
  "stops_at_failure (run_file E) (run_paths (fst (GetFileList E rows rows'))) (\<exists>fs. snd (GetFileList E rows rows') = Inr fs)"
  by (auto simp: GetFileList_def Let_def stops_at_failure_def)

lemma Update_runs:
  assumes "Update E rows rows' urows = (acts, res)"
  shows "stops_at_failure (run_file E) (run_paths acts) (\<exists>r. res = Inr r)"
proof -
  obtain calls r where g: "GetFileList E rows rows' = (calls, r)" by fastforce
  note calls = GetFileList_runs [of E rows rows', unfolded g fst_conv snd_conv]
  show ?thesis
  proof (cases r)
    case (Inl e)
    then show ?thesis using assms g calls by (auto simp: Update_def)
  next
    case (Inr available)
    then have c: "stops_at_failure (run_file E) (run_paths calls) True" using calls by simp
    obtain u res' where u: "update_with E available (map_order E (ReceiveAppliedFiles urows [])) = (u, res')" by fastforce
    show ?thesis
    proof (cases "set_directories E \<noteq> None \<and> available = []")
      case True
      then show ?thesis using assms g Inr c by (auto simp: Update_def)
    next
      case False
      then have "acts = calls @ trace u" "res = res'" using assms g Inr u by (auto simp: Update_def)
      then show ?thesis using stops_at_failure_append [OF c update_with_runs [OF u]] by simp
    qed
  qed
qed

lemma GetFileList_calls: "fst (GetFileList E rows rows') = fst (GetFileList E rows None)"
  by (auto simp: GetFileList_def Let_def)

lemma Update_calls:
  "\<exists>tr. fst (Update E rows rows' urows) = fst (GetFileList E rows rows') @ tr"
  by (auto simp: Update_def Let_def split: prod.splits sum.splits)

lemma uspec_perform: "uspec W X (perform_actions W acts) (\<lambda>r ps. ps = run_paths acts)"
proof (induction W acts rule: perform_actions.induct)
  case (1 W)
  then show ?case by (auto intro: uspec_mono [OF uspec_return])
next
  case (2 W p acts)
  have "uspec W X (ubind (DBUpdater_ApplyFile W None p) (\<lambda>_. perform_actions W acts)) (\<lambda>r ps. ps = run_paths (ApplyFile p # acts))"
    by (rule uspec_bind [OF uspec_ApplyFile]) (auto intro: uspec_mono [OF 2])
  then show ?case by simp
next
  case (3 W q acts)
  have "uspec W X (ubind (DBUpdater_Apply W (render q)) (\<lambda>_. perform_actions W acts)) (\<lambda>r ps. ps = run_paths (Apply q # acts))"
    by (rule uspec_bind [OF uspec_Apply]) (auto intro: uspec_mono [OF 3])
  then show ?case by simp
qed

lemma uspec_retrieve_include: "uspec W X (retrieve_include W E rows) (\<lambda>r ps. ps = [])"
  unfolding retrieve_include_def
  by (auto intro!: uspec_bind [OF uspec_Retrieve] intro: uspec_mono [OF uspec_return])

lemma uspec_populate:
  "uspec W X (populate_files W paths) (\<lambda>b ps. stops_at_failure (exits_ok W \<circ> script_run X) ps b
     \<and> (\<exists>n. ps = take n (filter (\<lambda>p. extension p = ''.sql'') paths))
     \<and> (b \<longrightarrow> ps = filter (\<lambda>p. extension p = ''.sql'') paths) \<and> (\<not> b \<longrightarrow> ps \<noteq> [] \<and> \<not> exits_ok W (script_run X (last ps))))"
  (is "uspec W X _ (?Q paths)")
proof (induction paths)
  case Nil
  then show ?case by (auto intro: uspec_mono [OF uspec_return])
next
  case (Cons p paths)
  show ?case
  proof (cases "extension p = ''.sql''")
    case False
    then show ?thesis using Cons by simp
  next
    case True
    have "uspec W X (ubind (DBUpdater_ApplyFile W None p) (\<lambda>ok. if ok then populate_files W paths else ureturn False)) (?Q (p # paths))"
    proof (rule uspec_bind [OF uspec_ApplyFile])
      fix ok ps1 assume ok: "ps1 = [p] \<and> ok = exits_ok W (script_run X p)"
      show "uspec W X (if ok then populate_files W paths else ureturn False) (\<lambda>r ps2. ?Q (p # paths) r (ps1 @ ps2))"
      proof (cases ok)
        case t: True
        have step: "?Q (p # paths) r (ps1 @ ps2)" if "?Q paths r ps2" for r ps2
        proof -
          from that obtain n where "ps2 = take n (filter (\<lambda>p. extension p = ''.sql'') paths)" by auto
          then have "ps1 @ ps2 = take (Suc n) (filter (\<lambda>p. extension p = ''.sql'') (p # paths))" using ok True by simp
          then show ?thesis using that ok t True by (auto simp: stops_at_failure_Cons intro: exI [of _ "Suc n"])
        qed
        have "uspec W X (populate_files W paths) (\<lambda>r ps2. ?Q (p # paths) r (ps1 @ ps2))"
          by (rule uspec_mono [OF Cons]) (rule step)
        then show ?thesis using t by (simp only: if_True)
      next
        case False
        then show ?thesis using ok True
          by (auto intro!: uspec_mono [OF uspec_return] exI [of _ 1] simp: stops_at_failure_def)
      qed
    qed
    then show ?thesis using True by simp
  qed
qed

lemma uspec_CheckUpdateTable:
  "uspec W (exe, name, extra, info) (CheckUpdateTable W t)
     (\<lambda>b ps. stops_at_failure (exits_ok W \<circ> script_run (exe, name, extra, info)) ps b
        \<and> ps \<in> {[], [GetSourceDirectory W @ ''/data/sql/base/'' @ ''db_'' @ map ascii_lower name @ ''/'' @ t @ ''.sql'']}
        \<and> (ps = [] \<longrightarrow> b))"
  (is "uspec W ?X _ ?Q")
  unfolding CheckUpdateTable_def
proof (rule uspec_bind [OF uspec_Retrieve])
  fix r :: "result_set option" and ps1 :: "string list" assume [simp]: "ps1 = []"
  show "uspec W ?X (case r of None \<Rightarrow> (\<lambda>s. DBUpdater_ApplyFile W None (GetBaseFilesDirectory W (uc_pool s) @ t @ ''.sql'') s)
      | Some x \<Rightarrow> ureturn True) (\<lambda>r ps2. ?Q r (ps1 @ ps2))"
  proof (cases r)
    case None
    have "uspec W ?X (\<lambda>s. DBUpdater_ApplyFile W None (GetBaseFilesDirectory W (uc_pool s) @ t @ ''.sql'') s) (\<lambda>r ps2. ?Q r (ps1 @ ps2))"
      by (rule uspec_state, rule uspec_mono [OF uspec_ApplyFile])
        (auto simp: stops_at_failure_def GetBaseFilesDirectory_def in_setting_def)
    then show ?thesis using None by simp
  qed (auto intro: uspec_mono [OF uspec_return])
qed

text \<open>The pool carries out what the fetcher decides.\<close>

lemma uspec_apply_fetched:
  "uspec W X (apply_fetched W E rows rows') (\<lambda>res ps. \<exists>urows acts.
     Update E rows rows' urows = (acts, res) \<and> run_paths (fst (GetFileList E rows rows')) @ ps = run_paths acts)"
  (is "uspec W X _ ?P")
proof -
  obtain calls r where g: "GetFileList E rows rows' = (calls, r)" by fastforce
  show ?thesis
  proof (cases "\<exists>available. r = Inr available \<and> \<not> (set_directories E \<noteq> None \<and> available = [])")
    case False
    then obtain res where u: "Update E rows rows' [] = (calls, res)" and eq: "apply_fetched W E rows rows' = ureturn res"
      using g by (cases r) (auto simp: Update_def apply_fetched_def)
    show ?thesis unfolding eq by (rule uspec_mono [OF uspec_return]) (use g u in fastforce)
  next
    case True
    then have eq: "apply_fetched W E rows rows' = ubind (Retrieve W updates_query) (\<lambda>r.
        let (acts, res) = Update E rows rows' (case r of Some _ \<Rightarrow> uw_updates W | None \<Rightarrow> [])
        in ubind (perform_actions W (drop (length calls) acts)) (\<lambda>_. ureturn res))"
      using g by (auto simp: apply_fetched_def)
    show ?thesis unfolding eq
    proof (rule uspec_bind [OF uspec_Retrieve])
      fix q :: "result_set option" and ps1 :: "string list" assume ps1: "ps1 = []"
      let ?u = "case q of Some _ \<Rightarrow> uw_updates W | None \<Rightarrow> []"
      obtain tr res where u: "Update E rows rows' ?u = (calls @ tr, res)"
        using Update_calls [of E rows rows' ?u] g by (metis fst_conv prod.collapse)
      have "uspec W X (ubind (perform_actions W tr) (\<lambda>_. ureturn res)) (\<lambda>r ps2. ?P r (ps1 @ ps2))"
        by (rule uspec_bind [OF uspec_perform], rule uspec_mono [OF uspec_return]) (use g u ps1 in fastforce)
      then show "uspec W X (let (acts, res) = Update E rows rows' ?u
          in ubind (perform_actions W (drop (length calls) acts)) (\<lambda>_. ureturn res)) (\<lambda>r ps2. ?P r (ps1 @ ps2))"
        using u by simp
    qed
  qed
qed

lemma uspec_run_fetcher:
  "uspec W X (run_fetcher W E) (\<lambda>res ps. \<exists>rows rows' urows acts.
     Update E rows rows' urows = (acts, res) \<and> ps = run_paths acts)"
  (is "uspec W X _ ?P")
  unfolding run_fetcher_def Let_def
proof (rule uspec_bind [OF uspec_retrieve_include], rule uspec_bind [OF uspec_perform])
  fix rows and ps1 ps2 :: "string list" and x :: unit
  let ?calls = "fst (GetFileList E rows None)"
  let ?f = "if ?calls \<noteq> [] \<and> run_file E (include_file E) then retrieve_include W E (uw_include_restored W) else ureturn None"
  assume ps: "ps1 = []" "ps2 = run_paths ?calls"
  have f: "uspec W X ?f (\<lambda>r ps. ps = [])"
    by (auto intro: uspec_retrieve_include uspec_mono [OF uspec_return])
  show "uspec W X (ubind ?f (apply_fetched W E rows)) (\<lambda>r ps3. ?P r (ps1 @ ps2 @ ps3))"
  proof (rule uspec_bind [OF f], rule uspec_mono [OF uspec_apply_fetched], elim exE conjE)
    fix rows' r acts urows and ps3 ps4 :: "string list"
    assume "ps3 = []" and "Update E rows rows' urows = (acts, r)" and "run_paths (fst (GetFileList E rows rows')) @ ps4 = run_paths acts"
    then show "?P r (ps1 @ ps2 @ ps3 @ ps4)"
      using ps GetFileList_calls [of E rows rows'] by (intro exI [of _ rows] exI [of _ rows'] exI [of _ urows]) simp
  qed
qed

subsection \<open>A whole update\<close>

lemma fetcher_setting:
  assumes "in_setting W X s" and "in_setting W X s'"
  shows "fetcher W mods dirs s = fetcher W mods dirs s'"
  using assms by (auto simp: fetcher_def in_setting_def command_def GetDBModuleName_def)

lemma fetcher_run_file:
  assumes "in_setting W X s" and "run_file (fetcher W mods dirs s) p"
  shows "exits_ok W (script_run X p)"
  using assms by (auto simp: fetcher_def in_setting_def command_def split: sum.splits option.splits prod.splits)

lemma stops_at_failure_mono:
  "stops_at_failure ok ps b \<Longrightarrow> (\<And>p. ok p \<Longrightarrow> ok' p) \<Longrightarrow> stops_at_failure ok' ps b"
  by (auto simp: stops_at_failure_def)

text \<open>The scripts of the update tables, and what an update that returned \<open>b\<close> has run.\<close>

definition table_script :: "updater_world \<Rightarrow> string \<Rightarrow> string \<Rightarrow> string" where
  "table_script W name t = GetSourceDirectory W @ ''/data/sql/base/'' @ ''db_'' @ map ascii_lower name @ ''/'' @ t @ ''.sql''"

definition fetched :: "fetch_env \<Rightarrow> string list \<Rightarrow> bool" where
  "fetched E ps = (\<exists>rows rows' urows acts r. Update E rows rows' urows = (acts, Inr r) \<and> ps = run_paths acts)"

abbreviation (input) update_rest :: "updater_world \<Rightarrow> string \<Rightarrow> string list option \<Rightarrow> bool uop" where
  "update_rest W mods dirs \<equiv> (\<lambda>s. ubind (run_fetcher W (fetcher W mods dirs s)) (\<lambda>result.
     case result of Inl UpdateException \<Rightarrow> ureturn False | Inl FetchAbort \<Rightarrow> ufail Aborted | Inr _ \<Rightarrow> ureturn True) s)"

lemma uspec_fail: "uspec W X (ufail e) Q"
  by (simp add: uspec_def ufail_def)

lemma uspec_update_rest:
  assumes "in_setting W X s0"
  shows "uspec W X (update_rest W mods dirs) (\<lambda>b ps. stops_at_failure (exits_ok W \<circ> script_run X) ps b
     \<and> (b \<longrightarrow> fetched (fetcher W mods dirs s0) ps))" (is "uspec W X _ ?Q")
proof -
  let ?E = "fetcher W mods dirs s0"
  have "uspec W X (ubind (run_fetcher W (fetcher W mods dirs s)) (\<lambda>result.
     case result of Inl UpdateException \<Rightarrow> ureturn False | Inl FetchAbort \<Rightarrow> ufail Aborted | Inr _ \<Rightarrow> ureturn True)) ?Q"
    if s: "in_setting W X s" for s
    unfolding fetcher_setting [OF s assms]
  proof (rule uspec_bind [OF uspec_run_fetcher], elim exE conjE)
    fix result ps1 rows rows' urows acts
    assume u: "Update ?E rows rows' urows = (acts, result)" and ps1: "ps1 = run_paths acts"
    have st: "stops_at_failure (exits_ok W \<circ> script_run X) ps1 (\<exists>r. result = Inr r)"
      unfolding ps1 using Update_runs [OF u] by (rule stops_at_failure_mono) (simp add: fetcher_run_file [OF assms])
    show "uspec W X (case result of Inl UpdateException \<Rightarrow> ureturn False | Inl FetchAbort \<Rightarrow> ufail Aborted | Inr _ \<Rightarrow> ureturn True)
        (\<lambda>r ps2. ?Q r (ps1 @ ps2))"
    proof (cases result)
      case (Inl e)
      then show ?thesis using st
        by (cases e) (auto intro: uspec_fail uspec_mono [OF uspec_return])
    next
      case (Inr r)
      then have "fetched ?E ps1" using u ps1 unfolding fetched_def by blast
      then show ?thesis using st Inr by (auto intro!: uspec_mono [OF uspec_return])
    qed
  qed
  then show ?thesis by (rule uspec_state)
qed

lemma uspec_update_tables:
  assumes "in_setting W (exe, name, extra, info) s0"
  shows "uspec W (exe, name, extra, info)
    (ubind (CheckUpdateTable W ''updates'') (\<lambda>ok. if \<not> ok then ureturn False
       else ubind (CheckUpdateTable W ''updates_include'') (\<lambda>ok. if \<not> ok then ureturn False
       else update_rest W mods dirs)))
    (\<lambda>b ps. stops_at_failure (exits_ok W \<circ> script_run (exe, name, extra, info)) ps b
       \<and> (b \<longrightarrow> (\<exists>ts fs. ps = ts @ fs \<and> subseq ts [table_script W name ''updates'', table_script W name ''updates_include'']
            \<and> fetched (fetcher W mods dirs s0) fs)))"
  (is "uspec W ?X _ ?Q")
proof (rule uspec_bind [OF uspec_CheckUpdateTable])
  fix ok1 ps1
  assume 1: "stops_at_failure (exits_ok W \<circ> script_run ?X) ps1 ok1
     \<and> ps1 \<in> {[], [GetSourceDirectory W @ ''/data/sql/base/'' @ ''db_'' @ map ascii_lower name @ ''/'' @ ''updates'' @ ''.sql'']}
     \<and> (ps1 = [] \<longrightarrow> ok1)"
  have rest: "uspec W ?X (ubind (CheckUpdateTable W ''updates_include'') (\<lambda>ok. if \<not> ok then ureturn False
       else update_rest W mods dirs)) (\<lambda>r ps2. ?Q r (ps1 @ ps2))" if "ok1"
  proof (rule uspec_bind [OF uspec_CheckUpdateTable])
    fix ok2 ps2
    assume 2: "stops_at_failure (exits_ok W \<circ> script_run ?X) ps2 ok2
       \<and> ps2 \<in> {[], [GetSourceDirectory W @ ''/data/sql/base/'' @ ''db_'' @ map ascii_lower name @ ''/'' @ ''updates_include'' @ ''.sql'']}
       \<and> (ps2 = [] \<longrightarrow> ok2)"
    have pre: "stops_at_failure (exits_ok W \<circ> script_run ?X) (ps1 @ ps2) ok2"
      using 1 2 that by (simp add: stops_at_failure_append)
    have sub: "subseq (ps1 @ ps2) [table_script W name ''updates'', table_script W name ''updates_include'']"
      using 1 2 by (auto simp: table_script_def)
    show "uspec W ?X (if \<not> ok2 then ureturn False else update_rest W mods dirs) (\<lambda>r ps3. ?Q r (ps1 @ ps2 @ ps3))"
    proof (cases ok2)
      case True
      then have st: "stops_at_failure (exits_ok W \<circ> script_run ?X) (ps1 @ ps2 @ ps3) b"
        if "stops_at_failure (exits_ok W \<circ> script_run ?X) ps3 b" for ps3 b
        using stops_at_failure_append [of _ "ps1 @ ps2" ps3] pre that by simp
      have "uspec W ?X (update_rest W mods dirs) (\<lambda>r ps3. ?Q r (ps1 @ ps2 @ ps3))"
      proof (rule uspec_mono [OF uspec_update_rest [OF assms]])
        fix r ps3 assume 3: "stops_at_failure (exits_ok W \<circ> script_run ?X) ps3 r
            \<and> (r \<longrightarrow> fetched (fetcher W mods dirs s0) ps3)"
        show "?Q r (ps1 @ ps2 @ ps3)"
          using 3 st [of ps3 r] sub by (metis append.assoc)
      qed
      then show ?thesis using True by simp
    qed (use pre in \<open>auto intro!: uspec_mono [OF uspec_return]\<close>)
  qed
  show "uspec W ?X (if \<not> ok1 then ureturn False
       else ubind (CheckUpdateTable W ''updates_include'') (\<lambda>ok. if \<not> ok then ureturn False
       else update_rest W mods dirs)) (\<lambda>r ps2. ?Q r (ps1 @ ps2))"
  proof (cases ok1)
    case True
    then show ?thesis using rest by simp
  qed (use 1 in \<open>auto intro!: uspec_mono [OF uspec_return]\<close>)
qed

definition setting_of :: "updater_world \<Rightarrow> upd_ctx \<Rightarrow> setting" where
  "setting_of W s = (GetCorrectedMySQLExecutable W s, np_name (uc_pool s), np_extra (uc_pool s),
     the (dp_info (np_pool (uc_pool s))))"

definition connected :: "upd_ctx \<Rightarrow> bool" where
  "connected s = (case dp_info (np_pool (uc_pool s)) of None \<Rightarrow> False | Some info \<Rightarrow> ci_Host info \<noteq> ''.'')"

lemma in_setting_of: "connected s \<Longrightarrow> in_setting W (setting_of W s) s"
  by (auto simp: connected_def setting_of_def in_setting_def split: option.splits)

lemma setting_ofD: "in_setting W X s \<Longrightarrow> X = setting_of W s \<and> connected s"
  by (auto simp: connected_def setting_of_def in_setting_def split: option.splits prod.splits)

lemma CheckExecutable_ctx:
  assumes "CheckExecutable W s = Some (r, s')"
  shows "\<exists>b. r = Inr b \<and> (\<not> b \<longrightarrow> s' = s) \<and> uc_runs s' = uc_runs s \<and> uc_pool s' = uc_pool s"
proof (cases "uw_regular_file W (GetCorrectedMySQLExecutable W s)")
  case True
  then have "r = Inr True" "s' = s" using assms by (simp_all add: CheckExecutable_def)
  then show ?thesis by (intro exI [of _ True]) simp
next
  case False
  show ?thesis
  proof (cases "uw_search_path W ''mysql'' \<noteq> [] \<and> uw_regular_file W (uw_search_path W ''mysql'')")
    case True
    then have "r = Inr True" "s' = s\<lparr>uc_corrected := uw_absolute W (uw_search_path W ''mysql'')\<rparr>"
      using assms False by (simp_all add: CheckExecutable_def Let_def)
    then show ?thesis by (intro exI [of _ True]) simp
  next
    case no: False
    then have "r = Inr False" "s' = s" using assms False by (simp_all only: CheckExecutable_def Let_def) auto
    then show ?thesis by (intro exI [of _ False]) simp
  qed
qed

lemma CheckExecutable_returns: "\<exists>b s'. CheckExecutable W s = Some (Inr b, s')"
  by (cases "uw_regular_file W (GetCorrectedMySQLExecutable W s)") (auto simp: CheckExecutable_def Let_def)


definition base_scripts :: "updater_world \<Rightarrow> named_pool \<Rightarrow> string list" where
  "base_scripts W np = filter (\<lambda>p. extension p = ''.sql'') (uw_entries W (GetBaseFilesDirectory W np))"

lemma populate_files_runs:
  assumes "connected s" and "populate_files W (uw_entries W (GetBaseFilesDirectory W (uc_pool s))) s = Some (Inr b, s')"
  obtains n where "uc_runs s' = uc_runs s @ map (script_run (setting_of W s')) (take n (base_scripts W (uc_pool s')))"
    and "base_scripts W (uc_pool s') = base_scripts W (uc_pool s)"
    and "stops_at_failure (exits_ok W \<circ> script_run (setting_of W s')) (take n (base_scripts W (uc_pool s'))) b"
    and "b \<longrightarrow> take n (base_scripts W (uc_pool s')) = base_scripts W (uc_pool s')"
    and "\<not> b \<longrightarrow> \<not> exits_ok W (script_run (setting_of W s') (last (take n (base_scripts W (uc_pool s')))))"
proof -
  let ?X = "setting_of W s" and ?S = "base_scripts W (uc_pool s)"
  obtain n where s': "in_setting W ?X s'" and r: "uc_runs s' = uc_runs s @ map (script_run ?X) (take n ?S)"
    and Q: "stops_at_failure (exits_ok W \<circ> script_run ?X) (take n ?S) b" "b \<longrightarrow> take n ?S = ?S"
      "\<not> b \<longrightarrow> \<not> exits_ok W (script_run ?X (last (take n ?S)))"
    using uspecD [OF uspec_populate in_setting_of [OF assms(1)] assms(2)] unfolding base_scripts_def by metis
  have X: "?X = setting_of W s'" using setting_ofD [OF s'] by simp
  then have "base_scripts W (uc_pool s') = ?S"
    by (simp add: base_scripts_def GetBaseFilesDirectory_def setting_of_def)
  then show ?thesis using that r Q X by simp
qed

text \<open>
  C15: \<open>DBUpdater::Populate\<close> leaves a database that has tables as it is.  Into an empty one it runs the
  scripts of the base directory in the order of the directory, up to the first that fails; it returns true
  only when there is at least one and all of them succeeded, and false after starting a script only when
  the last one started failed.
\<close>

theorem populate_database:
  assumes "connected s" and "Retrieve W ''SHOW TABLES'' s = Some (Inr result, s1)"
    and "DBUpdater_Populate W s = Some (Inr b, s')"
  defines "scripts \<equiv> base_scripts W (uc_pool s')" and "ok \<equiv> \<lambda>p. exits_ok W (script_run (setting_of W s') p)"
  shows "if \<exists>n cols. result = Some (Suc n, cols) then b \<and> s' = s1 \<and> uc_runs s' = uc_runs s
    else \<exists>n. uc_runs s' = uc_runs s @ map (script_run (setting_of W s')) (take n scripts)
        \<and> (\<forall>p \<in> set (butlast (take n scripts)). ok p)
        \<and> (b \<longrightarrow> take n scripts = scripts \<and> scripts \<noteq> [] \<and> (\<forall>p \<in> set scripts. ok p))
        \<and> (\<not> b \<and> take n scripts \<noteq> [] \<longrightarrow> \<not> ok (last (take n scripts)))"
proof -
  have s1: "connected s1 \<and> uc_runs s1 = uc_runs s"
    using uspecD [OF uspec_Retrieve in_setting_of [OF assms(1)] assms(2)] setting_ofD by (metis append_Nil2 list.map(1))
  have has: "(case result of Some (rows, cols) \<Rightarrow> rows > 0 | None \<Rightarrow> False) = (\<exists>n cols. result = Some (Suc n, cols))"
    by (auto simp: gr0_conv_Suc split: option.splits)
  show ?thesis
  proof (cases "\<exists>n cols. result = Some (Suc n, cols)")
    case True
    then show ?thesis using assms(2,3) s1 by (auto simp: DBUpdater_Populate_def ubind_def ureturn_def)
  next
    case False
    obtain found s2 where c: "CheckExecutable W s1 = Some (Inr found, s2)"
      using CheckExecutable_returns by blast
    have s2: "connected s2" "uc_runs s2 = uc_runs s" using CheckExecutable_ctx [OF c] s1 by (auto simp: connected_def)
    let ?dir = "GetBaseFilesDirectory W (uc_pool s2)"
    have run: "DBUpdater_Populate W s =
        (if \<not> found \<or> ?dir = [] \<or> \<not> is_directory (uw_fetch W) ?dir \<or> base_scripts W (uc_pool s2) = []
         then Some (Inr False, s2) else populate_files W (uw_entries W ?dir) s2)"
      using assms(2) c False has by (simp add: DBUpdater_Populate_def ubind_def ureturn_def base_scripts_def Let_def)
    show ?thesis
    proof (cases "\<not> found \<or> ?dir = [] \<or> \<not> is_directory (uw_fetch W) ?dir \<or> base_scripts W (uc_pool s2) = []")
      case True
      then have "b = False \<and> s' = s2" using assms(3) run by auto
      then show ?thesis using False s2(2) by (simp del: not_None_eq split_paired_Ex) (intro exI [of _ 0], simp)
    next
      case ne: False
      then have "populate_files W (uw_entries W ?dir) s2 = Some (Inr b, s')" using assms(3) run by auto
      from populate_files_runs [OF s2(1) this] obtain n where
        n: "uc_runs s' = uc_runs s2 @ map (script_run (setting_of W s')) (take n scripts)"
          "scripts = base_scripts W (uc_pool s2)" "stops_at_failure ok (take n scripts) b" "b \<longrightarrow> take n scripts = scripts"
          "\<not> b \<longrightarrow> \<not> ok (last (take n scripts))"
        unfolding scripts_def ok_def comp_def by blast
      have ok: "\<forall>p \<in> set (butlast (take n scripts)). ok p" "b \<longrightarrow> (\<forall>p \<in> set (take n scripts). ok p)"
        using n(3) unfolding stops_at_failure_def by blast+
      show ?thesis unfolding if_not_P [OF False]
        by (rule exI [of _ n]) (use n ok ne s2(2) in simp)
    qed
  qed
qed

subsection \<open>A concrete database\<close>

text \<open>
  A source tree \<^verbatim>\<open>/w\<close> with a base directory and an update directory, a server on which every call succeeds
  and every query has \<open>rows\<close> rows, and a client program that fails on the script \<open>bad\<close>.
\<close>

definition demo_client :: "nat \<Rightarrow> client" where
  "demo_client rows = (sample_client (\<lambda>h c. False) 0)\<lparr>cl_row_count := (\<lambda>h. rows), cl_field_count := (\<lambda>h. 1)\<rparr>"

definition demo_world :: "nat \<Rightarrow> string \<Rightarrow> updater_world" where
  "demo_world rows bad = \<lparr>uw_config = demo_config, uw_config_path = ''/c/'', uw_git_source = ''/w'', uw_git_mysql = ''/usr/bin/mysql'',
     uw_regular_file = (\<lambda>p. p = ''/usr/bin/mysql''), uw_search_path = (\<lambda>n. []), uw_absolute = (\<lambda>p. p),
     uw_entries = (\<lambda>d. [''base/a.sql'', ''base/notes.txt'', ''base/b.sql'']),
     uw_make_dir = (\<lambda>p. True), uw_opens = (\<lambda>p. True),
     uw_exit = (\<lambda>exe args. if ''BEGIN; SOURCE '' @ bad @ ''; COMMIT;'' \<in> set args then 1 else 0),
     uw_answer = [],
     uw_fetch = (sample_env (\<lambda>p. True))\<lparr>is_directory := (\<lambda>p. p \<in> set [''/w'', ''/w/up'', ''/w/data/sql/base/db_discord/''])\<rparr>,
     uw_include = [(''$/up'', ''CUSTOM'')], uw_include_restored = [], uw_updates = [],
     uw_clients = (\<lambda>i. demo_client rows), uw_locked = (\<lambda>k j. False)\<rparr>"

abbreviation demo_info :: connection_info where
  "demo_info \<equiv> \<lparr>ci_User = ''u'', ci_Password = ''p'', ci_Database = ''bot'', ci_Host = ''127.0.0.1'',
     ci_PortOrSocket = ''3306'', ci_SSL = []\<rparr>"

definition demo_ctx :: "connection \<Rightarrow> process_run list \<Rightarrow> upd_ctx" where
  "demo_ctx c runs = \<lparr>uc_pool = \<lparr>np_name = ''Discord'', np_type = 1, np_extra = ''/c/DB/DiscordConfig.cnf'',
       np_pool = (DatabaseWorkerPool 0)\<lparr>dp_info := Some demo_info,
         dp_sync := [\<lparr>pc_id = 0, pc_conn = c, pc_locked = False\<rparr>]\<rparr>\<rparr>,
     uc_files = Map.empty, uc_corrected = [], uc_runs = runs\<rparr>"

abbreviation demo_setting :: setting where
  "demo_setting \<equiv> (''/usr/bin/mysql'', ''Discord'', ''/c/DB/DiscordConfig.cnf'', demo_info)"

lemma demo_connected: "connected (demo_ctx c runs)"
  by (simp add: connected_def demo_ctx_def)

lemma demo_fields:
  "np_name (uc_pool (demo_ctx c runs)) = ''Discord''"
  "uc_runs (demo_ctx c runs) = runs"
  by (simp_all add: demo_ctx_def)

lemma demo_executable: "GetCorrectedMySQLExecutable (demo_world n bad) (demo_ctx c runs) = ''/usr/bin/mysql''"
  by (simp add: GetCorrectedMySQLExecutable_def GetMySQLExecutable_def GetStringWithDefaultValueFromFunction_def
      GetValueDefault_string_def demo_world_def demo_config_def demo_ctx_def)

lemma demo_setting: "setting_of (demo_world n bad) (demo_ctx c runs) = demo_setting"
  by (simp add: setting_of_def demo_executable) (simp add: demo_ctx_def)

text \<open>What a query, a statement and a script do in this world.\<close>

definition queried :: "nat \<Rightarrow> string \<Rightarrow> connection \<Rightarrow> connection" where
  "queried n sql c = (let c = c\<lparr>cn_events := cn_events c @ [(MysqlQuery sql, False), (StoreResult, False)]\<rparr>
     in if n = 0 then c else UpdateLastUseTime (demo_client n) c)"

definition executed :: "nat \<Rightarrow> string \<Rightarrow> connection \<Rightarrow> connection" where
  "executed n sql c = UpdateLastUseTime (demo_client n) (c\<lparr>cn_events := cn_events c @ [(MysqlQuery sql, False)]\<rparr>)"

lemma demo_handle [simp]: "cn_handle (queried n sql c) = cn_handle c" "cn_handle (executed n sql c) = cn_handle c"
  by (simp_all add: queried_def executed_def UpdateLastUseTime_def Let_def)

lemma demo_Query:
  assumes "cn_handle c" and "sql \<noteq> []"
  shows "Query_sql (demo_client n) sql c = Some (Inr (if n = 0 then None else Some (n, 1)), queried n sql c)"
  using assms by (simp add: Query_sql_def Query_sql_into.simps perform_def demo_client_def sample_client_def queried_def Let_def)

lemma demo_Execute:
  assumes "cn_handle c" and "sql \<noteq> []"
  shows "Execute_sql (demo_client n) sql c = Some (Inr True, executed n sql c)"
  using assms by (simp add: Execute_sql.simps perform_def demo_client_def sample_client_def executed_def Let_def)

lemma demo_free:
  "GetFreeConnection cls lk (np_pool (uc_pool (demo_ctx c runs))) = Some (Inr 0, lock_conn 0 (np_pool (uc_pool (demo_ctx c runs))))"
  by (simp add: GetFreeConnection_def demo_ctx_def)

lemma demo_on_pool:
  assumes "f (demo_client n) c = Some (Inr x, c')"
  shows "on_pool (with_connection (uw_clients (demo_world n bad)) lk f) (demo_ctx c runs) = Some (Inr x, demo_ctx c' runs)"
  using assms
  by (simp add: on_pool_def with_connection_def demo_free) (simp add: demo_ctx_def demo_world_def lock_conn_def put_conn_def Unlock_def)

lemma demo_Retrieve:
  assumes "cn_handle c" and "q \<noteq> []"
  shows "Retrieve (demo_world n bad) q (demo_ctx c runs) =
    Some (Inr (if n = 0 then None else Some (n, 1)), demo_ctx (queried n q c) runs)"
  unfolding Retrieve_def Pool_Query_sql_def by (rule demo_on_pool) (rule demo_Query [OF assms])

lemma demo_Apply:
  assumes "cn_handle c" and "q \<noteq> []"
  shows "DBUpdater_Apply (demo_world n bad) q (demo_ctx c runs) = Some (Inr (), demo_ctx (executed n q c) runs)"
proof -
  have "on_pool (with_connection (uw_clients (demo_world n bad)) (uw_locked (demo_world n bad)) (\<lambda>cl. Execute_sql cl q)) (demo_ctx c runs)
      = Some (Inr True, demo_ctx (executed n q c) runs)"
    by (rule demo_on_pool) (rule demo_Execute [OF assms])
  then show ?thesis using assms(2)
    by (simp add: DBUpdater_Apply_def ubind_def ureturn_def DirectExecute_sql_def on_pool_def)
qed

lemma demo_args:
  "mysql_args extra demo_info ''bot'' p = Inr [''--defaults-extra-file='' @ extra, ''-h127.0.0.1'', ''-uu'', ''-P3306'',
     ''--default-character-set=utf8mb4'', ''--max-allowed-packet=1GB'', ''-e'', ''BEGIN; SOURCE '' @ p @ ''; COMMIT;'', ''bot'']"
  by (simp add: mysql_args_def is_digit_def)

lemma demo_exits: "exits_ok (demo_world n bad) (script_run demo_setting p) \<longleftrightarrow> p \<noteq> bad"
  by (auto simp: exits_ok_def demo_args demo_world_def)

lemma demo_command: "command (demo_world n bad) None p (demo_ctx c runs) = Inr (script_run demo_setting p)"
  unfolding command_def demo_executable by (simp add: demo_ctx_def demo_args)

lemma demo_ApplyFile:
  "DBUpdater_ApplyFile (demo_world n bad) None p (demo_ctx c runs) = Some (Inr (p \<noteq> bad), demo_ctx c (runs @ [script_run demo_setting p]))"
  by (simp add: DBUpdater_ApplyFile_def demo_command demo_exits del: script_run.simps) (simp add: demo_ctx_def)

lemma demo_CheckExecutable: "CheckExecutable (demo_world n bad) (demo_ctx c runs) = Some (Inr True, demo_ctx c runs)"
  by (simp add: CheckExecutable_def demo_executable) (simp add: demo_world_def)

lemma demo_lower:
  "ascii_lower CHR ''D'' = CHR ''d''" "ascii_lower CHR ''i'' = CHR ''i''" "ascii_lower CHR ''s'' = CHR ''s''"
  "ascii_lower CHR ''c'' = CHR ''c''" "ascii_lower CHR ''o'' = CHR ''o''" "ascii_lower CHR ''r'' = CHR ''r''"
  "ascii_lower CHR ''d'' = CHR ''d''"
  by code_simp+

lemma demo_source: "GetSourceDirectory (demo_world n bad) = ''/w''"
  by (simp add: GetSourceDirectory_def GetStringWithDefaultValueFromFunction_def GetValueDefault_string_def
      demo_world_def demo_config_def)

theorem populate_database_witness:
  "\<exists>s'. DBUpdater_Populate (demo_world 0 ''base/b.sql'') (demo_ctx demo_connection []) = Some (Inr False, s')
     \<and> uc_runs s' = map (script_run demo_setting) [''base/a.sql'', ''base/b.sql'']
     \<and> exits_ok (demo_world 0 ''base/b.sql'') (script_run demo_setting ''base/a.sql'')"
proof -
  let ?W = "demo_world 0 ''base/b.sql''" and ?s = "demo_ctx demo_connection []"
  let ?c = "queried 0 ''SHOW TABLES'' demo_connection"
  let ?s' = "demo_ctx ?c (map (script_run demo_setting) [''base/a.sql'', ''base/b.sql''])"
  have r: "Retrieve ?W ''SHOW TABLES'' ?s = Some (Inr None, demo_ctx ?c [])"
    by (simp add: demo_Retrieve demo_connection_eq)
  have dir: "GetBaseFilesDirectory ?W (uc_pool (demo_ctx c runs)) = ''/w/data/sql/base/db_discord/''" for c runs
    by (simp add: GetBaseFilesDirectory_def demo_source demo_fields demo_lower)
  have ext: "extension ''base/a.sql'' = ''.sql''" "extension ''base/b.sql'' = ''.sql''" "extension ''base/notes.txt'' = ''.txt''"
    by code_simp+
  have en: "uw_entries ?W d = [''base/a.sql'', ''base/notes.txt'', ''base/b.sql'']" "is_directory (uw_fetch ?W) ''/w/data/sql/base/db_discord/''" for d
    by (simp_all add: demo_world_def)
  have p: "DBUpdater_Populate ?W ?s = Some (Inr False, ?s')"
    by (simp add: DBUpdater_Populate_def ubind_def ureturn_def r demo_CheckExecutable dir en ext demo_ApplyFile del: script_run.simps)
  from populate_database [OF demo_connected r p]
  have "\<exists>n. map (script_run demo_setting) [''base/a.sql'', ''base/b.sql'']
      = map (script_run demo_setting) (take n [''base/a.sql'', ''base/b.sql''])
    \<and> (\<forall>x \<in> set (butlast (take n [''base/a.sql'', ''base/b.sql''])). exits_ok ?W (script_run demo_setting x))"
    by (simp add: base_scripts_def dir en ext demo_setting demo_fields(2) del: script_run.simps list.map) blast
  then have "exits_ok ?W (script_run demo_setting ''base/a.sql'')"
    by (auto dest!: map_eq_imp_length_eq simp: min_def take_Cons' split: if_splits simp del: script_run.simps)
  with p show ?thesis by (simp add: demo_fields(2) del: script_run.simps)
qed

definition demo_env :: "string \<Rightarrow> fetch_env" where
  "demo_env bad = (sample_env (\<lambda>p. p \<noteq> bad))\<lparr>db_module_name := ''db_discord/'',
     is_directory := (\<lambda>p. p \<in> set [''/w'', ''/w/up'', ''/w/data/sql/base/db_discord/''])\<rparr>"

lemma demo_fetcher: "fetcher (demo_world n bad) [] None (demo_ctx c runs) = demo_env bad"
  by (simp add: fetcher_def demo_source demo_command demo_exits GetDBModuleName_def demo_fields demo_lower del: script_run.simps)
     (simp add: demo_world_def demo_env_def sample_env_def)

lemma demo_fetch:
  "GetFileList (demo_env []) (Some [(''$/up'', ''CUSTOM'')]) None = ([], Inr sample_files)"
  "Update (demo_env []) (Some [(''$/up'', ''CUSTOM'')]) None [] =
     ([ApplyFile ''/w/up/a.sql'', Apply (ReplaceEntry ''a.sql'' sample_hash CUSTOM 7),
       ApplyFile ''/w/up/b.sql'', Apply (ReplaceEntry ''b.sql'' sample_hash CUSTOM 7)],
      Inr \<lparr>updated = 2, recent = 0, archived = 0\<rparr>)"
  by code_simp+

lemma render_nonempty [simp]: "render q \<noteq> []"
  by (cases q) simp_all

lemma demo_tables:
  assumes "cn_handle c"
  shows "CheckUpdateTable (demo_world 2 []) t (demo_ctx c runs)
    = Some (Inr True, demo_ctx (queried 2 (''SHOW TABLES LIKE '' @ sq @ t @ sq) c) runs)"
  using assms by (simp add: CheckUpdateTable_def ubind_def ureturn_def demo_Retrieve)

lemma demo_run_fetcher:
  assumes "cn_handle c"
  shows "\<exists>c'. run_fetcher (demo_world 2 []) (demo_env []) (demo_ctx c [])
    = Some (Inr (Inr \<lparr>updated = 2, recent = 0, archived = 0\<rparr>), demo_ctx c' (map (script_run demo_setting) [''/w/up/a.sql'', ''/w/up/b.sql'']))"
proof -
  have q: "include_query \<noteq> []" "updates_query \<noteq> []" by (simp_all add: include_query_def updates_query_def)
  have w: "uw_include (demo_world 2 []) = [(''$/up'', ''CUSTOM'')]" "uw_updates (demo_world 2 []) = []"
    "set_directories (demo_env []) = None"
    by (simp_all add: demo_world_def demo_env_def sample_env_def)
  show ?thesis using assms
    by (simp add: run_fetcher_def retrieve_include_def apply_fetched_def ubind_def ureturn_def demo_Retrieve demo_Apply demo_ApplyFile
        demo_fetch w q Let_def del: script_run.simps render.simps) blast
qed


subsection \<open>The password\<close>

text \<open>
  No command line has the password; what the client program uses is the extra file.  That file is
  written only when there is none: after the password of the pool was changed in the configuration,
  the client program still gets the old one.
\<close>

lemma args_without_password:
  "mysql_args extra (info\<lparr>ci_Password := pw\<rparr>) database path = mysql_args extra info database path"
  by (simp add: mysql_args_def split: list.split)

lemma extra_file_written:
  assumes "set_connection_info W infoString s = Some (Inr (), s')"
  shows "np_extra (uc_pool s') = extra_file W (uc_pool s)
    \<and> uc_files s' (extra_file W (uc_pool s)) =
        (case uc_files s (extra_file W (uc_pool s)) of
           Some old \<Rightarrow> Some old
         | None \<Rightarrow> Some (password_file (ci_Password (MySQLConnectionInfo infoString))))"
  using assms by (auto simp: set_connection_info_def ubind_def on_pool_def SetConnectionInfo_def MakeExtraFile_def
      extra_file_def Let_def split: if_splits option.splits)

text \<open>\<open>Create\<close> asks first, runs one script without a database, and leaves no temporary file behind.\<close>

lemma create_runs_one_script:
  assumes "DBUpdater_Create W s = Some (Inr b, s')"
  shows "s' = s \<and> \<not> b \<and> (uw_answer W \<noteq> [] \<and> take 1 (uw_answer W) \<noteq> ''y'' \<or> \<not> uw_opens W temp_file) \<or>
    (\<exists>run. command W (Some []) temp_file s = Inr run \<and> uc_runs s' = uc_runs s @ [run] \<and> b = exits_ok W run
       \<and> uc_files s' = (uc_files s)(temp_file := None) \<and> uc_pool s' = uc_pool s)"
  using assms
  by (auto simp: DBUpdater_Create_def ubind_def set_file_def ureturn_def DBUpdater_ApplyFile_def command_def
      GetCorrectedMySQLExecutable_def split: option.splits if_splits sum.splits)

end
