(* ===== verification/DatabaseMgr.thy ===== *)
theory DatabaseMgr
  imports DBUpdater
begin

section \<open>The database manager\<close>

text \<open>
  \<^verbatim>\<open>src/src/server/database/Database/DatabaseMgr.cpp\<close>: the databases are registered with \<open>AddDatabase\<close>, which
  queues what has to be done for each, and \<open>Load\<close> works through the four queues: open (with
  reconnection, and creation of a missing database), populate, update, prepare.  A failure closes
  every pool that was opened.

  A queued closure is what it captured: the number of the pool, its name, and for the open queue
  whether updates are enabled for it.  The pools are the list \<open>dm_pools\<close> and the close stack is a
  list of their numbers with the top first.  The world of a pool is the one of the updater, \<open>Ws i\<close>.
  Sleeping between two attempts and logging are left out; so is \<open>Update\<close>, which hands the time to the
  schedulers of the pools.
\<close>

subsection \<open>State\<close>

abbreviation CR_CONNECTION_ERROR :: u32 where "CR_CONNECTION_ERROR \<equiv> 2002"
abbreviation ER_BAD_DB_ERROR :: u32 where "ER_BAD_DB_ERROR \<equiv> 1049"

record db_mgr =
  dm_autoSetup :: bool
  dm_updateFlags :: u32
  dm_modulesList :: string
  dm_open :: "(nat \<times> string \<times> bool) list"
  dm_populate :: "(nat \<times> string) list"
  dm_update :: "(nat \<times> string) list"
  dm_prepare :: "(nat \<times> string) list"
  dm_close :: "nat list"
  dm_poolList :: "nat list"
  dm_pools :: "named_pool list"
  dm_files :: "string \<rightharpoonup> string"
  dm_corrected :: string
  dm_runs :: "process_run list"

type_synonym 'a mop = "db_mgr \<Rightarrow> ('a res \<times> db_mgr) option"

definition DatabaseMgr :: "config_mgr \<Rightarrow> named_pool list \<Rightarrow> (string \<rightharpoonup> string) \<Rightarrow> db_mgr" where
  "DatabaseMgr cfg pools files =
     \<lparr>dm_autoSetup = fst (GetOption_bool ''Updates.AutoSetup'' True True cfg),
      dm_updateFlags = word_of_int (fst (GetOption_int (uint_ty 32) ''Updates.EnableDatabases'' 0 True cfg)),
      dm_modulesList = [], dm_open = [], dm_populate = [], dm_update = [], dm_prepare = [], dm_close = [],
      dm_poolList = [], dm_pools = pools, dm_files = files, dm_corrected = [], dm_runs = []\<rparr>"

definition SetModuleList :: "string \<Rightarrow> db_mgr \<Rightarrow> db_mgr" where
  "SetModuleList modulesList m = m\<lparr>dm_modulesList := modulesList\<rparr>"

definition AddDatabase :: "nat \<Rightarrow> string \<Rightarrow> db_mgr \<Rightarrow> db_mgr" where
  "AddDatabase i name m =
     (let np = (dm_pools m ! i)\<lparr>np_name := name\<rparr>;
          updatesEnabledForThis = DBUpdater_IsEnabled np (dm_updateFlags m);
          m = m\<lparr>dm_pools := (dm_pools m)[i := np], dm_open := dm_open m @ [(i, name, updatesEnabledForThis)]\<rparr>;
          m = (if updatesEnabledForThis
               then m\<lparr>dm_populate := dm_populate m @ [(i, name)], dm_update := dm_update m @ [(i, name)]\<rparr> else m)
      in m\<lparr>dm_prepare := dm_prepare m @ [(i, name)]\<rparr>)"

text \<open>An operation of the updater on pool \<open>i\<close>.\<close>

definition on_updater :: "nat \<Rightarrow> 'a uop \<Rightarrow> 'a mop" where
  "on_updater i f m =
     (case f \<lparr>uc_pool = dm_pools m ! i, uc_files = dm_files m, uc_corrected = dm_corrected m, uc_runs = dm_runs m\<rparr> of
        None \<Rightarrow> None
      | Some (r, s) \<Rightarrow> Some (r, m\<lparr>dm_pools := (dm_pools m)[i := uc_pool s], dm_files := uc_files s,
                                 dm_corrected := uc_corrected s, dm_runs := uc_runs s\<rparr>))"

subsection \<open>Opening a pool\<close>

definition pool_Open :: "updater_world \<Rightarrow> u32 uop" where
  "pool_Open W = on_pool (\<lambda>p. Some (DatabaseWorkerPool_Open (uw_clients W) (uw_config W) p))"

text \<open>The loop \<open>while (reconnectCount < attempts)\<close>; \<open>n\<close> is \<open>attempts - reconnectCount\<close>.\<close>

fun reconnect :: "updater_world \<Rightarrow> nat \<Rightarrow> u32 \<Rightarrow> u32 uop" where
  "reconnect W 0 error = ureturn error"
| "reconnect W (Suc n) error =
     ubind (pool_Open W) (\<lambda>error. if error = CR_CONNECTION_ERROR then reconnect W n error else ureturn error)"

definition reconnect_attempts :: "updater_world \<Rightarrow> nat" where
  "reconnect_attempts W = nat (fst (GetOption_int (uint_ty 8) ''Database.Reconnect.Attempts'' 20 True (uw_config W)))"

definition create_database :: "updater_world \<Rightarrow> u32 \<Rightarrow> u32 uop" where
  "create_database W error =
     ubind (DBUpdater_Create W) (\<lambda>created.
       if \<not> created then ureturn error
       else ubind (pool_Open W) (\<lambda>e. ureturn (if e = 0 then 0 else error)))"

definition open_database :: "updater_world \<Rightarrow> string \<Rightarrow> bool \<Rightarrow> bool uop" where
  "open_database W name create =
     (let dbString = fst (GetValueDefault_string (name @ ''DatabaseInfo'') [] True (uw_config W))
      in if dbString = [] then ureturn False
         else ubind (set_connection_info W dbString) (\<lambda>_.
              ubind (pool_Open W) (\<lambda>error.
                if error = 0 then ureturn True
                else ubind (if error = CR_CONNECTION_ERROR then reconnect W (reconnect_attempts W) error else ureturn error) (\<lambda>error.
                     ubind (if error = ER_BAD_DB_ERROR \<and> create then create_database W error else ureturn error) (\<lambda>error.
                       ureturn (error = 0))))))"

definition open_task :: "(nat \<Rightarrow> updater_world) \<Rightarrow> nat \<times> string \<times> bool \<Rightarrow> bool mop" where
  "open_task Ws t m = (case t of (i, name, updatesEnabledForThis) \<Rightarrow>
     (case on_updater i (open_database (Ws i) name (updatesEnabledForThis \<and> dm_autoSetup m)) m of
        Some (Inr True, m) \<Rightarrow> Some (Inr True, m\<lparr>dm_close := i # dm_close m\<rparr>)
      | r \<Rightarrow> r))"

definition populate_task :: "(nat \<Rightarrow> updater_world) \<Rightarrow> nat \<times> string \<Rightarrow> bool mop" where
  "populate_task Ws t = on_updater (fst t) (DBUpdater_Populate (Ws (fst t)))"

definition update_task :: "(nat \<Rightarrow> updater_world) \<Rightarrow> nat \<times> string \<Rightarrow> bool mop" where
  "update_task Ws t m = on_updater (fst t) (DBUpdater_Update (Ws (fst t)) (dm_modulesList m)) m"

definition prepare_task :: "(nat \<Rightarrow> updater_world) \<Rightarrow> nat \<times> string \<Rightarrow> bool mop" where
  "prepare_task Ws t m =
     (case on_updater (fst t) (on_pool (\<lambda>p. Some (Pool_PrepareStatements (uw_clients (Ws (fst t))) p))) m of
        Some (Inr True, m) \<Rightarrow> Some (Inr True, m\<lparr>dm_poolList := dm_poolList m @ [fst t]\<rparr>)
      | r \<Rightarrow> r)"

subsection \<open>Working through the queues\<close>

definition close_pool :: "nat \<Rightarrow> db_mgr \<Rightarrow> db_mgr" where
  "close_pool i m = m\<lparr>dm_pools := (dm_pools m)[i := (dm_pools m ! i)\<lparr>np_pool := DatabaseWorkerPool_Close (np_pool (dm_pools m ! i))\<rparr>]\<rparr>"

definition CloseAllConnections :: "db_mgr \<Rightarrow> db_mgr" where
  "CloseAllConnections m = (fold close_pool (dm_close m) m)\<lparr>dm_close := []\<rparr>"

text \<open>\<open>Process\<close>, with what is left in the queue: a task is popped after it succeeded.\<close>

fun Process :: "('t \<Rightarrow> bool mop) \<Rightarrow> 't list \<Rightarrow> db_mgr \<Rightarrow> (bool res \<times> 't list \<times> db_mgr) option" where
  "Process run [] m = Some (Inr True, [], m)"
| "Process run (t # ts) m =
     (case run t m of
        None \<Rightarrow> None
      | Some (Inl e, m) \<Rightarrow> Some (Inl e, t # ts, m)
      | Some (Inr ok, m) \<Rightarrow>
          if \<not> ok then Some (Inr False, t # ts, CloseAllConnections m) else Process run ts m)"

definition OpenDatabases :: "(nat \<Rightarrow> updater_world) \<Rightarrow> bool mop" where
  "OpenDatabases Ws m = map_option (\<lambda>(r, q, m). (r, m\<lparr>dm_open := q\<rparr>)) (Process (open_task Ws) (dm_open m) m)"

definition PopulateDatabases :: "(nat \<Rightarrow> updater_world) \<Rightarrow> bool mop" where
  "PopulateDatabases Ws m = map_option (\<lambda>(r, q, m). (r, m\<lparr>dm_populate := q\<rparr>)) (Process (populate_task Ws) (dm_populate m) m)"

definition UpdateDatabases :: "(nat \<Rightarrow> updater_world) \<Rightarrow> bool mop" where
  "UpdateDatabases Ws m = map_option (\<lambda>(r, q, m). (r, m\<lparr>dm_update := q\<rparr>)) (Process (update_task Ws) (dm_update m) m)"

definition Mgr_PrepareStatements :: "(nat \<Rightarrow> updater_world) \<Rightarrow> bool mop" where
  "Mgr_PrepareStatements Ws m = map_option (\<lambda>(r, q, m). (r, m\<lparr>dm_prepare := q\<rparr>)) (Process (prepare_task Ws) (dm_prepare m) m)"

definition and_if :: "bool mop \<Rightarrow> bool mop \<Rightarrow> bool mop" where
  "and_if f g m = (case f m of Some (Inr True, m) \<Rightarrow> g m | r \<Rightarrow> r)"

definition Load :: "(nat \<Rightarrow> updater_world) \<Rightarrow> bool mop" where
  "Load Ws = and_if (OpenDatabases Ws) (and_if (PopulateDatabases Ws) (and_if (UpdateDatabases Ws) (Mgr_PrepareStatements Ws)))"

subsection \<open>What a task touches\<close>

definition has_connections :: "named_pool \<Rightarrow> bool" where
  "has_connections np = (dp_async (np_pool np) \<noteq> [] \<or> dp_sync (np_pool np) \<noteq> [])"

text \<open>Every pool with connections is on the close stack.\<close>

definition all_closable :: "db_mgr \<Rightarrow> bool" where
  "all_closable m = (\<forall>j < length (dm_pools m). has_connections (dm_pools m ! j) \<longrightarrow> j \<in> set (dm_close m))"

lemma Close_no_connections [simp]: "\<not> has_connections (np\<lparr>np_pool := DatabaseWorkerPool_Close p\<rparr>)"
  by (simp add: has_connections_def DatabaseWorkerPool_Close_def)

lemma close_pool_fields [simp]:
  "length (dm_pools (close_pool i m)) = length (dm_pools m)" "dm_close (close_pool i m) = dm_close m"
  "dm_open (close_pool i m) = dm_open m" "dm_populate (close_pool i m) = dm_populate m"
  "dm_update (close_pool i m) = dm_update m" "dm_prepare (close_pool i m) = dm_prepare m"
  by (simp_all add: close_pool_def)

lemma close_pools:
  "length (dm_pools (fold close_pool is m)) = length (dm_pools m)
   \<and> dm_open (fold close_pool is m) = dm_open m
   \<and> (\<forall>j < length (dm_pools m). has_connections (dm_pools (fold close_pool is m) ! j)
        \<longrightarrow> j \<notin> set is \<and> has_connections (dm_pools m ! j))"
proof (induction "is" arbitrary: m)
  case Nil
  then show ?case by simp
next
  case (Cons i "is")
  have "has_connections (dm_pools (close_pool i m) ! j) \<longrightarrow> j \<noteq> i \<and> has_connections (dm_pools m ! j)"
    if "j < length (dm_pools m)" for j
    using that by (cases "j = i") (simp_all add: close_pool_def)
  with Cons [of "close_pool i m"] show ?case by simp
qed

lemma CloseAll_connections:
  "length (dm_pools (CloseAllConnections m)) = length (dm_pools m)" "dm_close (CloseAllConnections m) = []"
  "dm_open (CloseAllConnections m) = dm_open m"
  "j < length (dm_pools m) \<Longrightarrow> has_connections (dm_pools (CloseAllConnections m) ! j)
     \<Longrightarrow> j \<notin> set (dm_close m) \<and> has_connections (dm_pools m ! j)"
  using close_pools [of "dm_close m" m] by (auto simp: CloseAllConnections_def)

lemma Process_runs_head:
  assumes "Process run (t # ts) m = Some (Inr ok, q, m')"
  obtains b m1 where "run t m = Some (Inr b, m1)"
proof (cases "run t m")
  case (Some x)
  then show ?thesis using that assms by (cases x; cases "fst x") auto
qed (use assms in simp)

text \<open>The contract of a queue of tasks.\<close>

locale managed_tasks =
  fixes run :: "'t \<Rightarrow> bool mop"
    and ix :: "'t \<Rightarrow> nat"
    and ready :: "'t \<Rightarrow> db_mgr \<Rightarrow> bool"
  assumes frame: "run t m = Some (r, m') \<Longrightarrow>
      length (dm_pools m') = length (dm_pools m) \<and> (\<forall>j. j \<noteq> ix t \<longrightarrow> dm_pools m' ! j = dm_pools m ! j)"
    and opened: "run t m = Some (Inr True, m') \<Longrightarrow> ready t m \<Longrightarrow>
      ix t \<in> set (dm_close m') \<and> set (dm_close m) \<subseteq> set (dm_close m')"
    and failed: "run t m = Some (Inr False, m') \<Longrightarrow> dm_close m' = dm_close m"
    and ready_mono: "ready t m \<Longrightarrow> set (dm_close m) \<subseteq> set (dm_close m') \<Longrightarrow> ready t m'"
begin

lemma task_keeps_closable:
  assumes "all_closable m" and "ready t m" and "run t m = Some (Inr True, m')"
  shows "all_closable m'"
  using assms frame [OF assms(3)] opened [OF assms(3,2)] unfolding all_closable_def by (metis subsetD)

text \<open>
  A queue that is worked off leaves only pools that the close stack knows; one that fails has closed
  them, so connections are left only in the pool of the failed task, and only when that was not open.
\<close>

lemma Process_connections:
  assumes "Process run ts m = Some (Inr ok, q, m')" and "all_closable m" and "\<forall>t \<in> set ts. ready t m"
  shows "length (dm_pools m') = length (dm_pools m)
    \<and> (ok \<longrightarrow> q = [] \<and> all_closable m' \<and> set (dm_close m) \<subseteq> set (dm_close m') \<and> ix ` set ts \<subseteq> set (dm_close m'))
    \<and> (\<not> ok \<longrightarrow> dm_close m' = [] \<and> (\<forall>j < length (dm_pools m'). has_connections (dm_pools m' ! j) \<longrightarrow>
        (\<exists>t q' m0. q = t # q' \<and> j = ix t \<and> ready t m0 \<and> j \<notin> set (dm_close m0))))"
  using assms
proof (induction ts arbitrary: m)
  case Nil
  then show ?case by auto
next
  case (Cons t ts)
  obtain b m1 where r: "run t m = Some (Inr b, m1)" using Process_runs_head [OF Cons.prems(1)] .
  note fr = frame [OF r]
  show ?case
  proof (cases b)
    case True
    then have r': "run t m = Some (Inr True, m1)" using r by simp
    have rt: "ready t m" using Cons.prems(3) by simp
    have sub: "ix t \<in> set (dm_close m1)" "set (dm_close m) \<subseteq> set (dm_close m1)" using opened [OF r' rt] by auto
    have "\<forall>t \<in> set ts. ready t m1" using Cons.prems(3) ready_mono [OF _ sub(2)] by simp
    moreover have "Process run ts m1 = Some (Inr ok, q, m')" using Cons.prems(1) r True by simp
    ultimately show ?thesis
      using Cons.IH [of m1] task_keeps_closable [OF Cons.prems(2) rt r'] fr sub by auto
  next
    case False
    then have eq: "ok = False" "q = t # ts" "m' = CloseAllConnections m1" using Cons.prems(1) r by auto
    have "dm_close m1 = dm_close m" using failed r False by simp
    then have "j = ix t \<and> j \<notin> set (dm_close m)"
      if "j < length (dm_pools m1)" "has_connections (dm_pools (CloseAllConnections m1) ! j)" for j
      using CloseAll_connections(4) [OF that] Cons.prems(2) fr that(1) unfolding all_closable_def by metis
    then have left: "\<forall>j < length (dm_pools m'). has_connections (dm_pools m' ! j) \<longrightarrow> j = ix t \<and> j \<notin> set (dm_close m)"
      using eq(3) by (simp add: CloseAll_connections)
    have "ready t m" and "dm_close m' = []" and "length (dm_pools m') = length (dm_pools m)"
      using Cons.prems(3) eq(3) fr by (simp_all add: CloseAll_connections)
    with left show ?thesis unfolding eq(1,2) by blast
  qed
qed

end

text \<open>A field on which every successful task acts by \<open>h\<close>.\<close>

lemma Process_fold:
  assumes "Process run ts m = Some (Inr True, q, m')"
    and "\<And>t m m'. run t m = Some (Inr True, m') \<Longrightarrow> g m' = h t (g m)"
  shows "g m' = fold h ts (g m)"
  using assms(1)
proof (induction ts arbitrary: m)
  case (Cons t ts)
  then obtain m1 where "run t m = Some (Inr True, m1)" "Process run ts m1 = Some (Inr True, q, m')"
    by (auto split: option.splits prod.splits sum.splits if_splits)
  then show ?case using Cons.IH assms(2) by simp
qed simp

subsection \<open>The four queues meet the contract\<close>

lemma on_updater_frame:
  assumes "on_updater i f m = Some (r, m')"
  shows "length (dm_pools m') = length (dm_pools m) \<and> (\<forall>j. j \<noteq> i \<longrightarrow> dm_pools m' ! j = dm_pools m ! j)"
    and "dm_close m' = dm_close m" and "dm_poolList m' = dm_poolList m"
    and "dm_open m' = dm_open m" and "dm_populate m' = dm_populate m" and "dm_update m' = dm_update m"
    and "dm_prepare m' = dm_prepare m"
  using assms by (auto simp: on_updater_def split: option.splits)

lemma open_taskD:
  assumes "open_task Ws t m = Some (r, m')"
  obtains m1 where "on_updater (fst t) (open_database (Ws (fst t)) (fst (snd t)) (snd (snd t) \<and> dm_autoSetup m)) m = Some (r, m1)"
    and "m' = (if r = Inr True then m1\<lparr>dm_close := fst t # dm_close m\<rparr> else m1)"
proof -
  obtain i name e where t: "t = (i, name, e)" by (metis prod_cases3)
  show ?thesis
  proof (cases "on_updater i (open_database (Ws i) name (e \<and> dm_autoSetup m)) m")
    case (Some x)
    then obtain r1 m1 where x: "x = (r1, m1)" by (cases x)
    then have o: "on_updater i (open_database (Ws i) name (e \<and> dm_autoSetup m)) m = Some (r1, m1)" using Some by simp
    show ?thesis
    proof (cases "r1 = Inr True")
      case True
      then show ?thesis using that [of m1] assms o on_updater_frame(2) [OF o] t by (simp add: open_task_def)
    next
      case False
      then have "open_task Ws t m = Some (r1, m1)"
        using o t by (cases r1) (auto simp: open_task_def split: bool.splits)
      then show ?thesis using that [of m1] assms o t False by simp
    qed
  qed (use assms t in \<open>simp add: open_task_def\<close>)
qed

lemma prepare_taskD:
  assumes "prepare_task Ws t m = Some (r, m')"
  obtains m1 where "on_updater (fst t) (on_pool (\<lambda>p. Some (Pool_PrepareStatements (uw_clients (Ws (fst t))) p))) m = Some (r, m1)"
    and "m' = (if r = Inr True then m1\<lparr>dm_poolList := dm_poolList m @ [fst t]\<rparr> else m1)"
proof (cases "on_updater (fst t) (on_pool (\<lambda>p. Some (Pool_PrepareStatements (uw_clients (Ws (fst t))) p))) m")
  case (Some x)
  then obtain r1 m1 where o: "on_updater (fst t) (on_pool (\<lambda>p. Some (Pool_PrepareStatements (uw_clients (Ws (fst t))) p))) m = Some (r1, m1)"
    by (cases x) simp
  show ?thesis
  proof (cases "r1 = Inr True")
    case True
    then show ?thesis using that [of m1] assms o on_updater_frame(3) [OF o] by (simp add: prepare_task_def)
  next
    case False
    then have "prepare_task Ws t m = Some (r1, m1)"
      using o by (cases r1) (auto simp: prepare_task_def split: bool.splits)
    then show ?thesis using that [of m1] assms o False by simp
  qed
qed (use assms in \<open>simp add: prepare_task_def\<close>)

lemmas plain_tasks = populate_task_def update_task_def

interpretation opens: managed_tasks "open_task Ws" fst "\<lambda>t m. True" for Ws
  by unfold_locales (auto elim!: open_taskD dest: on_updater_frame split: if_splits)

interpretation populates: managed_tasks "populate_task Ws" fst "\<lambda>t m. fst t \<in> set (dm_close m)" for Ws
  by unfold_locales (auto simp: plain_tasks dest: on_updater_frame)

interpretation updates: managed_tasks "update_task Ws" fst "\<lambda>t m. fst t \<in> set (dm_close m)" for Ws
  by unfold_locales (auto simp: plain_tasks dest: on_updater_frame)

interpretation prepares: managed_tasks "prepare_task Ws" fst "\<lambda>t m. fst t \<in> set (dm_close m)" for Ws
  by unfold_locales (auto elim!: prepare_taskD dest: on_updater_frame split: if_splits)

subsection \<open>Loading the registered databases\<close>

definition register :: "(nat \<times> string) list \<Rightarrow> db_mgr \<Rightarrow> db_mgr" where
  "register regs m = fold (\<lambda>(i, name). AddDatabase i name) regs m"

lemma AddDatabase_queues:
  "map fst (dm_open (AddDatabase i name m)) = map fst (dm_open m) @ [i]"
  "map fst (dm_prepare (AddDatabase i name m)) = map fst (dm_prepare m) @ [i]"
  "fst ` set (dm_populate (AddDatabase i name m)) \<subseteq> insert i (fst ` set (dm_populate m))"
  "fst ` set (dm_update (AddDatabase i name m)) \<subseteq> insert i (fst ` set (dm_update m))"
  "dm_close (AddDatabase i name m) = dm_close m" "dm_poolList (AddDatabase i name m) = dm_poolList m"
  by (auto simp: AddDatabase_def Let_def)

lemma AddDatabase_pools:
  "length (dm_pools (AddDatabase i name m)) = length (dm_pools m)"
  "j < length (dm_pools m) \<Longrightarrow> has_connections (dm_pools (AddDatabase i name m) ! j) = has_connections (dm_pools m ! j)"
  by (simp_all add: AddDatabase_def Let_def) (cases "j = i"; simp add: has_connections_def)

lemma register_queues:
  "map fst (dm_open (register regs m)) = map fst (dm_open m) @ map fst regs
   \<and> map fst (dm_prepare (register regs m)) = map fst (dm_prepare m) @ map fst regs
   \<and> fst ` set (dm_populate (register regs m)) \<subseteq> fst ` set regs \<union> fst ` set (dm_populate m)
   \<and> fst ` set (dm_update (register regs m)) \<subseteq> fst ` set regs \<union> fst ` set (dm_update m)
   \<and> dm_close (register regs m) = dm_close m \<and> dm_poolList (register regs m) = dm_poolList m"
proof (induction regs arbitrary: m)
  case Nil
  then show ?case by (simp add: register_def)
next
  case (Cons x regs)
  obtain i name where x: "x = (i, name)" by (cases x)
  have r: "register (x # regs) m = register regs (AddDatabase i name m)" by (simp add: register_def x)
  note IH = Cons [of "AddDatabase i name m"] and add = AddDatabase_queues [of i name m]
  have "fst ` set (dm_populate (register regs (AddDatabase i name m))) \<subseteq> fst ` set (x # regs) \<union> fst ` set (dm_populate m)"
    using IH add(3) x by (simp add: subset_iff) metis
  moreover have "fst ` set (dm_update (register regs (AddDatabase i name m))) \<subseteq> fst ` set (x # regs) \<union> fst ` set (dm_update m)"
    using IH add(4) x by (simp add: subset_iff) metis
  ultimately show ?case unfolding r using IH add(1,2,5,6) x by simp
qed

lemma register_pools:
  "length (dm_pools (register regs m)) = length (dm_pools m)
   \<and> (\<forall>j < length (dm_pools m). has_connections (dm_pools (register regs m) ! j) = has_connections (dm_pools m ! j))"
proof (induction regs arbitrary: m)
  case Nil
  then show ?case by (simp add: register_def)
next
  case (Cons x regs)
  obtain i name where x: "x = (i, name)" by (cases x)
  have r: "register (x # regs) m = register regs (AddDatabase i name m)" by (simp add: register_def x)
  show ?case unfolding r using Cons [of "AddDatabase i name m"] AddDatabase_pools(1) [of i name m] AddDatabase_pools(2) [of _ m i name] by simp
qed

text \<open>What a queue that is worked off leaves in the other fields.\<close>

lemma fold_push: "fold (\<lambda>t. (#) (f t)) ts xs = rev (map f ts) @ xs"
  by (induction ts arbitrary: xs) simp_all

lemma fold_append: "fold (\<lambda>t xs. xs @ [f t]) ts xs = xs @ map f ts"
  by (induction ts arbitrary: xs) simp_all

lemma fold_same: "fold (\<lambda>t x. x) ts x = x"
  by (induction ts) simp_all

lemma open_task_fields:
  assumes "open_task Ws t m = Some (Inr True, m')"
  shows "dm_close m' = fst t # dm_close m" and "dm_poolList m' = dm_poolList m" and "dm_populate m' = dm_populate m"
    and "dm_update m' = dm_update m" and "dm_prepare m' = dm_prepare m"
  by (rule open_taskD [OF assms]; auto dest: on_updater_frame)+

lemma prepare_task_fields:
  assumes "prepare_task Ws t m = Some (Inr True, m')"
  shows "dm_poolList m' = dm_poolList m @ [fst t]" and "dm_close m' = dm_close m"
  by (rule prepare_taskD [OF assms]; auto dest: on_updater_frame)+

lemma opens_done:
  assumes "Process (open_task Ws) ts m = Some (Inr True, q, m')"
  shows "dm_close m' = rev (map fst ts) @ dm_close m" "dm_poolList m' = dm_poolList m" "dm_populate m' = dm_populate m"
    "dm_update m' = dm_update m" "dm_prepare m' = dm_prepare m"
  using Process_fold [OF assms, of dm_close "\<lambda>t. (#) (fst t)"] Process_fold [OF assms, of dm_poolList "\<lambda>t x. x"]
    Process_fold [OF assms, of dm_populate "\<lambda>t x. x"] Process_fold [OF assms, of dm_update "\<lambda>t x. x"]
    Process_fold [OF assms, of dm_prepare "\<lambda>t x. x"]
  by (simp_all add: open_task_fields fold_push fold_same)

lemma populates_done:
  assumes "Process (populate_task Ws) ts m = Some (Inr True, q, m')"
  shows "dm_close m' = dm_close m" "dm_poolList m' = dm_poolList m" "dm_update m' = dm_update m" "dm_prepare m' = dm_prepare m"
  using Process_fold [OF assms, of dm_close "\<lambda>t x. x"] Process_fold [OF assms, of dm_poolList "\<lambda>t x. x"]
    Process_fold [OF assms, of dm_update "\<lambda>t x. x"] Process_fold [OF assms, of dm_prepare "\<lambda>t x. x"]
  by (simp_all add: populate_task_def on_updater_frame fold_same)

lemma updates_done:
  assumes "Process (update_task Ws) ts m = Some (Inr True, q, m')"
  shows "dm_close m' = dm_close m" "dm_poolList m' = dm_poolList m" "dm_prepare m' = dm_prepare m"
  using Process_fold [OF assms, of dm_close "\<lambda>t x. x"] Process_fold [OF assms, of dm_poolList "\<lambda>t x. x"]
    Process_fold [OF assms, of dm_prepare "\<lambda>t x. x"]
  by (simp_all add: update_task_def on_updater_frame fold_same)

lemma prepares_done:
  assumes "Process (prepare_task Ws) ts m = Some (Inr True, q, m')"
  shows "dm_poolList m' = dm_poolList m @ map fst ts" "dm_close m' = dm_close m"
  using Process_fold [OF assms, of dm_poolList "\<lambda>t xs. xs @ [fst t]"] Process_fold [OF assms, of dm_close "\<lambda>t x. x"]
  by (simp_all add: prepare_task_fields fold_append fold_same)

definition all_closed :: "db_mgr \<Rightarrow> bool" where
  "all_closed m = (dm_close m = [] \<and> (\<forall>j < length (dm_pools m). \<not> has_connections (dm_pools m ! j)))"

lemma and_ifD:
  assumes "and_if f g m = Some (Inr ok, m')"
  shows "(\<exists>m1. f m = Some (Inr True, m1) \<and> g m1 = Some (Inr ok, m')) \<or> (\<not> ok \<and> f m = Some (Inr False, m'))"
proof (cases "f m")
  case (Some x)
  then show ?thesis using assms by (cases x; cases "fst x") (auto simp: and_if_def split: bool.splits)
qed (use assms in \<open>simp add: and_if_def\<close>)

lemma open_phase:
  assumes "OpenDatabases Ws m = Some (Inr ok, m')" and "all_closable m"
  shows "if ok then all_closable m' \<and> dm_close m' = rev (map fst (dm_open m)) @ dm_close m \<and> dm_poolList m' = dm_poolList m
      \<and> dm_populate m' = dm_populate m \<and> dm_update m' = dm_update m \<and> dm_prepare m' = dm_prepare m
    else dm_close m' = [] \<and> (\<forall>j < length (dm_pools m'). has_connections (dm_pools m' ! j) \<longrightarrow>
      (\<exists>name e q. dm_open m' = (j, name, e) # q))"
proof -
  obtain q m1 where p: "Process (open_task Ws) (dm_open m) m = Some (Inr ok, q, m1)" and m': "m' = m1\<lparr>dm_open := q\<rparr>"
    using assms(1) by (auto simp: OpenDatabases_def)
  note c = opens.Process_connections [OF p assms(2)]
  show ?thesis
  proof (cases ok)
    case True
    then show ?thesis using c m' opens_done [of Ws "dm_open m" m q m1] p by (simp add: all_closable_def)
  next
    case False
    have "\<exists>name e q'. q = (j, name, e) # q'" if "j < length (dm_pools m1)" "has_connections (dm_pools m1 ! j)" for j
      using c False that by (metis prod.collapse)
    then show ?thesis using c m' False by simp
  qed
qed

lemma populate_phase:
  assumes "PopulateDatabases Ws m = Some (Inr ok, m')" and "all_closable m" and "fst ` set (dm_populate m) \<subseteq> set (dm_close m)"
  shows "if ok then all_closable m' \<and> dm_close m' = dm_close m \<and> dm_poolList m' = dm_poolList m
      \<and> dm_update m' = dm_update m \<and> dm_prepare m' = dm_prepare m
    else all_closed m'"
proof -
  obtain q m1 where p: "Process (populate_task Ws) (dm_populate m) m = Some (Inr ok, q, m1)" and m': "m' = m1\<lparr>dm_populate := q\<rparr>"
    using assms(1) by (auto simp: PopulateDatabases_def)
  have "\<forall>t \<in> set (dm_populate m). fst t \<in> set (dm_close m)" using assms(3) by auto
  note c = populates.Process_connections [OF p assms(2) this]
  show ?thesis
    using c m' populates_done [of Ws "dm_populate m" m q m1] p
    by (cases ok) (auto simp: all_closable_def all_closed_def)
qed

lemma update_phase:
  assumes "UpdateDatabases Ws m = Some (Inr ok, m')" and "all_closable m" and "fst ` set (dm_update m) \<subseteq> set (dm_close m)"
  shows "if ok then all_closable m' \<and> dm_close m' = dm_close m \<and> dm_poolList m' = dm_poolList m \<and> dm_prepare m' = dm_prepare m
    else all_closed m'"
proof -
  obtain q m1 where p: "Process (update_task Ws) (dm_update m) m = Some (Inr ok, q, m1)" and m': "m' = m1\<lparr>dm_update := q\<rparr>"
    using assms(1) by (auto simp: UpdateDatabases_def)
  have "\<forall>t \<in> set (dm_update m). fst t \<in> set (dm_close m)" using assms(3) by auto
  note c = updates.Process_connections [OF p assms(2) this]
  show ?thesis
    using c m' updates_done [of Ws "dm_update m" m q m1] p
    by (cases ok) (auto simp: all_closable_def all_closed_def)
qed

lemma prepare_phase:
  assumes "Mgr_PrepareStatements Ws m = Some (Inr ok, m')" and "all_closable m" and "fst ` set (dm_prepare m) \<subseteq> set (dm_close m)"
  shows "if ok then all_closable m' \<and> dm_close m' = dm_close m \<and> dm_poolList m' = dm_poolList m @ map fst (dm_prepare m)
    else all_closed m'"
proof -
  obtain q m1 where p: "Process (prepare_task Ws) (dm_prepare m) m = Some (Inr ok, q, m1)" and m': "m' = m1\<lparr>dm_prepare := q\<rparr>"
    using assms(1) by (auto simp: Mgr_PrepareStatements_def)
  have "\<forall>t \<in> set (dm_prepare m). fst t \<in> set (dm_close m)" using assms(3) by auto
  note c = prepares.Process_connections [OF p assms(2) this]
  show ?thesis
    using c m' prepares_done [of Ws "dm_prepare m" m q m1] p
    by (cases ok) (auto simp: all_closable_def all_closed_def)
qed

lemma closable_closed: "all_closable m \<Longrightarrow> all_closed (CloseAllConnections m)"
  using CloseAll_connections by (auto simp: all_closable_def all_closed_def)

lemma Load_outcome:
  assumes "Load Ws m = Some (Inr ok, m')" and "all_closable m" and "dm_close m = []" and "dm_poolList m = []"
    and "map fst (dm_open m) = is" "map fst (dm_prepare m) = is"
    and "fst ` set (dm_populate m) \<subseteq> set is" "fst ` set (dm_update m) \<subseteq> set is"
  shows "if ok then dm_poolList m' = is \<and> dm_close m' = rev is \<and> all_closable m'
    else dm_close m' = [] \<and> (\<forall>j < length (dm_pools m'). has_connections (dm_pools m' ! j) \<longrightarrow>
      (\<exists>name e q. dm_open m' = (j, name, e) # q))"
  using and_ifD [OF assms(1) [unfolded Load_def]]
proof (elim disjE exE conjE)
  fix m1 assume o: "OpenDatabases Ws m = Some (Inr True, m1)"
    and "and_if (PopulateDatabases Ws) (and_if (UpdateDatabases Ws) (Mgr_PrepareStatements Ws)) m1 = Some (Inr ok, m')"
  note m1 = open_phase [OF o assms(2), simplified, unfolded assms(3,4,5) append_Nil2]
  have pre: "fst ` set (dm_populate m1) \<subseteq> set (dm_close m1)" using m1 assms(7) by simp
  from and_ifD [OF \<open>and_if _ _ m1 = _\<close>] show ?thesis
  proof (elim disjE exE conjE)
    fix m2 assume p: "PopulateDatabases Ws m1 = Some (Inr True, m2)"
      and "and_if (UpdateDatabases Ws) (Mgr_PrepareStatements Ws) m2 = Some (Inr ok, m')"
    note m2 = populate_phase [OF p conjunct1 [OF m1] pre, simplified]
    have pre2: "fst ` set (dm_update m2) \<subseteq> set (dm_close m2)" using m1 m2 assms(8) by simp
    from and_ifD [OF \<open>and_if _ _ m2 = _\<close>] show ?thesis
    proof (elim disjE exE conjE)
      fix m3 assume u: "UpdateDatabases Ws m2 = Some (Inr True, m3)" and q: "Mgr_PrepareStatements Ws m3 = Some (Inr ok, m')"
      note m3 = update_phase [OF u conjunct1 [OF m2] pre2, simplified]
      have "map fst (dm_prepare m3) = is" using m1 m2 m3 assms(6) by simp
      then have "fst ` set (dm_prepare m3) \<subseteq> set (dm_close m3)" using m1 m2 m3 by (metis list.set_map set_rev subset_refl)
      from prepare_phase [OF q conjunct1 [OF m3] this] show ?thesis
        using m1 m2 m3 \<open>map fst (dm_prepare m3) = is\<close> by (cases ok) (auto simp: all_closed_def)
    next
      assume "\<not> ok" "UpdateDatabases Ws m2 = Some (Inr False, m')"
      then show ?thesis using update_phase [OF _ conjunct1 [OF m2] pre2] by (fastforce simp: all_closed_def)
    qed
  next
    assume "\<not> ok" "PopulateDatabases Ws m1 = Some (Inr False, m')"
    then show ?thesis using populate_phase [OF _ conjunct1 [OF m1] pre] by (fastforce simp: all_closed_def)
  qed
next
  assume "\<not> ok" "OpenDatabases Ws m = Some (Inr False, m')"
  then show ?thesis using open_phase [OF _ assms(2)] by fastforce
qed

text \<open>
  C7: \<open>Load\<close> after the registration of any databases.  When it returns true, every registered pool was
  prepared, in the order of registration, the close stack holds them in reverse, and
  \<open>CloseAllConnections\<close> leaves no pool with a connection.  When it returns false, whichever step of
  whichever database failed, the close stack has been worked off and no pool has a connection left,
  with one exception: a pool whose own opening failed.
\<close>

theorem load_closes_on_failure:
  assumes "\<forall>np \<in> set pools. \<not> has_connections np"
    and "Load Ws (register regs (SetModuleList mods (DatabaseMgr cfg pools files))) = Some (Inr ok, m')"
  shows "if ok then dm_poolList m' = map fst regs \<and> dm_close m' = rev (map fst regs)
      \<and> (\<forall>j < length (dm_pools m'). \<not> has_connections (dm_pools (CloseAllConnections m') ! j))
    else dm_close m' = [] \<and> (\<forall>j < length (dm_pools m'). has_connections (dm_pools m' ! j) \<longrightarrow>
      (\<exists>name e q. dm_open m' = (j, name, e) # q))"
proof -
  let ?init = "SetModuleList mods (DatabaseMgr cfg pools files)"
  let ?m = "register regs ?init"
  have m0: "dm_open ?init = []" "dm_prepare ?init = []" "dm_populate ?init = []" "dm_update ?init = []" "dm_close ?init = []"
    "dm_poolList ?init = []" "dm_pools ?init = pools"
    by (simp_all add: SetModuleList_def DatabaseMgr_def)
  have "all_closable ?m"
    using register_pools [of regs ?init] assms(1) m0 by (simp add: all_closable_def)
  then have "if ok then dm_poolList m' = map fst regs \<and> dm_close m' = rev (map fst regs) \<and> all_closable m'
    else dm_close m' = [] \<and> (\<forall>j < length (dm_pools m'). has_connections (dm_pools m' ! j) \<longrightarrow>
      (\<exists>name e q. dm_open m' = (j, name, e) # q))"
    using register_queues [of regs ?init] m0 by (intro Load_outcome [OF assms(2)]) auto
  then show ?thesis
    using closable_closed [of m'] CloseAll_connections(1) [of m'] by (cases ok) (auto simp: all_closed_def)
qed

subsection \<open>The attempts to open a pool\<close>

text \<open>\<open>dp_next\<close> counts the connections a pool has created.\<close>

abbreviation created :: "upd_ctx \<Rightarrow> nat" where
  "created s \<equiv> dp_next (np_pool (uc_pool s))"

definition bounded :: "nat \<Rightarrow> 'a uop \<Rightarrow> bool" where
  "bounded n f = (\<forall>s. \<exists>r s'. f s = Some (r, s') \<and> created s' \<le> created s + n)"

lemma bounded_return [simp]: "bounded k (ureturn x)"
  by (simp add: bounded_def ureturn_def)

lemma bounded_bind:
  assumes "bounded n f" and "\<And>x. bounded k (g x)"
  shows "bounded (n + k) (ubind f g)"
  unfolding bounded_def
proof
  fix s
  obtain r s1 where f: "f s = Some (r, s1)" and n: "created s1 \<le> created s + n" using assms(1) unfolding bounded_def by blast
  show "\<exists>r s'. ubind f g s = Some (r, s') \<and> created s' \<le> created s + (n + k)"
  proof (cases r)
    case (Inr x)
    obtain r' s' where "g x s1 = Some (r', s')" "created s' \<le> created s1 + k" using assms(2) unfolding bounded_def by blast
    then show ?thesis using f n Inr by (auto simp: ubind_def)
  qed (use f n in \<open>auto simp: ubind_def\<close>)
qed

lemma OpenConnection_next: "dp_next (snd (OpenConnection cls async dyn p)) \<le> Suc (dp_next p)"
  by (auto simp: OpenConnection_def Let_def split: option.splits prod.splits sum.splits)

lemma AddTasks_next: "dp_next (snd (AddTasks cfg p)) = dp_next p"
  by (simp add: AddTasks_def Let_def)

lemma Open_next: "dp_next (snd (DatabaseWorkerPool_Open cls cfg p)) \<le> dp_next p + 2"
proof -
  obtain r1 p1 where 1: "OpenConnection cls True False p = (r1, p1)" by fastforce
  obtain r2 p2 where 2: "OpenConnection cls False False p1 = (r2, p2)" by fastforce
  have "dp_next p1 \<le> Suc (dp_next p)" "dp_next p2 \<le> Suc (dp_next p1)" "dp_next (snd (AddTasks cfg p2)) = dp_next p2"
    using OpenConnection_next [of cls True False p] OpenConnection_next [of cls False False p1] 1 2 by (simp_all add: AddTasks_next)
  then show ?thesis using 1 2
    by (auto simp: DatabaseWorkerPool_Open_def split: sum.splits prod.splits)
qed

lemma bounded_Open: "bounded 2 (pool_Open W)"
  using Open_next by (auto simp: bounded_def pool_Open_def on_pool_def split: prod.splits) (metis snd_conv)

lemma bounded_reconnect: "bounded (2 * n) (reconnect W n error)"
proof (induction n arbitrary: error)
  case 0
  then show ?case by simp
next
  case (Suc n)
  have "bounded (2 * n) (if e = CR_CONNECTION_ERROR then reconnect W n e else ureturn e)" for e
    using Suc by simp
  from bounded_bind [OF bounded_Open this] show ?case by simp
qed

lemma bounded_same:
  assumes "\<And>s. \<exists>r s'. f s = Some (r, s') \<and> created s' = created s"
  shows "bounded 0 f"
  using assms unfolding bounded_def by (metis add_0_right order_refl)

lemma bounded_Create: "bounded 0 (DBUpdater_Create W)"
proof (rule bounded_same)
  fix s
  show "\<exists>r s'. DBUpdater_Create W s = Some (r, s') \<and> created s' = created s"
    by (auto simp: DBUpdater_Create_def ubind_def set_file_def ureturn_def DBUpdater_ApplyFile_def split: option.splits sum.splits)
qed

lemma bounded_create: "bounded 2 (create_database W error)"
proof -
  have "bounded 2 (ubind (pool_Open W) (\<lambda>e. ureturn (if e = 0 then 0 else error)))"
    using bounded_bind [OF bounded_Open bounded_return [of 0]] by simp
  then have "bounded 2 (if \<not> c then ureturn error else ubind (pool_Open W) (\<lambda>e. ureturn (if e = 0 then 0 else error)))" for c
    by simp
  then have "bounded (0 + 2) (create_database W error)"
    unfolding create_database_def by (intro bounded_bind bounded_Create)
  then show ?thesis by (simp only: add_0)
qed

lemma bounded_set_info: "bounded 0 (set_connection_info W infoString)"
proof (rule bounded_same)
  fix s
  show "\<exists>r s'. set_connection_info W infoString s = Some (r, s') \<and> created s' = created s"
    by (auto simp: set_connection_info_def ubind_def on_pool_def MakeExtraFile_def SetConnectionInfo_def Let_def)
qed

text \<open>
  Opening a database always comes to an end.  It opens the pool at most \<open>attempts + 2\<close> times, where
  \<^verbatim>\<open>Database.Reconnect.Attempts\<close> has eight bits, and so creates at most two connections for each, whatever
  the server does.
\<close>

theorem open_attempts_bounded:
  "\<exists>r s'. open_database W name create s = Some (r, s')
     \<and> dp_next (np_pool (uc_pool s')) \<le> dp_next (np_pool (uc_pool s)) + 2 * (reconnect_attempts W + 2)
     \<and> reconnect_attempts W \<le> 255"
proof -
  let ?n = "reconnect_attempts W"
  have c: "bounded 2 (ubind (if e = ER_BAD_DB_ERROR \<and> create then create_database W e else ureturn e) (\<lambda>error. ureturn (error = 0)))" for e
    by (rule bounded_bind [of 2 _ 0, simplified]) (simp_all add: bounded_create)
  have r: "bounded (2 * ?n) (if e = CR_CONNECTION_ERROR then reconnect W ?n e else ureturn e)" for e
    by (simp add: bounded_reconnect)
  have "bounded (2 * ?n + 2) (if e = 0 then ureturn True
      else ubind (if e = CR_CONNECTION_ERROR then reconnect W ?n e else ureturn e) (\<lambda>error.
           ubind (if error = ER_BAD_DB_ERROR \<and> create then create_database W error else ureturn error) (\<lambda>error. ureturn (error = 0))))" for e
    using bounded_bind [OF r c] by simp
  then have "bounded (0 + (2 + (2 * ?n + 2))) (open_database W name create)"
    unfolding open_database_def Let_def by (cases "fst (GetValueDefault_string (name @ ''DatabaseInfo'') [] True (uw_config W)) = []")
      (simp, simp only: if_False, intro bounded_bind bounded_set_info bounded_Open)
  then have b: "bounded (2 * (?n + 2)) (open_database W name create)" by (simp add: algebra_simps)
  have "fst (GetOption_int (uint_ty 8) ''Database.Reconnect.Attempts'' 20 True (uw_config W)) \<le> 255"
    using FromString_in_range [of "uint_ty 8" _ 10]
    by (auto simp: GetOption_int_def GetValueDefault_int_def in_range_def int_max_def split: option.splits)
  then have "?n \<le> 255" by (simp add: reconnect_attempts_def)
  then show ?thesis using b unfolding bounded_def by blast
qed

subsection \<open>A pool whose opening fails half-way\<close>

lemma OpenConnection_async:
  assumes "OpenConnection cls True False p = (Inr 0, p1)"
  shows "dp_async p1 \<noteq> []"
  using assms by (auto simp: OpenConnection_def Let_def split: option.splits prod.splits sum.splits if_splits)

lemma OpenConnection_keeps_async:
  assumes "OpenConnection cls False False p1 = (r, p2)" and "dp_async p1 \<noteq> []"
  shows "dp_async p2 \<noteq> []"
  using assms by (auto simp: OpenConnection_def Let_def share_info_def split: option.splits prod.splits sum.splits if_splits)

lemma OpenConnection_dp_info:
  assumes "OpenConnection cls True False p = (Inr 0, p1)"
  shows "dp_info p \<noteq> None"
  using assms by (auto simp: OpenConnection_def split: option.splits)

lemma open_database_fails:
  assumes "fst (GetValueDefault_string (name @ ''DatabaseInfo'') [] True (uw_config W)) = info" "info \<noteq> []"
    and "set_connection_info W info s = Some (Inr (), s1)"
    and "OpenConnection (uw_clients W) True False (np_pool (uc_pool s1)) = (Inr 0, p1)"
    and "OpenConnection (uw_clients W) False False p1 = (Inr err, p2)"
    and "err \<noteq> 0" "err \<noteq> CR_CONNECTION_ERROR" "err \<noteq> ER_BAD_DB_ERROR"
  shows "open_database W name create s = Some (Inr False, s1\<lparr>uc_pool := (uc_pool s1)\<lparr>np_pool := p2\<rparr>\<rparr>)"
proof -
  have "DatabaseWorkerPool_Open (uw_clients W) (uw_config W) (np_pool (uc_pool s1)) = (Inr err, p2)"
    using assms(4-6) OpenConnection_dp_info [OF assms(4)] by (simp add: DatabaseWorkerPool_Open_def)
  then show ?thesis using assms by (simp add: open_database_def ubind_def pool_Open_def on_pool_def ureturn_def)
qed

lemma refused_open:
  assumes "dm_open m = (i, name, e) # q" and "i < length (dm_pools m)" and "dm_close m = []"
    and "fst (GetValueDefault_string (name @ ''DatabaseInfo'') [] True (uw_config (Ws i))) = info" "info \<noteq> []"
    and "set_connection_info (Ws i) info
      \<lparr>uc_pool = dm_pools m ! i, uc_files = dm_files m, uc_corrected = dm_corrected m, uc_runs = dm_runs m\<rparr> = Some (Inr (), s1)"
    and "OpenConnection (uw_clients (Ws i)) True False (np_pool (uc_pool s1)) = (Inr 0, p1)"
    and "OpenConnection (uw_clients (Ws i)) False False p1 = (Inr err, p2)"
    and "err \<noteq> 0" "err \<noteq> CR_CONNECTION_ERROR" "err \<noteq> ER_BAD_DB_ERROR"
  shows "\<exists>m'. Load Ws m = Some (Inr False, m') \<and> dp_async (np_pool (dm_pools (CloseAllConnections m') ! i)) \<noteq> []"
proof -
  note f = open_database_fails [OF assms(4-11)]
  define m1 where "m1 = m\<lparr>dm_pools := (dm_pools m)[i := (uc_pool s1)\<lparr>np_pool := p2\<rparr>], dm_files := uc_files s1,
    dm_corrected := uc_corrected s1, dm_runs := uc_runs s1\<rparr>"
  have close: "CloseAllConnections n = n" if "dm_close n = []" for n :: db_mgr
    using that by (cases n) (simp add: CloseAllConnections_def)
  have c: "dm_close m1 = []" and p: "dm_pools m1 ! i = (uc_pool s1)\<lparr>np_pool := p2\<rparr>" using assms(2,3) by (simp_all add: m1_def)
  have "open_task Ws (i, name, e) m = Some (Inr False, m1)"
    using f by (simp add: open_task_def on_updater_def m1_def)
  then have "Process (open_task Ws) (dm_open m) m = Some (Inr False, (i, name, e) # q, m1)"
    using assms(1) close [OF c] by simp
  then have "Load Ws m = Some (Inr False, m1\<lparr>dm_open := (i, name, e) # q\<rparr>)"
    by (simp add: Load_def and_if_def OpenDatabases_def)
  moreover have "dp_async p2 \<noteq> []"
    using OpenConnection_keeps_async [OF assms(8) OpenConnection_async [OF assms(7)]] .
  ultimately show ?thesis using c p by (simp add: close)
qed

text \<open>
  When the server accepts the asynchronous connection of a pool and refuses the synchronous one
  (too many connections, say), \<open>Load\<close> fails and closes everything except this pool: the connection
  that was opened stays open, and \<open>CloseAllConnections\<close> does not know it.
\<close>

theorem refused_connection_stays_open:
  assumes "dm_open m = (i, name, e) # q" and "i < length (dm_pools m)" and "dm_close m = []"
    and "fst (GetValueDefault_string (name @ ''DatabaseInfo'') [] True (uw_config (Ws i))) = info" "info \<noteq> []"
    and "set_connection_info (Ws i) info
      \<lparr>uc_pool = dm_pools m ! i, uc_files = dm_files m, uc_corrected = dm_corrected m, uc_runs = dm_runs m\<rparr> = Some (Inr (), s1)"
    and "OpenConnection (uw_clients (Ws i)) True False (np_pool (uc_pool s1)) = (Inr 0, p1)"
    and "OpenConnection (uw_clients (Ws i)) False False p1 = (Inr err, p2)"
    and "err \<noteq> 0" "err \<noteq> CR_CONNECTION_ERROR" "err \<noteq> ER_BAD_DB_ERROR"
  shows "\<exists>m'. Load Ws m = Some (Inr False, m') \<and> dp_async (np_pool (dm_pools (CloseAllConnections m') ! i)) \<noteq> []"
  using assms by (rule refused_open)

text \<open>A server that takes one connection and refuses the next with \<^verbatim>\<open>ER_CON_COUNT_ERROR\<close>.\<close>

definition busy_world :: updater_world where
  "busy_world = (demo_world 1 [])\<lparr>
     uw_config := demo_config\<lparr>configOptions := [(''DiscordDatabaseInfo'', ''127.0.0.1;3306;u;p;bot'')]\<rparr>,
     uw_clients := (\<lambda>k. if k = 0 then sample_client (\<lambda>h c. False) 0 else sample_client (\<lambda>h c. is_connect c) 1040)\<rparr>"

definition fresh_pool :: named_pool where
  "fresh_pool = \<lparr>np_name = [], np_type = 1, np_extra = [], np_pool = DatabaseWorkerPool 0\<rparr>"

definition busy_mgr :: db_mgr where
  "busy_mgr = register [(0, ''Discord'')] (SetModuleList [] (DatabaseMgr demo_config [fresh_pool] Map.empty))"

lemma demo_info_parsed: "MySQLConnectionInfo ''127.0.0.1;3306;u;p;bot'' = demo_info"
  by code_simp

lemma busy_info:
  "fst (GetValueDefault_string (''Discord'' @ ''DatabaseInfo'') [] True (uw_config busy_world)) = ''127.0.0.1;3306;u;p;bot''"
  by (simp add: GetValueDefault_string_def busy_world_def)

lemma busy_mgr_fields:
  "dm_open busy_mgr = [(0, ''Discord'', False)]" "dm_pools busy_mgr = [fresh_pool\<lparr>np_name := ''Discord''\<rparr>]"
  "dm_close busy_mgr = []" "dm_files busy_mgr = Map.empty" "dm_corrected busy_mgr = []" "dm_runs busy_mgr = []"
  by (simp_all add: busy_mgr_def register_def SetModuleList_def DatabaseMgr_def AddDatabase_def DBUpdater_IsEnabled_def
      GetOption_int_def GetValueDefault_int_def demo_config_def Let_def)

lemma busy_connection_info:
  "\<exists>s1. set_connection_info busy_world ''127.0.0.1;3306;u;p;bot''
      \<lparr>uc_pool = dm_pools busy_mgr ! 0, uc_files = dm_files busy_mgr, uc_corrected = dm_corrected busy_mgr, uc_runs = dm_runs busy_mgr\<rparr>
      = Some (Inr (), s1) \<and> np_pool (uc_pool s1) = (DatabaseWorkerPool 0)\<lparr>dp_info := Some demo_info\<rparr>"
  by (simp add: set_connection_info_def ubind_def on_pool_def SetConnectionInfo_def MakeExtraFile_def demo_info_parsed
      busy_mgr_fields fresh_pool_def busy_world_def demo_world_def DatabaseWorkerPool_def Let_def)

lemma busy_first:
  "\<exists>p1. OpenConnection (uw_clients busy_world) True False ((DatabaseWorkerPool 0)\<lparr>dp_info := Some demo_info\<rparr>) = (Inr 0, p1)
     \<and> dp_next p1 = 1 \<and> dp_info p1 = Some demo_info"
  by (simp add: OpenConnection_def DatabaseWorkerPool_def busy_world_def MySQLConnection_def UpdateLastUseTime_def
      MySQLConnection_Open_def real_connect_def perform_def sample_client_def demo_port Let_def)

lemma busy_second:
  assumes "dp_next p1 = 1" and "dp_info p1 = Some demo_info"
  shows "\<exists>p2. OpenConnection (uw_clients busy_world) False False p1 = (Inr 1040, p2)"
  using assms
  by (simp add: OpenConnection_def busy_world_def MySQLConnection_def UpdateLastUseTime_def
      MySQLConnection_Open_def real_connect_def perform_def sample_client_def demo_port is_connect_def mysql_errno_def Let_def)

lemma busy_setup:
  obtains s1 p1 p2 where "set_connection_info busy_world ''127.0.0.1;3306;u;p;bot''
      \<lparr>uc_pool = dm_pools busy_mgr ! 0, uc_files = dm_files busy_mgr, uc_corrected = dm_corrected busy_mgr, uc_runs = dm_runs busy_mgr\<rparr>
      = Some (Inr (), s1)"
    and "OpenConnection (uw_clients busy_world) True False (np_pool (uc_pool s1)) = (Inr 0, p1)"
    and "OpenConnection (uw_clients busy_world) False False p1 = (Inr 1040, p2)"
  using busy_connection_info busy_first busy_second by metis

theorem refused_connection_stays_open_witness:
  "\<exists>m'. Load (\<lambda>i. busy_world) busy_mgr = Some (Inr False, m')
     \<and> dp_async (np_pool (dm_pools (CloseAllConnections m') ! 0)) \<noteq> []"
proof -
  obtain s1 p1 p2 where s: "set_connection_info busy_world ''127.0.0.1;3306;u;p;bot''
      \<lparr>uc_pool = dm_pools busy_mgr ! 0, uc_files = dm_files busy_mgr, uc_corrected = dm_corrected busy_mgr, uc_runs = dm_runs busy_mgr\<rparr>
      = Some (Inr (), s1)"
    "OpenConnection (uw_clients busy_world) True False (np_pool (uc_pool s1)) = (Inr 0, p1)"
    "OpenConnection (uw_clients busy_world) False False p1 = (Inr 1040, p2)"
    by (rule busy_setup)
  show ?thesis
    using refused_connection_stays_open [of busy_mgr 0 "''Discord''" False "[]" "\<lambda>i. busy_world", OF _ _ _ busy_info _ s]
    by (simp add: busy_mgr_fields)
qed

theorem load_closes_on_failure_witness:
  "\<exists>m'. Load (\<lambda>i. busy_world) busy_mgr = Some (Inr False, m') \<and> dm_close m' = []
     \<and> (\<forall>j < length (dm_pools m'). has_connections (dm_pools m' ! j) \<longrightarrow> (\<exists>name e q. dm_open m' = (j, name, e) # q))"
proof -
  obtain s1 p1 p2 where s: "set_connection_info busy_world ''127.0.0.1;3306;u;p;bot''
      \<lparr>uc_pool = dm_pools busy_mgr ! 0, uc_files = dm_files busy_mgr, uc_corrected = dm_corrected busy_mgr, uc_runs = dm_runs busy_mgr\<rparr>
      = Some (Inr (), s1)"
    "OpenConnection (uw_clients busy_world) True False (np_pool (uc_pool s1)) = (Inr 0, p1)"
    "OpenConnection (uw_clients busy_world) False False p1 = (Inr 1040, p2)"
    by (rule busy_setup)
  obtain m' where m': "Load (\<lambda>i. busy_world) busy_mgr = Some (Inr False, m')"
    using refused_open [of busy_mgr 0 "''Discord''" False "[]" "\<lambda>i. busy_world", OF _ _ _ busy_info _ s]
    by (auto simp: busy_mgr_fields)
  have "\<forall>np \<in> set [fresh_pool]. \<not> has_connections np" by (simp add: fresh_pool_def has_connections_def DatabaseWorkerPool_def)
  from load_closes_on_failure [OF this m' [unfolded busy_mgr_def]] m' show ?thesis by auto
qed

end
