(* ===== verification/DbField.thy ===== *)
theory DbField
  imports StrUtil
begin

section \<open>Fields of a query result\<close>

text \<open>
  \<^verbatim>\<open>src/src/server/database/Database/Field.cpp\<close> and \<^verbatim>\<open>Field.h\<close>.  The value of a field is a pointer: into the
  rows of the client library for an ad hoc query, where it is a string that ends in a zero byte
  (\<open>TextAt\<close>), or into the data buffer of a prepared result (\<open>RawAt\<close>, an index of the buffer), where
  \<open>Get<T>\<close> reads as many bytes as \<open>T\<close> has, whatever the length of the field is.  Reading outside
  the buffer is undefined.

  \<open>GetData<T>\<close> calls itself with another type when the name of the column is that of an aggregate
  function, so it is a \<open>partial_function\<close>: \<open>None\<close> is that it does not return.  Floating-point numbers are a
  parameter, \<open>'f\<close>, with the conversions the code uses of them.  Logging and the strict type checks of a
  special build are left out.
\<close>

subsection \<open>Data\<close>

datatype DatabaseFieldTypes =
  FieldNull | FieldInt8 | FieldInt16 | FieldInt32 | FieldInt64 | FieldFloat | FieldDouble | FieldDecimal | FieldDate | FieldBinary

record QueryResultFieldMetadata =
  TableName :: string
  TableAlias :: string
  FieldName :: string
  Alias :: string
  TypeName :: string
  FieldIndex :: nat
  FieldType :: DatabaseFieldTypes

datatype value_ptr = NoValue | TextAt string | RawAt nat

record field =
  fd_value :: value_ptr
  fd_length :: nat
  fd_raw :: bool
  fd_meta :: "QueryResultFieldMetadata option"

definition Field :: field where
  "Field = \<lparr>fd_value = NoValue, fd_length = 0, fd_raw = False, fd_meta = None\<rparr>"

definition SetByteValue :: "value_ptr \<Rightarrow> nat \<Rightarrow> field \<Rightarrow> field" where
  "SetByteValue newValue l f = f\<lparr>fd_value := newValue, fd_length := l, fd_raw := True\<rparr>"

definition SetStructuredValue :: "value_ptr \<Rightarrow> nat \<Rightarrow> field \<Rightarrow> field" where
  "SetStructuredValue newValue l f = f\<lparr>fd_value := newValue, fd_length := l, fd_raw := False\<rparr>"

definition SetMetadata :: "QueryResultFieldMetadata \<Rightarrow> field \<Rightarrow> field" where
  "SetMetadata meta f = f\<lparr>fd_meta := Some meta\<rparr>"

definition IsNull :: "field \<Rightarrow> bool" where
  "IsNull f = (fd_value f = NoValue)"

subsection \<open>Reading memory\<close>

definition read_bytes :: "u8 list \<Rightarrow> nat \<Rightarrow> nat \<Rightarrow> u8 list res" where
  "read_bytes buf pos n = (if pos + n \<le> length buf then Inr (take n (drop pos buf)) else Inl Undefined)"

definition read_c_string :: "u8 list \<Rightarrow> nat \<Rightarrow> string res" where
  "read_c_string buf pos =
     (if 0 \<in> set (drop pos buf) then Inr (map (\<lambda>b. char_of (unat b)) (takeWhile (\<lambda>b. b \<noteq> 0) (drop pos buf))) else Inl Undefined)"

definition value_string :: "u8 list \<Rightarrow> value_ptr \<Rightarrow> string res" where
  "value_string buf v = (case v of NoValue \<Rightarrow> Inl Undefined | TextAt s \<Rightarrow> Inr s | RawAt pos \<Rightarrow> read_c_string buf pos)"

definition value_bytes :: "u8 list \<Rightarrow> value_ptr \<Rightarrow> nat \<Rightarrow> u8 list res" where
  "value_bytes buf v n = (case v of
       NoValue \<Rightarrow> Inl Undefined
     | TextAt s \<Rightarrow> (if n \<le> length s then Inr (map (\<lambda>c. word_of_nat (of_char c)) (take n s)) else Inl Undefined)
     | RawAt pos \<Rightarrow> read_bytes buf pos n)"

definition wrap_int :: "int_type \<Rightarrow> int \<Rightarrow> int" where
  "wrap_int ty v =
     (let u = v mod 2 ^ it_bits ty
      in if it_signed ty \<and> u \<ge> 2 ^ (it_bits ty - 1) then u - 2 ^ it_bits ty else u)"

subsection \<open>Arithmetic types\<close>

datatype arith = Integral int_type | Boolean | FloatT | DoubleT

datatype 'f num_value = IntNum int | BoolNum bool | FloatNum 'f

record 'f float_ops =
  fo_one :: 'f
  fo_parse_float :: "string \<Rightarrow> 'f option"
  fo_float_bits :: "u8 list \<Rightarrow> 'f"
  fo_double_bits :: "u8 list \<Rightarrow> 'f"
  fo_to_int :: "int_type \<Rightarrow> 'f \<Rightarrow> int"
  fo_nonzero :: "'f \<Rightarrow> bool"
  fo_to_float :: "'f \<Rightarrow> 'f"
  fo_of_int :: "int \<Rightarrow> 'f"

definition GetDefaultValue :: "'f float_ops \<Rightarrow> arith \<Rightarrow> 'f num_value" where
  "GetDefaultValue fo T = (case T of
       Boolean \<Rightarrow> BoolNum False | Integral ty \<Rightarrow> IntNum 0 | FloatT \<Rightarrow> FloatNum (fo_one fo) | DoubleT \<Rightarrow> FloatNum (fo_one fo))"

definition IsCorrectFieldType :: "arith \<Rightarrow> DatabaseFieldTypes \<Rightarrow> bool" where
  "IsCorrectFieldType T type = (case T of
       Boolean \<Rightarrow> type = FieldInt8
     | Integral ty \<Rightarrow>
         (it_bits ty = 8 \<and> type = FieldInt8) \<or> (it_bits ty = 16 \<and> type = FieldInt16)
         \<or> (it_bits ty = 32 \<and> type = FieldInt32) \<or> (it_bits ty = 64 \<and> type = FieldInt64)
     | FloatT \<Rightarrow> type = FieldFloat
     | DoubleT \<Rightarrow> type = FieldDouble \<or> type = FieldDecimal)"

definition GetCleanAliasName :: "string \<Rightarrow> string option" where
  "GetCleanAliasName alias =
     (if alias = [] then None
      else case index_of (CHR ''('') alias of None \<Rightarrow> None | Some pos \<Rightarrow> Some (take pos alias))"

definition IsCorrectAlias :: "arith \<Rightarrow> DatabaseFieldTypes \<Rightarrow> string \<Rightarrow> bool" where
  "IsCorrectAlias T type alias =
     (if T = DoubleT then (StringEqualI alias ''sum'' \<or> StringEqualI alias ''avg'') \<and> type = FieldDecimal
      else if T = Integral (uint_ty 64) then StringEqualI alias ''count'' \<and> type = FieldInt64
      else (StringEqualI alias ''min'' \<or> StringEqualI alias ''max'') \<and> IsCorrectFieldType T type)"

subsection \<open>Typed access\<close>

definition size_of :: "arith \<Rightarrow> nat" where
  "size_of T = (case T of Boolean \<Rightarrow> 1 | Integral ty \<Rightarrow> it_bits ty div 8 | FloatT \<Rightarrow> 4 | DoubleT \<Rightarrow> 8)"

text \<open>\<open>*reinterpret_cast<T const*>(data.value)\<close>.\<close>

definition from_bytes :: "'f float_ops \<Rightarrow> arith \<Rightarrow> u8 list \<Rightarrow> 'f num_value" where
  "from_bytes fo T bs = (case T of
       Boolean \<Rightarrow> BoolNum (le_value bs \<noteq> 0)
     | Integral ty \<Rightarrow> IntNum (wrap_int ty (int (le_value bs)))
     | FloatT \<Rightarrow> FloatNum (fo_float_bits fo bs)
     | DoubleT \<Rightarrow> FloatNum (fo_double_bits fo bs))"

text \<open>
  \<open>StringTo<T>\<close>; the result for \<open>double\<close> is never used.  An unsigned type takes a number of the
  signed type of its width when the string is none of its own.
\<close>

definition from_text :: "'f float_ops \<Rightarrow> arith \<Rightarrow> string \<Rightarrow> 'f num_value option" where
  "from_text fo T s = (case T of
       Boolean \<Rightarrow> map_option BoolNum (BoolFromString s False)
     | Integral ty \<Rightarrow>
         (case FromString ty s 10 of
            Some v \<Rightarrow> Some (IntNum v)
          | None \<Rightarrow> if it_signed ty then None
                    else map_option (\<lambda>v. IntNum (wrap_int ty v)) (FromString (sint_ty (it_bits ty)) s 10))
     | FloatT \<Rightarrow> map_option FloatNum (fo_parse_float fo s)
     | DoubleT \<Rightarrow> map_option FloatNum (fo_parse_float fo s))"

definition first_result :: "'f float_ops \<Rightarrow> arith \<Rightarrow> u8 list \<Rightarrow> field \<Rightarrow> QueryResultFieldMetadata \<Rightarrow> 'f num_value option res" where
  "first_result fo T buf f meta =
     (if fd_raw f \<and> \<not> (T = DoubleT \<and> FieldType meta = FieldDecimal)
      then bind_res (value_bytes buf (fd_value f) (size_of T)) (\<lambda>bs. Inr (Some (from_bytes fo T bs)))
      else bind_res (value_string buf (fd_value f)) (\<lambda>s. Inr (from_text fo T s)))"

text \<open>The conversion of the result of another instance to \<open>T\<close>.\<close>

definition convert :: "'f float_ops \<Rightarrow> arith \<Rightarrow> 'f num_value \<Rightarrow> 'f num_value" where
  "convert fo T v = (case T of
       Boolean \<Rightarrow> BoolNum (case v of IntNum i \<Rightarrow> i \<noteq> 0 | BoolNum b \<Rightarrow> b | FloatNum x \<Rightarrow> fo_nonzero fo x)
     | Integral ty \<Rightarrow> IntNum (case v of IntNum i \<Rightarrow> wrap_int ty i | BoolNum b \<Rightarrow> (if b then 1 else 0) | FloatNum x \<Rightarrow> fo_to_int fo ty x)
     | FloatT \<Rightarrow> FloatNum (case v of IntNum i \<Rightarrow> fo_of_int fo i | BoolNum b \<Rightarrow> fo_of_int fo (if b then 1 else 0) | FloatNum x \<Rightarrow> fo_to_float fo x)
     | DoubleT \<Rightarrow> FloatNum (case v of IntNum i \<Rightarrow> fo_of_int fo i | BoolNum b \<Rightarrow> fo_of_int fo (if b then 1 else 0) | FloatNum x \<Rightarrow> x))"

definition finish :: "'f float_ops \<Rightarrow> arith \<Rightarrow> 'f num_value option \<Rightarrow> 'f num_value" where
  "finish fo T result = (case result of None \<Rightarrow> GetDefaultValue fo T | Some v \<Rightarrow> v)"

definition sums :: "string \<Rightarrow> bool" where
  "sums alias = (StringEqualI alias ''sum'' \<or> StringEqualI alias ''avg'')"

partial_function (option) GetData :: "'f float_ops \<Rightarrow> arith \<Rightarrow> u8 list \<Rightarrow> field \<Rightarrow> 'f num_value res option" where
  "GetData fo T buf f =
     (if fd_value f = NoValue then Some (Inr (GetDefaultValue fo T))
      else case fd_meta f of
        None \<Rightarrow> Some (Inl Undefined)
      | Some meta \<Rightarrow>
          (case first_result fo T buf f meta of
             Inl e \<Rightarrow> Some (Inl e)
           | Inr result \<Rightarrow>
               (case GetCleanAliasName (Alias meta) of
                  None \<Rightarrow> Some (Inr (finish fo T result))
                | Some alias \<Rightarrow>
                    if sums alias \<and> \<not> IsCorrectAlias T (FieldType meta) alias
                    then Option.bind (GetData fo DoubleT buf f) (\<lambda>r. Some (bind_res r (\<lambda>v. Inr (convert fo T v))))
                    else if StringEqualI alias ''count'' \<and> \<not> IsCorrectAlias T (FieldType meta) alias
                    then Option.bind (GetData fo (Integral (uint_ty 64)) buf f) (\<lambda>r. Some (bind_res r (\<lambda>v. Inr (convert fo T v))))
                    else Some (Inr (finish fo T result)))))"

definition GetDataString :: "u8 list \<Rightarrow> field \<Rightarrow> u8 list res" where
  "GetDataString buf f = (if fd_value f = NoValue then Inr [] else value_bytes buf (fd_value f) (fd_length f))"

definition GetDataBinary :: "u8 list \<Rightarrow> field \<Rightarrow> u8 list res" where
  "GetDataBinary buf f =
     (if fd_value f = NoValue \<or> fd_length f = 0 then Inr [] else value_bytes buf (fd_value f) (fd_length f))"

definition GetBinarySizeChecked :: "nat \<Rightarrow> u8 list \<Rightarrow> field \<Rightarrow> u8 list res" where
  "GetBinarySizeChecked l buf f =
     bind_res (assert_res (fd_value f \<noteq> NoValue \<and> fd_length f = l)) (\<lambda>_. value_bytes buf (fd_value f) l)"

text \<open>\<open>Get<T>\<close> for a duration.\<close>

definition Get_duration :: "'f float_ops \<Rightarrow> bool \<Rightarrow> u8 list \<Rightarrow> field \<Rightarrow> 'f num_value res option" where
  "Get_duration fo convertToUin32 buf f =
     (if convertToUin32 then GetData fo (Integral (uint_ty 32)) buf f else GetData fo (Integral (uint_ty 64)) buf f)"

subsection \<open>When typed access returns\<close>

text \<open>
  A column named after an aggregate function whose type is not the one the code expects: \<^verbatim>\<open>DECIMAL\<close> for
  \<^verbatim>\<open>SUM\<close> and \<^verbatim>\<open>AVG\<close>, \<^verbatim>\<open>BIGINT\<close> for \<^verbatim>\<open>COUNT\<close>.
\<close>

definition odd_aggregate :: "QueryResultFieldMetadata \<Rightarrow> bool" where
  "odd_aggregate meta = (case GetCleanAliasName (Alias meta) of
       None \<Rightarrow> False
     | Some alias \<Rightarrow> (sums alias \<and> FieldType meta \<noteq> FieldDecimal) \<or> (StringEqualI alias ''count'' \<and> FieldType meta \<noteq> FieldInt64))"

definition readable :: "'f float_ops \<Rightarrow> u8 list \<Rightarrow> field \<Rightarrow> QueryResultFieldMetadata \<Rightarrow> bool" where
  "readable fo buf f meta = (\<forall>T. \<exists>r. first_result fo T buf f meta = Inr r)"

lemma aggregate_names:
  "map ascii_lower ''sum'' = ''sum''" "map ascii_lower ''avg'' = ''avg''" "map ascii_lower ''count'' = ''count''"
  "map ascii_lower ''min'' = ''min''" "map ascii_lower ''max'' = ''max''"
  by code_simp+

lemmas alias_simps = sums_def StringEqualI_map aggregate_names

lemma count_not_sums: "StringEqualI alias ''count'' \<Longrightarrow> \<not> sums alias"
  by (simp only: alias_simps) simp

lemma GetData_value:
  assumes "fd_value f \<noteq> NoValue" and "fd_meta f = Some meta" and "first_result fo T buf f meta = Inr result"
    and "\<And>alias. GetCleanAliasName (Alias meta) = Some alias \<Longrightarrow> sums alias \<or> StringEqualI alias ''count'' \<Longrightarrow>
           IsCorrectAlias T (FieldType meta) alias"
  shows "GetData fo T buf f = Some (Inr (finish fo T result))"
  using assms by (subst GetData.simps) (auto split: option.splits)

lemma GetData_not_odd:
  assumes "GetData fo T buf f = Some r"
  shows "\<not> (fd_value f \<noteq> NoValue \<and> fd_meta f = Some meta \<and> readable fo buf f meta \<and> odd_aggregate meta)"
proof (rule GetData.raw_induct [where P = "\<lambda>fo T buf f r. \<not> (fd_value f \<noteq> NoValue \<and> fd_meta f = Some meta
    \<and> readable fo buf f meta \<and> odd_aggregate meta)", OF _ assms], goal_cases)
  case (1 getData fo T buf f r)
  show ?case
  proof (rule notI, elim conjE)
    assume a: "fd_value f \<noteq> NoValue" "fd_meta f = Some meta" "readable fo buf f meta" "odd_aggregate meta"
    from a(3) obtain res where res: "first_result fo T buf f meta = Inr res" by (auto simp: readable_def)
    from a(4) obtain nm where nm: "GetCleanAliasName (Alias meta) = Some nm"
      and odd: "(sums nm \<and> FieldType meta \<noteq> FieldDecimal) \<or> (StringEqualI nm ''count'' \<and> FieldType meta \<noteq> FieldInt64)"
      by (auto simp: odd_aggregate_def split: option.splits)
    have bad: "\<not> IsCorrectAlias T (FieldType meta) nm"
      using odd by (simp only: IsCorrectAlias_def alias_simps) auto
    obtain U where "getData fo U buf f \<noteq> None"
      using 1(2) a res nm odd bad by (auto simp: bind_eq_Some_conv split: if_splits)
    then show False using 1(1) a by blast
  qed
qed


subsection \<open>Numbers\<close>

lemma wrap_int_id: "in_range ty v \<Longrightarrow> 0 < it_bits ty \<Longrightarrow> wrap_int ty v = v"
proof -
  assume r: "in_range ty v" and b: "0 < it_bits ty"
  have p: "(2::int) ^ it_bits ty = 2 * 2 ^ (it_bits ty - 1)" using b by (cases "it_bits ty") simp_all
  show ?thesis
  proof (cases "v < 0")
    case True
    then have s: "it_signed ty" and lo: "- (2 ^ (it_bits ty - 1)) \<le> v" using r by (auto simp: in_range_def int_min_def split: if_splits)
    have "v mod 2 ^ it_bits ty = v + 2 ^ it_bits ty"
      using True lo p mod_pos_pos_trivial [of "v + 2 ^ it_bits ty" "2 ^ it_bits ty"] by simp
    then show ?thesis using s lo p by (simp add: wrap_int_def)
  next
    case False
    then have "v < 2 ^ it_bits ty" using r p by (auto simp: in_range_def int_max_def split: if_splits)
    then have "v mod 2 ^ it_bits ty = v" using False by simp
    then show ?thesis using r p False by (auto simp: wrap_int_def in_range_def int_max_def split: if_splits)
  qed
qed

text \<open>
  A number in a text row is read as it was printed by every type that has it; a negative number is
  taken modulo the width by the unsigned type.
\<close>

lemma text_number:
  assumes "fd_value f = TextAt (show_int v)" and "\<not> fd_raw f" and "fd_meta f = Some meta"
    and "GetCleanAliasName (Alias meta) = None" and "in_range ty v"
  shows "GetData fo (Integral ty) buf f = Some (Inr (IntNum v))"
  using assms FromString_show_int [OF assms(5)]
  by (subst GetData_value [where result = "Some (IntNum v)"]) (auto simp: first_result_def value_string_def from_text_def finish_def)


definition whole_floats :: "int float_ops" where
  "whole_floats = \<lparr>fo_one = 1, fo_parse_float = (\<lambda>s. FromString (sint_ty 64) s 10), fo_float_bits = (\<lambda>bs. 0), fo_double_bits = (\<lambda>bs. 0),
     fo_to_int = wrap_int, fo_nonzero = (\<lambda>x. x \<noteq> 0), fo_to_float = (\<lambda>x. x), fo_of_int = (\<lambda>x. x)\<rparr>"

definition average_meta :: "DatabaseFieldTypes \<Rightarrow> QueryResultFieldMetadata" where
  "average_meta ty = \<lparr>TableName = [], TableAlias = [], FieldName = [], Alias = ''AVG(ilvl)'', TypeName = [], FieldIndex = 0, FieldType = ty\<rparr>"

definition text_field :: "string \<Rightarrow> QueryResultFieldMetadata \<Rightarrow> field" where
  "text_field s meta = \<lparr>fd_value = TextAt s, fd_length = length s, fd_raw = False, fd_meta = Some meta\<rparr>"

lemma text_readable: "readable fo buf (text_field s meta) meta"
  by (simp add: readable_def first_result_def text_field_def value_string_def)


end
