(* ===== verification/QueryResult.thy ===== *)
theory QueryResult
  imports DbField
begin

section \<open>Result sets\<close>

text \<open>
  \<^verbatim>\<open>src/src/server/database/Database/QueryResult.cpp\<close> and \<^verbatim>\<open>QueryResult.h\<close>: \<open>ResultSet\<close>, the rows of an ad hoc
  query that are fetched one by one, and \<open>PreparedResultSet\<close>, whose constructor copies all rows of a
  prepared statement into one buffer.

  The client library is what it hands over: the metadata of the columns, the cells of the rows
  (\<open>None\<close> is \<^verbatim>\<open>NULL\<close>), and which of its calls fail.  The buffer is the list of its bytes, uninitialised
  at first (\<open>st_junk\<close>), and a pointer into it is an index; writing outside of it, and outside of
  \<open>_rows\<close>, is undefined.  \<open>mysql_stmt_fetch\<close> writes as many bytes of a cell as its bind buffer has and
  reports the full length.  The position of a row in \<open>_rows\<close> and the offset of a column are computed with
  32 bits, which is written out.  \<open>_rBind\<close> and \<open>_metadataResult\<close> carry whether they are null, allocated or
  freed; freeing freed memory is undefined.
\<close>

subsection \<open>Columns\<close>

datatype column_type =
    MT_NULL | MT_TINY | MT_YEAR | MT_SHORT | MT_INT24 | MT_LONG | MT_FLOAT | MT_DOUBLE | MT_LONGLONG | MT_BIT
  | MT_TIMESTAMP | MT_DATE | MT_TIME | MT_DATETIME | MT_TINY_BLOB | MT_MEDIUM_BLOB | MT_LONG_BLOB | MT_BLOB
  | MT_STRING | MT_VAR_STRING | MT_DECIMAL | MT_NEWDECIMAL | MT_GEOMETRY | MT_ENUM | MT_SET | MT_NEWDATE | MT_OTHER

record mysql_field =
  mf_org_table :: string
  mf_table :: string
  mf_org_name :: string
  mf_name :: string
  mf_type :: column_type
  mf_max_length :: nat

definition SizeForType :: "nat \<Rightarrow> mysql_field \<Rightarrow> nat" where
  "SizeForType sizeof_time fld = (case mf_type fld of
       MT_NULL \<Rightarrow> 0
     | MT_TINY \<Rightarrow> 1
     | MT_YEAR \<Rightarrow> 2 | MT_SHORT \<Rightarrow> 2
     | MT_INT24 \<Rightarrow> 4 | MT_LONG \<Rightarrow> 4 | MT_FLOAT \<Rightarrow> 4
     | MT_DOUBLE \<Rightarrow> 8 | MT_LONGLONG \<Rightarrow> 8 | MT_BIT \<Rightarrow> 8
     | MT_TIMESTAMP \<Rightarrow> sizeof_time | MT_DATE \<Rightarrow> sizeof_time | MT_TIME \<Rightarrow> sizeof_time | MT_DATETIME \<Rightarrow> sizeof_time
     | MT_TINY_BLOB \<Rightarrow> (mf_max_length fld + 1) mod 2 ^ 32 | MT_MEDIUM_BLOB \<Rightarrow> (mf_max_length fld + 1) mod 2 ^ 32
     | MT_LONG_BLOB \<Rightarrow> (mf_max_length fld + 1) mod 2 ^ 32 | MT_BLOB \<Rightarrow> (mf_max_length fld + 1) mod 2 ^ 32
     | MT_STRING \<Rightarrow> (mf_max_length fld + 1) mod 2 ^ 32 | MT_VAR_STRING \<Rightarrow> (mf_max_length fld + 1) mod 2 ^ 32
     | MT_DECIMAL \<Rightarrow> 64 | MT_NEWDECIMAL \<Rightarrow> 64
     | _ \<Rightarrow> 0)"

definition MysqlTypeToFieldType :: "column_type \<Rightarrow> DatabaseFieldTypes" where
  "MysqlTypeToFieldType type = (case type of
       MT_NULL \<Rightarrow> FieldNull
     | MT_TINY \<Rightarrow> FieldInt8
     | MT_YEAR \<Rightarrow> FieldInt16 | MT_SHORT \<Rightarrow> FieldInt16
     | MT_INT24 \<Rightarrow> FieldInt32 | MT_LONG \<Rightarrow> FieldInt32
     | MT_LONGLONG \<Rightarrow> FieldInt64 | MT_BIT \<Rightarrow> FieldInt64
     | MT_FLOAT \<Rightarrow> FieldFloat
     | MT_DOUBLE \<Rightarrow> FieldDouble
     | MT_DECIMAL \<Rightarrow> FieldDecimal | MT_NEWDECIMAL \<Rightarrow> FieldDecimal
     | MT_TIMESTAMP \<Rightarrow> FieldDate | MT_DATE \<Rightarrow> FieldDate | MT_TIME \<Rightarrow> FieldDate | MT_DATETIME \<Rightarrow> FieldDate
     | MT_TINY_BLOB \<Rightarrow> FieldBinary | MT_MEDIUM_BLOB \<Rightarrow> FieldBinary | MT_LONG_BLOB \<Rightarrow> FieldBinary | MT_BLOB \<Rightarrow> FieldBinary
     | MT_STRING \<Rightarrow> FieldBinary | MT_VAR_STRING \<Rightarrow> FieldBinary
     | _ \<Rightarrow> FieldNull)"

definition FieldTypeToString :: "column_type \<Rightarrow> string" where
  "FieldTypeToString type = (case type of
       MT_BIT \<Rightarrow> ''BIT'' | MT_BLOB \<Rightarrow> ''BLOB'' | MT_DATE \<Rightarrow> ''DATE'' | MT_DATETIME \<Rightarrow> ''DATETIME''
     | MT_NEWDECIMAL \<Rightarrow> ''NEWDECIMAL'' | MT_DECIMAL \<Rightarrow> ''DECIMAL'' | MT_DOUBLE \<Rightarrow> ''DOUBLE'' | MT_ENUM \<Rightarrow> ''ENUM''
     | MT_FLOAT \<Rightarrow> ''FLOAT'' | MT_GEOMETRY \<Rightarrow> ''GEOMETRY'' | MT_INT24 \<Rightarrow> ''INT24'' | MT_LONG \<Rightarrow> ''LONG''
     | MT_LONGLONG \<Rightarrow> ''LONGLONG'' | MT_LONG_BLOB \<Rightarrow> ''LONG_BLOB'' | MT_MEDIUM_BLOB \<Rightarrow> ''MEDIUM_BLOB''
     | MT_NEWDATE \<Rightarrow> ''NEWDATE'' | MT_NULL \<Rightarrow> ''NULL'' | MT_SET \<Rightarrow> ''SET'' | MT_SHORT \<Rightarrow> ''SHORT'' | MT_STRING \<Rightarrow> ''STRING''
     | MT_TIME \<Rightarrow> ''TIME'' | MT_TIMESTAMP \<Rightarrow> ''TIMESTAMP'' | MT_TINY \<Rightarrow> ''TINY'' | MT_TINY_BLOB \<Rightarrow> ''TINY_BLOB''
     | MT_VAR_STRING \<Rightarrow> ''VAR_STRING'' | MT_YEAR \<Rightarrow> ''YEAR''
     | MT_OTHER \<Rightarrow> ''-Unknown-'')"

definition InitializeDatabaseFieldMetadata :: "mysql_field \<Rightarrow> nat \<Rightarrow> QueryResultFieldMetadata" where
  "InitializeDatabaseFieldMetadata fld fieldIndex =
     \<lparr>TableName = mf_org_table fld, TableAlias = mf_table fld, FieldName = mf_org_name fld, Alias = mf_name fld,
      TypeName = FieldTypeToString (mf_type fld), FieldIndex = fieldIndex, FieldType = MysqlTypeToFieldType (mf_type fld)\<rparr>"

definition metadata :: "mysql_field list \<Rightarrow> QueryResultFieldMetadata list" where
  "metadata flds = map (\<lambda>(i, fld). InitializeDatabaseFieldMetadata fld i) (enumerate 0 flds)"

subsection \<open>Ad hoc queries\<close>

text \<open>\<open>rs_result\<close> holds the rows not fetched yet; \<open>None\<close> is that the result has been freed.\<close>

record adhoc_result =
  rs_rowCount :: nat
  rs_fields :: "mysql_field list"
  rs_result :: "string option list list option"
  rs_currRow :: "field list"

definition ResultSet :: "mysql_field list \<Rightarrow> string option list list \<Rightarrow> adhoc_result" where
  "ResultSet flds rows = \<lparr>rs_rowCount = length rows, rs_fields = flds, rs_result = Some rows,
     rs_currRow = map (\<lambda>meta. SetMetadata meta Field) (metadata flds)\<rparr>"

definition ResultSet_CleanUp :: "adhoc_result \<Rightarrow> adhoc_result" where
  "ResultSet_CleanUp rs = rs\<lparr>rs_result := None\<rparr>"

definition structured :: "string option \<Rightarrow> field \<Rightarrow> field" where
  "structured c = (case c of None \<Rightarrow> SetStructuredValue NoValue 0 | Some s \<Rightarrow> SetStructuredValue (TextAt s) (length s))"

text \<open>\<open>lengths\<close> says whether \<open>mysql_fetch_lengths\<close> succeeds.\<close>

definition ResultSet_NextRow :: "bool \<Rightarrow> adhoc_result \<Rightarrow> bool \<times> adhoc_result" where
  "ResultSet_NextRow lengths rs = (case rs_result rs of
       None \<Rightarrow> (False, rs)
     | Some [] \<Rightarrow> (False, ResultSet_CleanUp rs)
     | Some (row # rows) \<Rightarrow>
         if \<not> lengths then (False, ResultSet_CleanUp rs)
         else (True, rs\<lparr>rs_result := Some rows, rs_currRow := map2 structured row (rs_currRow rs)\<rparr>))"

definition GetFieldName :: "nat \<Rightarrow> adhoc_result \<Rightarrow> string res" where
  "GetFieldName index rs = bind_res (assert_res (index < length (rs_fields rs))) (\<lambda>_. Inr (mf_name (rs_fields rs ! index)))"

definition ResultSet_index :: "nat \<Rightarrow> adhoc_result \<Rightarrow> field res" where
  "ResultSet_index index rs = bind_res (assert_res (index < length (rs_fields rs))) (\<lambda>_. Inr (rs_currRow rs ! index))"

text \<open>\<open>FetchTuple\<close> with \<open>n\<close> types: the fields it converts, in order.\<close>

definition ResultSet_FetchTuple :: "nat \<Rightarrow> adhoc_result \<Rightarrow> field list res" where
  "ResultSet_FetchTuple n rs = bind_res (assert_res (n = length (rs_fields rs))) (\<lambda>_. Inr (take n (rs_currRow rs)))"

text \<open>The loop \<open>for (auto& row : *result)\<close>: the rows its body sees.\<close>

function ResultSet_rows :: "adhoc_result \<Rightarrow> field list list" where
  "ResultSet_rows rs =
     rs_currRow rs # (let (more, rs) = ResultSet_NextRow True rs in if more then ResultSet_rows rs else [])"
  by pat_completeness auto
termination
  by (relation "measure (\<lambda>rs. case rs_result rs of None \<Rightarrow> 0 | Some rows \<Rightarrow> length rows)")
    (auto simp: ResultSet_NextRow_def split: option.splits list.splits)

declare ResultSet_rows.simps [simp del]

subsection \<open>Prepared statements\<close>

datatype memory = NullPtr | Allocated | Freed

type_synonym cell = "u8 list option"

record result_stmt =
  st_fields :: "mysql_field list"
  st_rows :: "cell list list"
  st_sizeof_time :: nat
  st_junk :: "nat \<Rightarrow> u8"
  st_store_fails :: bool
  st_bind_fails :: bool
  st_fetch_fails :: "nat \<Rightarrow> bool"
  st_fetch :: "cell list \<Rightarrow> nat list \<Rightarrow> nat list \<Rightarrow> u8 list \<Rightarrow> u8 list res"

record prepared_result =
  pr_rowCount :: nat
  pr_rowPosition :: nat
  pr_fieldCount :: nat
  pr_rows :: "field list"
  pr_buffer :: "u8 list"
  pr_rBind :: memory
  pr_metadataResult :: memory

text \<open>
  What the manual says \<open>mysql_stmt_fetch\<close> does for one row: each value that is not \<^verbatim>\<open>NULL\<close> is written to the buffer of
  its column in \<open>_stmt->bind\<close>, cut to the length of the buffer.  The model only uses the parameter \<open>st_fetch\<close>.
\<close>

definition write_bytes :: "nat \<Rightarrow> u8 list \<Rightarrow> u8 list \<Rightarrow> u8 list res" where
  "write_bytes pos bs buf = (if pos + length bs \<le> length buf then Inr (take pos buf @ bs @ drop (pos + length bs) buf) else Inl Undefined)"

fun fetch_cells :: "cell list \<Rightarrow> nat list \<Rightarrow> nat list \<Rightarrow> u8 list \<Rightarrow> u8 list res" where
  "fetch_cells (Some bs # cells) (sz # sizes) (pos # poss) buf =
     bind_res (write_bytes pos (take sz bs) buf) (fetch_cells cells sizes poss)"
| "fetch_cells (None # cells) (sz # sizes) (pos # poss) buf = fetch_cells cells sizes poss buf"
| "fetch_cells cells sizes poss buf = Inr buf"

definition is_text :: "column_type \<Rightarrow> bool" where
  "is_text type = (type \<in> {MT_TINY_BLOB, MT_MEDIUM_BLOB, MT_LONG_BLOB, MT_BLOB, MT_STRING, MT_VAR_STRING})"

definition set_row :: "nat \<Rightarrow> field \<Rightarrow> field list \<Rightarrow> field list res" where
  "set_row i f rows = (if i < length rows then Inr (rows[i := f]) else Inl Undefined)"

text \<open>
  The body of the loop over the columns: the position in \<open>_rows\<close> is \<open>i\<close>; the result is the new \<open>_rows\<close>,
  buffer and bind buffers.
\<close>

fun store_cells ::
  "nat \<Rightarrow> nat \<Rightarrow> (mysql_field \<times> QueryResultFieldMetadata) list \<Rightarrow> cell list \<Rightarrow> nat list \<Rightarrow> nat list
   \<Rightarrow> field list \<Rightarrow> u8 list \<Rightarrow> (field list \<times> u8 list \<times> nat list) res" where
  "store_cells rowSize i ((fld, meta) # cols) (Some bs # cells) (sz # sizes) (pos # poss) rows buf =
     bind_res (if is_text (mf_type fld) \<and> length bs < sz then write_bytes (pos + length bs) [0] buf else Inr buf) (\<lambda>buf.
     bind_res (set_row (i mod 2 ^ 32) (SetByteValue (RawAt pos) (length bs mod 2 ^ 32) (SetMetadata meta Field)) rows) (\<lambda>rows.
     bind_res (store_cells rowSize (Suc i) cols cells sizes poss rows buf) (\<lambda>(rows, buf, poss).
       Inr (rows, buf, (pos + rowSize) # poss))))"
| "store_cells rowSize i ((fld, meta) # cols) (None # cells) (sz # sizes) (pos # poss) rows buf =
     bind_res (set_row (i mod 2 ^ 32) (SetByteValue NoValue 0 (SetMetadata meta Field)) rows) (\<lambda>rows.
     bind_res (store_cells rowSize (Suc i) cols cells sizes poss rows buf) (\<lambda>(rows, buf, poss). Inr (rows, buf, pos # poss)))"
| "store_cells rowSize i cols cells sizes poss rows buf = Inr (rows, buf, poss)"

text \<open>The loop \<open>while (_NextRow())\<close> from row \<open>r\<close>; \<open>fetched\<close> are the rows the client library still has.\<close>

fun buffer_rows ::
  "result_stmt \<Rightarrow> nat list \<Rightarrow> nat \<Rightarrow> nat \<Rightarrow> cell list list \<Rightarrow> nat list \<Rightarrow> field list \<Rightarrow> u8 list \<Rightarrow> (field list \<times> u8 list) res" where
  "buffer_rows st sizes rowSize r [] poss rows buf = Inr (rows, buf)"
| "buffer_rows st sizes rowSize r (cells # fetched) poss rows buf =
     (if st_fetch_fails st r then Inr (rows, buf)
      else bind_res (st_fetch st cells sizes poss buf) (\<lambda>buf.
           bind_res (store_cells rowSize ((r mod 2 ^ 32) * length (st_fields st) mod 2 ^ 32)
                       (zip (st_fields st) (metadata (st_fields st))) cells sizes poss rows buf) (\<lambda>(rows, buf, poss).
             buffer_rows st sizes rowSize (Suc r) fetched poss rows buf)))"

text \<open>The offsets of the columns, with the 32-bit sum of the code.\<close>

fun offsets :: "nat \<Rightarrow> nat list \<Rightarrow> nat list" where
  "offsets offset [] = []"
| "offsets offset (sz # sizes) = offset # offsets ((offset + sz) mod 2 ^ 32) sizes"

definition PreparedResultSet_CleanUp :: "prepared_result \<Rightarrow> prepared_result res" where
  "PreparedResultSet_CleanUp pr =
     (if pr_metadataResult pr = Freed \<or> pr_rBind pr = Freed then Inl Undefined
      else Inr (pr\<lparr>pr_metadataResult := (if pr_metadataResult pr = Allocated then Freed else pr_metadataResult pr),
                   pr_rBind := NullPtr\<rparr>))"

text \<open>
  The constructor.  \<open>result\<close> is that there is metadata; \<open>rowCount\<close> is the argument, which is replaced by the
  number of rows once they are stored.
\<close>

definition PreparedResultSet :: "result_stmt \<Rightarrow> bool \<Rightarrow> nat \<Rightarrow> prepared_result res" where
  "PreparedResultSet st result rowCount =
     (let pr = \<lparr>pr_rowCount = rowCount, pr_rowPosition = 0, pr_fieldCount = length (st_fields st), pr_rows = [], pr_buffer = [],
                pr_rBind = NullPtr, pr_metadataResult = (if result then Allocated else NullPtr)\<rparr>
      in if \<not> result then Inr pr
         else if st_store_fails st then Inr (pr\<lparr>pr_rBind := Freed\<rparr>)
         else let sizes = map (SizeForType (st_sizeof_time st)) (st_fields st);
                  rowSize = sum_list sizes;
                  n = length (st_rows st);
                  buf = map (st_junk st) [0..<rowSize * n];
                  pr = pr\<lparr>pr_rowCount := n, pr_rBind := Allocated\<rparr>
              in if st_bind_fails st then PreparedResultSet_CleanUp pr
                 else bind_res (buffer_rows st sizes rowSize 0 (st_rows st) (offsets 0 sizes)
                                  (replicate ((n mod 2 ^ 32) * length (st_fields st) mod 2 ^ 32) Field) buf)
                        (\<lambda>(rows, buf). Inr (pr\<lparr>pr_rows := rows, pr_buffer := buf\<rparr>)))"

definition PreparedResultSet_destroy :: "prepared_result \<Rightarrow> unit res" where
  "PreparedResultSet_destroy pr = bind_res (PreparedResultSet_CleanUp pr) (\<lambda>_. Inr ())"

definition PreparedResultSet_NextRow :: "prepared_result \<Rightarrow> bool \<times> prepared_result" where
  "PreparedResultSet_NextRow pr =
     (let pr = pr\<lparr>pr_rowPosition := Suc (pr_rowPosition pr)\<rparr>
      in (\<not> pr_rowPosition pr \<ge> pr_rowCount pr, pr))"

definition row_index :: "prepared_result \<Rightarrow> nat \<Rightarrow> nat" where
  "row_index pr index = ((pr_rowPosition pr mod 2 ^ 32) * pr_fieldCount pr mod 2 ^ 32 + index) mod 2 ^ 32"

definition PreparedResultSet_index :: "nat \<Rightarrow> prepared_result \<Rightarrow> field res" where
  "PreparedResultSet_index index pr =
     bind_res (assert_res (pr_rowPosition pr < pr_rowCount pr)) (\<lambda>_.
     bind_res (assert_res (index < pr_fieldCount pr)) (\<lambda>_.
       if row_index pr index < length (pr_rows pr) then Inr (pr_rows pr ! row_index pr index) else Inl Undefined))"

definition PreparedResultSet_FetchTuple :: "nat \<Rightarrow> prepared_result \<Rightarrow> field list res" where
  "PreparedResultSet_FetchTuple n pr =
     bind_res (assert_res (pr_rowPosition pr < pr_rowCount pr)) (\<lambda>_.
     bind_res (assert_res (n = pr_fieldCount pr)) (\<lambda>_.
       if \<forall>index < n. row_index pr index < length (pr_rows pr)
       then Inr (map (\<lambda>index. pr_rows pr ! row_index pr index) [0..<n]) else Inl Undefined))"

subsection \<open>Ad hoc results are read in order\<close>

lemma metadata_length [simp]: "length (metadata flds) = length flds"
  by (simp add: metadata_def)

lemma structured_fields [simp]:
  "fd_meta (structured c f) = fd_meta f"
  "structured c (structured d f) = structured c f"
  by (auto simp: structured_def SetStructuredValue_def split: option.splits)

lemma map2_structured: "length row = length fs \<Longrightarrow> length row' = length fs \<Longrightarrow>
  map2 structured row' (map2 structured row fs) = map2 structured row' fs"
  by (rule nth_equalityI) simp_all

lemma ResultSet_rows_eq:
  assumes "rs_result rs = Some rows" and "rs_currRow rs = map2 structured row fs" and "length row = length fs"
    and "\<forall>row \<in> set rows. length row = length fs"
  shows "ResultSet_rows rs = map (\<lambda>row. map2 structured row fs) (row # rows)"
  using assms
proof (induction rows arbitrary: rs row)
  case Nil
  then show ?case by (subst ResultSet_rows.simps) (simp add: ResultSet_NextRow_def)
next
  case (Cons row' rows)
  let ?rs = "rs\<lparr>rs_result := Some rows, rs_currRow := map2 structured row' (rs_currRow rs)\<rparr>"
  have "ResultSet_rows ?rs = map (\<lambda>row. map2 structured row fs) (row' # rows)"
    using Cons.prems by (intro Cons.IH) (simp_all add: map2_structured)
  then show ?case using Cons.prems by (subst ResultSet_rows.simps) (simp add: ResultSet_NextRow_def)
qed

text \<open>The cell a field of an ad hoc row shows.\<close>

definition text_cell :: "field \<Rightarrow> string option res" where
  "text_cell f = (if IsNull f then Inr None
     else bind_res (GetDataString [] f) (\<lambda>bs. Inr (Some (map (\<lambda>b. char_of (unat b)) bs))))"

lemma char_byte [simp]: "char_of (unat (word_of_nat (of_char c) :: u8)) = (c :: char)"
proof -
  have "of_char c < (256 :: nat)" by simp
  then show ?thesis by (simp add: unat_of_nat)
qed

lemma text_cell_structured [simp]: "text_cell (structured c f) = Inr c"
  by (cases c) (simp_all add: text_cell_def structured_def SetStructuredValue_def IsNull_def GetDataString_def value_bytes_def comp_def)

text \<open>
  The loop over the result of an ad hoc query sees every row of the result once, in the order of
  the server, and every field of it shows its cell, \<^verbatim>\<open>NULL\<close> included: the pool has fetched the first
  row before it hands the result out.
\<close>

theorem adhoc_rows_in_order:
  assumes "rows \<noteq> []" and "\<forall>row \<in> set rows. length row = length flds"
    and "ResultSet_NextRow True (ResultSet flds rows) = (ok, rs)"
  shows "ok \<and> map (map text_cell) (ResultSet_rows rs) = map (map Inr) rows"
proof -
  obtain row rows' where r: "rows = row # rows'" using assms(1) by (cases rows) auto
  let ?fs = "map (\<lambda>meta. SetMetadata meta Field) (metadata flds)"
  have "ok" and rs: "rs_result rs = Some rows'" "rs_currRow rs = map2 structured row ?fs"
    using assms(3) r by (auto simp: ResultSet_def ResultSet_NextRow_def)
  moreover have "ResultSet_rows rs = map (\<lambda>row. map2 structured row ?fs) rows"
    unfolding r using rs assms(2) r by (intro ResultSet_rows_eq) simp_all
  moreover have "map text_cell (map2 structured row ?fs) = map Inr row" if "length row = length flds" for row
    using that by (intro nth_equalityI) simp_all
  ultimately show ?thesis using assms(2) by simp
qed

theorem adhoc_rows_in_order_witness:
  "map (map text_cell) (ResultSet_rows (snd (ResultSet_NextRow True
      (ResultSet [\<lparr>mf_org_table = ''t'', mf_table = ''t'', mf_org_name = ''a'', mf_name = ''a'', mf_type = MT_STRING, mf_max_length = 2\<rparr>]
        [[Some ''x''], [None]])))) = [[Inr (Some ''x'')], [Inr None]]"
  using adhoc_rows_in_order [of "[[Some ''x''], [None]]"
      "[\<lparr>mf_org_table = ''t'', mf_table = ''t'', mf_org_name = ''a'', mf_name = ''a'', mf_type = MT_STRING, mf_max_length = 2\<rparr>]", OF _ _ prod.collapse [symmetric]]
  by simp

subsection \<open>Memory\<close>

abbreviation slice :: "'a list \<Rightarrow> nat \<Rightarrow> nat \<Rightarrow> 'a list" where
  "slice buf p n \<equiv> take n (drop p buf)"

text \<open>Two regions, each with its start and size, do not meet.\<close>

definition apart :: "nat \<times> nat \<Rightarrow> nat \<times> nat \<Rightarrow> bool" where
  "apart a b = (fst a + snd a \<le> fst b \<or> fst b + snd b \<le> fst a)"

lemma apart_sym: "apart a b \<Longrightarrow> apart b a"
  by (auto simp: apart_def)

lemma apart_shrink: "apart (p, s) b \<Longrightarrow> n \<le> s \<Longrightarrow> apart (p, n) b"
  by (auto simp: apart_def)

lemma apart_tail: "apart a (p, s) \<Longrightarrow> n \<le> s \<Longrightarrow> apart a (p + n, s - n)"
  by (auto simp: apart_def)

lemma write_bytes_ok:
  assumes "q + length bs \<le> length buf"
  shows "\<exists>buf'. write_bytes q bs buf = Inr buf' \<and> length buf' = length buf \<and> slice buf' q (length bs) = bs
    \<and> (\<forall>p n. apart (p, n) (q, length bs) \<longrightarrow> slice buf' p n = slice buf p n)"
proof -
  let ?b = "take q buf @ bs @ drop (q + length bs) buf"
  have "slice ?b p n = slice buf p n" if "apart (p, n) (q, length bs)" for p n
  proof (cases "p + n \<le> q")
    case True
    then show ?thesis using assms by (simp add: take_drop)
  next
    case False
    then have "q + length bs \<le> p" using that by (auto simp: apart_def)
    then show ?thesis using assms by (simp add: drop_append add.commute)
  qed
  then show ?thesis using assms by (intro exI [of _ ?b]) (simp add: write_bytes_def)
qed

subsection \<open>Fetching and storing one row\<close>

definition fits :: "cell \<Rightarrow> nat \<Rightarrow> bool" where
  "fits c sz = (\<forall>bs. c = Some bs \<longrightarrow> length bs \<le> sz)"

lemma fetch_cells_ok:
  assumes "list_all2 fits cells sizes" and "length poss = length sizes" and "sorted_wrt apart (zip poss sizes)"
    and "\<forall>(p, s) \<in> set (zip poss sizes). p + s \<le> length buf"
  shows "\<exists>buf'. fetch_cells cells sizes poss buf = Inr buf' \<and> length buf' = length buf
    \<and> (\<forall>i bs. i < length cells \<longrightarrow> cells ! i = Some bs \<longrightarrow> slice buf' (poss ! i) (length bs) = bs)
    \<and> (\<forall>p n. (\<forall>reg \<in> set (zip poss sizes). apart (p, n) reg) \<longrightarrow> slice buf' p n = slice buf p n)"
  using assms
proof (induction cells arbitrary: sizes poss buf)
  case Nil
  then show ?case by simp
next
  case (Cons c cells)
  obtain sz sizes' pos poss' where eq: "sizes = sz # sizes'" "poss = pos # poss'"
    using Cons.prems(1,2) by (cases sizes; cases poss) auto
  have pre: "list_all2 fits cells sizes'" "length poss' = length sizes'" "sorted_wrt apart (zip poss' sizes')"
    and f: "fits c sz" and ap: "\<forall>reg \<in> set (zip poss' sizes'). apart (pos, sz) reg"
    and b: "pos + sz \<le> length buf" "\<forall>(p, s) \<in> set (zip poss' sizes'). p + s \<le> length buf"
    using Cons.prems by (auto simp: eq)
  show ?case
  proof (cases c)
    case None
    from Cons.IH [OF pre b(2)] show ?thesis unfolding eq None
      by (auto simp: nth_Cons' less_Suc_eq_0_disj)
  next
    case (Some bs)
    then have l: "length bs \<le> sz" and t: "take sz bs = bs" using f by (auto simp: fits_def)
    obtain buf1 where w: "write_bytes pos bs buf = Inr buf1" "length buf1 = length buf" "slice buf1 pos (length bs) = bs"
      "\<forall>p n. apart (p, n) (pos, length bs) \<longrightarrow> slice buf1 p n = slice buf p n"
      using write_bytes_ok [of pos bs buf] b(1) l by auto
    obtain buf' where b': "fetch_cells cells sizes' poss' buf1 = Inr buf'" "length buf' = length buf1"
      "\<forall>i bs. i < length cells \<longrightarrow> cells ! i = Some bs \<longrightarrow> slice buf' (poss' ! i) (length bs) = bs"
      "\<forall>p n. (\<forall>reg \<in> set (zip poss' sizes'). apart (p, n) reg) \<longrightarrow> slice buf' p n = slice buf1 p n"
      using Cons.IH [OF pre, of buf1] b(2) w(2) by auto
    have "slice buf' pos (length bs) = bs"
      using b'(4) w(3) ap apart_shrink [OF _ l] by (metis (no_types, lifting))
    moreover have "slice buf' p n = slice buf p n" if "\<forall>reg \<in> set (zip poss sizes). apart (p, n) reg" for p n
    proof -
      have "apart (p, n) (pos, sz)" using that by (simp add: eq)
      then have "apart (p, n) (pos, length bs)" using apart_shrink [OF apart_sym l] apart_sym by blast
      then show ?thesis using b'(4) w(4) that by (simp add: eq)
    qed
    ultimately show ?thesis using b' w t Some by (auto simp: eq nth_Cons' less_Suc_eq_0_disj)
  qed
qed

definition cell_field :: "QueryResultFieldMetadata \<Rightarrow> nat \<Rightarrow> cell \<Rightarrow> field" where
  "cell_field meta pos c = (case c of
       None \<Rightarrow> SetByteValue NoValue 0 (SetMetadata meta Field)
     | Some bs \<Rightarrow> SetByteValue (RawAt pos) (length bs mod 2 ^ 32) (SetMetadata meta Field))"

definition advance :: "nat \<Rightarrow> cell \<Rightarrow> nat \<Rightarrow> nat" where
  "advance rowSize c p = (if c = None then p else p + rowSize)"

text \<open>The terminator is written, if at all, behind the bytes of the cell and within its buffer.\<close>

lemma terminator_ok:
  assumes "fits (Some bs) sz" and "pos + sz \<le> length buf"
  shows "\<exists>buf'. (if b \<and> length bs < sz then write_bytes (pos + length bs) [0] buf else Inr buf) = Inr buf' \<and> length buf' = length buf
    \<and> (\<forall>p n. apart (p, n) (pos + length bs, sz - length bs) \<longrightarrow> slice buf' p n = slice buf p n)"
proof (cases "b \<and> length bs < sz")
  case True
  then obtain buf' where "write_bytes (pos + length bs) [0] buf = Inr buf'" "length buf' = length buf"
    "\<forall>p n. apart (p, n) (pos + length bs, 1) \<longrightarrow> slice buf' p n = slice buf p n"
    using write_bytes_ok [of "pos + length bs" "[0]" buf] assms by auto
  moreover have "apart (p, n) (pos + length bs, 1)" if "apart (p, n) (pos + length bs, sz - length bs)" for p n
    using that True by (auto simp: apart_def)
  ultimately show ?thesis using True by (intro exI [of _ buf']) simp
qed auto

lemma store_cells_ok:
  assumes "list_all2 fits cells sizes" and "length poss = length sizes" and "length cols = length sizes"
    and "i + length cells \<le> length rows" and "length rows \<le> 2 ^ 32"
    and "\<forall>(p, s) \<in> set (zip poss sizes). p + s \<le> length buf"
  shows "\<exists>rows' buf'. store_cells S i cols cells sizes poss rows buf = Inr (rows', buf', map2 (advance S) cells poss)
    \<and> length rows' = length rows \<and> length buf' = length buf
    \<and> (\<forall>j < length cells. rows' ! (i + j) = cell_field (snd (cols ! j)) (poss ! j) (cells ! j))
    \<and> (\<forall>k. k < i \<longrightarrow> rows' ! k = rows ! k)
    \<and> (\<forall>p n. (\<forall>j bs. j < length cells \<longrightarrow> cells ! j = Some bs \<longrightarrow> apart (p, n) (poss ! j + length bs, sizes ! j - length bs))
          \<longrightarrow> slice buf' p n = slice buf p n)"
  using assms
proof (induction cells arbitrary: sizes poss cols i rows buf)
  case Nil
  then show ?case by simp
next
  case (Cons c cells)
  obtain sz sizes' pos poss' fld meta cols' where eq: "sizes = sz # sizes'" "poss = pos # poss'" "cols = (fld, meta) # cols'"
    using Cons.prems(1,2,3) by (cases sizes; cases poss; cases cols) auto
  have pre: "list_all2 fits cells sizes'" "length poss' = length sizes'" "length cols' = length sizes'" "Suc i + length cells \<le> length rows"
    and f: "fits c sz" and b: "pos + sz \<le> length buf" "\<forall>(p, s) \<in> set (zip poss' sizes'). p + s \<le> length buf"
    using Cons.prems by (auto simp: eq)
  let ?rows = "rows[i := cell_field meta pos c]"
  have i: "i < length rows" "i mod 2 ^ 32 = i" using Cons.prems(4,5) by simp_all
  obtain buf1 where b1: "length buf1 = length buf"
    and head: "store_cells S i cols (c # cells) sizes poss rows buf =
      bind_res (store_cells S (Suc i) cols' cells sizes' poss' ?rows buf1) (\<lambda>(rows, buf, ps). Inr (rows, buf, advance S c pos # ps))"
    and s1: "\<And>p n. (\<And>bs. c = Some bs \<Longrightarrow> apart (p, n) (pos + length bs, sz - length bs)) \<Longrightarrow> slice buf1 p n = slice buf p n"
  proof (cases c)
    case None
    then show ?thesis using that [of buf] i by (simp add: eq set_row_def cell_field_def advance_def)
  next
    case (Some bs)
    obtain buf1 where "(if is_text (mf_type fld) \<and> length bs < sz then write_bytes (pos + length bs) [0] buf else Inr buf) = Inr buf1"
      "length buf1 = length buf" "\<forall>p n. apart (p, n) (pos + length bs, sz - length bs) \<longrightarrow> slice buf1 p n = slice buf p n"
      using terminator_ok [of bs sz pos buf "is_text (mf_type fld)"] f b(1) Some by auto
    then show ?thesis using that [of buf1] i Some by (simp add: eq set_row_def cell_field_def advance_def)
  qed
  obtain rows' buf' where tail: "store_cells S (Suc i) cols' cells sizes' poss' ?rows buf1 = Inr (rows', buf', map2 (advance S) cells poss')"
      "length rows' = length ?rows" "length buf' = length buf1"
      "\<forall>j < length cells. rows' ! (Suc i + j) = cell_field (snd (cols' ! j)) (poss' ! j) (cells ! j)"
      "\<forall>k. k < Suc i \<longrightarrow> rows' ! k = ?rows ! k"
      "\<forall>p n. (\<forall>j bs. j < length cells \<longrightarrow> cells ! j = Some bs \<longrightarrow> apart (p, n) (poss' ! j + length bs, sizes' ! j - length bs))
          \<longrightarrow> slice buf' p n = slice buf1 p n"
    using Cons.IH [of sizes' poss' cols' "Suc i" ?rows buf1] pre b(2) b1 Cons.prems(5) by auto
  have "rows' ! (i + j) = cell_field (snd (cols ! j)) (poss ! j) ((c # cells) ! j)" if "j < length (c # cells)" for j
    using that tail(4,5) i by (cases j) (simp_all add: eq)
  moreover have "slice buf' p n = slice buf p n"
    if a: "\<forall>j bs. j < length (c # cells) \<longrightarrow> (c # cells) ! j = Some bs \<longrightarrow> apart (p, n) (poss ! j + length bs, sizes ! j - length bs)" for p n
  proof -
    have "\<forall>j bs. j < length cells \<longrightarrow> cells ! j = Some bs \<longrightarrow> apart (p, n) (poss' ! j + length bs, sizes' ! j - length bs)"
      using a [rule_format, of "Suc _"] by (simp add: eq)
    moreover have "slice buf1 p n = slice buf p n" using a [rule_format, of 0] by (intro s1) (simp add: eq)
    ultimately show ?thesis using tail(6) by simp
  qed
  ultimately show ?case unfolding head tail(1) using tail(2,3,5) b1 by (simp add: eq)
qed

subsection \<open>The layout of the buffer\<close>

text \<open>
  The bytes of the \<open>k\<close>th value of column \<open>f\<close> that is not \<^verbatim>\<open>NULL\<close>: the bind buffer moves on by a whole row
  for each of them.
\<close>

definition addr :: "nat list \<Rightarrow> nat \<Rightarrow> nat \<Rightarrow> nat" where
  "addr sizes f k = sum_list (take f sizes) + sum_list sizes * k"

definition values_before :: "nat \<Rightarrow> cell list list \<Rightarrow> nat" where
  "values_before f rows = length (filter (\<lambda>row. row ! f \<noteq> None) rows)"

lemma offsets_eq:
  "start + sum_list sizes < 2 ^ 32 \<Longrightarrow> offsets start sizes = map (\<lambda>f. start + sum_list (take f sizes)) [0..<length sizes]"
proof (induction sizes arbitrary: start)
  case Nil
  then show ?case by simp
next
  case (Cons sz sizes)
  then have "offsets (start + sz) sizes = map (\<lambda>f. start + sz + sum_list (take f sizes)) [0..<length sizes]"
    by (intro Cons.IH) simp
  then have o: "offsets start (sz # sizes) = start # map (\<lambda>f. start + sz + sum_list (take f sizes)) [0..<length sizes]"
    using Cons.prems by simp
  show ?case unfolding o
    by (rule nth_equalityI) (auto simp: nth_Cons' take_Cons' simp del: upt_Suc)
qed

lemma sum_take_Suc: "f < length sizes \<Longrightarrow> sum_list (take (Suc f) sizes) = sum_list (take f sizes) + sizes ! f"
  by (simp add: take_Suc_conv_app_nth)

lemma sum_take_mono: "f \<le> g \<Longrightarrow> sum_list (take f sizes) \<le> sum_list (take g (sizes :: nat list))"
  by (metis append_take_drop_id le_add1 min.absorb1 sum_list_append take_take)

lemma sum_take_le: "sum_list (take f sizes) \<le> sum_list (sizes :: nat list)"
  by (metis append_take_drop_id le_add1 sum_list_append)

lemma column_end:
  fixes sizes :: "nat list"
  assumes "f < g" and "f < length sizes"
  shows "sum_list (take f sizes) + sizes ! f \<le> sum_list (take g sizes)"
  using sum_take_Suc [OF assms(2)] sum_take_mono [of "Suc f" g sizes] assms(1) by simp

lemma addr_end:
  assumes "f < length sizes"
  shows "addr sizes f k + sizes ! f \<le> sum_list sizes * Suc k"
  using sum_take_Suc [OF assms] sum_take_le [of "Suc f" sizes] by (simp add: addr_def)

lemma addr_row: "sum_list sizes * k \<le> addr sizes f k"
  by (simp add: addr_def)

lemma addr_bound:
  assumes "f < length sizes" and "k < n"
  shows "addr sizes f k + sizes ! f \<le> sum_list sizes * n"
  using addr_end [OF assms(1), of k] mult_le_mono2 [of "Suc k" n "sum_list sizes"] assms(2) by simp

lemma addr_apart:
  assumes "f < length sizes" and "g < length sizes" and "f \<noteq> g \<or> k \<noteq> l"
  shows "apart (addr sizes f k, sizes ! f) (addr sizes g l, sizes ! g)"
proof -
  have later: "addr sizes f k + sizes ! f \<le> addr sizes g l" if "k < l" "f < length sizes" for f g k l
    using addr_bound [OF that(2,1)] addr_row [of sizes l g] by simp
  consider "k < l" | "l < k" | "k = l" "f < g" | "k = l" "g < f" using assms(3) by linarith
  then show ?thesis
    using later [of k l f g] later [of l k g f] assms(1,2) column_end [of f g sizes] column_end [of g f sizes]
    by cases (auto simp: apart_def addr_def)
qed

lemma values_before_append: "values_before f (rows @ [row]) = values_before f rows + (if row ! f = None then 0 else 1)"
  by (simp add: values_before_def)

lemma values_before_le: "values_before f rows \<le> length rows"
  by (simp add: values_before_def)

lemma values_before_less:
  assumes "q < length rows" and "rows ! q ! f \<noteq> None"
  shows "values_before f (take q rows) < values_before f rows"
proof -
  have "rows = take q rows @ rows ! q # drop (Suc q) rows" using assms(1) by (simp add: id_take_nth_drop)
  moreover have "values_before f (xs @ x # ys) = values_before f xs + Suc (values_before f ys)" if "x ! f \<noteq> None" for xs x ys
    using that by (simp add: values_before_def)
  ultimately have "values_before f rows = values_before f (take q rows) + Suc (values_before f (drop (Suc q) rows))"
    using assms(2) by metis
  then show ?thesis by simp
qed

text \<open>Row \<open>q\<close>, column \<open>f\<close> is stored: the field points to the bytes of the cell.\<close>

definition stored :: "nat list \<Rightarrow> QueryResultFieldMetadata list \<Rightarrow> cell list list \<Rightarrow> field list \<Rightarrow> u8 list \<Rightarrow> nat \<Rightarrow> nat \<Rightarrow> bool" where
  "stored sizes metas rows frows buf q f =
     (let pos = addr sizes f (values_before f (take q rows)); c = rows ! q ! f
      in frows ! (q * length sizes + f) = cell_field (metas ! f) pos c
         \<and> (\<forall>bs. c = Some bs \<longrightarrow> slice buf pos (length bs) = bs))"

definition positions :: "nat list \<Rightarrow> cell list list \<Rightarrow> nat list" where
  "positions sizes seen = map (\<lambda>f. addr sizes f (values_before f seen)) [0..<length sizes]"

lemma positions_apart:
  assumes "length seen < n"
  shows "sorted_wrt apart (zip (positions sizes seen) sizes)"
    and "\<forall>(p, s) \<in> set (zip (positions sizes seen) sizes). p + s \<le> sum_list sizes * n"
proof -
  show "sorted_wrt apart (zip (positions sizes seen) sizes)"
    unfolding sorted_wrt_iff_nth_less by (auto simp: positions_def intro: addr_apart)
  show "\<forall>(p, s) \<in> set (zip (positions sizes seen) sizes). p + s \<le> sum_list sizes * n"
    using le_less_trans [OF values_before_le assms] by (auto simp: positions_def set_zip intro!: addr_bound)
qed

lemma positions_advance:
  assumes "length cells = length sizes"
  shows "map2 (advance (sum_list sizes)) cells (positions sizes seen) = positions sizes (seen @ [cells])"
  using assms by (intro nth_equalityI) (auto simp: positions_def advance_def values_before_append addr_def)

lemma old_value_apart:
  assumes "\<forall>row \<in> set seen. list_all2 fits row sizes" and "q < length seen" and "seen ! q ! f = Some bs"
    and "f < length sizes" and "j < length sizes"
  shows "apart (addr sizes f (values_before f (take q seen)), length bs) (positions sizes seen ! j, sizes ! j)"
proof -
  have "list_all2 fits (seen ! q) sizes" using assms(1,2) by simp
  then have "length bs \<le> sizes ! f" using assms(3,4) by (auto simp: list_all2_conv_all_nth fits_def)
  moreover have "f \<noteq> j \<or> values_before f (take q seen) \<noteq> values_before j seen"
    using values_before_less [of q seen f] assms(2,3) by auto
  ultimately show ?thesis using apart_shrink [OF addr_apart [OF assms(4,5)]] assms(5) by (simp add: positions_def)
qed

lemma new_value_apart:
  assumes "list_all2 fits cells sizes" and "f < length sizes" "cells ! f = Some bs" and "j < length sizes" "cells ! j = Some bs'"
  shows "apart (positions sizes seen ! f, length bs) (positions sizes seen ! j + length bs', sizes ! j - length bs')"
proof (cases "j = f")
  case False
  have l: "length bs \<le> sizes ! f" "length bs' \<le> sizes ! j" using assms by (auto simp: list_all2_conv_all_nth fits_def)
  then have "apart (positions sizes seen ! f, length bs) (positions sizes seen ! j, sizes ! j)"
    using False assms(2,4) addr_apart [of f sizes j] by (auto simp: positions_def intro: apart_shrink)
  then show ?thesis using apart_tail l(2) by blast
qed (use assms in \<open>simp add: apart_def\<close>)

text \<open>One round of the loop: the new row is stored, and the rows before it stay as they are.\<close>

lemma stored_row:
  fixes sizes :: "nat list"
  defines "S \<equiv> sum_list sizes"
  assumes fit: "list_all2 fits cells sizes" and fits: "\<forall>row \<in> set seen. list_all2 fits row sizes" and n: "length seen < n"
    and len: "length buf = S * n" "length frows = n * length sizes" "n * length sizes \<le> 2 ^ 32"
    and cols: "length cols = length sizes" "map snd cols = metas"
    and old: "\<forall>q < length seen. \<forall>f < length sizes. stored sizes metas seen frows buf q f"
  shows "\<exists>buf1 frows' buf'. fetch_cells cells sizes (positions sizes seen) buf = Inr buf1
    \<and> store_cells S (length seen * length sizes) cols cells sizes (positions sizes seen) frows buf1
        = Inr (frows', buf', positions sizes (seen @ [cells]))
    \<and> length frows' = length frows \<and> length buf' = length buf
    \<and> (\<forall>q \<le> length seen. \<forall>f < length sizes. stored sizes metas (seen @ [cells]) frows' buf' q f)"
proof -
  let ?P = "positions sizes seen" and ?fc = "length sizes"
  have lc: "length cells = ?fc" using fit by (rule list_all2_lengthD)
  have lp: "length ?P = ?fc" by (simp add: positions_def)
  have pf: "?P ! f = addr sizes f (values_before f seen)" if "f < ?fc" for f using that by (simp add: positions_def)
  note ap = positions_apart(1) [OF n, of sizes] and bd = positions_apart(2) [OF n, of sizes, folded S_def, folded len(1)]
  obtain buf1 where b1: "fetch_cells cells sizes ?P buf = Inr buf1" "length buf1 = length buf"
    "\<forall>i bs. i < length cells \<longrightarrow> cells ! i = Some bs \<longrightarrow> slice buf1 (?P ! i) (length bs) = bs"
    "\<forall>p m. (\<forall>reg \<in> set (zip ?P sizes). apart (p, m) reg) \<longrightarrow> slice buf1 p m = slice buf p m"
    using fetch_cells_ok [OF fit lp ap bd] by blast
  have i: "length seen * ?fc + length cells \<le> length frows"
    using n len(2) lc mult_le_mono1 [of "Suc (length seen)" n ?fc] by simp
  obtain frows' buf' where s: "store_cells S (length seen * ?fc) cols cells sizes ?P frows buf1 = Inr (frows', buf', map2 (advance S) cells ?P)"
    "length frows' = length frows" "length buf' = length buf1"
    "\<forall>j < length cells. frows' ! (length seen * ?fc + j) = cell_field (snd (cols ! j)) (?P ! j) (cells ! j)"
    "\<forall>k. k < length seen * ?fc \<longrightarrow> frows' ! k = frows ! k"
    "\<forall>p m. (\<forall>j bs. j < length cells \<longrightarrow> cells ! j = Some bs \<longrightarrow> apart (p, m) (?P ! j + length bs, sizes ! j - length bs))
       \<longrightarrow> slice buf' p m = slice buf1 p m"
    using store_cells_ok [OF fit lp cols(1) i _ bd [folded b1(2)], of S] len(2,3) by auto
  have fl: "length bs \<le> sizes ! j" if "j < ?fc" "cells ! j = Some bs" for j bs
    using fit that by (auto simp: list_all2_conv_all_nth fits_def)
  have kept: "slice buf' p m = slice buf1 p m" if "\<And>j. j < ?fc \<Longrightarrow> apart (p, m) (?P ! j, sizes ! j)" for p m
    using s(6) that fl apart_tail lc by metis
  have "stored sizes metas (seen @ [cells]) frows' buf' (length seen) f" if f: "f < ?fc" for f
  proof -
    have "slice buf' (?P ! f) (length bs) = bs" if c: "cells ! f = Some bs" for bs
      using s(6) b1(3) new_value_apart [OF fit f c] f c lc by metis
    then show ?thesis using s(4) f lc cols pf by (auto simp: stored_def Let_def nth_append)
  qed
  moreover have "stored sizes metas (seen @ [cells]) frows' buf' q f" if q: "q < length seen" and f: "f < ?fc" for q f
  proof -
    let ?a = "addr sizes f (values_before f (take q seen))"
    have o: "stored sizes metas seen frows buf q f" using old q f by blast
    have "slice buf' ?a (length bs) = slice buf ?a (length bs)" if c: "seen ! q ! f = Some bs" for bs
      using kept [of ?a "length bs"] b1(4) old_value_apart [OF fits q c f] lp
      by (simp add: set_zip all_set_conv_all_nth) (metis lp)
    moreover have "q * ?fc + f < length seen * ?fc"
      using q f mult_le_mono1 [of "Suc q" "length seen" ?fc] by simp
    ultimately show ?thesis using o s(5) q by (auto simp: stored_def Let_def nth_append)
  qed
  ultimately show ?thesis
    using b1(1,2) s(1,2,3) positions_advance [OF lc] unfolding S_def by (auto simp: le_less)
qed

lemma row_start:
  assumes "q < n" and "n * fc < (2 :: nat) ^ 32"
  shows "(q mod 2 ^ 32) * fc mod 2 ^ 32 = q * fc"
proof (cases fc)
  case (Suc k)
  have "q * fc < 2 ^ 32" using le_less_trans [OF mult_le_mono1 [OF less_imp_le [OF assms(1)]] assms(2)] .
  moreover have "q \<le> q * fc" using Suc by simp
  ultimately show ?thesis by (metis le_less_trans mod_less)
qed simp

lemma buffer_rows_ok:
  fixes st :: result_stmt
  defines "sizes \<equiv> map (SizeForType (st_sizeof_time st)) (st_fields st)" and "metas \<equiv> metadata (st_fields st)"
  assumes "\<forall>row \<in> set (seen @ fetched). list_all2 fits row sizes" and "n = length seen + length fetched"
    and "length buf = sum_list sizes * n" "length frows = n * length sizes" "n * length sizes < 2 ^ 32"
    and "\<forall>r cells poss buf. \<not> st_fetch_fails st r \<and> st_fetch st cells sizes poss buf = fetch_cells cells sizes poss buf"
    and "\<forall>q < length seen. \<forall>f < length sizes. stored sizes metas seen frows buf q f"
  shows "\<exists>frows' buf'. buffer_rows st sizes (sum_list sizes) (length seen) fetched (positions sizes seen) frows buf = Inr (frows', buf')
    \<and> length frows' = n * length sizes \<and> length buf' = sum_list sizes * n
    \<and> (\<forall>q < n. \<forall>f < length sizes. stored sizes metas (seen @ fetched) frows' buf' q f)"
  using assms(3-9)
proof (induction fetched arbitrary: seen frows buf)
  case Nil
  then show ?case by simp
next
  case (Cons cells fetched)
  have n: "length seen < n" using Cons.prems(2) by simp
  let ?cols = "zip (st_fields st) (metadata (st_fields st))"
  have cols: "length ?cols = length sizes" "map snd ?cols = metas" by (simp_all add: sizes_def metas_def)
  have fit: "list_all2 fits cells sizes" "\<forall>row \<in> set seen. list_all2 fits row sizes" using Cons.prems(1) by auto
  obtain buf1 frows' buf' where b1: "fetch_cells cells sizes (positions sizes seen) buf = Inr buf1"
    and s: "store_cells (sum_list sizes) (length seen * length sizes) ?cols cells sizes (positions sizes seen) frows buf1
        = Inr (frows', buf', positions sizes (seen @ [cells]))"
    and l: "length frows' = length frows" "length buf' = length buf"
    and st: "\<forall>q \<le> length seen. \<forall>f < length sizes. stored sizes metas (seen @ [cells]) frows' buf' q f"
    using stored_row [OF fit n Cons.prems(3,4) less_imp_le [OF Cons.prems(5)] cols Cons.prems(7)] by blast
  have i: "(length seen mod 2 ^ 32) * length (st_fields st) mod 2 ^ 32 = length seen * length sizes"
    using row_start [OF n Cons.prems(5)] by (simp add: sizes_def)
  have step: "buffer_rows st sizes (sum_list sizes) (length seen) (cells # fetched) (positions sizes seen) frows buf
      = buffer_rows st sizes (sum_list sizes) (length (seen @ [cells])) fetched (positions sizes (seen @ [cells])) frows' buf'"
    using Cons.prems(6) b1 s i by simp
  show ?case unfolding step
    using Cons.IH [of "seen @ [cells]" buf' frows'] Cons.prems st l by (simp add: less_Suc_eq_le)
qed

text \<open>The cell a field of a prepared row shows.\<close>

definition raw_cell :: "u8 list \<Rightarrow> field \<Rightarrow> cell res" where
  "raw_cell buf f = (if IsNull f then Inr None else bind_res (GetDataString buf f) (\<lambda>bs. Inr (Some bs)))"

definition skip_rows :: "nat \<Rightarrow> prepared_result \<Rightarrow> prepared_result" where
  "skip_rows q pr = ((\<lambda>pr. snd (PreparedResultSet_NextRow pr)) ^^ q) pr"

lemma skip_rows_eq: "skip_rows q pr = pr\<lparr>pr_rowPosition := pr_rowPosition pr + q\<rparr>"
  by (induction q) (simp_all add: skip_rows_def PreparedResultSet_NextRow_def Let_def)

lemma stored_cell:
  assumes "stored sizes metas rows frows buf q f" and "list_all2 fits (rows ! q) sizes" and "f < length sizes"
    and "sizes ! f < 2 ^ 32" and "addr sizes f (values_before f (take q rows)) + sizes ! f \<le> length buf"
  shows "raw_cell buf (frows ! (q * length sizes + f)) = Inr (rows ! q ! f)"
    and "fd_meta (frows ! (q * length sizes + f)) = Some (metas ! f)"
proof -
  show "raw_cell buf (frows ! (q * length sizes + f)) = Inr (rows ! q ! f)"
  proof (cases "rows ! q ! f")
    case (Some bs)
    then have "length bs \<le> sizes ! f" using assms(2,3) by (auto simp: list_all2_conv_all_nth fits_def)
    then show ?thesis using assms(1,4,5) Some
      by (simp add: stored_def raw_cell_def cell_field_def SetByteValue_def IsNull_def GetDataString_def value_bytes_def read_bytes_def Let_def)
  qed (use assms(1) in \<open>simp add: stored_def raw_cell_def cell_field_def SetByteValue_def IsNull_def Let_def\<close>)
  show "fd_meta (frows ! (q * length sizes + f)) = Some (metas ! f)"
    using assms(1) by (auto simp: stored_def cell_field_def SetByteValue_def SetMetadata_def Let_def split: option.splits)
qed

text \<open>
  The calls of the client library succeed, \<open>mysql_stmt_fetch\<close> writes the values of the row, and the result has the size the
  32-bit arithmetic can count.
\<close>

definition well_behaved :: "result_stmt \<Rightarrow> bool" where
  "well_behaved st = (let sizes = map (SizeForType (st_sizeof_time st)) (st_fields st) in
     \<not> st_store_fails st \<and> \<not> st_bind_fails st
     \<and> (\<forall>r cells poss buf. \<not> st_fetch_fails st r \<and> st_fetch st cells sizes poss buf = fetch_cells cells sizes poss buf)
     \<and> (\<forall>row \<in> set (st_rows st). list_all2 fits row sizes)
     \<and> sum_list sizes < 2 ^ 32 \<and> length (st_rows st) * length (st_fields st) < 2 ^ 32)"

lemma constructed:
  assumes "well_behaved st"
  defines "sizes \<equiv> map (SizeForType (st_sizeof_time st)) (st_fields st)" and "n \<equiv> length (st_rows st)"
  obtains frows buf where "PreparedResultSet st True rowCount = Inr \<lparr>pr_rowCount = n, pr_rowPosition = 0, pr_fieldCount = length sizes,
      pr_rows = frows, pr_buffer = buf, pr_rBind = Allocated, pr_metadataResult = Allocated\<rparr>"
    and "length frows = n * length sizes" "length buf = sum_list sizes * n"
    and "\<forall>q < n. \<forall>f < length sizes. stored sizes (metadata (st_fields st)) (st_rows st) frows buf q f"
proof -
  have wb: "\<not> st_store_fails st" "\<not> st_bind_fails st"
    "\<forall>r cells poss buf. \<not> st_fetch_fails st r \<and> st_fetch st cells sizes poss buf = fetch_cells cells sizes poss buf"
    "\<forall>row \<in> set ([] @ st_rows st). list_all2 fits row sizes" "0 + sum_list sizes < 2 ^ 32" "n * length sizes < 2 ^ 32"
    using assms(1) by (simp_all add: well_behaved_def sizes_def n_def Let_def)
  let ?buf = "map (st_junk st) [0..<sum_list sizes * n]" and ?rows = "replicate (n * length sizes) Field"
  have pos: "offsets 0 sizes = positions sizes []"
    using offsets_eq [OF wb(5)] by (simp add: positions_def addr_def values_before_def)
  have start: "(n mod 2 ^ 32) * length (st_fields st) mod 2 ^ 32 = n * length sizes"
  proof (cases "length sizes = 0")
    case False
    then have "n \<le> n * length sizes" by (cases "length sizes") simp_all
    then have "n < 2 ^ 32" using wb(6) by (rule le_less_trans)
    then show ?thesis using wb(6) by (simp add: sizes_def)
  qed (simp add: sizes_def)
  obtain frows buf where b: "buffer_rows st sizes (sum_list sizes) 0 (st_rows st) (positions sizes []) ?rows ?buf = Inr (frows, buf)"
    "length frows = n * length sizes" "length buf = sum_list sizes * n"
    "\<forall>q < n. \<forall>f < length sizes. stored sizes (metadata (st_fields st)) (st_rows st) frows buf q f"
    using buffer_rows_ok [of "[]" "st_rows st" st n ?buf ?rows, folded sizes_def, OF wb(4) _ _ _ wb(6,3)] by (auto simp: n_def)
  have "PreparedResultSet st True rowCount = Inr \<lparr>pr_rowCount = n, pr_rowPosition = 0, pr_fieldCount = length sizes,
      pr_rows = frows, pr_buffer = buf, pr_rBind = Allocated, pr_metadataResult = Allocated\<rparr>"
    using wb(1,2) b(1) start pos by (simp add: PreparedResultSet_def Let_def n_def sizes_def)
  then show ?thesis using that b by blast
qed

lemma row_field:
  assumes "length (pr_rows pr) = pr_rowCount pr * pr_fieldCount pr" and "pr_rowCount pr * pr_fieldCount pr < 2 ^ 32"
    and "pr_rowPosition pr = 0" and "q < pr_rowCount pr" and "f < pr_fieldCount pr"
  shows "PreparedResultSet_index f (skip_rows q pr) = Inr (pr_rows pr ! (q * pr_fieldCount pr + f))"
proof -
  have i: "q * pr_fieldCount pr + f < pr_rowCount pr * pr_fieldCount pr"
    using assms(4,5) mult_le_mono1 [of "Suc q" "pr_rowCount pr" "pr_fieldCount pr"] by simp
  have "row_index (skip_rows q pr) f = q * pr_fieldCount pr + f"
    using row_start [OF assms(4,2)] less_trans [OF i assms(2)] assms(3) by (simp add: row_index_def skip_rows_eq)
  then show ?thesis using assms i by (simp add: PreparedResultSet_index_def skip_rows_eq)
qed

lemma value_in_buffer:
  assumes "length buf = sum_list sizes * length rows" and "q < length rows" and "f < length sizes"
  shows "addr sizes f (values_before f (take q rows)) + sizes ! f \<le> length buf"
proof -
  have "values_before f (take q rows) < length rows"
    using values_before_le [of f "take q rows"] assms(2) by simp
  then show ?thesis using addr_bound [OF assms(3)] assms(1) by simp
qed



text \<open>Two columns, three rows, with a \<^verbatim>\<open>NULL\<close> in the middle of each.\<close>

definition sample_column :: "column_type \<Rightarrow> nat \<Rightarrow> mysql_field" where
  "sample_column type l = \<lparr>mf_org_table = ''t'', mf_table = ''t'', mf_org_name = ''a'', mf_name = ''a'', mf_type = type, mf_max_length = l\<rparr>"

definition sample_stmt :: result_stmt where
  "sample_stmt = \<lparr>st_fields = [sample_column MT_TINY 0, sample_column MT_STRING 2],
     st_rows = [[Some [7], Some [104, 105]], [None, Some [33]], [Some [9], None]],
     st_sizeof_time = 40, st_junk = (\<lambda>i. 170), st_store_fails = False, st_bind_fails = False, st_fetch_fails = (\<lambda>r. False), st_fetch = fetch_cells\<rparr>"

lemma sample_well_behaved: "well_behaved sample_stmt"
  by (simp add: well_behaved_def sample_stmt_def sample_column_def SizeForType_def fits_def Let_def)


subsection \<open>When the client library fails\<close>

text \<open>
  After a failed \<open>mysql_stmt_store_result\<close> the constructor frees \<open>_rBind\<close> without clearing the pointer, and
  after a failed \<open>mysql_stmt_bind_result\<close> it frees the metadata without clearing that pointer: in both
  cases the destructor frees the memory again.  In all other cases it frees what there is, once.
\<close>

theorem failed_result_freed_twice:
  assumes "PreparedResultSet st result rowCount = Inr pr"
  shows "(PreparedResultSet_destroy pr = Inl Undefined) = (result \<and> (st_store_fails st \<or> st_bind_fails st))"
  using assms
  by (auto simp: PreparedResultSet_def PreparedResultSet_destroy_def PreparedResultSet_CleanUp_def Let_def bind_res_eq_Inr split: if_splits)

theorem failed_result_freed_twice_witness:
  "\<exists>pr. PreparedResultSet (sample_stmt\<lparr>st_store_fails := True\<rparr>) True 0 = Inr pr \<and> PreparedResultSet_destroy pr = Inl Undefined"
proof -
  obtain pr where "PreparedResultSet (sample_stmt\<lparr>st_store_fails := True\<rparr>) True 0 = Inr pr"
    by (simp add: PreparedResultSet_def)
  then show ?thesis using failed_result_freed_twice [of "sample_stmt\<lparr>st_store_fails := True\<rparr>" True 0 pr] by simp
qed

subsection \<open>Numbers of a prepared result\<close>

text \<open>The wire format of an integer: the bytes of its two's complement, the lowest first.\<close>

definition wire_int :: "int_type \<Rightarrow> int \<Rightarrow> u8 list" where
  "wire_int ty v = le_bytes (it_bits ty div 8) (nat (v mod 2 ^ it_bits ty))"

lemma wire_int_value:
  assumes "it_bits ty = 8 * k" and "0 < k" and "in_range ty v"
  shows "wrap_int ty (int (le_value (wire_int ty v))) = v"
proof -
  have "(256 :: nat) ^ k = 2 ^ it_bits ty" using assms(1) by (simp add: power_mult)
  moreover have "nat (v mod 2 ^ it_bits ty) < 2 ^ it_bits ty" by (simp add: nat_less_iff)
  ultimately have "int (le_value (wire_int ty v)) = v mod 2 ^ it_bits ty"
    using assms(1) by (simp add: wire_int_def le_value_le_bytes)
  moreover have "wrap_int ty (v mod 2 ^ it_bits ty) = wrap_int ty v" by (simp add: wrap_int_def)
  ultimately show ?thesis using wrap_int_id [OF assms(3)] assms(1,2) by simp
qed




end
