(* ===== verification/TimeString.thy ===== *)
theory TimeString
  imports StrUtil
begin

section \<open>Durations as text\<close>

text \<open>
  \<^verbatim>\<open>src/src/common/Utilities/Timer.cpp\<close> and \<^verbatim>\<open>StopWatch.h\<close>: \<open>ToTimeString\<close>, which the log messages of the
  database and the uptime of the bot use.  The count of a duration has 64 bits and a sign; dividing it by an
  unsigned constant converts it, so the units are those of the count modulo \<open>2 ^ 64\<close>, while the microseconds
  are the remainder of the signed division.  \<open>TimeToTimestampStr\<close>, a call of the C library, is left out.
\<close>

datatype TimeFormat = FullText | ShortText | Numeric

abbreviation (input) MILLISECONDS :: int where "MILLISECONDS \<equiv> 1000"
abbreviation (input) SECONDS :: int where "SECONDS \<equiv> 1000 * MILLISECONDS"
abbreviation (input) MINUTES :: int where "MINUTES \<equiv> 60 * SECONDS"
abbreviation (input) HOURS :: int where "HOURS \<equiv> 60 * MINUTES"
abbreviation (input) DAYS :: int where "DAYS \<equiv> 24 * HOURS"

text \<open>The six numbers, days first.\<close>

definition as_u64 :: "int \<Rightarrow> int" where
  "as_u64 v = v mod 2 ^ 64"

definition time_units :: "int \<Rightarrow> nat list" where
  "time_units d = (let u = as_u64 d in
     [nat (u div DAYS), nat (u div HOURS mod 24), nat (u div MINUTES mod 60), nat (u div SECONDS mod 60),
      nat (u div MILLISECONDS mod 1000), nat (as_u64 (if d < 0 then - (- d mod 1000) else d mod 1000))])"

text \<open>The state of the two lambdas: what they append to, the count, and \<open>isFirst\<close>.\<close>

record time_out =
  to_out :: string
  to_count :: nat
  to_isFirst :: bool

definition pad2 :: "nat \<Rightarrow> string" where
  "pad2 n = (if n < 10 then ''0'' @ show_nat n else show_nat n)"

definition AddOutNumerlic :: "nat \<Rightarrow> nat \<Rightarrow> time_out \<Rightarrow> time_out" where
  "AddOutNumerlic outCount v s =
     (if to_count s \<ge> outCount then s
      else let s = (if \<not> to_isFirst s then s\<lparr>to_isFirst := True, to_out := to_out s @ show_nat v @ '':''\<rparr>
                    else s\<lparr>to_out := to_out s @ pad2 v @ '':''\<rparr>)
           in s\<lparr>to_count := Suc (to_count s)\<rparr>)"

text \<open>The argument of \<open>AddOut\<close> has 32 bits.\<close>

definition AddOut :: "TimeFormat \<Rightarrow> nat \<Rightarrow> nat \<Rightarrow> string \<Rightarrow> string \<Rightarrow> string \<Rightarrow> time_out \<Rightarrow> time_out" where
  "AddOut timeFormat outCount v shortText fullText1 fullText s =
     (let timeCount = v mod 2 ^ 32
      in if to_count s \<ge> outCount then s
         else s\<lparr>to_out := to_out s @ show_nat timeCount @
                 (case timeFormat of
                    ShortText \<Rightarrow> shortText
                  | FullText \<Rightarrow> if timeCount = 1 then fullText1 else fullText
                  | Numeric \<Rightarrow> ''<Unknown time format>''),
               to_count := Suc (to_count s)\<rparr>)"

definition unit_texts :: "(string \<times> string \<times> string) list" where
  "unit_texts = [(''d '', '' Day '', '' Days ''), (''h '', '' Hour '', '' Hours ''), (''m '', '' Minute '', '' Minutes ''),
     (''s '', '' Second '', '' Seconds ''), (''ms '', '' Millisecond '', '' Milliseconds ''), (''us '', '' Microsecond '', '' Microseconds '')]"

definition ToTimeString :: "int \<Rightarrow> nat \<Rightarrow> TimeFormat \<Rightarrow> string" where
  "ToTimeString d outCount timeFormat =
     (let s = \<lparr>to_out = [], to_count = 0, to_isFirst = False\<rparr>
      in if timeFormat = Numeric then
           let s = fold (\<lambda>v s. if v \<noteq> 0 then AddOutNumerlic outCount v s else s) (time_units d) s
           in if to_out s \<noteq> [] then butlast (to_out s) else to_out s
         else
           let s = fold (\<lambda>(v, short, full1, full) s. if v \<noteq> 0 then AddOut timeFormat outCount v short full1 full s else s)
                     (zip (time_units d) unit_texts) s
           in TrimRight (to_out s))"

text \<open>The formatter of \<open>StopWatch\<close>.\<close>

definition format_StopWatch :: "int \<Rightarrow> nat \<Rightarrow> string" where
  "format_StopWatch elapsed outCount = ToTimeString elapsed outCount ShortText"

subsection \<open>What the text says\<close>

text \<open>The digits of a number in a mixed base.\<close>

lemma mixed_base:
  fixes d :: int
  shows "d = (d div DAYS) * DAYS + (d div HOURS mod 24) * HOURS + (d div MINUTES mod 60) * MINUTES
    + (d div SECONDS mod 60) * SECONDS + (d div MILLISECONDS mod 1000) * MILLISECONDS + d mod 1000"
proof -
  define a where "a = d div 1000"
  define b where "b = a div 1000"
  define c where "c = b div 60"
  define e where "e = c div 60"
  have s: "d div SECONDS = b" unfolding b_def a_def by (rule zdiv_zmult2_eq) simp
  have m: "d div MINUTES = c" unfolding c_def s [symmetric] by (subst mult.commute, rule zdiv_zmult2_eq) simp
  have h: "d div HOURS = e" unfolding e_def m [symmetric] by (subst mult.commute, rule zdiv_zmult2_eq) simp
  have "d div DAYS = e div 24" unfolding h [symmetric] by (subst mult.commute, rule zdiv_zmult2_eq) simp
  moreover have "d = 1000 * a + d mod 1000" "a = 1000 * b + a mod 1000" "b = 60 * c + b mod 60" "c = 60 * e + c mod 60"
    "e = 24 * (e div 24) + e mod 24"
    by (simp_all add: a_def b_def c_def e_def)
  ultimately show ?thesis unfolding s m h a_def [symmetric] by linarith
qed

lemma time_units_value:
  assumes "0 \<le> d" and "d < 2 ^ 63"
  shows "(\<Sum>(v, w) \<leftarrow> zip (time_units d) [DAYS, HOURS, MINUTES, SECONDS, MILLISECONDS, 1]. int v * w) = d"
proof -
  have u: "as_u64 d = d" using assms by (simp add: as_u64_def)
  have "d mod 1000 < 2 ^ 64" "0 \<le> d mod 1000" by (auto intro: less_trans [of _ 1000])
  then have "as_u64 (d mod 1000) = d mod 1000" by (simp add: as_u64_def)
  then show ?thesis
    using assms(1) mixed_base [of d] by (simp add: time_units_def u Let_def pos_imp_zdiv_nonneg_iff)
qed

text \<open>The lambdas stop at the count: they print the first \<open>outCount\<close> units that are not zero.\<close>

definition shown_units :: "int \<Rightarrow> nat \<Rightarrow> (nat \<times> string \<times> string \<times> string) list" where
  "shown_units d outCount = take outCount (filter (\<lambda>u. fst u \<noteq> 0) (zip (time_units d) unit_texts))"

definition unit_text :: "TimeFormat \<Rightarrow> nat \<times> string \<times> string \<times> string \<Rightarrow> string" where
  "unit_text timeFormat u = (case u of (v, short, full1, full) \<Rightarrow>
     show_nat (v mod 2 ^ 32) @ (if timeFormat = ShortText then short else if v mod 2 ^ 32 = 1 then full1 else full))"

lemma fold_AddOut:
  assumes "timeFormat \<noteq> Numeric"
  shows "to_out (fold (\<lambda>(v, short, full1, full) s. if v \<noteq> 0 then AddOut timeFormat outCount v short full1 full s else s) us s)
    = to_out s @ concat (map (unit_text timeFormat) (take (outCount - to_count s) (filter (\<lambda>u. fst u \<noteq> 0) us)))"
proof (induction us arbitrary: s)
  case (Cons u us)
  obtain v short full1 full where u: "u = (v, short, full1, full)" by (metis prod_cases4)
  show ?case
  proof (cases "v = 0 \<or> to_count s \<ge> outCount")
    case True
    then show ?thesis using Cons [of s] u by (auto simp: AddOut_def Let_def)
  next
    case False
    then obtain k where k: "outCount - to_count s = Suc k" "outCount - Suc (to_count s) = k" by (metis Suc_diff_Suc not_le)
    show ?thesis using False Cons k assms u by (cases timeFormat) (simp_all add: AddOut_def unit_text_def Let_def)
  qed
qed simp

lemma time_units_small:
  assumes "0 \<le> d" and "d < 2 ^ 63" and "v \<in> set (time_units d)"
  shows "v < 2 ^ 32"
proof -
  have u: "as_u64 d = d" using assms by (simp add: as_u64_def)
  have lim: "x mod 24 < 4294967296" "x mod 60 < 4294967296" "x mod 1000 < 4294967296" for x :: int
    using pos_mod_bound [of 24 x] pos_mod_bound [of 60 x] pos_mod_bound [of 1000 x] by linarith+
  have "as_u64 (d mod 1000) = d mod 1000"
    using pos_mod_bound [of 1000 d] pos_mod_sign [of 1000 d] by (simp add: as_u64_def)
  moreover have "d div 86400000000 < 4294967296" using zdiv_mono1 [of d "2 ^ 63" 86400000000] assms(2) by simp
  ultimately show ?thesis using assms(1,3) lim by (auto simp: time_units_def u Let_def nat_less_iff)
qed

lemma join_with_ends: "xs \<noteq> [] \<Longrightarrow> join_with c xs @ [c] = concat (map (\<lambda>x. x @ [c]) xs)"
  by (induction c xs rule: join_with.induct) simp_all

lemma join_with_last: "xs \<noteq> [] \<Longrightarrow> last xs \<noteq> [] \<Longrightarrow> last (join_with c xs) = last (last xs)"
  by (induction c xs rule: join_with.induct) (auto simp: join_with_Cons)

lemma unit_text_ends:
  assumes "u \<in> set (zip vs unit_texts)"
  shows "unit_text ShortText u = butlast (unit_text ShortText u) @ [CHR '' '']" and "last (butlast (unit_text ShortText u)) \<noteq> CHR '' ''"
    and "butlast (unit_text ShortText u) = show_nat (fst u mod 2 ^ 32) @ butlast (fst (snd u))" and "butlast (unit_text ShortText u) \<noteq> []"
proof -
  have "snd u \<in> set unit_texts" using assms by (metis prod.collapse set_zip_rightD)
  then have "fst (snd u) \<in> {''d '', ''h '', ''m '', ''s '', ''ms '', ''us ''}" by (auto simp: unit_texts_def)
  then show "unit_text ShortText u = butlast (unit_text ShortText u) @ [CHR '' '']" and "last (butlast (unit_text ShortText u)) \<noteq> CHR '' ''"
    and "butlast (unit_text ShortText u) = show_nat (fst u mod 2 ^ 32) @ butlast (fst (snd u))" and "butlast (unit_text ShortText u) \<noteq> []"
    by (cases u; auto simp: unit_text_def butlast_append)+
qed

definition unit_names :: "string list" where
  "unit_names = [''d'', ''h'', ''m'', ''s'', ''ms'', ''us'']"

lemma unit_names_eq: "unit_names = map (\<lambda>t. butlast (fst t)) unit_texts"
  by (simp add: unit_names_def unit_texts_def)

lemma TrimRight_units:
  assumes "set us \<subseteq> set (zip vs unit_texts)"
  shows "TrimRight (concat (map (unit_text ShortText) us)) = join_with (CHR '' '') (map (\<lambda>u. butlast (unit_text ShortText u)) us)"
proof (cases "us = []")
  case True
  then show ?thesis by (simp add: TrimRight_id)
next
  case False
  let ?xs = "map (\<lambda>u. butlast (unit_text ShortText u)) us"
  have "map (unit_text ShortText) us = map (\<lambda>x. x @ [CHR '' '']) ?xs"
    unfolding map_map comp_def by (rule map_cong [OF refl], rule unit_text_ends(1)) (use assms in blast)
  then have c: "concat (map (unit_text ShortText) us) = join_with (CHR '' '') ?xs @ [CHR '' '']"
    using join_with_ends [of ?xs "CHR '' ''"] False by (simp only: map_is_Nil_conv not_False_eq_True)
  have "last us \<in> set (zip vs unit_texts)" using assms False by auto
  then have "last (last ?xs) \<noteq> CHR '' ''" "last ?xs \<noteq> []" using False unit_text_ends(2,4) by (auto simp: last_map)
  then have "last (join_with (CHR '' '') ?xs) \<noteq> CHR '' ''"
    using False join_with_last [of ?xs "CHR '' ''"] by simp
  then show ?thesis unfolding c by (simp add: TrimRight_id)
qed

text \<open>
  The short text of a duration that is not negative is the first \<open>outCount\<close> of its units that are not
  zero, days before hours before minutes, seconds, milliseconds and microseconds, joined by single
  spaces; and the six units add up to the duration.
\<close>

theorem short_time_string:
  assumes "0 \<le> d" and "d < 2 ^ 63"
  shows "ToTimeString d outCount ShortText = join_with (CHR '' '') (map (\<lambda>(v, n). show_nat v @ n)
      (take outCount (filter (\<lambda>(v, n). v \<noteq> 0) (zip (time_units d) unit_names))))
    \<and> (\<Sum>(v, w) \<leftarrow> zip (time_units d) [DAYS, HOURS, MINUTES, SECONDS, MILLISECONDS, 1]. int v * w) = d"
proof -
  let ?us = "shown_units d outCount"
  have sub: "set ?us \<subseteq> set (zip (time_units d) unit_texts)"
    by (auto simp: shown_units_def dest: in_set_takeD)
  have "zip (time_units d) unit_names = map (\<lambda>u. (fst u, butlast (fst (snd u)))) (zip (time_units d) unit_texts)"
    by (simp add: unit_names_eq zip_map2 case_prod_beta)
  then have names: "take outCount (filter (\<lambda>(v, n). v \<noteq> 0) (zip (time_units d) unit_names)) = map (\<lambda>u. (fst u, butlast (fst (snd u)))) ?us"
    by (simp add: shown_units_def filter_map take_map comp_def)
  have "butlast (unit_text ShortText u) = show_nat (fst u) @ butlast (fst (snd u))" if "u \<in> set ?us" for u
  proof -
    have u: "u \<in> set (zip (time_units d) unit_texts)" using sub that by blast
    then have "fst u \<in> set (time_units d)" by (metis prod.collapse set_zip_leftD)
    then show ?thesis using unit_text_ends(3) [OF u] time_units_small [OF assms] by simp
  qed
  then have "map (\<lambda>u. butlast (unit_text ShortText u)) ?us = map (\<lambda>(v, n). show_nat v @ n) (map (\<lambda>u. (fst u, butlast (fst (snd u)))) ?us)"
    by simp
  moreover have "ToTimeString d outCount ShortText = TrimRight (concat (map (unit_text ShortText) ?us))"
    by (simp add: ToTimeString_def fold_AddOut shown_units_def Let_def del: neq0_conv)
  ultimately show ?thesis unfolding names using TrimRight_units [OF sub] time_units_value [OF assms] by (simp only: simp_thms)
qed

theorem short_time_string_witness:
  "ToTimeString 93784005006 3 ShortText = ''1d 2h 3m''"
proof -
  have "map (\<lambda>(v, n). show_nat v @ n) (take 3 (filter (\<lambda>(v, n). v \<noteq> 0) (zip (time_units 93784005006) unit_names))) = [''1d'', ''2h'', ''3m'']"
    by code_simp
  then show ?thesis using short_time_string [of 93784005006 3] by simp
qed

text \<open>
  The numeric format leaves out the units that are zero, so it does not tell an hour from a second.
\<close>

lemma numeric_ambiguous: "ToTimeString 3600000000 3 Numeric = ''1'' \<and> ToTimeString 1000000 3 Numeric = ''1''"
  by code_simp

end
