(* ===== verification/IntrusiveQueue.thy ===== *)
theory IntrusiveQueue
  imports Interfaces
begin

section \<open>The intrusive queue\<close>

text \<open>
  \<open>MPSCQueueIntrusive\<close> of \<^verbatim>\<open>src/src/common/Threading/MPSCQueue.h\<close>.  The nodes are the objects of the clients and carry
  their own link, so a value of the queue is the address of a node.  \<open>iq_link\<close> is the memory of the links:
  \<open>None\<close> for a node that is not alive, \<open>Some None\<close> for a null pointer.  Node 0 is \<open>_dummy\<close>, a part of the queue.

  A producer has two visible operations, the exchange of \<open>_head\<close> and the store to the link of the previous head.  The
  consumer reads the links and \<open>_head\<close> one after the other and may enqueue the dummy itself; \<open>cpc\<close> is
  where it is in \<open>Dequeue\<close>.  Between any two of these operations other threads may run.
\<close>

subsection \<open>The operations\<close>

abbreviation (input) dummy :: nat where "dummy \<equiv> 0"

record iq =
  iq_link :: "nat \<Rightarrow> nat option option"
  iq_head :: nat
  iq_tail :: nat

definition iq_new :: iq where
  "iq_new = \<lparr>iq_link = [dummy \<mapsto> None], iq_head = dummy, iq_tail = dummy\<rparr>"

definition load_link :: "nat \<Rightarrow> iq \<Rightarrow> nat option res" where
  "load_link n q = (case iq_link q n of None \<Rightarrow> Inl Undefined | Some l \<Rightarrow> Inr l)"

text \<open>The store of the null pointer and the exchange; the result is \<open>prevHead\<close>.\<close>

definition Enqueue_exchange :: "nat \<Rightarrow> iq \<Rightarrow> nat \<times> iq" where
  "Enqueue_exchange input q = (iq_head q, q\<lparr>iq_link := (iq_link q)(input \<mapsto> None), iq_head := input\<rparr>)"

definition Enqueue_link :: "nat \<Rightarrow> nat \<Rightarrow> iq \<Rightarrow> iq res" where
  "Enqueue_link prevHead input q =
     (case iq_link q prevHead of
        None \<Rightarrow> Inl Undefined
      | Some _ \<Rightarrow> Inr (q\<lparr>iq_link := (iq_link q)(prevHead \<mapsto> Some input)\<rparr>))"

definition Intrusive_Enqueue :: "nat \<Rightarrow> iq \<Rightarrow> iq res" where
  "Intrusive_Enqueue input q = (let (prevHead, q) = Enqueue_exchange input q in Enqueue_link prevHead input q)"

definition Intrusive_Dequeue :: "iq \<Rightarrow> (nat option \<times> iq) res" where
  "Intrusive_Dequeue q =
     bind_res (load_link (iq_tail q) q) (\<lambda>next.
       if iq_tail q = dummy \<and> next = None then Inr (None, q)
       else bind_res (if iq_tail q = dummy
                      then let q = q\<lparr>iq_tail := the next\<rparr> in bind_res (load_link (iq_tail q) q) (\<lambda>next. Inr (next, q))
                      else Inr (next, q)) (\<lambda>(next, q).
         case next of
           Some next \<Rightarrow> Inr (Some (iq_tail q), q\<lparr>iq_tail := next\<rparr>)
         | None \<Rightarrow>
             if iq_tail q \<noteq> iq_head q then Inr (None, q)
             else bind_res (Intrusive_Enqueue dummy q) (\<lambda>q.
                    bind_res (load_link (iq_tail q) q) (\<lambda>next.
                      case next of
                        Some next \<Rightarrow> Inr (Some (iq_tail q), q\<lparr>iq_tail := next\<rparr>)
                      | None \<Rightarrow> Inr (None, q)))))"

subsection \<open>The steps of the consumer\<close>

datatype cpc = CIdle | CSecond | CHead | CDummy | CLink nat | CFinal

datatype outcome = Goto cpc | Return "nat option"

text \<open>Returning the node at the tail when its link is known.\<close>

definition take_or :: "outcome \<Rightarrow> iq \<Rightarrow> (outcome \<times> iq) res" where
  "take_or otherwise q = bind_res (load_link (iq_tail q) q) (\<lambda>next.
     case next of
       Some next \<Rightarrow> Inr (Return (Some (iq_tail q)), q\<lparr>iq_tail := next\<rparr>)
     | None \<Rightarrow> Inr (otherwise, q))"

fun cstep :: "cpc \<Rightarrow> iq \<Rightarrow> (outcome \<times> iq) res" where
  "cstep CIdle q =
     (if iq_tail q = dummy
      then bind_res (load_link (iq_tail q) q) (\<lambda>next.
             case next of None \<Rightarrow> Inr (Return None, q) | Some next \<Rightarrow> Inr (Goto CSecond, q\<lparr>iq_tail := next\<rparr>))
      else take_or (Goto CHead) q)"
| "cstep CSecond q = take_or (Goto CHead) q"
| "cstep CHead q = Inr (if iq_tail q \<noteq> iq_head q then Return None else Goto CDummy, q)"
| "cstep CDummy q = (let (prevHead, q) = Enqueue_exchange dummy q in Inr (Goto (CLink prevHead), q))"
| "cstep (CLink prevHead) q = bind_res (Enqueue_link prevHead dummy q) (\<lambda>q. Inr (Goto CFinal, q))"
| "cstep CFinal q = take_or (Return None) q"

fun crun :: "nat \<Rightarrow> cpc \<Rightarrow> iq \<Rightarrow> (nat option \<times> iq) res option" where
  "crun 0 pc q = None"
| "crun (Suc k) pc q =
     (case cstep pc q of
        Inl e \<Rightarrow> Some (Inl e)
      | Inr (Return r, q) \<Rightarrow> Some (Inr (r, q))
      | Inr (Goto pc, q) \<Rightarrow> crun k pc q)"

text \<open>Without interference the steps are \<open>Dequeue\<close>.\<close>

lemma Dequeue_steps: "crun 6 CIdle q = Some (Intrusive_Dequeue q)"
  by (simp add: eval_nat_numeral Intrusive_Dequeue_def take_or_def Intrusive_Enqueue_def Enqueue_exchange_def Enqueue_link_def
      load_link_def Let_def split: option.splits if_splits)

subsection \<open>The threads\<close>

text \<open>
  \<open>is_links\<close> holds, for every producer between its two operations, the previous head and the node it enqueues.
  \<open>is_enq\<close> is the order of the exchanges and \<open>is_deq\<close> what the consumer has received.  The consumer owns the node it
  receives; the worst it can do is to delete it at once.
\<close>

record isys =
  is_q :: iq
  is_pc :: cpc
  is_links :: "nat \<rightharpoonup> nat \<times> nat"
  is_enq :: "nat list"
  is_deq :: "nat list"
  is_fault :: bool

definition isys_new :: isys where
  "isys_new = \<lparr>is_q = iq_new, is_pc = CIdle, is_links = Map.empty, is_enq = [], is_deq = [], is_fault = False\<rparr>"

definition delete_node :: "nat \<Rightarrow> iq \<Rightarrow> iq" where
  "delete_node n q = q\<lparr>iq_link := (iq_link q)(n := None)\<rparr>"

text \<open>The destructor, with fuel for its loop.\<close>

fun Intrusive_destroy :: "nat \<Rightarrow> iq \<Rightarrow> iq res option" where
  "Intrusive_destroy 0 q = None"
| "Intrusive_destroy (Suc fuel) q =
     (case Intrusive_Dequeue q of
        Inl e \<Rightarrow> Some (Inl e)
      | Inr (None, q) \<Rightarrow> Some (Inr q)
      | Inr (Some output, q) \<Rightarrow> Intrusive_destroy fuel (delete_node output q))"

inductive istep :: "isys \<Rightarrow> isys \<Rightarrow> bool" where
  p_exchange: "is_links s p = None \<Longrightarrow> n \<noteq> dummy \<Longrightarrow> iq_link (is_q s) n = None \<Longrightarrow>
     Enqueue_exchange n (is_q s) = (prevHead, q) \<Longrightarrow>
     istep s (s\<lparr>is_q := q, is_links := (is_links s)(p \<mapsto> (prevHead, n)), is_enq := is_enq s @ [n]\<rparr>)"
| p_link: "is_links s p = Some (prevHead, n) \<Longrightarrow> Enqueue_link prevHead n (is_q s) = Inr q \<Longrightarrow>
     istep s (s\<lparr>is_q := q, is_links := (is_links s)(p := None)\<rparr>)"
| p_fault: "is_links s p = Some (prevHead, n) \<Longrightarrow> Enqueue_link prevHead n (is_q s) = Inl e \<Longrightarrow> istep s (s\<lparr>is_fault := True\<rparr>)"
| c_goto: "cstep (is_pc s) (is_q s) = Inr (Goto pc, q) \<Longrightarrow> istep s (s\<lparr>is_q := q, is_pc := pc\<rparr>)"
| c_none: "cstep (is_pc s) (is_q s) = Inr (Return None, q) \<Longrightarrow> istep s (s\<lparr>is_q := q, is_pc := CIdle\<rparr>)"
| c_some: "cstep (is_pc s) (is_q s) = Inr (Return (Some n), q) \<Longrightarrow>
     istep s (s\<lparr>is_q := delete_node n q, is_pc := CIdle, is_deq := is_deq s @ [n]\<rparr>)"
| c_fault: "cstep (is_pc s) (is_q s) = Inl e \<Longrightarrow> istep s (s\<lparr>is_fault := True\<rparr>)"

subsection \<open>The chain of nodes\<close>

fun pairs :: "nat list \<Rightarrow> (nat \<times> nat) set" where
  "pairs (x # y # zs) = insert (x, y) (pairs (y # zs))"
| "pairs _ = {}"

lemma pairs_append: "xs \<noteq> [] \<Longrightarrow> pairs (xs @ [n]) = insert (last xs, n) (pairs xs)"
  by (induction xs rule: pairs.induct) auto

lemma pairs_mem: "(x, y) \<in> pairs xs \<Longrightarrow> x \<in> set xs \<and> y \<in> set (tl xs)"
  by (induction xs rule: pairs.induct) auto

lemma pairs_last: "distinct xs \<Longrightarrow> (x, y) \<in> pairs xs \<Longrightarrow> x \<noteq> last xs"
  by (induction xs rule: pairs.induct) (auto dest: pairs_mem)

lemma pairs_fun: "distinct xs \<Longrightarrow> (x, y) \<in> pairs xs \<Longrightarrow> (x, z) \<in> pairs xs \<Longrightarrow> y = z"
  by (induction xs rule: pairs.induct) (auto dest: pairs_mem)

text \<open>
  \<open>chain q L ch\<close>: \<open>ch\<close> are the nodes from \<open>_tail\<close> to \<open>_head\<close>, and \<open>L\<close> are the links that are still to be stored.
\<close>

definition chain :: "iq \<Rightarrow> (nat \<times> nat) set \<Rightarrow> nat list \<Rightarrow> bool" where
  "chain q L ch \<longleftrightarrow> ch \<noteq> [] \<and> hd ch = iq_tail q \<and> last ch = iq_head q \<and> distinct ch \<and>
     (\<forall>n. iq_link q n \<noteq> None \<longleftrightarrow> n \<in> set ch \<or> n = dummy) \<and>
     (\<forall>x y. (x, y) \<in> pairs ch \<longrightarrow> iq_link q x = Some (if (x, y) \<in> L then None else Some y)) \<and>
     iq_link q (last ch) = Some None \<and> L \<subseteq> pairs ch"

lemma chain_append:
  assumes "chain q L ch" "n \<notin> set ch" "Enqueue_exchange n q = (prevHead, q')"
  shows "prevHead = last ch \<and> chain q' (insert (prevHead, n) L) (ch @ [n]) \<and> iq_tail q' = iq_tail q"
  using assms by (auto simp: chain_def Enqueue_exchange_def pairs_append dest: pairs_mem pairs_last)

lemma chain_link:
  assumes c: "chain q L ch" and x: "(x, y) \<in> L"
  shows "\<exists>q'. Enqueue_link x y q = Inr q' \<and> chain q' (L - {(x, y)}) ch \<and> iq_tail q' = iq_tail q"
proof -
  have p: "(x, y) \<in> pairs ch" and d: "distinct ch" using c x by (auto simp: chain_def)
  have "x \<noteq> last ch" "iq_link q x = Some None" "x \<in> set ch" using pairs_last[OF d p] c x p pairs_mem[OF p] by (auto simp: chain_def)
  moreover have "\<And>z. (x, z) \<in> pairs ch \<Longrightarrow> z = y" using pairs_fun[OF d p] by blast
  ultimately show ?thesis using c by (auto simp: chain_def Enqueue_link_def)
qed

lemma chain_alive: "chain q L ch \<Longrightarrow> n \<in> set ch \<Longrightarrow> iq_link q n \<noteq> None"
  by (auto simp: chain_def)

lemma chain_tail: "chain q L ch \<Longrightarrow> iq_tail q \<in> set ch"
  by (auto simp: chain_def dest: hd_in_set)

lemma chain_next:
  assumes c: "chain q L ch" and n: "iq_link q (iq_tail q) = Some (Some y)"
  obtains r where "ch = iq_tail q # y # r" "\<And>z. (iq_tail q, z) \<notin> L"
proof -
  obtain r where ch: "ch = iq_tail q # r" using c by (cases ch) (auto simp: chain_def)
  obtain z zs where r: "r = z # zs" using c n ch by (cases r) (auto simp: chain_def)
  have z: "(iq_tail q, z) \<in> pairs ch" and d: "distinct ch" using c by (auto simp: ch r chain_def)
  have "iq_link q (iq_tail q) = Some (if (iq_tail q, z) \<in> L then None else Some z)" using c z by (auto simp: chain_def)
  hence y: "z = y" "(iq_tail q, y) \<notin> L" using n by (auto split: if_splits)
  have "(iq_tail q, w) \<notin> L" for w
  proof
    assume w: "(iq_tail q, w) \<in> L"
    hence "(iq_tail q, w) \<in> pairs ch" using c by (auto simp: chain_def)
    thus False using pairs_fun[OF d z] w y by blast
  qed
  thus thesis using that[of zs] ch r y by blast
qed

text \<open>The first node leaves the chain: the dummy stays alive, any other node is deleted.\<close>

lemma chain_drop:
  assumes c: "chain q L (n # y # r)" and n: "(n, y) \<notin> L"
    and lk: "\<And>x. x \<noteq> n \<Longrightarrow> lk x = iq_link q x" "lk n \<noteq> None \<longleftrightarrow> n = dummy"
  shows "chain (q\<lparr>iq_tail := y, iq_link := lk\<rparr>) L (y # r)"
proof -
  have d: "distinct (n # y # r)" and l: "L \<subseteq> pairs (n # y # r)" and h: "last (n # y # r) = iq_head q"
    and a: "\<And>m. iq_link q m \<noteq> None \<longleftrightarrow> m \<in> set (n # y # r) \<or> m = dummy"
    and k: "\<And>x z. (x, z) \<in> pairs (n # y # r) \<Longrightarrow> iq_link q x = Some (if (x, z) \<in> L then None else Some z)"
    and e: "iq_link q (last (n # y # r)) = Some None"
    using c unfolding chain_def by blast+
  have p: "x \<noteq> n" if "(x, z) \<in> pairs (y # r)" for x z using pairs_mem[OF that] d by auto
  have "last (y # r) \<noteq> n" using d last_in_set[of "y # r"] by (metis distinct.simps(2) list.distinct(1))
  hence last: "lk (last (y # r)) = Some None" using lk(1)[of "last (y # r)"] e by simp
  have alive: "lk m \<noteq> None \<longleftrightarrow> m \<in> set (y # r) \<or> m = dummy" for m
    using lk(1)[of m] lk(2) a[of m] d by (cases "m = n") auto
  show ?thesis unfolding chain_def
  proof (intro conjI allI impI)
    fix x z assume x: "(x, z) \<in> pairs (y # r)"
    show "iq_link (q\<lparr>iq_tail := y, iq_link := lk\<rparr>) x = Some (if (x, z) \<in> L then None else Some z)"
      using k[of x z] x lk(1)[OF p[OF x]] by simp
  qed (use d last_ConsR[of "y # r" n] h l n last alive in \<open>auto simp del: last.simps\<close>)
qed

lemma chain_skip:
  assumes "chain q L (dummy # y # r)" "(dummy, y) \<notin> L"
  shows "chain (q\<lparr>iq_tail := y\<rparr>) L (y # r)"
proof -
  have "q\<lparr>iq_tail := y, iq_link := iq_link q\<rparr> = q\<lparr>iq_tail := y\<rparr>" by (cases q) simp
  thus ?thesis using chain_drop[OF assms, of "iq_link q"] chain_alive[OF assms(1), of dummy] by simp
qed

lemma chain_pop:
  assumes "chain q L (n # y # r)" "(n, y) \<notin> L" "n \<noteq> dummy"
  shows "chain (delete_node n (q\<lparr>iq_tail := y\<rparr>)) L (y # r)"
  using chain_drop[OF assms(1,2), of "(iq_link q)(n := None)"] assms(3) by (simp add: delete_node_def)

subsection \<open>The invariant\<close>

abbreviation (input) live :: "nat list \<Rightarrow> nat list" where "live ch \<equiv> filter (\<lambda>n. n \<noteq> dummy) ch"

fun own_links :: "cpc \<Rightarrow> (nat \<times> nat) set" where
  "own_links (CLink prevHead) = {(prevHead, dummy)}"
| "own_links _ = {}"

definition cpc_ok :: "cpc \<Rightarrow> iq \<Rightarrow> nat list \<Rightarrow> bool" where
  "cpc_ok pc q ch \<longleftrightarrow> (pc = CIdle \<or> iq_tail q \<noteq> dummy) \<and> (pc = CDummy \<longrightarrow> dummy \<notin> set ch)"

text \<open>What an outcome leaves of the chain \<open>ch\<close>, when the producers have the links \<open>R\<close> to store.\<close>

fun outcome_ok :: "(nat \<times> nat) set \<Rightarrow> nat list \<Rightarrow> (outcome \<times> iq) res \<Rightarrow> bool" where
  "outcome_ok R ch (Inl e) = False"
| "outcome_ok R ch (Inr (Goto pc, q)) = (\<exists>ch'. chain q (R \<union> own_links pc) ch' \<and> cpc_ok pc q ch' \<and> live ch' = live ch)"
| "outcome_ok R ch (Inr (Return None, q)) = chain q R ch"
| "outcome_ok R ch (Inr (Return (Some n), q)) = (\<exists>ch'. chain (delete_node n q) R ch' \<and> live ch = n # live ch')"

lemma take_or_ok:
  assumes c: "chain q R ch" and t: "iq_tail q \<noteq> dummy" and alt: "outcome_ok R ch (Inr (alt, q))"
  shows "outcome_ok R ch (take_or alt q)"
proof (cases "iq_link q (iq_tail q)")
  case None
  thus ?thesis using chain_alive[OF c chain_tail[OF c]] by simp
next
  case (Some l)
  show ?thesis
  proof (cases l)
    case None
    thus ?thesis using Some alt by (simp add: take_or_def load_link_def)
  next
    case l: (Some y)
    obtain r where r: "ch = iq_tail q # y # r" "\<And>z. (iq_tail q, z) \<notin> R" using chain_next[OF c] Some l by blast
    have "chain (delete_node (iq_tail q) (q\<lparr>iq_tail := y\<rparr>)) R (y # r)"
      by (rule chain_pop[OF _ r(2) t]) (use c r(1) in simp)
    moreover have "live ch = iq_tail q # live (y # r)" using t by (subst r(1)) simp
    ultimately have "\<exists>ch'. chain (delete_node (iq_tail q) (q\<lparr>iq_tail := y\<rparr>)) R ch' \<and> live ch = iq_tail q # live ch'" by blast
    thus ?thesis using Some l by (simp add: take_or_def load_link_def)
  qed
qed

lemma skip_ok:
  assumes c: "chain q R ch" and t: "iq_tail q = dummy"
  shows "outcome_ok R ch (cstep CIdle q)"
proof (cases "iq_link q dummy")
  case None
  thus ?thesis using chain_alive[OF c chain_tail[OF c]] t by simp
next
  case (Some l)
  show ?thesis
  proof (cases l)
    case None
    thus ?thesis using Some c t by (simp add: load_link_def)
  next
    case l: (Some y)
    obtain r where r: "ch = dummy # y # r" "\<And>z. (dummy, z) \<notin> R" using chain_next[OF c] Some l t by metis
    have "chain (q\<lparr>iq_tail := y\<rparr>) R (y # r)" by (rule chain_skip[OF _ r(2)]) (use c r(1) in simp)
    moreover have "y \<noteq> dummy" using c r(1) by (auto simp: chain_def)
    ultimately show ?thesis using Some l t r(1)
      by (auto simp: load_link_def cpc_ok_def intro!: exI[of _ "y # r"])
  qed
qed

lemma head_ok:
  assumes c: "chain q R ch" and t: "iq_tail q \<noteq> dummy"
  shows "outcome_ok R ch (cstep CHead q)"
proof (cases "iq_tail q = iq_head q")
  case True
  hence "ch = [iq_tail q]" using c by (cases ch) (auto simp: chain_def split: if_splits dest: last_in_set)
  thus ?thesis using c t True by (auto simp: cpc_ok_def)
qed (use c in simp)

lemma cstep_ok:
  assumes c: "chain q (R \<union> own_links pc) ch" and k: "cpc_ok pc q ch" and R: "\<And>x. (x, dummy) \<notin> R"
  shows "outcome_ok R ch (cstep pc q)"
proof (cases pc)
  case CIdle
  thus ?thesis using c skip_ok[of q R ch] take_or_ok[of q R ch "Goto CHead"] by (cases "iq_tail q = dummy") (auto simp: cpc_ok_def)
next
  case CSecond
  thus ?thesis using c k take_or_ok[of q R ch "Goto CHead"] by (auto simp: cpc_ok_def)
next
  case CHead
  thus ?thesis using c k head_ok[of q R ch] by (simp add: cpc_ok_def)
next
  case CDummy
  obtain p q' where e: "Enqueue_exchange dummy q = (p, q')" by fastforce
  have a: "chain q' (insert (p, dummy) R) (ch @ [dummy])" "iq_tail q' = iq_tail q"
    using chain_append[OF _ _ e, of R ch] c k CDummy by (auto simp: cpc_ok_def)
  thus ?thesis using CDummy k e by (auto simp: cpc_ok_def intro!: exI[of _ "ch @ [dummy]"])
next
  case (CLink p)
  obtain q' where e: "Enqueue_link p dummy q = Inr q'" "chain q' (insert (p, dummy) R - {(p, dummy)}) ch" "iq_tail q' = iq_tail q"
    using chain_link[OF c, of p dummy] CLink by auto
  moreover have "insert (p, dummy) R - {(p, dummy)} = R" using R by blast
  ultimately show ?thesis using CLink k by (auto simp: cpc_ok_def)
next
  case CFinal
  thus ?thesis using c k take_or_ok[of q R ch "Return None"] by (simp add: cpc_ok_def)
qed

definition isys_inv :: "isys \<Rightarrow> bool" where
  "isys_inv s \<longleftrightarrow> \<not> is_fault s \<and> inj_on (is_links s) (dom (is_links s)) \<and> (\<forall>x. (x, dummy) \<notin> ran (is_links s)) \<and>
     dummy \<notin> set (is_enq s) \<and>
     (\<exists>ch. chain (is_q s) (ran (is_links s) \<union> own_links (is_pc s)) ch \<and> cpc_ok (is_pc s) (is_q s) ch \<and>
           is_enq s = is_deq s @ live ch)"

inductive isys_reach :: "isys \<Rightarrow> bool" where
  ireach_new: "isys_reach isys_new"
| ireach_step: "isys_reach s \<Longrightarrow> istep s s' \<Longrightarrow> isys_reach s'"

lemma isys_inv_new: "isys_inv isys_new"
  by (auto simp: isys_inv_def isys_new_def iq_new_def chain_def cpc_ok_def intro!: exI[of _ "[dummy]"])

lemma isys_inv_exchange:
  assumes i: "isys_inv s" and p: "is_links s p = None" and n: "n \<noteq> dummy" "iq_link (is_q s) n = None"
    and e: "Enqueue_exchange n (is_q s) = (prevHead, q)"
  shows "isys_inv (s\<lparr>is_q := q, is_links := (is_links s)(p \<mapsto> (prevHead, n)), is_enq := is_enq s @ [n]\<rparr>)"
proof -
  obtain ch where c: "chain (is_q s) (ran (is_links s) \<union> own_links (is_pc s)) ch" "cpc_ok (is_pc s) (is_q s) ch"
      "is_enq s = is_deq s @ live ch" using i by (auto simp: isys_inv_def)
  have fresh: "n \<notin> set ch" using chain_alive[OF c(1)] n(2) by blast
  have a: "chain q (insert (prevHead, n) (ran (is_links s) \<union> own_links (is_pc s))) (ch @ [n])" "iq_tail q = iq_tail (is_q s)"
    using chain_append[OF c(1) fresh e] by auto
  have r: "ran ((is_links s)(p \<mapsto> (prevHead, n))) = insert (prevHead, n) (ran (is_links s))" using p by (rule ran_map_upd)
  have "(x, n) \<notin> ran (is_links s)" for x
    using c(1) fresh pairs_mem[of x n ch] list.set_sel(2)[of ch n] by (auto simp: chain_def)
  hence "inj_on ((is_links s)(p \<mapsto> (prevHead, n))) (dom ((is_links s)(p \<mapsto> (prevHead, n))))"
    using i p by (auto simp: isys_inv_def inj_on_def ran_def)
  thus ?thesis using i r a c(2,3) n(1) by (auto simp: isys_inv_def cpc_ok_def intro!: exI[of _ "ch @ [n]"])
qed

lemma ran_unset:
  assumes "inj_on m (dom m)" "m p = Some v"
  shows "ran (m(p := None)) = ran m - {v}"
  using assms by (auto simp: ran_def inj_on_def dom_def) (metis option.inject)+

lemma isys_inv_link:
  assumes i: "isys_inv s" and p: "is_links s p = Some (prevHead, n)"
  shows "\<exists>q. Enqueue_link prevHead n (is_q s) = Inr q \<and> isys_inv (s\<lparr>is_q := q, is_links := (is_links s)(p := None)\<rparr>)"
proof -
  obtain ch where c: "chain (is_q s) (ran (is_links s) \<union> own_links (is_pc s)) ch" "cpc_ok (is_pc s) (is_q s) ch"
      "is_enq s = is_deq s @ live ch" using i by (auto simp: isys_inv_def)
  have m: "(prevHead, n) \<in> ran (is_links s)" using p by (auto simp: ran_def)
  obtain q where q: "Enqueue_link prevHead n (is_q s) = Inr q"
      "chain q (ran (is_links s) \<union> own_links (is_pc s) - {(prevHead, n)}) ch" "iq_tail q = iq_tail (is_q s)"
    using chain_link[OF c(1), of prevHead n] m by blast
  have "n \<noteq> dummy" using i m by (metis isys_inv_def)
  hence "ran (is_links s) \<union> own_links (is_pc s) - {(prevHead, n)} = ran ((is_links s)(p := None)) \<union> own_links (is_pc s)"
    using ran_unset[of "is_links s" p] i p by (cases "is_pc s") (auto simp: isys_inv_def)
  moreover have "inj_on ((is_links s)(p := None)) (dom ((is_links s)(p := None)))"
    using i by (auto simp: isys_inv_def inj_on_def)
  ultimately show ?thesis using i q c p ran_unset[of "is_links s" p] by (auto simp: isys_inv_def cpc_ok_def)
qed

lemma isys_inv_consumer:
  assumes i: "isys_inv s"
  shows "case cstep (is_pc s) (is_q s) of
      Inl e \<Rightarrow> False
    | Inr (Goto pc, q) \<Rightarrow> isys_inv (s\<lparr>is_q := q, is_pc := pc\<rparr>)
    | Inr (Return None, q) \<Rightarrow> isys_inv (s\<lparr>is_q := q, is_pc := CIdle\<rparr>)
    | Inr (Return (Some n), q) \<Rightarrow> isys_inv (s\<lparr>is_q := delete_node n q, is_pc := CIdle, is_deq := is_deq s @ [n]\<rparr>)"
proof -
  obtain ch where c: "chain (is_q s) (ran (is_links s) \<union> own_links (is_pc s)) ch" "cpc_ok (is_pc s) (is_q s) ch"
      "is_enq s = is_deq s @ live ch" using i by (auto simp: isys_inv_def)
  have o: "outcome_ok (ran (is_links s)) ch (cstep (is_pc s) (is_q s))"
    by (rule cstep_ok[OF c(1,2)]) (use i in \<open>simp add: isys_inv_def\<close>)
  have base: "\<not> is_fault s" "inj_on (is_links s) (dom (is_links s))" "\<And>x. (x, dummy) \<notin> ran (is_links s)" "dummy \<notin> set (is_enq s)"
    using i by (auto simp: isys_inv_def)
  consider e where "cstep (is_pc s) (is_q s) = Inl e" | pc q where "cstep (is_pc s) (is_q s) = Inr (Goto pc, q)"
    | q where "cstep (is_pc s) (is_q s) = Inr (Return None, q)" | n q where "cstep (is_pc s) (is_q s) = Inr (Return (Some n), q)"
    by (metis old.sum.exhaust prod.collapse outcome.exhaust option.exhaust)
  thus ?thesis
  proof cases
    case (2 pc q)
    then obtain ch' where "chain q (ran (is_links s) \<union> own_links pc) ch'" "cpc_ok pc q ch'" "live ch' = live ch" using o by auto
    thus ?thesis using 2 base c(3) by (simp add: isys_inv_def) metis
  next
    case (3 q)
    thus ?thesis using o base c(3) by (auto simp: isys_inv_def cpc_ok_def)
  next
    case (4 n q)
    then obtain ch' where "chain (delete_node n q) (ran (is_links s)) ch'" "live ch = n # live ch'" using o by auto
    thus ?thesis using 4 base c(3) by (auto simp: isys_inv_def cpc_ok_def)
  qed (use o in simp)
qed

lemma isys_inv_step: "istep s s' \<Longrightarrow> isys_inv s \<Longrightarrow> isys_inv s'"
proof (induction rule: istep.induct)
  case (p_link s p prevHead n q)
  thus ?case using isys_inv_link[of s p prevHead n] by auto
next
  case (p_fault s p prevHead n e)
  thus ?case using isys_inv_link[of s p prevHead n] by auto
next
  case (p_exchange s p n prevHead q)
  thus ?case by (intro isys_inv_exchange)
qed (auto dest!: isys_inv_consumer)

lemma isys_reach_inv: "isys_reach s \<Longrightarrow> isys_inv s"
  by (induction rule: isys_reach.induct) (auto intro: isys_inv_new isys_inv_step)

subsection \<open>The quiet queue\<close>

lemma quiet_Dequeue:
  assumes "chain q {} ch"
  shows "\<exists>q'. Intrusive_Dequeue q = Inr (if live ch = [] then None else Some (hd (live ch)), q')"
proof -
  obtain x r where ch: "ch = x # r" using assms by (cases ch) (auto simp: chain_def)
  note defs = Intrusive_Dequeue_def load_link_def Intrusive_Enqueue_def Enqueue_exchange_def Enqueue_link_def
  show ?thesis
  proof (cases r)
    case Nil
    hence "iq_link q x = Some None" "iq_tail q = x" "iq_head q = x" using assms ch by (auto simp: chain_def)
    thus ?thesis using ch Nil by (cases "x = dummy") (auto simp: defs)
  next
    case (Cons y zs)
    have "zs \<noteq> [] \<Longrightarrow> iq_link q y = Some (Some (hd zs))" "zs = [] \<Longrightarrow> iq_link q y = Some None \<and> iq_head q = y"
      "iq_link q x = Some (Some y)" "iq_tail q = x" "x \<noteq> y"
      using assms ch Cons by (cases zs; auto simp: chain_def)+
    thus ?thesis using ch Cons by (cases "zs = []"; cases "x = dummy") (auto simp: defs)
  qed
qed

fun result_ok :: "nat list \<Rightarrow> (nat option \<times> iq) res \<Rightarrow> bool" where
  "result_ok vs (Inl e) = False"
| "result_ok vs (Inr (None, q)) = (\<exists>ch. chain q {} ch \<and> vs = live ch)"
| "result_ok vs (Inr (Some n, q)) = (\<exists>ch. chain (delete_node n q) {} ch \<and> vs = n # live ch)"

lemma crun_ok:
  assumes "chain q (own_links pc) ch" "cpc_ok pc q ch" "crun k pc q = Some r"
  shows "result_ok (live ch) r"
  using assms
proof (induction k arbitrary: pc q ch)
  case (Suc k)
  have o: "outcome_ok {} ch (cstep pc q)" by (rule cstep_ok) (use Suc.prems in auto)
  consider e where "cstep pc q = Inl e" | pc' q' where "cstep pc q = Inr (Goto pc', q')"
    | q' where "cstep pc q = Inr (Return None, q')" | n q' where "cstep pc q = Inr (Return (Some n), q')"
    by (metis old.sum.exhaust prod.collapse outcome.exhaust option.exhaust)
  thus ?case
  proof cases
    case (2 pc' q')
    then obtain ch' where ch: "chain q' (own_links pc') ch'" "cpc_ok pc' q' ch'" "live ch' = live ch" using o by auto
    show ?thesis using Suc.IH[OF ch(1,2)] Suc.prems(3) 2 ch(3) by simp
  qed (use o Suc.prems in auto)
qed simp

lemma Dequeue_ok: "chain q {} ch \<Longrightarrow> result_ok (live ch) (Intrusive_Dequeue q)"
  using crun_ok[OF _ _ Dequeue_steps, of q ch] by (simp add: cpc_ok_def)

text \<open>The destructor ends and deletes every node that was not received: only the dummy is alive afterwards.\<close>

lemma destroy_ok:
  assumes "chain q {} ch" "length (live ch) < fuel"
  shows "\<exists>q'. Intrusive_destroy fuel q = Some (Inr q') \<and> (\<forall>n. iq_link q' n \<noteq> None \<longleftrightarrow> n = dummy)"
  using assms
proof (induction fuel arbitrary: q ch)
  case (Suc fuel)
  obtain q' where d: "Intrusive_Dequeue q = Inr (if live ch = [] then None else Some (hd (live ch)), q')"
    using quiet_Dequeue[OF Suc.prems(1)] by blast
  show ?case
  proof (cases "live ch")
    case Nil
    then obtain ch' where "chain q' {} ch'" "live ch' = []" using Dequeue_ok[OF Suc.prems(1)] d by auto
    hence "iq_link q' n \<noteq> None \<longleftrightarrow> n = dummy" for n by (auto simp: chain_def filter_empty_conv)
    thus ?thesis using d Nil by simp
  next
    case (Cons n vs)
    then obtain ch' where "chain (delete_node n q') {} ch'" "live ch' = vs" using Dequeue_ok[OF Suc.prems(1)] d by auto
    thus ?thesis using Suc.IH[of "delete_node n q'" ch'] Suc.prems(2) d Cons by simp
  qed
qed simp

text \<open>
  C24: The intrusive queue under any interleaving of any number of producers with the consumer, every node deleted as soon as it is received:
  no step touches a deleted node, the consumer never receives the dummy, and it receives the nodes in the
  order in which the producers exchanged the head.  When no producer is between its two operations, \<open>Dequeue\<close> returns the
  first node that has not been received, and false exactly when there is none, and the destructor ends with every node
  but the dummy deleted.
\<close>

theorem intrusive_safe_fifo:
  assumes "isys_reach s"
  shows "\<not> is_fault s \<and> is_deq s = take (length (is_deq s)) (is_enq s) \<and> dummy \<notin> set (is_enq s) \<and>
    (is_links s = Map.empty \<longrightarrow> is_pc s = CIdle \<longrightarrow>
     (\<exists>q. Intrusive_Dequeue (is_q s) =
        Inr (if is_deq s = is_enq s then None else Some (is_enq s ! length (is_deq s)), q)) \<and>
     (\<exists>q. Intrusive_destroy (Suc (length (is_enq s))) (is_q s) = Some (Inr q) \<and> (\<forall>n. iq_link q n \<noteq> None \<longleftrightarrow> n = dummy)))"
proof -
  obtain ch where c: "chain (is_q s) (ran (is_links s) \<union> own_links (is_pc s)) ch" "is_enq s = is_deq s @ live ch"
      "\<not> is_fault s" "dummy \<notin> set (is_enq s)" using isys_reach_inv[OF assms] by (auto simp: isys_inv_def)
  have "\<exists>q. Intrusive_Dequeue (is_q s) = Inr (if is_deq s = is_enq s then None else Some (is_enq s ! length (is_deq s)), q)"
    if "is_links s = Map.empty" "is_pc s = CIdle"
    using quiet_Dequeue[of "is_q s" ch] c(1,2) that by (cases "live ch") auto
  moreover have "\<exists>q. Intrusive_destroy (Suc (length (is_enq s))) (is_q s) = Some (Inr q) \<and> (\<forall>n. iq_link q n \<noteq> None \<longleftrightarrow> n = dummy)"
    if "is_links s = Map.empty" "is_pc s = CIdle"
    by (rule destroy_ok[of _ ch]) (use c(1,2) that in simp_all)
  ultimately show ?thesis using c(2,3,4) by simp
qed

text \<open>One producer has enqueued the node 5.\<close>

definition sample_intrusive :: isys where
  "sample_intrusive =
     isys_new\<lparr>is_q := iq_new\<lparr>iq_link := [dummy \<mapsto> None, 5 \<mapsto> None, dummy \<mapsto> Some 5], iq_head := 5\<rparr>,
       is_links := Map.empty(0 \<mapsto> (dummy, 5), 0 := None), is_enq := [5]\<rparr>"

lemma sample_intrusive_reach: "isys_reach sample_intrusive"
proof -
  let ?q = "iq_new\<lparr>iq_link := [dummy \<mapsto> None, 5 \<mapsto> None], iq_head := 5\<rparr>"
  let ?s = "isys_new\<lparr>is_q := ?q, is_links := [0 \<mapsto> (dummy, 5)], is_enq := [5]\<rparr>"
  have "istep isys_new (isys_new\<lparr>is_q := ?q, is_links := (is_links isys_new)(0 \<mapsto> (dummy, 5)), is_enq := is_enq isys_new @ [5]\<rparr>)"
    by (rule p_exchange) (simp_all add: isys_new_def iq_new_def Enqueue_exchange_def)
  hence s: "isys_reach ?s" using ireach_step[OF ireach_new] by (simp add: isys_new_def)
  have "istep ?s (?s\<lparr>is_q := ?q\<lparr>iq_link := [dummy \<mapsto> None, 5 \<mapsto> None, dummy \<mapsto> Some 5]\<rparr>, is_links := (is_links ?s)(0 := None)\<rparr>)"
    by (rule p_link[of _ _ dummy 5]) (simp_all add: isys_new_def iq_new_def Enqueue_link_def)
  thus ?thesis using ireach_step[OF s] by (simp add: sample_intrusive_def isys_new_def iq_new_def)
qed

theorem intrusive_safe_fifo_witness:
  "\<exists>q. Intrusive_Dequeue (is_q sample_intrusive) = Inr (Some 5, q)"
  using intrusive_safe_fifo[OF sample_intrusive_reach] by (simp add: sample_intrusive_def isys_new_def)

end
