(* ===== verification/BigNumber.thy ===== *)
theory BigNumber
  imports StrUtil
begin

section \<open>Big numbers\<close>

text \<open>
  \<^verbatim>\<open>src/src/common/Cryptography/BigNumber.cpp\<close> and \<^verbatim>\<open>BigNumber.h\<close>.  The class wraps the \<^verbatim>\<open>BIGNUM\<close> of OpenSSL,
  which is a parameter: \<open>bn_ops\<close> has one field for each function the class calls, on numbers of an arbitrary
  type.  \<open>bn_laws\<close> states what the manual of OpenSSL says about them, for a function \<open>val\<close> from the numbers to
  the integers.  The functions that write a number to a buffer give \<open>None\<close> where OpenSSL returns \<open>-1\<close>.  A \<^verbatim>\<open>BigNumber\<close>
  is its number; an operation with assignment returns the new one.  The branches for OpenSSL before
  1.1 are not modelled.
\<close>

subsection \<open>The functions of OpenSSL\<close>

record 'n bn_ops =
  BN_new :: 'n
  BN_set_word :: "nat \<Rightarrow> 'n"
  BN_set_negative :: "'n \<Rightarrow> bool \<Rightarrow> 'n"
  BN_lshift :: "'n \<Rightarrow> nat \<Rightarrow> 'n"
  BN_add_word :: "'n \<Rightarrow> nat \<Rightarrow> 'n"
  BN_lebin2bn :: "u8 list \<Rightarrow> 'n"
  BN_bin2bn :: "u8 list \<Rightarrow> 'n"
  BN_hex2bn :: "'n \<Rightarrow> string \<Rightarrow> int \<times> 'n"
  BN_add :: "'n \<Rightarrow> 'n \<Rightarrow> 'n"
  BN_sub :: "'n \<Rightarrow> 'n \<Rightarrow> 'n"
  BN_mul :: "'n \<Rightarrow> 'n \<Rightarrow> 'n"
  BN_div :: "'n \<Rightarrow> 'n \<Rightarrow> 'n"
  BN_mod :: "'n \<Rightarrow> 'n \<Rightarrow> 'n"
  BN_exp :: "'n \<Rightarrow> 'n \<Rightarrow> 'n"
  BN_mod_exp :: "'n \<Rightarrow> 'n \<Rightarrow> 'n \<Rightarrow> 'n"
  BN_cmp :: "'n \<Rightarrow> 'n \<Rightarrow> int"
  BN_num_bytes :: "'n \<Rightarrow> nat"
  BN_get_word :: "'n \<Rightarrow> nat"
  BN_is_zero :: "'n \<Rightarrow> bool"
  BN_is_negative :: "'n \<Rightarrow> bool"
  BN_bn2lebinpad :: "'n \<Rightarrow> nat \<Rightarrow> u8 list option"
  BN_bn2binpad :: "'n \<Rightarrow> nat \<Rightarrow> u8 list option"

subsection \<open>The class\<close>

definition SetDword :: "'n bn_ops \<Rightarrow> u32 \<Rightarrow> 'n" where
  "SetDword L v = BN_set_word L (unat v)"

text \<open>\<^verbatim>\<open>std::abs\<close> of the smallest number is not defined.\<close>

definition SetDword_int :: "'n bn_ops \<Rightarrow> 32 word \<Rightarrow> 'n res" where
  "SetDword_int L v =
     (if sint v = - (2 ^ 31) then Inl Undefined
      else let n = SetDword L (word_of_int \<bar>sint v\<bar>)
           in Inr (if sint v < 0 then BN_set_negative L n True else n))"

definition SetQword :: "'n bn_ops \<Rightarrow> u64 \<Rightarrow> 'n" where
  "SetQword L v =
     (let n = BN_set_word L (unat (ucast (drop_bit 32 v) :: u32));
          n = BN_lshift L n 32
      in BN_add_word L n (unat (ucast (and v 0xFFFFFFFF) :: u32)))"

definition SetBinary :: "'n bn_ops \<Rightarrow> u8 list \<Rightarrow> bool \<Rightarrow> 'n" where
  "SetBinary L bytes littleEndian = (if littleEndian then BN_lebin2bn L bytes else BN_bin2bn L bytes)"

definition SetHexStr :: "'n bn_ops \<Rightarrow> string \<Rightarrow> 'n \<Rightarrow> bool \<times> 'n" where
  "SetHexStr L str n = (let (r, n) = BN_hex2bn L n str in (r > 0, n))"

definition BigNumber_plus :: "'n bn_ops \<Rightarrow> 'n \<Rightarrow> 'n \<Rightarrow> 'n" where
  "BigNumber_plus L a b = BN_add L a b"

definition BigNumber_minus :: "'n bn_ops \<Rightarrow> 'n \<Rightarrow> 'n \<Rightarrow> 'n" where
  "BigNumber_minus L a b = BN_sub L a b"

definition BigNumber_times :: "'n bn_ops \<Rightarrow> 'n \<Rightarrow> 'n \<Rightarrow> 'n" where
  "BigNumber_times L a b = BN_mul L a b"

definition BigNumber_divide :: "'n bn_ops \<Rightarrow> 'n \<Rightarrow> 'n \<Rightarrow> 'n" where
  "BigNumber_divide L a b = BN_div L a b"

definition BigNumber_mod :: "'n bn_ops \<Rightarrow> 'n \<Rightarrow> 'n \<Rightarrow> 'n" where
  "BigNumber_mod L a b = BN_mod L a b"

definition BigNumber_shift :: "'n bn_ops \<Rightarrow> 'n \<Rightarrow> nat \<Rightarrow> 'n" where
  "BigNumber_shift L a k = BN_lshift L a k"

definition CompareTo :: "'n bn_ops \<Rightarrow> 'n \<Rightarrow> 'n \<Rightarrow> int" where
  "CompareTo L a b = BN_cmp L a b"

definition BigNumber_Exp :: "'n bn_ops \<Rightarrow> 'n \<Rightarrow> 'n \<Rightarrow> 'n" where
  "BigNumber_Exp L a e = BN_exp L a e"

definition ModExp :: "'n bn_ops \<Rightarrow> 'n \<Rightarrow> 'n \<Rightarrow> 'n \<Rightarrow> 'n" where
  "ModExp L a bn1 bn2 = BN_mod_exp L a bn1 bn2"

definition GetNumBytes :: "'n bn_ops \<Rightarrow> 'n \<Rightarrow> nat" where
  "GetNumBytes L n = BN_num_bytes L n"

definition AsDword :: "'n bn_ops \<Rightarrow> 'n \<Rightarrow> u32" where
  "AsDword L n = of_nat (BN_get_word L n)"

definition BigNumber_IsZero :: "'n bn_ops \<Rightarrow> 'n \<Rightarrow> bool" where
  "BigNumber_IsZero L n = BN_is_zero L n"

definition IsNegative :: "'n bn_ops \<Rightarrow> 'n \<Rightarrow> bool" where
  "IsNegative L n = BN_is_negative L n"

text \<open>On success \<open>res\<close> is the size of the buffer.\<close>

definition GetBytes :: "'n bn_ops \<Rightarrow> 'n \<Rightarrow> nat \<Rightarrow> bool \<Rightarrow> u8 list res" where
  "GetBytes L n bufsize littleEndian =
     (case (if littleEndian then BN_bn2lebinpad L n bufsize else BN_bn2binpad L n bufsize) of
        None \<Rightarrow> Inl AssertFailure
      | Some bytes \<Rightarrow> bind_res (assert_res (bufsize > 0)) (\<lambda>_. Inr bytes))"

definition ToByteArray :: "'n bn_ops \<Rightarrow> nat \<Rightarrow> 'n \<Rightarrow> bool \<Rightarrow> u8 list res" where
  "ToByteArray L size' n littleEndian = GetBytes L n size' littleEndian"

definition ToByteVector :: "'n bn_ops \<Rightarrow> int \<Rightarrow> 'n \<Rightarrow> bool \<Rightarrow> u8 list res" where
  "ToByteVector L minSize n littleEndian =
     (let len = nat (max (int (GetNumBytes L n)) minSize) in GetBytes L n len littleEndian)"

subsection \<open>What OpenSSL documents\<close>

definition bn_laws :: "'n bn_ops \<Rightarrow> ('n \<Rightarrow> int) \<Rightarrow> bool" where
  "bn_laws L val \<longleftrightarrow>
     val (BN_new L) = 0
   \<and> (\<forall>w < 2 ^ 64. val (BN_set_word L w) = int w)
   \<and> (\<forall>n. \<forall>w < 2 ^ 64. 0 \<le> val n \<longrightarrow> val (BN_add_word L n w) = val n + int w)
   \<and> (\<forall>n b. val (BN_set_negative L n b) = (if b then - \<bar>val n\<bar> else \<bar>val n\<bar>))
   \<and> (\<forall>n k. val (BN_lshift L n k) = val n * 2 ^ k)
   \<and> (\<forall>bs. val (BN_lebin2bn L bs) = int (le_value bs))
   \<and> (\<forall>bs. val (BN_bin2bn L bs) = int (le_value (rev bs)))
   \<and> (\<forall>a b. val (BN_add L a b) = val a + val b)
   \<and> (\<forall>a b. val (BN_sub L a b) = val a - val b)
   \<and> (\<forall>a b. val (BN_mul L a b) = val a * val b)
   \<and> (\<forall>a b. 0 \<le> val a \<and> 0 < val b \<longrightarrow> val (BN_div L a b) = val a div val b \<and> val (BN_mod L a b) = val a mod val b)
   \<and> (\<forall>a e. 0 \<le> val e \<longrightarrow> val (BN_exp L a e) = val a ^ nat (val e))
   \<and> (\<forall>a e m. 0 \<le> val a \<and> 0 \<le> val e \<and> 0 < val m \<longrightarrow> val (BN_mod_exp L a e m) = val a ^ nat (val e) mod val m)
   \<and> (\<forall>a b. BN_cmp L a b = (if val a < val b then - 1 else if val a = val b then 0 else 1))
   \<and> (\<forall>n k. (BN_num_bytes L n \<le> k) = (\<bar>val n\<bar> < 256 ^ k))
   \<and> (\<forall>n. 0 \<le> val n \<and> val n < 2 ^ 64 \<longrightarrow> BN_get_word L n = nat (val n))
   \<and> (\<forall>n. BN_is_zero L n = (val n = 0)) \<and> (\<forall>n. BN_is_negative L n = (val n < 0))
   \<and> (\<forall>n k. BN_bn2lebinpad L n k = (if \<bar>val n\<bar> < 256 ^ k then Some (le_bytes k (nat \<bar>val n\<bar>)) else None))
   \<and> (\<forall>n k. BN_bn2binpad L n k = (if \<bar>val n\<bar> < 256 ^ k then Some (rev (le_bytes k (nat \<bar>val n\<bar>))) else None))"

subsection \<open>Numbers and their bytes\<close>

lemma bn_values:
  assumes "bn_laws L val"
  shows "val (BigNumber_plus L a b) = val a + val b" "val (BigNumber_times L a b) = val a * val b"
    "val (BigNumber_minus L a b) = val a - val b"
    "val (SetBinary L bytes e) = int (le_value (if e then bytes else rev bytes))"
    "val (SetDword L w) = int (unat w)"
    "BigNumber_IsZero L a = (val a = 0)"
    "0 \<le> val a \<Longrightarrow> 0 < val m \<Longrightarrow> val (BigNumber_mod L a m) = val a mod val m"
    "0 \<le> val a \<Longrightarrow> 0 \<le> val x \<Longrightarrow> 0 < val m \<Longrightarrow> val (ModExp L a x m) = val a ^ nat (val x) mod val m"
proof -
  have "unat w < 2 ^ 64" using unsigned_less [where ?'a = nat, of w] by simp
  then show "val (SetDword L w) = int (unat w)" using assms by (simp add: bn_laws_def SetDword_def)
qed (use assms in \<open>simp_all add: bn_laws_def BigNumber_plus_def BigNumber_times_def BigNumber_minus_def SetBinary_def
  BigNumber_IsZero_def BigNumber_mod_def ModExp_def\<close>)

lemma GetBytes_value:
  assumes "bn_laws L val"
  shows "GetBytes L n k e = (if \<bar>val n\<bar> < 256 ^ k \<and> 0 < k
    then Inr ((if e then id else rev) (le_bytes k (nat \<bar>val n\<bar>))) else Inl AssertFailure)"
  using assms by (simp add: bn_laws_def GetBytes_def assert_res_def)

lemma ToByteArray_value:
  assumes "bn_laws L val" and "0 \<le> val n" and "val n < 256 ^ k" and "0 < k"
  shows "ToByteArray L k n True = Inr (le_bytes k (nat (val n)))"
  using assms by (simp add: ToByteArray_def GetBytes_value)

lemma SetQword_value:
  assumes "bn_laws L val"
  shows "val (SetQword L v) = uint v"
proof -
  have "val (SetQword L v) = int (unat (ucast (drop_bit 32 v) :: u32)) * 2 ^ 32 + int (unat (ucast (and v 0xFFFFFFFF) :: u32))"
  proof -
    have "unat (x :: u32) < 2 ^ 64" for x using unsigned_less [where ?'a = nat, of x] by simp
    then show ?thesis using assms by (simp add: bn_laws_def SetQword_def Let_def)
  qed
  moreover have d: "uint (drop_bit 32 v) = uint v div 2 ^ 32"
    using unsigned_less [where ?'a = int, of v] by (subst unsigned_drop_bit_eq) (simp add: drop_bit_eq_div take_bit_int_eq_self)
  moreover have "int (unat (ucast (drop_bit 32 v) :: u32)) = uint (drop_bit 32 v)"
  proof -
    have "uint (drop_bit 32 v) < 2 ^ 32"
      unfolding d using unsigned_less [where ?'a = int, of v] by (simp add: div_less_iff_less_mult)
    then show ?thesis by (simp add: unsigned_ucast_eq take_bit_eq_mod zmod_int)
  qed
  moreover have "int (unat (ucast (and v 0xFFFFFFFF) :: u32)) = uint v mod 2 ^ 32"
  proof -
    have "and v 0xFFFFFFFF = take_bit 32 v" by (simp add: take_bit_eq_mask mask_eq_exp_minus_1)
    then show ?thesis by (simp only: unsigned_ucast_eq unsigned_take_bit_eq) (simp add: take_bit_eq_mod zmod_int)
  qed
  ultimately show ?thesis by simp
qed

text \<open>
  C34: A number read from bytes in either byte order is written back as the same bytes, into an array of that length
  or into a vector whose minimal size is that length; the number is the one the bytes stand for, and \<open>SetQword\<close>
  sets exactly its argument.
\<close>

theorem big_number_bytes:
  assumes "bn_laws L val" and "bytes \<noteq> []"
  shows "ToByteArray L (length bytes) (SetBinary L bytes e) e = Inr bytes
    \<and> ToByteVector L (int (length bytes)) (SetBinary L bytes e) e = Inr bytes
    \<and> val (SetBinary L bytes e) = int (\<Sum>i < length bytes. unat ((if e then bytes else rev bytes) ! i) * 256 ^ i)
    \<and> val (SetQword L v) = uint v"
proof -
  let ?b = "if e then bytes else rev bytes"
  have v: "val (SetBinary L bytes e) = int (le_value ?b)" by (rule bn_values(4) [OF assms(1)])
  have small: "le_value ?b < 256 ^ length bytes" using le_value_bound [of ?b] by (simp split: if_splits)
  have bytes: "(if e then id else rev) (le_bytes (length bytes) (le_value ?b)) = bytes"
    using le_bytes_le_value [of bytes] le_bytes_le_value [of "rev bytes"] by simp
  have num: "BN_num_bytes L (SetBinary L bytes e) \<le> length bytes"
    using assms(1) v small by (simp add: bn_laws_def flip: of_nat_power)
  have arr: "GetBytes L (SetBinary L bytes e) (length bytes) e = Inr bytes"
    using v small bytes assms(2) by (simp add: GetBytes_value [OF assms(1)] flip: of_nat_power)
  have sum: "le_value bs = (\<Sum>i < length bs. unat (bs ! i) * 256 ^ i)" for bs
    by (induction bs) (simp_all add: sum.lessThan_Suc_shift sum_distrib_left mult.left_commute del: sum.lessThan_Suc)
  show ?thesis using v arr num sum [of ?b] SetQword_value [OF assms(1)]
    by (simp add: ToByteArray_def ToByteVector_def GetNumBytes_def Let_def max_absorb2)
qed

text \<open>
  A vector without a minimal size has as many bytes as the number needs: none for zero, which \<open>GetBytes\<close> takes for a failure.
\<close>

lemma vector_of_zero_aborts:
  assumes "bn_laws L val" and "minSize \<le> 0"
  shows "(ToByteVector L minSize n e = Inl AssertFailure) = (val n = 0)"
proof -
  have k: "(BN_num_bytes L n \<le> k) = (\<bar>val n\<bar> < 256 ^ k)" for k using assms(1) by (simp add: bn_laws_def)
  have "(BN_num_bytes L n = 0) = (val n = 0)" using k [of 0] by auto
  moreover have "\<bar>val n\<bar> < 256 ^ BN_num_bytes L n" using k [of "BN_num_bytes L n"] by simp
  ultimately show ?thesis
    using assms(2) by (auto simp: ToByteVector_def GetNumBytes_def GetBytes_value [OF assms(1)] max_absorb1 Let_def)
qed

subsection \<open>The integers as big numbers\<close>

fun bytes_of :: "nat \<Rightarrow> nat" where
  "bytes_of n = (if n = 0 then 0 else Suc (bytes_of (n div 256)))"

declare bytes_of.simps [simp del]

lemma bytes_of_le: "(bytes_of n \<le> k) = (n < 256 ^ k)"
proof (induction n arbitrary: k rule: bytes_of.induct)
  case (1 n)
  show ?case
  proof (cases "n = 0")
    case n: False
    show ?thesis
    proof (cases k)
      case (Suc j)
      then show ?thesis using n 1 [OF n, of j] by (subst bytes_of.simps) (simp add: div_less_iff_less_mult mult.commute)
    qed (use n in \<open>subst bytes_of.simps, simp\<close>)
  qed (subst bytes_of.simps, simp)
qed

definition int_bn :: "int bn_ops" where
  "int_bn = \<lparr>BN_new = 0, BN_set_word = int, BN_set_negative = (\<lambda>n b. if b then - \<bar>n\<bar> else \<bar>n\<bar>), BN_lshift = (\<lambda>n k. n * 2 ^ k),
     BN_add_word = (\<lambda>n w. n + int w), BN_lebin2bn = (\<lambda>bs. int (le_value bs)), BN_bin2bn = (\<lambda>bs. int (le_value (rev bs))),
     BN_hex2bn = (\<lambda>n s. (0, n)), BN_add = (+), BN_sub = (-), BN_mul = (*), BN_div = (div), BN_mod = (mod),
     BN_exp = (\<lambda>a e. a ^ nat e), BN_mod_exp = (\<lambda>a e m. a ^ nat e mod m),
     BN_cmp = (\<lambda>a b. if a < b then - 1 else if a = b then 0 else 1), BN_num_bytes = (\<lambda>n. bytes_of (nat \<bar>n\<bar>)), BN_get_word = nat,
     BN_is_zero = (\<lambda>n. n = 0), BN_is_negative = (\<lambda>n. n < 0),
     BN_bn2lebinpad = (\<lambda>n k. if \<bar>n\<bar> < 256 ^ k then Some (le_bytes k (nat \<bar>n\<bar>)) else None),
     BN_bn2binpad = (\<lambda>n k. if \<bar>n\<bar> < 256 ^ k then Some (rev (le_bytes k (nat \<bar>n\<bar>))) else None)\<rparr>"

lemma int_bn_laws: "bn_laws int_bn id"
  by (simp add: bn_laws_def int_bn_def bytes_of_le nat_less_iff)

theorem big_number_bytes_witness:
  "ToByteArray int_bn 3 (SetBinary int_bn [1, 2, 0] False) False = Inr [1, 2, 0]"
  using big_number_bytes [OF int_bn_laws list.distinct(2), of 1 "[2, 0]" False 0, THEN conjunct1] by (simp add: numeral_3_eq_3)

end
