(* ===== verification/SRP6.thy ===== *)
theory SRP6
  imports BigNumber
begin

section \<open>The password protocol SRP6\<close>

text \<open>
  \<^verbatim>\<open>src/src/common/Cryptography/Authentication/SRP6.cpp\<close> and \<^verbatim>\<open>SRP6.h\<close>, with \<open>GetDigestOf\<close> of \<^verbatim>\<open>CryptoHash.h\<close>.  The hash
  function and the big numbers of OpenSSL are parameters (\<open>crypto_lib\<close>); random bytes are an argument.
  A client of the protocol is not part of the repository: \<open>client_key\<close> and \<open>client_proof\<close> state what the protocol asks of it.
\<close>

record 'n crypto_lib =
  cl_sha1 :: "u8 list \<Rightarrow> u8 list"
  cl_bn :: "'n bn_ops"

definition GetDigestOf :: "(u8 list \<Rightarrow> u8 list) \<Rightarrow> u8 list list \<Rightarrow> u8 list" where
  "GetDigestOf hash pack = hash (concat pack)"

definition srp_g :: "u8 list" where
  "srp_g = [7]"

definition srp_N :: "u8 list" where
  "srp_N = (case HexStrToByteArray ''894B645E89E1535BBDAD5B8B290650530801B18EBFBF5E8FAB3C82872A3E9BB7'' (replicate 32 0) True of
     Inr bytes \<Rightarrow> bytes | Inl e \<Rightarrow> [])"

abbreviation from_le :: "'n crypto_lib \<Rightarrow> u8 list \<Rightarrow> 'n" where
  "from_le C bytes \<equiv> SetBinary (cl_bn C) bytes True"

definition CalculateVerifier :: "'n crypto_lib \<Rightarrow> string \<Rightarrow> string \<Rightarrow> u8 list \<Rightarrow> u8 list res" where
  "CalculateVerifier C username password salt =
     (let x = GetDigestOf (cl_sha1 C) [salt, GetDigestOf (cl_sha1 C) [string_bytes username, string_bytes '':'', string_bytes password]]
      in ToByteArray (cl_bn C) 32 (ModExp (cl_bn C) (from_le C srp_g) (from_le C x) (from_le C srp_N)) True)"

text \<open>\<open>salt\<close> are the random bytes.\<close>

definition MakeRegistrationData :: "'n crypto_lib \<Rightarrow> u8 list \<Rightarrow> string \<Rightarrow> string \<Rightarrow> (u8 list \<times> u8 list) res" where
  "MakeRegistrationData C salt username password =
     bind_res (CalculateVerifier C username password salt) (\<lambda>verifier. Inr (salt, verifier))"

definition CheckLogin :: "'n crypto_lib \<Rightarrow> string \<Rightarrow> string \<Rightarrow> u8 list \<Rightarrow> u8 list \<Rightarrow> bool res" where
  "CheckLogin C username password salt verifier =
     bind_res (CalculateVerifier C username password salt) (\<lambda>v. Inr (verifier = v))"

fun first_nonzero :: "u8 list \<Rightarrow> nat \<Rightarrow> nat" where
  "first_nonzero [] p = p"
| "first_nonzero (b # bs) p = (if b = 0 then first_nonzero bs (Suc p) else p)"

definition SHA1Interleave :: "'n crypto_lib \<Rightarrow> u8 list \<Rightarrow> u8 list" where
  "SHA1Interleave C S =
     (let buf0 = map (\<lambda>i. S ! (2 * i)) [0..<16];
          buf1 = map (\<lambda>i. S ! (2 * i + 1)) [0..<16];
          p = first_nonzero S 0;
          p = (if odd p then p + 1 else p);
          p = p div 2;
          hash0 = GetDigestOf (cl_sha1 C) [drop p buf0];
          hash1 = GetDigestOf (cl_sha1 C) [drop p buf1]
      in concat (map (\<lambda>i. [hash0 ! i, hash1 ! i]) [0..<20]))"

definition GetSessionVerifier :: "'n crypto_lib \<Rightarrow> u8 list \<Rightarrow> u8 list \<Rightarrow> u8 list \<Rightarrow> u8 list" where
  "GetSessionVerifier C A clientM K = GetDigestOf (cl_sha1 C) [A, clientM, K]"

record 'n SRP6 =
  srp_used :: bool
  srp_I :: "u8 list"
  srp_b :: 'n
  srp_v :: 'n
  srp_s :: "u8 list"
  srp_B :: "u8 list"

definition SRP6_B :: "'n crypto_lib \<Rightarrow> 'n \<Rightarrow> 'n \<Rightarrow> u8 list res" where
  "SRP6_B C b v =
     (let L = cl_bn C
      in bind_res (SetDword_int L 3) (\<lambda>three. ToByteArray L 32 (BigNumber_mod L (BigNumber_plus L (ModExp L (from_le C srp_g) b (from_le C srp_N)) (BigNumber_times L v three))
           (from_le C srp_N)) True))"

text \<open>\<open>rnd\<close> are the 32 random bytes.\<close>

definition SRP6_new :: "'n crypto_lib \<Rightarrow> string \<Rightarrow> u8 list \<Rightarrow> u8 list \<Rightarrow> u8 list \<Rightarrow> 'n SRP6 res" where
  "SRP6_new C username salt verifier rnd =
     (let b = from_le C rnd; v = from_le C verifier
      in bind_res (SRP6_B C b v) (\<lambda>B.
           Inr \<lparr>srp_used = False, srp_I = GetDigestOf (cl_sha1 C) [string_bytes username], srp_b = b, srp_v = v, srp_s = salt, srp_B = B\<rparr>))"

definition NgHash :: "'n crypto_lib \<Rightarrow> u8 list" where
  "NgHash C = map2 xor (GetDigestOf (cl_sha1 C) [srp_N]) (GetDigestOf (cl_sha1 C) [srp_g])"

definition VerifyChallengeResponse :: "'n crypto_lib \<Rightarrow> u8 list \<Rightarrow> u8 list \<Rightarrow> 'n SRP6 \<Rightarrow> (u8 list option \<times> 'n SRP6) res" where
  "VerifyChallengeResponse C A clientM srp =
     bind_res (assert_res (\<not> srp_used srp)) (\<lambda>_.
       let srp = srp\<lparr>srp_used := True\<rparr>; L = cl_bn C; A' = from_le C A; N' = from_le C srp_N
       in if BigNumber_IsZero L (BigNumber_mod L A' N') then Inr (None, srp)
          else let u = from_le C (GetDigestOf (cl_sha1 C) [A, srp_B srp])
               in bind_res (ToByteArray L 32 (ModExp L (BigNumber_times L A' (ModExp L (srp_v srp) u N')) (srp_b srp) N') True) (\<lambda>S.
                    let K = SHA1Interleave C S;
                        ourM = GetDigestOf (cl_sha1 C) [NgHash C, srp_I srp, srp_s srp, A, srp_B srp, K]
                    in Inr (if ourM = clientM then Some K else None, srp)))"

subsection \<open>The client\<close>

text \<open>
  The client knows the user name and the password and receives the salt and \<open>B\<close>.  It chooses \<open>a\<close>, sends \<open>A = g\<^sup>a mod N\<close>,
  and computes \<open>S = (B - 3 g\<^sup>x)\<^sup>a\<^sup>+\<^sup>u\<^sup>x mod N\<close>.
\<close>

definition N_int :: int where
  "N_int = int (le_value srp_N)"

definition client_A :: "nat \<Rightarrow> u8 list" where
  "client_A a = le_bytes 32 (nat (7 ^ a mod N_int))"

definition client_key :: "'n crypto_lib \<Rightarrow> string \<Rightarrow> string \<Rightarrow> nat \<Rightarrow> u8 list \<Rightarrow> u8 list \<Rightarrow> u8 list" where
  "client_key C username password a s B =
     (let x = le_value (GetDigestOf (cl_sha1 C) [s, GetDigestOf (cl_sha1 C) [string_bytes username, string_bytes '':'', string_bytes password]]);
          u = le_value (GetDigestOf (cl_sha1 C) [client_A a, B])
      in SHA1Interleave C (le_bytes 32 (nat ((int (le_value B) - 3 * 7 ^ x) ^ (a + u * x) mod N_int))))"

definition client_proof :: "'n crypto_lib \<Rightarrow> string \<Rightarrow> string \<Rightarrow> nat \<Rightarrow> u8 list \<Rightarrow> u8 list \<Rightarrow> u8 list" where
  "client_proof C username password a s B =
     GetDigestOf (cl_sha1 C) [NgHash C, GetDigestOf (cl_sha1 C) [string_bytes username], s, client_A a, B,
       client_key C username password a s B]"

subsection \<open>The group\<close>

lemma srp_N_bytes:
  "srp_N = [0xB7, 0x9B, 0x3E, 0x2A, 0x87, 0x82, 0x3C, 0xAB, 0x8F, 0x5E, 0xBF, 0xBF, 0x8E, 0xB1, 0x01, 0x08,
     0x53, 0x50, 0x06, 0x29, 0x8B, 0x5B, 0xAD, 0xBD, 0x5B, 0x53, 0xE1, 0x89, 0x5E, 0x64, 0x4B, 0x89]"
  by code_simp

lemma N_int_value: "N_int = 0x894B645E89E1535BBDAD5B8B290650530801B18EBFBF5E8FAB3C82872A3E9BB7"
  by (simp add: N_int_def srp_N_bytes)

lemma N_int_bounds: "0 < N_int" "N_int < 256 ^ 32" "1 mod N_int = 1"
  by (simp_all add: N_int_value)

lemma power_of_g_not_zero: "(7 :: int) ^ a mod N_int \<noteq> 0"
proof
  let ?inv = "44357190363682869530049640100644964188035541668571997806118886550209806177228 :: int"
  assume "(7 :: int) ^ a mod N_int = 0"
  then have "(7 ^ a * ?inv ^ a) mod N_int = 0" using mod_mult_left_eq [of "7 ^ a" N_int "?inv ^ a"] by simp
  moreover have "(7 * ?inv) mod N_int = 1" by (simp add: N_int_value)
  then have "(7 ^ a * ?inv ^ a) mod N_int = 1"
    using power_mod [of "7 * ?inv" N_int a] N_int_bounds(3) by (simp only: power_mult_distrib power_one)
  ultimately show False by simp
qed

lemma same_secret:
  fixes g N :: int
  shows "((g ^ a mod N) * ((g ^ x mod N) ^ u mod N)) ^ b mod N
    = ((g ^ b mod N + (g ^ x mod N) * 3) mod N - 3 * g ^ x) ^ (a + u * x) mod N"
proof -
  have "((g ^ b mod N + (g ^ x mod N) * 3) mod N - 3 * g ^ x) mod N = (g ^ b + g ^ x * 3 - 3 * g ^ x) mod N"
    by (intro mod_diff_cong refl) (simp only: mod_mod_trivial, intro mod_add_cong mod_mod_trivial mod_mult_left_eq)
  then have "((g ^ b mod N + (g ^ x mod N) * 3) mod N - 3 * g ^ x) mod N = g ^ b mod N" by simp
  then have "((g ^ b mod N + (g ^ x mod N) * 3) mod N - 3 * g ^ x) ^ (a + u * x) mod N = (g ^ b) ^ (a + u * x) mod N"
    by (metis power_mod)
  moreover have "((g ^ a mod N) * ((g ^ x mod N) ^ u mod N)) ^ b mod N = (g ^ a * (g ^ x) ^ u) ^ b mod N"
    by (metis mod_mult_eq power_mod)
  ultimately show ?thesis by (simp add: power_add power_mult_distrib mult.commute flip: power_mult)
qed

subsection \<open>An honest client is accepted\<close>

lemma le_value_group: "int (le_value (le_bytes 32 (nat (z mod N_int)))) = z mod N_int"
proof -
  have "nat (z mod N_int) < 256 ^ 32"
    using N_int_bounds by (simp add: nat_less_iff) (meson less_trans pos_mod_bound)
  then show ?thesis using N_int_bounds(1) by (simp add: le_value_le_bytes)
qed

lemma group_bytes:
  assumes "bn_laws (cl_bn C) val" and "val n = z mod N_int"
  shows "ToByteArray (cl_bn C) 32 n True = Inr (le_bytes 32 (nat (z mod N_int)))"
proof -
  have "0 \<le> z mod N_int" "z mod N_int < 256 ^ 32"
    using N_int_bounds by (simp, meson less_trans pos_mod_bound)
  then show ?thesis using ToByteArray_value [OF assms(1), of n 32] assms(2) by simp
qed

text \<open>The numbers of the exchange: the private key from the password, the verifier and the public key of the server.\<close>

definition private_key :: "'n crypto_lib \<Rightarrow> string \<Rightarrow> string \<Rightarrow> u8 list \<Rightarrow> nat" where
  "private_key C username password salt =
     le_value (GetDigestOf (cl_sha1 C) [salt, GetDigestOf (cl_sha1 C) [string_bytes username, string_bytes '':'', string_bytes password]])"

definition public_key :: "nat \<Rightarrow> nat \<Rightarrow> u8 list" where
  "public_key x b = le_bytes 32 (nat ((7 ^ b mod N_int + (7 ^ x mod N_int) * 3) mod N_int))"

lemma group_exp:
  assumes "bn_laws (cl_bn C) val" and "0 \<le> val g" "0 \<le> val e"
  shows "val (ModExp (cl_bn C) g e (from_le C srp_N)) = val g ^ nat (val e) mod N_int"
  using bn_values(8) [OF assms, of "from_le C srp_N"] N_int_bounds(1) by (simp add: bn_values(4) [OF assms(1)] N_int_def)

lemma CalculateVerifier_value:
  assumes "bn_laws (cl_bn C) val"
  shows "CalculateVerifier C username password salt = Inr (client_A (private_key C username password salt))"
  unfolding CalculateVerifier_def Let_def client_A_def private_key_def
  by (rule group_bytes [OF assms]) (simp add: group_exp [OF assms] bn_values [OF assms] srp_g_def)

lemma SRP6_B_value:
  assumes "bn_laws (cl_bn C) val"
  shows "SRP6_B C (from_le C rnd) (from_le C (client_A x)) = Inr (public_key x (le_value rnd))"
proof -
  note vals = bn_values [OF assms]
  have three: "SetDword_int (cl_bn C) 3 = Inr (SetDword (cl_bn C) 3)" "val (SetDword (cl_bn C) 3) = 3"
    by (simp_all add: SetDword_int_def vals(5))
  show ?thesis unfolding SRP6_B_def Let_def three bind_res.simps public_key_def client_A_def
    by (rule group_bytes [OF assms])
      (simp add: vals(1,2,4,7) group_exp [OF assms] le_value_group three N_int_bounds(1) srp_g_def flip: N_int_def)
qed

lemma server_secret:
  assumes "bn_laws (cl_bn C) val"
  shows "ToByteArray (cl_bn C) 32 (ModExp (cl_bn C) (BigNumber_times (cl_bn C) (from_le C (client_A a))
      (ModExp (cl_bn C) (from_le C (client_A x)) (from_le C hu) (from_le C srp_N))) (from_le C rnd) (from_le C srp_N)) True
    = Inr (le_bytes 32 (nat (((7 ^ a mod N_int) * ((7 ^ x mod N_int) ^ le_value hu mod N_int)) ^ le_value rnd mod N_int)))"
  by (rule group_bytes [OF assms])
    (simp add: group_exp [OF assms] bn_values(2,4) [OF assms] client_A_def le_value_group N_int_bounds(1))

lemma client_A_accepted:
  assumes "bn_laws (cl_bn C) val"
  shows "\<not> BigNumber_IsZero (cl_bn C) (BigNumber_mod (cl_bn C) (from_le C (client_A a)) (from_le C srp_N))"
  using power_of_g_not_zero [of a] N_int_bounds(1)
  by (simp add: bn_values(4,6,7) [OF assms] client_A_def le_value_group flip: N_int_def)

text \<open>
  C5: A client that knows the password agrees with the server.  Registration and the server's object never
  fail, and for whatever salt, random bytes of the server and secret \<open>a\<close> of the client, the proof of the client is
  accepted with the session key the client computed itself, although the two sides compute it from different
  secrets.  The object refuses to be used a second time.
\<close>

theorem honest_client_accepted:
  fixes C :: "'n crypto_lib"
  assumes "bn_laws (cl_bn C) val"
  shows "\<exists>v srp srp'. MakeRegistrationData C salt username password = Inr (salt, v)
    \<and> SRP6_new C username salt v rnd = Inr srp
    \<and> VerifyChallengeResponse C (client_A a) (client_proof C username password a salt (srp_B srp)) srp
        = Inr (Some (client_key C username password a salt (srp_B srp)), srp')
    \<and> (\<forall>A M. VerifyChallengeResponse C A M srp' = Inl AssertFailure)"
proof -
  let ?H = "GetDigestOf (cl_sha1 C)" and ?x = "private_key C username password salt" and ?b = "le_value rnd"
  let ?B = "public_key ?x ?b" and ?v = "client_A ?x"
  let ?S = "((7 ^ a mod N_int) * ((7 ^ ?x mod N_int) ^ le_value (?H [client_A a, ?B]) mod N_int)) ^ ?b mod N_int"
  define srp where "srp = \<lparr>srp_used = False, srp_I = ?H [string_bytes username], srp_b = from_le C rnd, srp_v = from_le C ?v, srp_s = salt, srp_B = ?B\<rparr>"
  have reg: "MakeRegistrationData C salt username password = Inr (salt, ?v)"
    by (simp add: MakeRegistrationData_def CalculateVerifier_value [OF assms])
  have new: "SRP6_new C username salt ?v rnd = Inr srp" by (simp add: SRP6_new_def SRP6_B_value [OF assms] srp_def)
  have "int (le_value ?B) = (7 ^ ?b mod N_int + (7 ^ ?x mod N_int) * 3) mod N_int" by (simp add: public_key_def le_value_group)
  then have "SHA1Interleave C (le_bytes 32 (nat ?S)) = client_key C username password a salt ?B"
    by (simp add: client_key_def Let_def same_secret flip: private_key_def)
  then have "VerifyChallengeResponse C (client_A a) (client_proof C username password a salt ?B) srp
      = Inr (Some (client_key C username password a salt ?B), srp\<lparr>srp_used := True\<rparr>)"
    using client_A_accepted [OF assms] server_secret [OF assms]
    by (simp add: VerifyChallengeResponse_def client_proof_def srp_def Let_def)
  moreover have "VerifyChallengeResponse C A M (srp\<lparr>srp_used := True\<rparr>) = Inl AssertFailure" for A M
    by (simp add: VerifyChallengeResponse_def assert_res_def)
  moreover have "srp_B srp = ?B" by (simp add: srp_def)
  ultimately show ?thesis using reg new by auto
qed

definition toy_lib :: "int crypto_lib" where
  "toy_lib = \<lparr>cl_sha1 = (\<lambda>bytes. take 20 (bytes @ replicate 20 0)), cl_bn = int_bn\<rparr>"

theorem honest_client_accepted_witness:
  "\<exists>v srp srp'. MakeRegistrationData toy_lib [1, 2, 3] ''USER'' ''SECRET'' = Inr ([1, 2, 3], v)
     \<and> SRP6_new toy_lib ''USER'' [1, 2, 3] v [9, 9] = Inr srp
     \<and> VerifyChallengeResponse toy_lib (client_A 12345) (client_proof toy_lib ''USER'' ''SECRET'' 12345 [1, 2, 3] (srp_B srp)) srp
         = Inr (Some (client_key toy_lib ''USER'' ''SECRET'' 12345 [1, 2, 3] (srp_B srp)), srp')"
proof -
  have "bn_laws (cl_bn toy_lib) id" by (simp add: toy_lib_def int_bn_laws)
  from honest_client_accepted [OF this, of "[1, 2, 3]" "''USER''" "''SECRET''" "[9, 9]" 12345] show ?thesis by blast
qed

text \<open>
  A key of the client that is a multiple of \<open>N\<close>, which would fix the secret at zero, is refused whatever proof comes with it.
\<close>

lemma zero_key_refused:
  assumes "bn_laws (cl_bn C) val" and "int (le_value A) mod N_int = 0" and "\<not> srp_used srp"
  shows "VerifyChallengeResponse C A M srp = Inr (None, srp\<lparr>srp_used := True\<rparr>)"
proof -
  have "val (from_le C srp_N) = N_int" by (simp add: bn_values(4) [OF assms(1)] N_int_def)
  then have "BigNumber_IsZero (cl_bn C) (BigNumber_mod (cl_bn C) (from_le C A) (from_le C srp_N))"
    using assms(2) N_int_bounds(1) by (simp add: bn_values(4,6,7) [OF assms(1)])
  then show ?thesis using assms(3) by (simp add: VerifyChallengeResponse_def Let_def)
qed

lemma CheckLogin_registered:
  assumes "MakeRegistrationData C salt username password = Inr (s, v)"
  shows "CheckLogin C username password s v = Inr True"
  using assms by (auto simp: MakeRegistrationData_def CheckLogin_def bind_res_eq_Inr)

end
