(* ===== verification/HashContext.thy ===== *)
theory HashContext
  imports SRP6
begin

section \<open>Hash objects and their contexts\<close>

text \<open>
  \<open>GenericHash\<close> of \<^verbatim>\<open>src/src/common/Cryptography/CryptoHash.h\<close>: an object owns a context of OpenSSL by a raw pointer, and copying, moving,
  assigning and destroying the object allocate, copy, hand over and free contexts.  The model has the contexts that are
  allocated and the objects that are alive, both by number.  A context is blank until it is initialised; it then holds the bytes it was given,
  until its digest is taken.  Using a context that is freed or a null pointer is a \<open>MemoryError\<close>; using a blank
  or finished one, for which OpenSSL documents nothing, is a \<open>StateError\<close>; naming an object that does not exist, or one that
  does as a new one, is a \<open>NoProgram\<close>: the compiler rejects it.
\<close>

subsection \<open>Contexts\<close>

datatype md_ctx = Blank | Absorbing "u8 list" | Finished

datatype md_fault = MemoryError | StateError | NoProgram

record hash_obj =
  ho_ctx :: "nat option"
  ho_digest :: "u8 list"

record hash_world =
  hw_ctxs :: "nat \<rightharpoonup> md_ctx"
  hw_next :: nat
  hw_objs :: "nat \<rightharpoonup> hash_obj"

text \<open>\<open>bind_sum\<close> is the sequence of operations that may fail.\<close>

definition bind_sum :: "'e + 'a \<Rightarrow> ('a \<Rightarrow> 'e + 'b) \<Rightarrow> 'e + 'b" where
  "bind_sum x f = (case x of Inl e \<Rightarrow> Inl e | Inr a \<Rightarrow> f a)"

lemma bind_sum_simps [simp]: "bind_sum (Inl e) f = Inl e" "bind_sum (Inr a) f = f a"
  by (simp_all add: bind_sum_def)

lemma bind_sum_Inr: "bind_sum x f = Inr b \<longleftrightarrow> (\<exists>a. x = Inr a \<and> f a = Inr b)"
  by (cases x) simp_all

definition MakeCTX :: "hash_world \<Rightarrow> nat \<times> hash_world" where
  "MakeCTX w = (hw_next w, w\<lparr>hw_ctxs := (hw_ctxs w)(hw_next w \<mapsto> Blank), hw_next := Suc (hw_next w)\<rparr>)"

definition DestroyCTX :: "nat \<Rightarrow> hash_world \<Rightarrow> md_fault + hash_world" where
  "DestroyCTX p w = (case hw_ctxs w p of None \<Rightarrow> Inl MemoryError | Some _ \<Rightarrow> Inr (w\<lparr>hw_ctxs := (hw_ctxs w)(p := None)\<rparr>))"

definition set_obj :: "nat \<Rightarrow> hash_obj \<Rightarrow> hash_world \<Rightarrow> hash_world" where
  "set_obj x ob w = w\<lparr>hw_objs := (hw_objs w)(x \<mapsto> ob)\<rparr>"

definition the_obj :: "nat \<Rightarrow> hash_world \<Rightarrow> md_fault + hash_obj" where
  "the_obj x w = (case hw_objs w x of None \<Rightarrow> Inl NoProgram | Some ob \<Rightarrow> Inr ob)"

text \<open>The context behind a pointer.\<close>

definition deref :: "nat option \<Rightarrow> hash_world \<Rightarrow> md_fault + nat \<times> md_ctx" where
  "deref p w = (case p of None \<Rightarrow> Inl MemoryError | Some a \<Rightarrow>
     (case hw_ctxs w a of None \<Rightarrow> Inl MemoryError | Some c \<Rightarrow> Inr (a, c)))"

definition set_ctx :: "nat \<Rightarrow> md_ctx \<Rightarrow> hash_world \<Rightarrow> hash_world" where
  "set_ctx a c w = w\<lparr>hw_ctxs := (hw_ctxs w)(a \<mapsto> c)\<rparr>"

subsection \<open>The operations of the class\<close>

text \<open>\<open>n\<close> is \<^verbatim>\<open>DIGEST_LENGTH\<close>; a new object has a digest of zeros.\<close>

definition GenericHash_new :: "nat \<Rightarrow> nat \<Rightarrow> hash_world \<Rightarrow> md_fault + hash_world" where
  "GenericHash_new n x w =
     (let (a, w) = MakeCTX w in Inr (set_obj x \<lparr>ho_ctx = Some a, ho_digest = replicate n 0\<rparr> (set_ctx a (Absorbing []) w)))"

definition GenericHash_assign :: "nat \<Rightarrow> nat \<Rightarrow> hash_world \<Rightarrow> md_fault + hash_world" where
  "GenericHash_assign x right w =
     (if x = right then Inr w
      else bind_sum (the_obj x w) (\<lambda>ob. bind_sum (the_obj right w) (\<lambda>r.
           bind_sum (deref (ho_ctx ob) w) (\<lambda>(a, _). bind_sum (deref (ho_ctx r) w) (\<lambda>(_, c).
             if c = Blank then Inl StateError
             else Inr (set_obj x (ob\<lparr>ho_digest := ho_digest r\<rparr>) (set_ctx a c w)))))))"

definition GenericHash_copy :: "nat \<Rightarrow> nat \<Rightarrow> nat \<Rightarrow> hash_world \<Rightarrow> md_fault + hash_world" where
  "GenericHash_copy n x right w =
     (let (a, w) = MakeCTX w in GenericHash_assign x right (set_obj x \<lparr>ho_ctx = Some a, ho_digest = replicate n 0\<rparr> w))"

definition GenericHash_move_assign :: "nat \<Rightarrow> nat \<Rightarrow> nat \<Rightarrow> hash_world \<Rightarrow> md_fault + hash_world" where
  "GenericHash_move_assign n x right w =
     (if x = right then Inr w
      else bind_sum (the_obj x w) (\<lambda>ob. bind_sum (the_obj right w) (\<lambda>r.
           let (a, w) = MakeCTX w
           in Inr (set_obj right (r\<lparr>ho_ctx := Some a, ho_digest := replicate n 0\<rparr>)
                (set_obj x (ob\<lparr>ho_ctx := ho_ctx r, ho_digest := ho_digest r\<rparr>) w)))))"

definition GenericHash_move :: "nat \<Rightarrow> nat \<Rightarrow> nat \<Rightarrow> hash_world \<Rightarrow> md_fault + hash_world" where
  "GenericHash_move n x right w =
     GenericHash_move_assign n x right (set_obj x \<lparr>ho_ctx = None, ho_digest = replicate n 0\<rparr> w)"

definition GenericHash_destroy :: "nat \<Rightarrow> hash_world \<Rightarrow> md_fault + hash_world" where
  "GenericHash_destroy x w =
     bind_sum (the_obj x w) (\<lambda>ob.
     bind_sum (case ho_ctx ob of None \<Rightarrow> Inr w | Some a \<Rightarrow> DestroyCTX a w) (\<lambda>w. Inr (w\<lparr>hw_objs := (hw_objs w)(x := None)\<rparr>)))"

definition GenericHash_UpdateData :: "nat \<Rightarrow> u8 list \<Rightarrow> hash_world \<Rightarrow> md_fault + hash_world" where
  "GenericHash_UpdateData x bytes w =
     bind_sum (the_obj x w) (\<lambda>ob. bind_sum (deref (ho_ctx ob) w) (\<lambda>(a, c).
       case c of Absorbing bs \<Rightarrow> Inr (set_ctx a (Absorbing (bs @ bytes)) w) | _ \<Rightarrow> Inl StateError))"

definition GenericHash_Finalize :: "(u8 list \<Rightarrow> u8 list) \<Rightarrow> nat \<Rightarrow> hash_world \<Rightarrow> md_fault + hash_world" where
  "GenericHash_Finalize hash x w =
     bind_sum (the_obj x w) (\<lambda>ob. bind_sum (deref (ho_ctx ob) w) (\<lambda>(a, c).
       case c of Absorbing bs \<Rightarrow> Inr (set_obj x (ob\<lparr>ho_digest := hash bs\<rparr>) (set_ctx a Finished w)) | _ \<Rightarrow> Inl StateError))"

definition GenericHash_GetDigest :: "nat \<Rightarrow> hash_world \<Rightarrow> md_fault + u8 list" where
  "GenericHash_GetDigest x w = bind_sum (the_obj x w) (\<lambda>ob. Inr (ho_digest ob))"

text \<open>The static function: a local object \<open>x\<close>, the updates in the order of the arguments, the digest, the destructor.\<close>

fun update_pack :: "nat \<Rightarrow> u8 list list \<Rightarrow> hash_world \<Rightarrow> md_fault + hash_world" where
  "update_pack x [] w = Inr w"
| "update_pack x (p # pack) w = bind_sum (GenericHash_UpdateData x p w) (update_pack x pack)"

definition GenericHash_GetDigestOf :: "(u8 list \<Rightarrow> u8 list) \<Rightarrow> nat \<Rightarrow> nat \<Rightarrow> u8 list list \<Rightarrow> hash_world \<Rightarrow> md_fault + u8 list \<times> hash_world" where
  "GenericHash_GetDigestOf hash n x pack w =
     bind_sum (GenericHash_new n x w) (\<lambda>w. bind_sum (update_pack x pack w) (\<lambda>w.
     bind_sum (GenericHash_Finalize hash x w) (\<lambda>w. bind_sum (GenericHash_GetDigest x w) (\<lambda>digest.
     bind_sum (GenericHash_destroy x w) (\<lambda>w. Inr (digest, w))))))"

lemma update_pack_eq:
  assumes "hw_objs w x = Some ob" "ho_ctx ob = Some a" "hw_ctxs w a = Some (Absorbing bs)"
  shows "update_pack x pack w = Inr (set_ctx a (Absorbing (bs @ concat pack)) w)"
  using assms
proof (induction pack arbitrary: w bs)
  case Nil
  then show ?case by (simp add: set_ctx_def fun_upd_idem)
next
  case (Cons p pack)
  then show ?case by (simp add: GenericHash_UpdateData_def the_obj_def deref_def set_ctx_def)
qed

subsection \<open>Programs\<close>

text \<open>A scope runs the operations in some order; an object is declared once before it is used, and not used once it is destroyed.\<close>

datatype hash_op = New nat | Copy nat nat | Move nat nat | Assign nat nat | MoveAssign nat nat | Destroy nat | Update nat "u8 list" | Final nat

definition declare_obj :: "nat \<Rightarrow> hash_world \<Rightarrow> (hash_world \<Rightarrow> md_fault + hash_world) \<Rightarrow> md_fault + hash_world" where
  "declare_obj x w f = (if hw_objs w x = None then f w else Inl NoProgram)"

fun hash_exec :: "(u8 list \<Rightarrow> u8 list) \<Rightarrow> nat \<Rightarrow> hash_op \<Rightarrow> hash_world \<Rightarrow> md_fault + hash_world" where
  "hash_exec hash n (New x) w = declare_obj x w (GenericHash_new n x)"
| "hash_exec hash n (Copy x r) w = (if x = r then Inl NoProgram else declare_obj x w (GenericHash_copy n x r))"
| "hash_exec hash n (Move x r) w = (if x = r then Inl NoProgram else declare_obj x w (GenericHash_move n x r))"
| "hash_exec hash n (Assign x r) w = GenericHash_assign x r w"
| "hash_exec hash n (MoveAssign x r) w = GenericHash_move_assign n x r w"
| "hash_exec hash n (Destroy x) w = GenericHash_destroy x w"
| "hash_exec hash n (Update x bytes) w = GenericHash_UpdateData x bytes w"
| "hash_exec hash n (Final x) w = GenericHash_Finalize hash x w"

fun hash_run :: "(u8 list \<Rightarrow> u8 list) \<Rightarrow> nat \<Rightarrow> hash_op list \<Rightarrow> hash_world \<Rightarrow> md_fault + hash_world" where
  "hash_run hash n [] w = Inr w"
| "hash_run hash n (op # ops) w = bind_sum (hash_exec hash n op w) (hash_run hash n ops)"

definition hash_start :: hash_world where
  "hash_start = \<lparr>hw_ctxs = Map.empty, hw_next = 0, hw_objs = Map.empty\<rparr>"

subsection \<open>Ownership\<close>

text \<open>
  The objects with their pointers, the contexts that are allocated and the next address: every object has a context of its
  own, and \<open>lost\<close> counts the contexts that no object has.
\<close>

definition owned :: "(nat \<rightharpoonup> nat option) \<Rightarrow> nat set \<Rightarrow> nat \<Rightarrow> nat \<Rightarrow> bool" where
  "owned P D m lost \<longleftrightarrow> (\<forall>x p. P x = Some p \<longrightarrow> (\<exists>a. p = Some a \<and> a \<in> D)) \<and> inj_on P (dom P) \<and> D \<subseteq> {..<m} \<and> finite (dom P) \<and>
     card D = card (dom P) + lost"

lemma ownedI:
  assumes "\<And>x p. P x = Some p \<Longrightarrow> \<exists>a. p = Some a \<and> a \<in> D" "inj_on P (dom P)" "D \<subseteq> {..<m}" "finite (dom P)" "card D = card (dom P) + lost"
  shows "owned P D m lost"
  using assms unfolding owned_def by blast

lemma ownedD:
  assumes "owned P D m lost"
  shows "\<And>x p. P x = Some p \<Longrightarrow> \<exists>a. p = Some a \<and> a \<in> D" "inj_on P (dom P)" "D \<subseteq> {..<m}" "finite (dom P)" "card D = card (dom P) + lost" "finite D"
proof -
  show "finite D" using assms finite_subset by (auto simp: owned_def)
qed (use assms in \<open>unfold owned_def; blast\<close>)+

lemma owned_fresh:
  assumes o: "owned P D m lost" and x: "P x = None"
  shows "owned (P(x \<mapsto> Some m)) (insert m D) (Suc m) lost"
proof -
  have D: "m \<notin> D" "finite D" "finite (dom P)" "x \<notin> dom P" using o x by (auto simp: owned_def finite_subset)
  have new: "P y \<noteq> Some (Some m)" for y using o D(1) by (auto simp: owned_def)
  have "inj_on (P(x \<mapsto> Some m)) (dom (P(x \<mapsto> Some m)))" using o x new by (auto simp: owned_def inj_on_def)
  moreover have "card (insert m D) = Suc (card D)" "card (insert x (dom P)) = Suc (card (dom P))"
    using D by (simp_all del: domIff)
  moreover have "\<exists>a. p = Some a \<and> a \<in> insert m D" if "(P(x \<mapsto> Some m)) y = Some p" for y p
    using ownedD(1)[OF o, of y p] that by (cases "y = x") auto
  ultimately show ?thesis using ownedD[OF o] by (intro ownedI) auto
qed

lemma owned_hand_over:
  assumes o: "owned P D m lost" and r: "P r = Some p" "x \<noteq> r"
  shows "owned (P(x \<mapsto> p, r \<mapsto> Some m)) (insert m D) (Suc m) (if P x = None then lost else Suc lost)"
proof -
  have D: "m \<notin> D" "finite D" using o by (auto simp: owned_def finite_subset)
  have new: "P y \<noteq> Some (Some m)" for y using o D(1) by (auto simp: owned_def)
  have "inj_on (P(x \<mapsto> p, r \<mapsto> Some m)) (dom (P(x \<mapsto> p, r \<mapsto> Some m)))"
    using o r new by (auto simp: owned_def inj_on_def dom_def)
  moreover have "card (insert m D) = Suc (card D)" using D by simp
  moreover have "dom (P(x \<mapsto> p, r \<mapsto> Some m)) = insert x (dom P)" using r by auto
  moreover have "card (insert x (dom P)) = (if P x = None then Suc (card (dom P)) else card (dom P))"
    using o by (auto simp: owned_def card_insert_if)
  moreover have "\<exists>a. q = Some a \<and> a \<in> insert m D" if "(P(x \<mapsto> p, r \<mapsto> Some m)) y = Some q" for y q
    using ownedD(1)[OF o, of y q] ownedD(1)[OF o r(1)] that by (cases "y = x"; cases "y = r") auto
  moreover have "insert m D \<subseteq> {..<Suc m}" using ownedD(3)[OF o] by auto
  ultimately show ?thesis using ownedD(4,5)[OF o] by (intro ownedI) (simp_all del: fun_upd_apply dom_fun_upd)
qed

lemma owned_destroy:
  assumes o: "owned P D m lost" and x: "P x = Some (Some a)"
  shows "owned (P(x := None)) (D - {a}) m lost"
proof -
  have "a \<in> D" "finite D" "x \<in> dom P" "finite (dom P)" using o x by (auto simp: owned_def finite_subset)
  then have "card D = Suc (card (D - {a}))" "card (dom P) = Suc (card (dom P - {x}))"
    by (simp_all only: card_Suc_Diff1)
  moreover have "P y \<noteq> Some (Some a)" if "y \<noteq> x" for y using o x that by (auto simp: owned_def inj_on_def dom_def)
  then have "\<exists>b. p = Some b \<and> b \<in> D - {a}" if "(P(x := None)) y = Some p" for y p
    using ownedD(1)[OF o, of y p] that by (cases "y = x") auto
  moreover have "inj_on (P(x := None)) (dom (P(x := None)))" using ownedD(2)[OF o] by (auto simp: inj_on_def)
  ultimately show ?thesis using ownedD[OF o] by (intro ownedI) auto
qed

definition hash_own :: "hash_world \<Rightarrow> nat \<Rightarrow> bool" where
  "hash_own w lost \<longleftrightarrow> owned (\<lambda>x. map_option ho_ctx (hw_objs w x)) (dom (hw_ctxs w)) (hw_next w) lost"

lemma hash_own_ctx:
  assumes "hash_own w lost" "hw_objs w x = Some ob"
  obtains a c where "ho_ctx ob = Some a" "hw_ctxs w a = Some c"
  using assms by (force simp: hash_own_def owned_def)

text \<open>Writing to a context or a digest changes no owner.\<close>

lemma hash_own_write:
  assumes "hash_own w lost"
  shows "hw_ctxs w a = Some c0 \<Longrightarrow> hash_own (set_ctx a c w) lost"
    and "hw_objs w x = Some ob \<Longrightarrow> ho_ctx ob' = ho_ctx ob \<Longrightarrow> hash_own (set_obj x ob' w) lost"
proof -
  assume "hw_ctxs w a = Some c0"
  then have "insert a (dom (hw_ctxs w)) = dom (hw_ctxs w)" by auto
  then show "hash_own (set_ctx a c w) lost" using assms by (simp add: hash_own_def set_ctx_def)
next
  assume "hw_objs w x = Some ob" "ho_ctx ob' = ho_ctx ob"
  then have "(\<lambda>y. map_option ho_ctx (((hw_objs w)(x \<mapsto> ob')) y)) = (\<lambda>y. map_option ho_ctx (hw_objs w y))" by auto
  then show "hash_own (set_obj x ob' w) lost" using assms by (simp add: hash_own_def set_obj_def)
qed

lemma hash_own_fresh:
  assumes "hash_own w lost" "hw_objs w x = None" "ho_ctx ob = Some (hw_next w)"
  shows "hash_own (set_obj x ob (snd (MakeCTX w))) lost"
proof -
  have "(\<lambda>y. map_option ho_ctx (((hw_objs w)(x \<mapsto> ob)) y)) = (\<lambda>y. map_option ho_ctx (hw_objs w y))(x \<mapsto> Some (hw_next w))"
    using assms(3) by auto
  then show ?thesis
    using owned_fresh[of "\<lambda>y. map_option ho_ctx (hw_objs w y)" "dom (hw_ctxs w)" "hw_next w" lost x] assms
    by (simp add: hash_own_def set_obj_def MakeCTX_def)
qed

lemma hash_own_hand_over:
  assumes "hash_own w lost" "hw_objs w r = Some rb" "x \<noteq> r" "ho_ctx xb = ho_ctx rb" "ho_ctx rb' = Some (hw_next w)"
  shows "hash_own (set_obj r rb' (set_obj x xb (snd (MakeCTX w)))) (if hw_objs w x = None then lost else Suc lost)"
proof -
  have "(\<lambda>y. map_option ho_ctx (((hw_objs w)(x \<mapsto> xb, r \<mapsto> rb')) y))
      = (\<lambda>y. map_option ho_ctx (hw_objs w y))(x \<mapsto> ho_ctx rb, r \<mapsto> Some (hw_next w))"
    using assms by auto
  then show ?thesis
    using owned_hand_over[of "\<lambda>y. map_option ho_ctx (hw_objs w y)" "dom (hw_ctxs w)" "hw_next w" lost r "ho_ctx rb" x] assms
    by (simp add: hash_own_def set_obj_def MakeCTX_def)
qed

lemma hash_own_destroy:
  assumes "hash_own w lost" "hw_objs w x = Some ob" "ho_ctx ob = Some a"
  shows "hash_own (w\<lparr>hw_ctxs := (hw_ctxs w)(a := None), hw_objs := (hw_objs w)(x := None)\<rparr>) lost"
proof -
  have "(\<lambda>y. map_option ho_ctx (((hw_objs w)(x := None)) y)) = (\<lambda>y. map_option ho_ctx (hw_objs w y))(x := None)" by auto
  then show ?thesis
    using owned_destroy[of "\<lambda>y. map_option ho_ctx (hw_objs w y)" "dom (hw_ctxs w)" "hw_next w" lost x a] assms
    by (simp add: hash_own_def)
qed

subsection \<open>Every operation keeps the ownership\<close>

text \<open>The outcome of an operation: no memory error, and a world with its contexts accounted for.\<close>

definition hash_safe :: "nat \<Rightarrow> md_fault + hash_world \<Rightarrow> bool" where
  "hash_safe lost r \<longleftrightarrow> (case r of Inl e \<Rightarrow> e \<noteq> MemoryError | Inr w \<Rightarrow> hash_own w lost)"

lemma hash_safe_simps [simp]: "hash_safe lost (Inr w) = hash_own w lost" "hash_safe lost (Inl e) = (e \<noteq> MemoryError)"
  by (simp_all add: hash_safe_def)

lemma with_obj:
  assumes own: "hash_own w lost"
    and f: "\<And>ob a c. hw_objs w x = Some ob \<Longrightarrow> ho_ctx ob = Some a \<Longrightarrow> hw_ctxs w a = Some c \<Longrightarrow> hash_safe l (f ob)"
  shows "hash_safe l (bind_sum (the_obj x w) f)"
proof (cases "hw_objs w x")
  case (Some ob)
  with hash_own_ctx[OF own Some] show ?thesis by (metis bind_sum_simps(2) f option.simps(5) the_obj_def)
qed (simp add: the_obj_def)

lemma hash_own_write_both:
  assumes "hash_own w lost" "hw_objs w x = Some ob" "ho_ctx ob' = ho_ctx ob" "hw_ctxs w a = Some c0"
  shows "hash_own (set_obj x ob' (set_ctx a c w)) lost"
  using hash_own_write(2)[OF hash_own_write(1)[OF assms(1,4), of c], of x ob ob'] assms(2,3) by (simp add: set_ctx_def)

lemma deref_eq: "hw_ctxs w a = Some c \<Longrightarrow> deref (Some a) w = Inr (a, c)"
  by (simp add: deref_def)

lemma safe_assign:
  assumes own: "hash_own w lost"
  shows "hash_safe lost (GenericHash_assign x r w)"
proof (cases "x = r")
  case False
  show ?thesis unfolding GenericHash_assign_def if_not_P[OF False]
    by (rule with_obj[OF own], rule with_obj[OF own]) (simp add: deref_eq hash_own_write_both[OF own])
qed (use own in \<open>simp add: GenericHash_assign_def\<close>)

lemma safe_update:
  assumes own: "hash_own w lost"
  shows "hash_safe lost (GenericHash_UpdateData x bytes w)"
  unfolding GenericHash_UpdateData_def
  by (rule with_obj[OF own]) (simp add: deref_eq hash_own_write(1)[OF own] split: md_ctx.splits)

lemma safe_finalize:
  assumes own: "hash_own w lost"
  shows "hash_safe lost (GenericHash_Finalize hash x w)"
  unfolding GenericHash_Finalize_def
  by (rule with_obj[OF own]) (simp add: deref_eq hash_own_write_both[OF own] split: md_ctx.splits)

lemma safe_destroy:
  assumes own: "hash_own w lost"
  shows "hash_safe lost (GenericHash_destroy x w)"
  unfolding GenericHash_destroy_def
  by (rule with_obj[OF own]) (simp add: DestroyCTX_def hash_own_destroy[OF own])

text \<open>What moving from \<open>right\<close> gives for a world in which \<open>x\<close> exists, or is about to be constructed.\<close>

lemma safe_hand_over:
  assumes own: "hash_own w lost" and "x \<noteq> r" and ws: "ws = w \<or> hw_objs w x = None \<and> ws = set_obj x ob0 w"
  shows "hash_safe (if hw_objs w x = None then lost else Suc lost) (GenericHash_move_assign n x r ws)"
proof (cases "hw_objs w r")
  case (Some rb)
  show ?thesis
  proof (cases "hw_objs ws x")
    case None
    then show ?thesis using assms(2) by (simp add: GenericHash_move_assign_def the_obj_def)
  next
    case x: (Some xb)
    have "GenericHash_move_assign n x r ws =
        Inr (set_obj r (rb\<lparr>ho_ctx := Some (hw_next w), ho_digest := replicate n 0\<rparr>)
          (set_obj x (xb\<lparr>ho_ctx := ho_ctx rb, ho_digest := ho_digest rb\<rparr>) (snd (MakeCTX w))))"
      using ws x Some assms(2) by (auto simp: GenericHash_move_assign_def the_obj_def MakeCTX_def set_obj_def)
    then show ?thesis by (simp add: hash_own_hand_over[OF own Some assms(2)])
  qed
qed (use ws assms(2) in \<open>auto simp: GenericHash_move_assign_def the_obj_def set_obj_def split: option.splits\<close>)

fun orphans :: "hash_op \<Rightarrow> nat" where
  "orphans (MoveAssign x r) = (if x = r then 0 else 1)"
| "orphans _ = 0"

lemma safe_new:
  assumes "hash_own w lost" "hw_objs w x = None"
  shows "hash_safe lost (GenericHash_new n x w)"
proof -
  have "hash_own (set_obj x \<lparr>ho_ctx = Some (hw_next w), ho_digest = replicate n 0\<rparr> (snd (MakeCTX w))) lost"
    by (rule hash_own_fresh[OF assms]) simp
  from hash_own_write(1)[OF this, of "hw_next w" Blank "Absorbing []"] show ?thesis
    by (simp add: GenericHash_new_def MakeCTX_def set_obj_def set_ctx_def hash_own_def)
qed

lemma safe_copy:
  assumes "hash_own w lost" "hw_objs w x = None"
  shows "hash_safe lost (GenericHash_copy n x r w)"
  using safe_assign[OF hash_own_fresh[OF assms, of "\<lparr>ho_ctx = Some (hw_next w), ho_digest = replicate n 0\<rparr>"]]
  by (simp add: GenericHash_copy_def case_prod_beta MakeCTX_def)

lemma safe_exec:
  assumes own: "hash_own w lost"
  shows "hash_safe (lost + orphans op) (hash_exec hash n op w)"
proof (cases op)
  case (Move x r)
  then show ?thesis using safe_hand_over[OF own, of x r "set_obj x \<lparr>ho_ctx = None, ho_digest = replicate n 0\<rparr> w"
      "\<lparr>ho_ctx = None, ho_digest = replicate n 0\<rparr>" n]
    by (auto simp: declare_obj_def GenericHash_move_def)
next
  case (MoveAssign x r)
  show ?thesis
  proof (cases "x = r \<or> hw_objs w x = None")
    case True
    then show ?thesis using own MoveAssign by (auto simp: GenericHash_move_assign_def the_obj_def)
  next
    case False
    then show ?thesis using safe_hand_over[OF own, of x r w] MoveAssign by auto
  qed
qed (use own in \<open>simp_all add: declare_obj_def safe_new safe_copy safe_assign safe_update safe_finalize safe_destroy\<close>)

lemma safe_run: "hash_own w lost \<Longrightarrow> hash_safe (lost + sum_list (map orphans ops)) (hash_run hash n ops w)"
proof (induction ops arbitrary: w lost)
  case (Cons op ops)
  note s = safe_exec[OF Cons.prems, of op hash n]
  show ?case
  proof (cases "hash_exec hash n op w")
    case (Inr w')
    then show ?thesis using Cons.IH[of w' "lost + orphans op"] s by (simp add: add.assoc)
  qed (use s in simp)
qed simp

lemma hash_own_start: "hash_own hash_start 0"
  by (simp add: hash_own_def hash_start_def owned_def)

text \<open>The static function on a world with its contexts accounted for.\<close>

lemma GetDigestOf_refines:
  assumes own: "hash_own w lost" and x: "hw_objs w x = None"
  shows "GenericHash_GetDigestOf hash n x pack w = Inr (GetDigestOf hash pack, w\<lparr>hw_next := Suc (hw_next w)\<rparr>)"
proof -
  let ?a = "hw_next w"
  define w1 where "w1 = set_obj x \<lparr>ho_ctx = Some ?a, ho_digest = replicate n 0\<rparr> (set_ctx ?a (Absorbing []) (snd (MakeCTX w)))"
  have n: "hw_ctxs w ?a = None" using own by (auto simp: hash_own_def owned_def)
  have "GenericHash_new n x w = Inr w1" by (simp add: GenericHash_new_def w1_def MakeCTX_def)
  moreover have "update_pack x pack w1 = Inr (set_ctx ?a (Absorbing (concat pack)) w1)"
    using update_pack_eq[of w1 x _ ?a "[]"] by (simp add: w1_def set_obj_def set_ctx_def)
  ultimately show ?thesis using n x
    by (simp add: GenericHash_GetDigestOf_def GenericHash_Finalize_def GenericHash_GetDigest_def GenericHash_destroy_def DestroyCTX_def
        the_obj_def deref_def set_obj_def set_ctx_def w1_def MakeCTX_def GetDigestOf_def fun_upd_idem)
qed

text \<open>
  C25: Whatever the order in which hash objects are created, copied, moved, assigned, used and destroyed, no operation uses or
  frees a context that is freed, and no context is freed twice.  Every object has a context of its own; the contexts that no object
  has, and that are never freed, are exactly one for every move assignment between two objects.  At any moment
  \<open>GetDigestOf\<close> returns the hash of its arguments one after the other and leaves no context behind.
\<close>

theorem hash_objects_safe:
  "hash_run hash n ops hash_start \<noteq> Inl MemoryError
   \<and> (\<forall>w. hash_run hash n ops hash_start = Inr w \<longrightarrow>
        card (dom (hw_ctxs w)) = card (dom (hw_objs w)) + length (filter (\<lambda>op. orphans op = 1) ops)
      \<and> (\<forall>x pack. hw_objs w x = None \<longrightarrow>
           (\<exists>w'. GenericHash_GetDigestOf hash n x pack w = Inr (GetDigestOf hash pack, w') \<and> hw_ctxs w' = hw_ctxs w \<and> hw_objs w' = hw_objs w)))"
proof -
  have "sum_list (map orphans ops) = length (filter (\<lambda>op. orphans op = 1) ops)"
  proof (induction ops)
    case (Cons op ops)
    then show ?case by (cases op) auto
  qed simp
  then have s: "hash_safe (length (filter (\<lambda>op. orphans op = 1) ops)) (hash_run hash n ops hash_start)"
    using safe_run[OF hash_own_start, of ops hash n] by simp
  then show ?thesis
    by (cases "hash_run hash n ops hash_start") (auto simp: GetDigestOf_refines, auto simp: hash_own_def owned_def dom_def)
qed

text \<open>Two objects, one assigned to the other by moving, both destroyed: one context is never freed.\<close>

theorem hash_objects_safe_witness:
  "\<exists>w. hash_run rev 1 [New 0, New 1, MoveAssign 0 1, Destroy 0, Destroy 1] hash_start = Inr w
     \<and> hw_objs w = Map.empty \<and> card (dom (hw_ctxs w)) = 1
     \<and> (\<exists>w'. GenericHash_GetDigestOf rev 1 0 [[1, 2], [3]] w = Inr ([3, 2, 1], w') \<and> hw_ctxs w' = hw_ctxs w)"
proof -
  let ?ops = "[New 0, New 1, MoveAssign 0 1, Destroy 0, Destroy 1]"
  obtain w where w: "hash_run rev 1 ?ops hash_start = Inr w" "hw_objs w = Map.empty"
    by (simp add: hash_start_def declare_obj_def GenericHash_new_def GenericHash_move_assign_def GenericHash_destroy_def DestroyCTX_def
        MakeCTX_def set_obj_def set_ctx_def the_obj_def)
  have "card (dom (hw_ctxs w)) = 1" "\<exists>w'. GenericHash_GetDigestOf rev 1 0 [[1, 2], [3]] w = Inr (GetDigestOf rev [[1, 2], [3]], w') \<and> hw_ctxs w' = hw_ctxs w"
    using hash_objects_safe[of rev 1 ?ops] w(2) unfolding w(1) by (auto dest!: spec[of _ "0 :: nat"])
  then show ?thesis using w by (intro exI[of _ w]) (simp only: GetDigestOf_def, simp)
qed

end
