(* ===== verification/Ciphers.thy ===== *)
theory Ciphers
  imports SRP6
begin

section \<open>Tokens, key streams and ciphers\<close>

text \<open>
  The rest of \<^verbatim>\<open>src/src/common/Cryptography\<close>: \<^verbatim>\<open>TOTP.cpp\<close> (one-time tokens), \<^verbatim>\<open>SessionKeyGenerator.h\<close>, \<^verbatim>\<open>CryptoGenerics.h\<close>
  with \<^verbatim>\<open>AES.cpp\<close> (authenticated encryption of a buffer), \<^verbatim>\<open>ARC4.cpp\<close> and \<^verbatim>\<open>Authentication/AuthCrypt.cpp\<close>.  The hash, the
  message code and the ciphers themselves are functions of OpenSSL and parameters here, in the state
  OpenSSL keeps for them; what its manual says of them is a hypothesis of the theorems that need it.
\<close>

subsection \<open>One-time tokens\<close>

abbreviation (input) TOTP_INTERVAL :: int where "TOTP_INTERVAL \<equiv> 30"

text \<open>The loop \<open>for (int i = 8; i--; timestamp >>= 8)\<close>; the shift of a negative number is an arithmetic one.\<close>

fun challenge_loop :: "nat \<Rightarrow> int \<Rightarrow> u8 list \<Rightarrow> u8 list" where
  "challenge_loop 0 timestamp challenge = challenge"
| "challenge_loop (Suc i) timestamp challenge = challenge_loop i (timestamp div 256) (challenge[i := word_of_int timestamp])"

definition truncate_digest :: "u8 list \<Rightarrow> u32" where
  "truncate_digest digest =
     (let offset = unat (and (digest ! 19) 0xF);
          truncated = or (or (or (push_bit 24 (ucast (digest ! offset))) (push_bit 16 (ucast (digest ! (offset + 1)))))
                         (push_bit 8 (ucast (digest ! (offset + 2))))) (ucast (digest ! (offset + 3)));
          truncated = and truncated 0x7FFFFFFF
      in truncated mod 1000000)"

definition GenerateToken :: "(u8 list \<Rightarrow> u8 list \<Rightarrow> u8 list) \<Rightarrow> u8 list \<Rightarrow> int \<Rightarrow> u32" where
  "GenerateToken hmac secret timestamp =
     (let timestamp = (if timestamp < 0 then - ((- timestamp) div TOTP_INTERVAL) else timestamp div TOTP_INTERVAL)
      in truncate_digest (hmac secret (challenge_loop 8 timestamp (replicate 8 0))))"

definition ValidateToken :: "(u8 list \<Rightarrow> u8 list \<Rightarrow> u8 list) \<Rightarrow> int \<Rightarrow> u8 list \<Rightarrow> u32 \<Rightarrow> bool" where
  "ValidateToken hmac now secret token \<longleftrightarrow>
     token = GenerateToken hmac secret (now - TOTP_INTERVAL) \<or> token = GenerateToken hmac secret now
     \<or> token = GenerateToken hmac secret (now + TOTP_INTERVAL)"

subsection \<open>The generator of session keys\<close>

text \<open>\<open>skg_it\<close> is the position of the iterator \<open>o0it\<close> in \<open>o0\<close>; digests have the length \<open>dlen\<close>.\<close>

record skg =
  skg_o0 :: "u8 list"
  skg_o1 :: "u8 list"
  skg_o2 :: "u8 list"
  skg_it :: nat

definition SessionKeyGenerator :: "(u8 list \<Rightarrow> u8 list) \<Rightarrow> nat \<Rightarrow> u8 list \<Rightarrow> skg" where
  "SessionKeyGenerator hash dlen buf =
     (let halflen = length buf div 2;
          o0 = replicate dlen 0;
          o1 = GetDigestOf hash [take halflen buf];
          o2 = GetDigestOf hash [drop halflen buf]
      in \<lparr>skg_o0 = GetDigestOf hash [o1, o0, o2], skg_o1 = o1, skg_o2 = o2, skg_it = 0\<rparr>)"

fun Generate :: "(u8 list \<Rightarrow> u8 list) \<Rightarrow> nat \<Rightarrow> skg \<Rightarrow> u8 list \<times> skg" where
  "Generate hash 0 g = ([], g)"
| "Generate hash (Suc sz) g =
     (let g = (if skg_it g = length (skg_o0 g)
               then g\<lparr>skg_o0 := GetDigestOf hash [skg_o1 g, skg_o0 g, skg_o2 g], skg_it := 0\<rparr> else g);
          b = skg_o0 g ! skg_it g;
          (bs, g) = Generate hash sz (g\<lparr>skg_it := Suc (skg_it g)\<rparr>)
      in (b # bs, g))"

subsection \<open>Authenticated encryption\<close>

text \<open>
  The context of OpenSSL for AES in Galois counter mode, by what the class calls: setting the vector, updating
  with data, setting the expected tag, finishing and reading the tag.  \<open>None\<close> is a status of zero.
\<close>

record 'c evp =
  evp_start :: "bool \<Rightarrow> u8 list \<Rightarrow> 'c"
  evp_set_iv :: "'c \<Rightarrow> u8 list \<Rightarrow> 'c option"
  evp_update :: "'c \<Rightarrow> u8 list \<Rightarrow> ('c \<times> u8 list) option"
  evp_set_tag :: "'c \<Rightarrow> u8 list \<Rightarrow> 'c option"
  evp_final :: "'c \<Rightarrow> ('c \<times> u8 list) option"
  evp_get_tag :: "'c \<Rightarrow> u8 list option"

abbreviation (input) IV_SIZE_BYTES :: nat where "IV_SIZE_BYTES \<equiv> 12"
abbreviation (input) TAG_SIZE_BYTES :: nat where "TAG_SIZE_BYTES \<equiv> 12"

text \<open>
  \<open>AES::Process\<close> on a context with its key: the result with the buffer and the tag afterwards.  A call that
  fails leaves the buffer as far as it was written.
\<close>

definition AES_Process :: "'c evp \<Rightarrow> bool \<Rightarrow> 'c \<Rightarrow> u8 list \<Rightarrow> u8 list \<Rightarrow> u8 list \<Rightarrow> (bool \<times> u8 list \<times> u8 list) res" where
  "AES_Process E encrypting c iv bytes tag =
     bind_res (assert_res (length bytes < 2 ^ 31)) (\<lambda>_.
       case evp_set_iv E c iv of None \<Rightarrow> Inr (False, bytes, tag) | Some c \<Rightarrow>
       case evp_update E c bytes of None \<Rightarrow> Inr (False, bytes, tag) | Some (c, out1) \<Rightarrow>
       let bytes1 = out1 @ drop (length out1) bytes in
       case (if encrypting then Some c else evp_set_tag E c tag) of None \<Rightarrow> Inr (False, bytes1, tag) | Some c \<Rightarrow>
       case evp_final E c of None \<Rightarrow> Inr (False, bytes1, tag) | Some (c, out2) \<Rightarrow>
       bind_res (assert_res (length bytes = length out1 + length out2)) (\<lambda>_.
         if encrypting then case evp_get_tag E c of None \<Rightarrow> Inr (False, out1 @ out2, tag) | Some t \<Rightarrow> Inr (True, out1 @ out2, t)
         else Inr (True, out1 @ out2, tag)))"

definition AppendToBack :: "u8 list \<Rightarrow> u8 list \<Rightarrow> u8 list" where
  "AppendToBack bytes tail = bytes @ tail"

text \<open>The loop of \<open>SplitFromBack\<close> over \<open>i = 1 .. N\<close>, with \<open>k = N - i\<close>.\<close>

fun split_loop :: "nat \<Rightarrow> u8 list \<Rightarrow> u8 list \<Rightarrow> u8 list \<times> u8 list" where
  "split_loop 0 bytes tail = (bytes, tail)"
| "split_loop (Suc k) bytes tail = split_loop k (butlast bytes) (tail[k := last bytes])"

definition SplitFromBack :: "u8 list \<Rightarrow> nat \<Rightarrow> (u8 list \<times> u8 list) res" where
  "SplitFromBack bytes n =
     bind_res (assert_res (length bytes \<ge> n)) (\<lambda>_. Inr (split_loop n bytes (replicate n 0)))"

text \<open>\<open>iv\<close> are the random bytes of \<open>GenerateRandomIV\<close>.\<close>

definition AEEncryptWithRandomIV :: "'c evp \<Rightarrow> u8 list \<Rightarrow> u8 list \<Rightarrow> u8 list \<Rightarrow> u8 list res" where
  "AEEncryptWithRandomIV E iv key bytes =
     bind_res (AES_Process E True (evp_start E True key) iv bytes (replicate TAG_SIZE_BYTES 0)) (\<lambda>(success, bytes, tag).
     bind_res (assert_res success) (\<lambda>_. Inr (AppendToBack (AppendToBack bytes iv) tag)))"

definition AEDecrypt :: "'c evp \<Rightarrow> u8 list \<Rightarrow> u8 list \<Rightarrow> (bool \<times> u8 list) res" where
  "AEDecrypt E key bytes =
     bind_res (SplitFromBack bytes TAG_SIZE_BYTES) (\<lambda>(bytes, tag).
     bind_res (SplitFromBack bytes IV_SIZE_BYTES) (\<lambda>(bytes, iv).
     bind_res (AES_Process E False (evp_start E False key) iv bytes tag) (\<lambda>(ok, bytes, tag). Inr (ok, bytes))))"

subsection \<open>The stream cipher of a session\<close>

text \<open>RC4 of OpenSSL, by its calls; the status of a call that succeeds is 1.\<close>

record 'r rc4 =
  rc4_key :: "u8 list \<Rightarrow> 'r option"
  rc4_update :: "'r \<Rightarrow> u8 list \<Rightarrow> ('r \<times> u8 list) option"

definition ARC4_Init :: "'r rc4 \<Rightarrow> u8 list \<Rightarrow> 'r res" where
  "ARC4_Init R seed = (case rc4_key R seed of None \<Rightarrow> Inl AssertFailure | Some c \<Rightarrow> Inr c)"

definition ARC4_UpdateData :: "'r rc4 \<Rightarrow> u8 list \<Rightarrow> 'r \<Rightarrow> (u8 list \<times> 'r) res" where
  "ARC4_UpdateData R bytes c = (case rc4_update R c bytes of None \<Rightarrow> Inl AssertFailure | Some (c, out) \<Rightarrow> Inr (out, c))"

text \<open>The contexts exist from the start; before \<open>Init\<close> they have no key.\<close>

record 'r auth_crypt =
  ac_clientDecrypt :: "'r option"
  ac_serverEncrypt :: "'r option"
  ac_initialized :: bool

definition AuthCrypt :: "'r auth_crypt" where
  "AuthCrypt = \<lparr>ac_clientDecrypt = None, ac_serverEncrypt = None, ac_initialized = False\<rparr>"

definition ServerEncryptionKey :: "u8 list" where
  "ServerEncryptionKey = [0xCC, 0x98, 0xAE, 0x04, 0xE8, 0x97, 0xEA, 0xCA, 0x12, 0xDD, 0xC0, 0x93, 0x42, 0x91, 0x53, 0x57]"

definition ServerDecryptionKey :: "u8 list" where
  "ServerDecryptionKey = [0xC2, 0xB3, 0x72, 0x3C, 0xC6, 0xAE, 0xD9, 0xB5, 0x34, 0x3C, 0x53, 0xEE, 0x2F, 0x43, 0x67, 0xCE]"

definition AuthCrypt_Init :: "'r rc4 \<Rightarrow> (u8 list \<Rightarrow> u8 list \<Rightarrow> u8 list) \<Rightarrow> u8 list \<Rightarrow> 'r auth_crypt \<Rightarrow> 'r auth_crypt res" where
  "AuthCrypt_Init R hmac K ac =
     bind_res (ARC4_Init R (hmac ServerEncryptionKey K)) (\<lambda>enc.
     bind_res (ARC4_Init R (hmac ServerDecryptionKey K)) (\<lambda>dec.
     bind_res (ARC4_UpdateData R (replicate 1024 0) enc) (\<lambda>(syncBuf, enc).
     bind_res (ARC4_UpdateData R syncBuf dec) (\<lambda>(syncBuf, dec).
       Inr \<lparr>ac_clientDecrypt = Some dec, ac_serverEncrypt = Some enc, ac_initialized = True\<rparr>))))"

definition DecryptRecv :: "'r rc4 \<Rightarrow> u8 list \<Rightarrow> 'r auth_crypt \<Rightarrow> (u8 list \<times> 'r auth_crypt) res" where
  "DecryptRecv R bytes ac =
     bind_res (assert_res (ac_initialized ac)) (\<lambda>_.
     bind_res (ARC4_UpdateData R bytes (the (ac_clientDecrypt ac))) (\<lambda>(out, c). Inr (out, ac\<lparr>ac_clientDecrypt := Some c\<rparr>)))"

definition EncryptSend :: "'r rc4 \<Rightarrow> u8 list \<Rightarrow> 'r auth_crypt \<Rightarrow> (u8 list \<times> 'r auth_crypt) res" where
  "EncryptSend R bytes ac =
     bind_res (assert_res (ac_initialized ac)) (\<lambda>_.
     bind_res (ARC4_UpdateData R bytes (the (ac_serverEncrypt ac))) (\<lambda>(out, c). Inr (out, ac\<lparr>ac_serverEncrypt := Some c\<rparr>)))"

subsection \<open>Tokens follow the standard\<close>

lemma challenge_loop_eq:
  "i \<le> length challenge \<Longrightarrow>
   challenge_loop i t challenge = rev (map (\<lambda>j. word_of_int (t div 256 ^ j)) [0..<i]) @ drop i challenge"
proof (induction i arbitrary: t challenge)
  case (Suc i)
  have "map (\<lambda>j. word_of_int (t div 256 ^ j) :: u8) [0..<Suc i] = word_of_int t # map (\<lambda>j. word_of_int (t div 256 div 256 ^ j)) [0..<i]"
    by (simp only: upt_conv_Cons zero_less_Suc map_Suc_upt [symmetric] list.map map_map)
      (simp add: comp_def zdiv_zmult2_eq)
  moreover have "drop i (challenge[i := x]) = x # drop (Suc i) challenge" for x
    using Suc.prems by (simp add: drop_update_swap Cons_nth_drop_Suc [symmetric])
  ultimately show ?case using Suc.IH [of "challenge[i := word_of_int t]" "t div 256"] Suc.prems by (simp del: upt_Suc)
qed simp

lemma challenge_big_endian:
  assumes "0 \<le> t"
  shows "challenge_loop 8 t (replicate 8 0) = rev (le_bytes 8 (nat t))"
proof -
  have "t div 256 ^ j = int (nat t div 256 ^ j)" for j
    using assms by (simp add: zdiv_int)
  then have "word_of_int (t div 256 ^ j) = (of_nat (nat t div 256 ^ j) :: u8)" for j by (simp only: of_int_of_nat_eq)
  then show ?thesis by (simp only: challenge_loop_eq le_bytes_def length_replicate order_refl) simp
qed

lemma truncate_digest_value:
  fixes digest :: "u8 list"
  defines "offset \<equiv> unat (digest ! 19) mod 16"
  assumes "length digest = 20"
  shows "unat (truncate_digest digest) = le_value (rev (take 4 (drop offset digest))) mod 2 ^ 31 mod 1000000"
    and "offset + 3 < 20"
proof -
  show o: "offset + 3 < 20" unfolding offset_def using mod_less_divisor [of 16 "unat (digest ! 19)"] by linarith
  let ?d = "\<lambda>i. unat (digest ! (offset + i))"
  have off: "unat (and (digest ! 19) 0xF) = offset"
  proof -
    have "and (digest ! 19) 0xF = take_bit 4 (digest ! 19)" by (simp add: take_bit_eq_mask mask_eq_exp_minus_1)
    then show ?thesis by (simp only: unsigned_take_bit_eq offset_def) (simp add: take_bit_eq_mod)
  qed
  have "take 4 (drop offset digest) = map (\<lambda>i. digest ! (offset + i)) [0..<4]"
    using o assms(2) by (intro nth_equalityI) auto
  then have v: "le_value (rev (take 4 (drop offset digest))) = ?d 3 + 256 * (?d 2 + 256 * (?d 1 + 256 * ?d 0))"
    by (simp add: upt_rec numeral_2_eq_2 numeral_3_eq_3)
  have lt: "?d i < 256" for i using unsigned_less [where ?'a = nat, of "digest ! (offset + i)"] by simp
  have sh: "unat (push_bit k (ucast b :: u32)) = unat b * 2 ^ k" if "k \<le> 24" for k and b :: u8
  proof -
    have b: "unat b < 2 ^ 8" using unsigned_less [where ?'a = nat, of b] by simp
    have "unat b * 2 ^ k < 2 ^ 8 * 2 ^ k" using b by simp
    also have "\<dots> \<le> 2 ^ 32" using that power_increasing [of "8 + k" 32 "2 :: nat"] by (simp add: power_add)
    finally have "take_bit 32 (unat b * 2 ^ k) = unat b * 2 ^ k" by (simp add: take_bit_nat_eq_self)
    moreover have "take_bit 32 (unat b) = unat b" using b by (simp add: take_bit_nat_eq_self)
    ultimately show ?thesis by (simp only: unsigned_push_bit_eq unsigned_ucast_eq) (simp add: push_bit_eq_mult)
  qed
  have low: "unat (ucast b :: u32) = unat b" for b :: u8 using sh [of 0 b] by simp
  let ?w = "or (or (or (push_bit 24 (ucast (digest ! offset))) (push_bit 16 (ucast (digest ! (offset + 1)))))
      (push_bit 8 (ucast (digest ! (offset + 2))))) (ucast (digest ! (offset + 3))) :: u32"
  have "unat ?w = or (or (or (?d 0 * 2 ^ 24) (?d 1 * 2 ^ 16)) (?d 2 * 2 ^ 8)) (?d 3)"
    by (simp only: unsigned_or_eq sh low) simp
  also have "\<dots> = or (?d 3) (or (?d 2 * 2 ^ 8) (or (?d 1 * 2 ^ 16) (?d 0 * 2 ^ 24)))"
    by (simp only: or.commute or.left_commute)
  also have "or (?d 1 * 2 ^ 16) (?d 0 * 2 ^ 24) = (?d 1 + ?d 0 * 2 ^ 8) * 2 ^ 16"
    using or_disjoint [of "?d 1 * 2 ^ 16" 24 "?d 0"] lt [of 1] by simp
  also have "or (?d 2 * 2 ^ 8) ((?d 1 + ?d 0 * 2 ^ 8) * 2 ^ 16) = (?d 2 + (?d 1 + ?d 0 * 2 ^ 8) * 2 ^ 8) * 2 ^ 8"
    using or_disjoint [of "?d 2 * 2 ^ 8" 16 "?d 1 + ?d 0 * 2 ^ 8"] lt [of 2] by simp
  also have "or (?d 3) \<dots> = ?d 3 + (?d 2 + (?d 1 + ?d 0 * 2 ^ 8) * 2 ^ 8) * 2 ^ 8"
    by (rule or_disjoint) (use lt [of 3] in simp)
  also have "\<dots> = le_value (rev (take 4 (drop offset digest)))" unfolding v by simp
  finally have w: "unat ?w = le_value (rev (take 4 (drop offset digest)))" .
  have "and ?w 0x7FFFFFFF = take_bit 31 ?w" by (simp add: take_bit_eq_mask mask_eq_exp_minus_1)
  then have "unat (and ?w 0x7FFFFFFF) = le_value (rev (take 4 (drop offset digest))) mod 2 ^ 31"
    by (simp only: unsigned_take_bit_eq w) (simp add: take_bit_eq_mod)
  then show "unat (truncate_digest digest) = le_value (rev (take 4 (drop offset digest))) mod 2 ^ 31 mod 1000000"
    unfolding truncate_digest_def Let_def off by (simp add: unat_mod_distrib)
qed

lemma GenerateToken_interval:
  "0 \<le> t \<Longrightarrow> 0 \<le> t' \<Longrightarrow> t div TOTP_INTERVAL = t' div TOTP_INTERVAL \<Longrightarrow> GenerateToken hmac secret t = GenerateToken hmac secret t'"
  by (simp add: GenerateToken_def)

text \<open>
  C37: The token of a time is the one of RFC 6238 with steps of thirty seconds and six digits: of the message code
  of the step number as eight bytes, the highest first, the four bytes at the offset that its last four bits give,
  without the sign bit, modulo a million.  \<open>ValidateToken\<close> accepts exactly the tokens of the times at most thirty seconds
  away.
\<close>

theorem one_time_tokens:
  fixes hmac :: "u8 list \<Rightarrow> u8 list \<Rightarrow> u8 list" and secret :: "u8 list" and now :: int
  assumes "\<forall>k m. length (hmac k m) = 20" and "30 \<le> now"
  defines "digest \<equiv> hmac secret (rev (le_bytes 8 (nat (now div 30))))"
  shows "unat (GenerateToken hmac secret now)
      = le_value (rev (take 4 (drop (unat (digest ! 19) mod 16) digest))) mod 2 ^ 31 mod 1000000
    \<and> ValidateToken hmac now secret token = (\<exists>t \<ge> 0. \<bar>t - now\<bar> \<le> 30 \<and> token = GenerateToken hmac secret t)"
proof (rule conjI)
  have "GenerateToken hmac secret now = truncate_digest digest"
    using assms(2) by (simp add: GenerateToken_def digest_def challenge_big_endian)
  then show "unat (GenerateToken hmac secret now)
      = le_value (rev (take 4 (drop (unat (digest ! 19) mod 16) digest))) mod 2 ^ 31 mod 1000000"
    using truncate_digest_value(1) [of digest] assms(1) by (simp add: digest_def)
  have near: "GenerateToken hmac secret t = GenerateToken hmac secret (now - 30) \<or> GenerateToken hmac secret t = GenerateToken hmac secret now
      \<or> GenerateToken hmac secret t = GenerateToken hmac secret (now + 30)" if "0 \<le> t" "\<bar>t - now\<bar> \<le> 30" for t
  proof -
    have e: "(now - 30) div 30 = now div 30 - 1" "(now + 30) div 30 = now div 30 + 1" by simp_all
    have b: "(now - 30) div 30 \<le> t div 30" "t div 30 \<le> (now + 30) div 30"
      using that(2) by (auto intro!: zdiv_mono1)
    have "a = b - 1 \<or> a = b \<or> a = b + 1" if "b - 1 \<le> a" "a \<le> b + 1" for a b :: int using that by linarith
    from this [of "now div 30" "t div 30"] have "t div 30 = (now - 30) div 30 \<or> t div 30 = now div 30 \<or> t div 30 = (now + 30) div 30"
      using b unfolding e by blast
    moreover have p: "0 \<le> now - 30" "0 \<le> now" "0 \<le> now + 30" using assms(2) by simp_all
    ultimately show ?thesis
      using GenerateToken_interval [OF that(1) p(1)] GenerateToken_interval [OF that(1) p(2)] GenerateToken_interval [OF that(1) p(3)] by blast
  qed
  show "ValidateToken hmac now secret token = (\<exists>t \<ge> 0. \<bar>t - now\<bar> \<le> 30 \<and> token = GenerateToken hmac secret t)"
  proof
    assume "ValidateToken hmac now secret token"
    then obtain t where "t \<in> {now - 30, now, now + 30}" "token = GenerateToken hmac secret t" by (auto simp: ValidateToken_def)
    then show "\<exists>t \<ge> 0. \<bar>t - now\<bar> \<le> 30 \<and> token = GenerateToken hmac secret t"
      using assms(2) by (intro exI [of _ t]) auto
  qed (use near in \<open>auto simp: ValidateToken_def\<close>)
qed

theorem one_time_tokens_witness:
  "ValidateToken (\<lambda>k m. replicate 19 (last m) @ [hd k]) 1000 [5] (GenerateToken (\<lambda>k m. replicate 19 (last m) @ [hd k]) [5] 971)"
proof -
  let ?hmac = "\<lambda>(k :: u8 list) (m :: u8 list). replicate 19 (last m) @ [hd k]"
  have "\<forall>k m. length (?hmac k m) = 20" by simp
  from one_time_tokens [of ?hmac 1000 "[5]", OF this] show ?thesis by (auto intro!: exI [of _ 971])
qed

subsection \<open>The stream of session keys\<close>

fun key_block :: "(u8 list \<Rightarrow> u8 list) \<Rightarrow> u8 list \<Rightarrow> u8 list \<Rightarrow> u8 list \<Rightarrow> nat \<Rightarrow> u8 list" where
  "key_block hash o0 o1 o2 0 = hash (o1 @ o0 @ o2)"
| "key_block hash o0 o1 o2 (Suc k) = hash (o1 @ key_block hash o0 o1 o2 k @ o2)"

lemma Generate_block:
  assumes "\<And>x. length (hash x) = dlen" and "0 < dlen"
    and "skg_o1 g = o1" "skg_o2 g = o2" "skg_o0 g = key_block hash o0 o1 o2 k" "skg_it g = j" "j \<le> dlen"
  shows "\<exists>g' k' j'. Generate hash n g = (map (\<lambda>i. key_block hash o0 o1 o2 ((k * dlen + j + i) div dlen) ! ((k * dlen + j + i) mod dlen)) [0..<n], g')
    \<and> skg_o1 g' = o1 \<and> skg_o2 g' = o2 \<and> skg_o0 g' = key_block hash o0 o1 o2 k' \<and> skg_it g' = j' \<and> j' \<le> dlen \<and> k' * dlen + j' = k * dlen + j + n"
  using assms(3-7)
proof (induction n arbitrary: g k j)
  case (Suc n)
  let ?B = "key_block hash o0 o1 o2"
  let ?g = "if skg_it g = length (skg_o0 g) then g\<lparr>skg_o0 := GetDigestOf hash [skg_o1 g, skg_o0 g, skg_o2 g], skg_it := 0\<rparr> else g"
  define k1 j1 where "k1 = (if j = dlen then Suc k else k)" and "j1 = (if j = dlen then 0 else j)"
  have len: "length (?B k) = dlen" for k by (cases k) (simp_all add: assms(1))
  have g: "skg_o1 ?g = o1" "skg_o2 ?g = o2" "skg_o0 ?g = ?B k1" "skg_it ?g = j1"
    using Suc.prems len by (simp_all add: k1_def j1_def GetDigestOf_def)
  have j1: "j1 < dlen" "k1 * dlen + j1 = k * dlen + j" using Suc.prems(5) assms(2) by (auto simp: k1_def j1_def)
  have first: "?B ((k * dlen + j) div dlen) ! ((k * dlen + j) mod dlen) = ?B k1 ! j1"
    using j1(1) by (simp flip: j1(2))
  obtain g' k' j' where IH: "Generate hash n (?g\<lparr>skg_it := Suc j1\<rparr>)
      = (map (\<lambda>i. ?B ((k1 * dlen + Suc j1 + i) div dlen) ! ((k1 * dlen + Suc j1 + i) mod dlen)) [0..<n], g')"
    and rest: "skg_o1 g' = o1" "skg_o2 g' = o2" "skg_o0 g' = ?B k'" "skg_it g' = j'" "j' \<le> dlen" "k' * dlen + j' = k1 * dlen + Suc j1 + n"
    using Suc.IH [of "?g\<lparr>skg_it := Suc j1\<rparr>" k1 "Suc j1"] g j1(1) by auto
  have "map (\<lambda>i. ?B ((k * dlen + j + i) div dlen) ! ((k * dlen + j + i) mod dlen)) [0..<Suc n]
      = ?B k1 ! j1 # map (\<lambda>i. ?B ((k1 * dlen + Suc j1 + i) div dlen) ! ((k1 * dlen + Suc j1 + i) mod dlen)) [0..<n]"
    using first j1(2) by (simp only: upt_conv_Cons zero_less_Suc map_Suc_upt [symmetric] list.map map_map) (simp add: comp_def)
  then have "Generate hash (Suc n) g = (map (\<lambda>i. ?B ((k * dlen + j + i) div dlen) ! ((k * dlen + j + i) mod dlen)) [0..<Suc n], g')"
    using IH g by (simp add: Let_def del: upt_Suc)
  then show ?case using rest j1(2) by (intro exI [of _ g'] exI [of _ k'] exI [of _ j']) simp
qed auto

text \<open>
  However the calls of \<open>Generate\<close> are divided, the bytes are those of one stream: the digests of the two halves
  of the key around the digest before, one after the other, each used up before the next is computed.
\<close>

theorem session_key_stream:
  fixes hash :: "u8 list \<Rightarrow> u8 list"
  assumes "\<forall>x. length (hash x) = dlen" and "0 < dlen"
  defines "stream buf i \<equiv> key_block hash (replicate dlen 0) (hash (take (length buf div 2) buf)) (hash (drop (length buf div 2) buf)) (i div dlen)
      ! (i mod dlen)"
  shows "let (bs, g) = Generate hash m (SessionKeyGenerator hash dlen buf); (bs', g') = Generate hash n g
    in bs @ bs' = map (stream buf) [0..<m + n]"
proof -
  let ?o1 = "hash (take (length buf div 2) buf)" and ?o2 = "hash (drop (length buf div 2) buf)"
  let ?B = "key_block hash (replicate dlen 0) ?o1 ?o2" and ?g = "SessionKeyGenerator hash dlen buf"
  have len: "length (hash x) = dlen" for x using assms(1) by simp
  have g: "skg_o1 ?g = ?o1" "skg_o2 ?g = ?o2" "skg_o0 ?g = ?B 0" "skg_it ?g = 0"
    by (simp_all add: SessionKeyGenerator_def Let_def GetDigestOf_def)
  obtain g1 k j where one: "Generate hash m ?g = (map (stream buf) [0..<m], g1)"
    and g1: "skg_o1 g1 = ?o1" "skg_o2 g1 = ?o2" "skg_o0 g1 = ?B k" "skg_it g1 = j" "j \<le> dlen" "k * dlen + j = m"
    using Generate_block [OF len assms(2) g, of m] by (auto simp: stream_def)
  obtain g2 where two: "Generate hash n g1 = (map (\<lambda>i. stream buf (m + i)) [0..<n], g2)"
    using Generate_block [OF len assms(2) g1(1-5), of n] g1(6) by (auto simp: stream_def)
  have "map (stream buf) [0..<m + n] = map (stream buf) [0..<m] @ map (\<lambda>i. stream buf (m + i)) [0..<n]"
    by (intro nth_equalityI) (auto simp: nth_append)
  then show ?thesis using one two by simp
qed

theorem session_key_stream_witness:
  "fst (Generate (\<lambda>x. [of_nat (length x), sum_list x]) 5 (SessionKeyGenerator (\<lambda>x. [of_nat (length x), sum_list x]) 2 [1, 2, 3]))
     = [6, 9, 6, 24, 6]"
proof -
  let ?hash = "\<lambda>x :: u8 list. [of_nat (length x), sum_list x]"
  have len: "\<forall>x. length (?hash x) = 2" by simp
  have "fst (Generate ?hash 5 (SessionKeyGenerator ?hash 2 [1, 2, 3]))
     = map (\<lambda>i. key_block ?hash (replicate 2 0) (?hash [1]) (?hash [2, 3]) (i div 2) ! (i mod 2)) [0..<5]"
    using session_key_stream [OF len, of 5 "[1, 2, 3]" 0] by (simp add: case_prod_beta Let_def)
  then show ?thesis by code_simp
qed

subsection \<open>Authenticated encryption can be undone\<close>

lemma split_loop_eq:
  "length tail = k \<Longrightarrow> split_loop k (bytes @ tail) (tl1 @ tl2) = (bytes, tail @ tl2)" if "length tl1 = k" for tl1 tl2 :: "u8 list"
  using that
proof (induction k arbitrary: tail tl1 tl2)
  case (Suc k)
  obtain t x where t: "tail = t @ [x]" "length t = k" using Suc.prems(1) by (metis length_Suc_conv_rev)
  obtain u y where u: "tl1 = u @ [y]" "length u = k" using Suc.prems(2) by (metis length_Suc_conv_rev)
  have "(tl1 @ tl2)[k := x] = u @ (x # tl2)" using u by (simp add: list_update_append)
  then show ?case using Suc.IH [OF t(2) u(2), of "x # tl2"] t u by (simp add: butlast_append flip: append_assoc)
qed simp

lemma SplitFromBack_append:
  "length tail = n \<Longrightarrow> SplitFromBack (bytes @ tail) n = Inr (bytes, tail)"
  using split_loop_eq [of "replicate n 0" n tail bytes "[]"] by (simp add: SplitFromBack_def)

lemma SplitFromBack_short: "length bytes < n \<Longrightarrow> SplitFromBack bytes n = Inl AssertFailure"
  by (simp add: SplitFromBack_def assert_res_def)

lemma short_message_aborts:
  "length bytes < 24 \<Longrightarrow> AEDecrypt E key bytes = Inl AssertFailure"
proof (cases "length bytes < 12")
  case False
  assume "length bytes < 24"
  then have "SplitFromBack bytes 12 = Inr (take (length bytes - 12) bytes, drop (length bytes - 12) bytes)"
    using SplitFromBack_append [of "drop (length bytes - 12) bytes" 12 "take (length bytes - 12) bytes"] False by simp
  moreover have "SplitFromBack (take (length bytes - 12) bytes) 12 = Inl AssertFailure"
    using \<open>length bytes < 24\<close> by (intro SplitFromBack_short) simp
  ultimately show ?thesis by (simp add: AEDecrypt_def)
qed (simp add: AEDecrypt_def SplitFromBack_short)

text \<open>
  What the manual says of Galois counter mode: encrypting works, keeps the length, leaves nothing for the end and gives
  a tag; decrypting the result with the key and the vector gives the data back, and the end reports success for that tag and
  failure for any other.
\<close>

definition gcm_laws :: "'c evp \<Rightarrow> bool" where
  "gcm_laws E \<longleftrightarrow> (\<forall>key iv bytes. length iv = IV_SIZE_BYTES \<longrightarrow>
     (\<exists>c1 c2 c3 out tag d1 d2 d3.
        evp_set_iv E (evp_start E True key) iv = Some c1 \<and> evp_update E c1 bytes = Some (c2, out) \<and> length out = length bytes
      \<and> evp_final E c2 = Some (c3, []) \<and> evp_get_tag E c3 = Some tag \<and> length tag = TAG_SIZE_BYTES
      \<and> evp_set_iv E (evp_start E False key) iv = Some d1 \<and> evp_update E d1 out = Some (d2, bytes)
      \<and> (\<forall>t. length t = TAG_SIZE_BYTES \<longrightarrow> evp_set_tag E d2 t = Some (d3 t) \<and> (evp_final E (d3 t) = None \<longleftrightarrow> t \<noteq> tag))
      \<and> (\<exists>d4. evp_final E (d3 tag) = Some (d4, []))))"

text \<open>
  C32: A buffer that was encrypted with a random vector grows by the vector and the tag, and is decrypted to what it was.
  With any other tag at its end it is refused, and a message too short for a vector and a tag stops the process.
\<close>

theorem authenticated_roundtrip:
  assumes "gcm_laws E" and "length iv = 12" and "length bytes < 2 ^ 31"
  shows "\<exists>out tag. AEEncryptWithRandomIV E iv key bytes = Inr (out @ iv @ tag) \<and> length out = length bytes \<and> length tag = 12
    \<and> AEDecrypt E key (out @ iv @ tag) = Inr (True, bytes)
    \<and> (\<forall>t. length t = 12 \<and> t \<noteq> tag \<longrightarrow> AEDecrypt E key (out @ iv @ t) = Inr (False, bytes))
    \<and> (\<forall>short. length short < 24 \<longrightarrow> AEDecrypt E key short = Inl AssertFailure)"
proof -
  obtain c1 c2 c3 out tag d1 d2 d3 d4 where
    enc: "evp_set_iv E (evp_start E True key) iv = Some c1" "evp_update E c1 bytes = Some (c2, out)" "length out = length bytes"
      "evp_final E c2 = Some (c3, [])" "evp_get_tag E c3 = Some tag" "length tag = 12"
    and dec: "evp_set_iv E (evp_start E False key) iv = Some d1" "evp_update E d1 out = Some (d2, bytes)"
      "\<And>t. length t = 12 \<Longrightarrow> evp_set_tag E d2 t = Some (d3 t)" "\<And>t. length t = 12 \<Longrightarrow> evp_final E (d3 t) = None \<longleftrightarrow> t \<noteq> tag"
      "evp_final E (d3 tag) = Some (d4, [])"
    using assms(1) [unfolded gcm_laws_def, rule_format, OF assms(2), of key bytes] by blast
  have "AEEncryptWithRandomIV E iv key bytes = Inr (out @ iv @ tag)"
    using enc assms(3) by (simp add: AEEncryptWithRandomIV_def AES_Process_def AppendToBack_def)
  moreover have "AEDecrypt E key (out @ iv @ t) = Inr (t = tag, bytes)" if "length t = 12" for t
    using SplitFromBack_append [OF that, of "out @ iv"] SplitFromBack_append [OF assms(2), of out] enc(3) dec(1,2,5)
      dec(3,4)[OF that] assms(3)
    by (cases "t = tag") (simp_all add: AEDecrypt_def AES_Process_def)
  ultimately show ?thesis using enc(3,6) by (intro exI [of _ out] exI [of _ tag]) (simp add: short_message_aborts)
qed

text \<open>
  An instance: the data is masked by a byte, the tag is twelve times the sum of the plain bytes, and the context holds that
  sum and the tag it expects.
\<close>

definition toy_evp :: "(bool \<times> u8 \<times> u8 list option) evp" where
  "toy_evp = \<lparr>evp_start = (\<lambda>enc key. (enc, 0, None)), evp_set_iv = (\<lambda>c iv. Some c),
     evp_update = (\<lambda>(enc, s, t) bytes. let out = map (xor 85) bytes in Some ((enc, s + sum_list (if enc then bytes else out), t), out)),
     evp_set_tag = (\<lambda>(enc, s, t) tag. Some (enc, s, Some tag)),
     evp_final = (\<lambda>(enc, s, t). if enc \<or> t = Some (replicate 12 s) then Some ((enc, s, t), []) else None),
     evp_get_tag = (\<lambda>(enc, s, t). Some (replicate 12 s))\<rparr>"

lemma toy_evp_laws: "gcm_laws toy_evp"
  unfolding gcm_laws_def
proof (intro allI impI)
  fix key iv bytes :: "u8 list"
  let ?s = "sum_list bytes"
  have m: "map (xor 85) (map (xor 85) bytes) = bytes" by (simp add: comp_def flip: xor.assoc)
  show "\<exists>c1 c2 c3 out tag d1 d2 d3.
        evp_set_iv toy_evp (evp_start toy_evp True key) iv = Some c1 \<and> evp_update toy_evp c1 bytes = Some (c2, out) \<and> length out = length bytes
      \<and> evp_final toy_evp c2 = Some (c3, []) \<and> evp_get_tag toy_evp c3 = Some tag \<and> length tag = TAG_SIZE_BYTES
      \<and> evp_set_iv toy_evp (evp_start toy_evp False key) iv = Some d1 \<and> evp_update toy_evp d1 out = Some (d2, bytes)
      \<and> (\<forall>t. length t = TAG_SIZE_BYTES \<longrightarrow> evp_set_tag toy_evp d2 t = Some (d3 t) \<and> (evp_final toy_evp (d3 t) = None \<longleftrightarrow> t \<noteq> tag))
      \<and> (\<exists>d4. evp_final toy_evp (d3 tag) = Some (d4, []))"
    by (rule exI [of _ "(True, 0, None)"], rule exI [of _ "(True, ?s, None)"], rule exI [of _ "(True, ?s, None)"],
        rule exI [of _ "map (xor 85) bytes"], rule exI [of _ "replicate 12 ?s"], rule exI [of _ "(False, 0, None)"],
        rule exI [of _ "(False, ?s, None)"], rule exI [of _ "\<lambda>t. (False, ?s, Some t)"])
      (auto simp: toy_evp_def Let_def m simp del: map_map)
qed

theorem authenticated_roundtrip_witness:
  "\<exists>out tag. AEEncryptWithRandomIV toy_evp (replicate 12 3) [1] [1, 2, 3] = Inr (out @ replicate 12 3 @ tag) \<and> length out = 3
     \<and> AEDecrypt toy_evp [1] (out @ replicate 12 3 @ tag) = Inr (True, [1, 2, 3])"
  using authenticated_roundtrip [OF toy_evp_laws, of "replicate 12 3" "[1, 2, 3]" "[1]"] by auto

subsection \<open>The two ends of a session\<close>

definition xor_with :: "(nat \<Rightarrow> u8) \<Rightarrow> u8 list \<Rightarrow> u8 list" where
  "xor_with ks bytes = map (\<lambda>i. xor (bytes ! i) (ks i)) [0..<length bytes]"

text \<open>
  RC4 is a stream cipher: the state after \<open>k\<close> bytes under a key is \<open>pos c = (key, k)\<close>, and an update combines the
  data with the bytes of the key stream \<open>ks\<close> from there on.
\<close>

definition rc4_laws :: "'r rc4 \<Rightarrow> (u8 list \<Rightarrow> nat \<Rightarrow> u8) \<Rightarrow> ('r \<Rightarrow> u8 list \<times> nat) \<Rightarrow> bool" where
  "rc4_laws R ks pos \<longleftrightarrow>
     (\<forall>key. \<exists>c. rc4_key R key = Some c \<and> pos c = (key, 0))
   \<and> (\<forall>c key k bytes. pos c = (key, k) \<longrightarrow>
        (\<exists>c'. rc4_update R c bytes = Some (c', xor_with (\<lambda>i. ks key (k + i)) bytes) \<and> pos c' = (key, k + length bytes)))"

text \<open>Messages in the pieces in which they are sent or received.\<close>

fun in_pieces :: "(u8 list \<Rightarrow> 's \<Rightarrow> (u8 list \<times> 's) res) \<Rightarrow> u8 list list \<Rightarrow> 's \<Rightarrow> (u8 list \<times> 's) res" where
  "in_pieces f [] s = Inr ([], s)"
| "in_pieces f (m # ms) s =
     bind_res (f m s) (\<lambda>(out, s). bind_res (in_pieces f ms s) (\<lambda>(outs, s). Inr (out @ outs, s)))"

lemma length_xor_with [simp]: "length (xor_with ks bytes) = length bytes"
  by (simp add: xor_with_def)

lemma xor_with_append: "xor_with ks (xs @ ys) = xor_with ks xs @ xor_with (\<lambda>i. ks (length xs + i)) ys"
  by (intro nth_equalityI) (auto simp: xor_with_def nth_append)

lemma xor_with_twice [simp]: "xor_with ks (xor_with ks bytes) = bytes"
  by (intro nth_equalityI) (simp_all add: xor_with_def xor.assoc)

lemma in_pieces_stream:
  assumes "\<And>bytes s k. P s k \<Longrightarrow> \<exists>s'. f bytes s = Inr (xor_with (\<lambda>i. ks (k + i)) bytes, s') \<and> P s' (k + length bytes)" and "P s k"
  shows "\<exists>s'. in_pieces f ms s = Inr (xor_with (\<lambda>i. ks (k + i)) (concat ms), s') \<and> P s' (k + length (concat ms))"
  using assms(2)
proof (induction ms arbitrary: s k)
  case (Cons m ms)
  obtain s1 where s1: "f m s = Inr (xor_with (\<lambda>i. ks (k + i)) m, s1)" "P s1 (k + length m)"
    using assms(1) [OF Cons.prems] by blast
  obtain s2 where "in_pieces f ms s1 = Inr (xor_with (\<lambda>i. ks (k + length m + i)) (concat ms), s2)" "P s2 (k + length m + length (concat ms))"
    using Cons.IH [OF s1(2)] by blast
  then show ?case using s1(1) by (simp add: xor_with_append add.assoc)
qed (simp add: xor_with_def)

lemma ARC4_Init_laws:
  assumes "rc4_laws R ks pos"
  obtains c where "ARC4_Init R key = Inr c" "pos c = (key, 0)"
proof -
  obtain c where "rc4_key R key = Some c" "pos c = (key, 0)" using assms unfolding rc4_laws_def by blast
  then show ?thesis using that by (simp add: ARC4_Init_def)
qed

lemma ARC4_UpdateData_laws:
  assumes "rc4_laws R ks pos" and "pos c = (key, k)"
  shows "\<exists>c'. ARC4_UpdateData R bytes c = Inr (xor_with (\<lambda>i. ks key (k + i)) bytes, c') \<and> pos c' = (key, k + length bytes)"
proof -
  obtain c' where "rc4_update R c bytes = Some (c', xor_with (\<lambda>i. ks key (k + i)) bytes)" "pos c' = (key, k + length bytes)"
    using assms unfolding rc4_laws_def by blast
  then show ?thesis by (simp add: ARC4_UpdateData_def)
qed

text \<open>A cipher of the other end: keyed with the session key, and past the first 1024 bytes.\<close>

definition peer :: "'r rc4 \<Rightarrow> u8 list \<Rightarrow> 'r res" where
  "peer R seed = bind_res (ARC4_Init R seed) (\<lambda>c. bind_res (ARC4_UpdateData R (replicate 1024 0) c) (\<lambda>(_, c). Inr c))"

lemma peer_laws:
  assumes "rc4_laws R ks pos"
  obtains c where "peer R seed = Inr c" "pos c = (seed, 1024)"
proof -
  obtain c0 where c0: "ARC4_Init R seed = Inr c0" "pos c0 = (seed, 0)" using ARC4_Init_laws [OF assms] by blast
  then show ?thesis using that ARC4_UpdateData_laws [OF assms c0(2), of "replicate 1024 0"] by (auto simp: peer_def)
qed

lemma AuthCrypt_Init_laws:
  assumes "rc4_laws R ks pos"
  obtains ac enc dec where "AuthCrypt_Init R hmac K ac0 = Inr ac" "ac_initialized ac"
    "ac_serverEncrypt ac = Some enc" "pos enc = (hmac ServerEncryptionKey K, 1024)"
    "ac_clientDecrypt ac = Some dec" "pos dec = (hmac ServerDecryptionKey K, 1024)"
proof -
  obtain e0 d0 where e0: "ARC4_Init R (hmac ServerEncryptionKey K) = Inr e0" "pos e0 = (hmac ServerEncryptionKey K, 0)"
    and d0: "ARC4_Init R (hmac ServerDecryptionKey K) = Inr d0" "pos d0 = (hmac ServerDecryptionKey K, 0)"
    using ARC4_Init_laws [OF assms] by metis
  obtain buf e1 where e1: "ARC4_UpdateData R (replicate 1024 0) e0 = Inr (buf, e1)" "pos e1 = (hmac ServerEncryptionKey K, 1024)" "length buf = 1024"
    using ARC4_UpdateData_laws [OF assms e0(2), of "replicate 1024 0"] by auto
  obtain buf' d1 where "ARC4_UpdateData R buf d0 = Inr (buf', d1)" "pos d1 = (hmac ServerDecryptionKey K, 1024)"
    using ARC4_UpdateData_laws [OF assms d0(2), of buf] e1(3) by auto
  then show ?thesis using that e0 d0 e1 by (simp add: AuthCrypt_Init_def)
qed

definition encrypts_at :: "('r \<Rightarrow> u8 list \<times> nat) \<Rightarrow> u8 list \<Rightarrow> 'r \<Rightarrow> 'r auth_crypt \<Rightarrow> nat \<Rightarrow> bool" where
  "encrypts_at pos key dec ac k \<longleftrightarrow>
     ac_initialized ac \<and> ac_clientDecrypt ac = Some dec \<and> (\<exists>c. ac_serverEncrypt ac = Some c \<and> pos c = (key, k))"

definition decrypts_at :: "('r \<Rightarrow> u8 list \<times> nat) \<Rightarrow> u8 list \<Rightarrow> 'r auth_crypt \<Rightarrow> nat \<Rightarrow> bool" where
  "decrypts_at pos key ac k \<longleftrightarrow> ac_initialized ac \<and> (\<exists>c. ac_clientDecrypt ac = Some c \<and> pos c = (key, k))"

lemma EncryptSend_laws:
  assumes "rc4_laws R ks pos" and "encrypts_at pos key dec a k"
  shows "\<exists>a'. EncryptSend R bytes a = Inr (xor_with (\<lambda>i. ks key (k + i)) bytes, a') \<and> encrypts_at pos key dec a' (k + length bytes)"
proof -
  obtain c where c: "ac_serverEncrypt a = Some c" "pos c = (key, k)" using assms(2) by (auto simp: encrypts_at_def)
  show ?thesis using ARC4_UpdateData_laws [OF assms(1) c(2), of bytes] c(1) assms(2) by (auto simp: EncryptSend_def encrypts_at_def)
qed

lemma DecryptRecv_laws:
  assumes "rc4_laws R ks pos" and "decrypts_at pos key a k"
  shows "\<exists>a'. DecryptRecv R bytes a = Inr (xor_with (\<lambda>i. ks key (k + i)) bytes, a') \<and> decrypts_at pos key a' (k + length bytes)"
proof -
  obtain c where c: "ac_clientDecrypt a = Some c" "pos c = (key, k)" using assms(2) by (auto simp: decrypts_at_def)
  show ?thesis using ARC4_UpdateData_laws [OF assms(1) c(2), of bytes] c(1) assms(2) by (auto simp: DecryptRecv_def decrypts_at_def)
qed

lemma ARC4_pieces:
  assumes "rc4_laws R ks pos" and "pos c = (key, k)"
  shows "\<exists>c'. in_pieces (ARC4_UpdateData R) ms c = Inr (xor_with (\<lambda>i. ks key (k + i)) (concat ms), c')"
  using in_pieces_stream [where f = "ARC4_UpdateData R" and P = "\<lambda>c k. pos c = (key, k)" and ks = "ks key",
      OF ARC4_UpdateData_laws [OF assms(1)] assms(2)] by blast

text \<open>
  C33: After \<open>Init\<close> with the same session key, what the server sends with \<open>EncryptSend\<close> is decrypted by the
  other end, and what the other end encrypts is decrypted by \<open>DecryptRecv\<close>, whatever the pieces in which either side
  handles the bytes, and in both directions at once.
\<close>

theorem session_stream_roundtrip:
  fixes R :: "'r rc4"
  assumes "rc4_laws R ks pos"
  shows "\<exists>ac c d. AuthCrypt_Init R hmac K AuthCrypt = Inr ac
    \<and> peer R (hmac ServerEncryptionKey K) = Inr c \<and> peer R (hmac ServerDecryptionKey K) = Inr d
    \<and> (\<forall>sent. \<exists>out ac'. in_pieces (EncryptSend R) sent ac = Inr (out, ac')
         \<and> (\<forall>pieces. concat pieces = out \<longrightarrow> (\<exists>c'. in_pieces (ARC4_UpdateData R) pieces c = Inr (concat sent, c')))
         \<and> (\<forall>msgs. \<exists>out d'. in_pieces (ARC4_UpdateData R) msgs d = Inr (out, d')
              \<and> (\<forall>pieces. concat pieces = out \<longrightarrow> (\<exists>ac''. in_pieces (DecryptRecv R) pieces ac' = Inr (concat msgs, ac'')))))"
proof -
  let ?ek = "hmac ServerEncryptionKey K" and ?dk = "hmac ServerDecryptionKey K"
  obtain ac enc dec where ac: "AuthCrypt_Init R hmac K AuthCrypt = Inr ac" "ac_initialized ac"
      "ac_serverEncrypt ac = Some enc" "pos enc = (?ek, 1024)" "ac_clientDecrypt ac = Some dec" "pos dec = (?dk, 1024)"
    using AuthCrypt_Init_laws [OF assms] .
  obtain c d where c: "peer R ?ek = Inr c" "pos c = (?ek, 1024)" and d: "peer R ?dk = Inr d" "pos d = (?dk, 1024)"
    using peer_laws [OF assms] by metis
  have "\<exists>out ac'. in_pieces (EncryptSend R) sent ac = Inr (out, ac')
         \<and> (\<forall>pieces. concat pieces = out \<longrightarrow> (\<exists>c'. in_pieces (ARC4_UpdateData R) pieces c = Inr (concat sent, c')))
         \<and> (\<forall>msgs. \<exists>out d'. in_pieces (ARC4_UpdateData R) msgs d = Inr (out, d')
              \<and> (\<forall>pieces. concat pieces = out \<longrightarrow> (\<exists>ac''. in_pieces (DecryptRecv R) pieces ac' = Inr (concat msgs, ac''))))" for sent
  proof -
    have "encrypts_at pos ?ek dec ac 1024" using ac by (simp add: encrypts_at_def)
    then obtain ac' where s: "in_pieces (EncryptSend R) sent ac = Inr (xor_with (\<lambda>i. ks ?ek (1024 + i)) (concat sent), ac')" "encrypts_at pos ?ek dec ac' (1024 + length (concat sent))"
      using in_pieces_stream [where f = "EncryptSend R" and P = "encrypts_at pos ?ek dec" and ks = "ks ?ek", OF EncryptSend_laws [OF assms]] by blast
    have "decrypts_at pos ?dk ac' 1024" using s(2) ac(6) by (simp add: encrypts_at_def decrypts_at_def)
    then have r: "\<exists>a'. in_pieces (DecryptRecv R) pieces ac' = Inr (xor_with (\<lambda>i. ks ?dk (1024 + i)) (concat pieces), a')" for pieces
      using in_pieces_stream [where f = "DecryptRecv R" and P = "decrypts_at pos ?dk" and ks = "ks ?dk", OF DecryptRecv_laws [OF assms]] by blast
    show ?thesis using s(1) ARC4_pieces [OF assms c(2)] ARC4_pieces [OF assms d(2)] r by (metis xor_with_twice)
  qed
  then show ?thesis using ac(1) c(1) d(1) by blast
qed

definition toy_rc4 :: "(u8 list \<times> nat) rc4" where
  "toy_rc4 = \<lparr>rc4_key = (\<lambda>key. Some (key, 0)),
     rc4_update = (\<lambda>(key, k) bytes. Some ((key, k + length bytes), xor_with (\<lambda>i. sum_list key + of_nat (k + i)) bytes))\<rparr>"

theorem session_stream_roundtrip_witness:
  "\<exists>ac c out ac' c'. AuthCrypt_Init toy_rc4 (\<lambda>k m. k @ m) [1, 2] AuthCrypt = Inr ac
     \<and> peer toy_rc4 (ServerEncryptionKey @ [1, 2]) = Inr c
     \<and> in_pieces (EncryptSend toy_rc4) [[1, 2], [3]] ac = Inr (out, ac')
     \<and> in_pieces (ARC4_UpdateData toy_rc4) [take 1 out, drop 1 out] c = Inr ([1, 2, 3], c')"
proof -
  have "rc4_laws toy_rc4 (\<lambda>key k. sum_list key + of_nat k) id"
    by (simp add: rc4_laws_def toy_rc4_def)
  from session_stream_roundtrip [OF this, of "\<lambda>k m. k @ m" "[1, 2]"] obtain ac c where
    ac: "AuthCrypt_Init toy_rc4 (\<lambda>k m. k @ m) [1, 2] AuthCrypt = Inr ac" "peer toy_rc4 (ServerEncryptionKey @ [1, 2]) = Inr c"
    and all: "\<forall>sent. \<exists>out ac'. in_pieces (EncryptSend toy_rc4) sent ac = Inr (out, ac')
      \<and> (\<forall>pieces. concat pieces = out \<longrightarrow> (\<exists>c'. in_pieces (ARC4_UpdateData toy_rc4) pieces c = Inr (concat sent, c')))"
    by metis
  from all obtain out ac' where "in_pieces (EncryptSend toy_rc4) [[1, 2], [3]] ac = Inr (out, ac')"
    and "\<forall>pieces. concat pieces = out \<longrightarrow> (\<exists>c'. in_pieces (ARC4_UpdateData toy_rc4) pieces c = Inr (concat [[1, 2], [3]], c'))"
    by blast
  moreover have "concat [take 1 out, drop 1 out] = out" "concat [[1, 2], [3 :: u8]] = [1, 2, 3]" by simp_all
  ultimately show ?thesis using ac by metis
qed

end
