(* ===== verification/Containers.thy ===== *)
theory Containers
  imports Prelude "HOL-Library.Sublist"
begin

section \<open>Helpers for containers and random integers\<close>

text \<open>
  \<^verbatim>\<open>src/src/common/Utilities/Containers.h\<close>.  A container is the list of its elements; the loops that move elements
  within it keep the positions of their iterators.  Random numbers are an argument: \<open>roll k\<close> is the result of
  the \<open>k\<close>-th call of \<open>urand\<close>, whose contract (a number between its bounds) is a hypothesis.  \<open>RandomShuffle\<close> and the weighted
  choice hand their work to the standard library and are not modelled.  The last section has the integer functions of \<^verbatim>\<open>src/src/common/Utilities/Random.cpp\<close>.
\<close>

subsection \<open>Operations\<close>

text \<open>The output iterator: the buffer and the position in it; \<open>None\<close> is the exception \<open>out_of_range\<close>.\<close>

record 'a out_iter =
  oi_buf :: "'a list"
  oi_pos :: nat

definition out_write :: "'a \<Rightarrow> 'a out_iter \<Rightarrow> 'a out_iter option" where
  "out_write x it = (if oi_pos it \<ge> length (oi_buf it) then None else Some (it\<lparr>oi_buf := (oi_buf it)[oi_pos it := x]\<rparr>))"

definition out_next :: "'a out_iter \<Rightarrow> 'a out_iter option" where
  "out_next it = (if oi_pos it \<ge> length (oi_buf it) then None else Some (it\<lparr>oi_pos := Suc (oi_pos it)\<rparr>))"

definition remaining :: "'a out_iter \<Rightarrow> nat" where
  "remaining it = length (oi_buf it) - oi_pos it"

text \<open>The loop of \<open>RandomResize\<close>: \<open>keep\<close> and \<open>cur\<close> are the positions of the two iterators.\<close>

fun resize_loop :: "(nat \<Rightarrow> nat) \<Rightarrow> nat \<Rightarrow> nat \<Rightarrow> nat \<Rightarrow> nat \<Rightarrow> 'a list \<Rightarrow> 'a list \<times> nat" where
  "resize_loop roll keep cur toKeep 0 xs = (xs, keep)"
| "resize_loop roll keep cur toKeep (Suc n) xs =
     (if roll cur \<le> toKeep
      then resize_loop roll (Suc keep) (Suc cur) (toKeep - 1) n (if keep \<noteq> cur then xs[keep := xs ! cur] else xs)
      else resize_loop roll keep (Suc cur) toKeep n xs)"

definition RandomResize :: "(nat \<Rightarrow> nat) \<Rightarrow> nat \<Rightarrow> 'a list \<Rightarrow> 'a list" where
  "RandomResize roll requestedSize xs =
     (if length xs \<le> requestedSize then xs
      else let (xs, keep) = resize_loop roll 0 0 (requestedSize mod 2 ^ 32) (length xs mod 2 ^ 32) xs in take keep xs)"

definition RandomResize_if :: "(nat \<Rightarrow> nat) \<Rightarrow> ('a \<Rightarrow> bool) \<Rightarrow> nat \<Rightarrow> 'a list \<Rightarrow> 'a list" where
  "RandomResize_if roll predicate requestedSize xs =
     (let copy = filter predicate xs in if requestedSize \<noteq> 0 then RandomResize roll requestedSize copy else copy)"

text \<open>\<open>r\<close> is the result of \<open>urand(0, size - 1)\<close>, with the subtraction in 32 bits.\<close>

definition SelectRandomContainerElement :: "(u32 \<Rightarrow> u32) \<Rightarrow> 'a list \<Rightarrow> 'a res" where
  "SelectRandomContainerElement urand xs =
     (let i = unat (urand (of_nat (length xs) - 1)) in if i < length xs then Inr (xs ! i) else Inl Undefined)"

fun Intersects :: "'a :: linorder list \<Rightarrow> 'a list \<Rightarrow> bool" where
  "Intersects (x # xs) (y # ys) =
     (if x < y then Intersects xs (y # ys) else if y < x then Intersects (x # xs) ys else True)"
| "Intersects xs ys = False"

definition MapGetValuePtr :: "('k \<times> 'v) list \<Rightarrow> 'k \<Rightarrow> 'v option" where
  "MapGetValuePtr m key = map_of m key"

text \<open>
  The loop over the range of the key; a multimap is sorted by its keys, so the range is what is between the elements
  with smaller and those with larger keys.
\<close>

fun erase_pairs :: "'v \<Rightarrow> ('k \<times> 'v) list \<Rightarrow> ('k \<times> 'v) list" where
  "erase_pairs val [] = []"
| "erase_pairs val ((k, v) # m) = (if v = val then erase_pairs val m else (k, v) # erase_pairs val m)"

definition MultimapErasePair :: "('k :: linorder \<times> 'v) list \<Rightarrow> 'k \<Rightarrow> 'v \<Rightarrow> ('k \<times> 'v) list" where
  "MultimapErasePair m key val =
     (let before = takeWhile (\<lambda>(k, v). k < key) m;
          rest = dropWhile (\<lambda>(k, v). k < key) m;
          range = takeWhile (\<lambda>(k, v). k = key) rest
      in before @ erase_pairs val range @ dropWhile (\<lambda>(k, v). k = key) rest)"

text \<open>\<open>EraseIf\<close> for elements that can be moved: \<open>r\<close> and \<open>w\<close> are the positions of \<open>rpos\<close> and \<open>wpos\<close>.\<close>

function erase_loop :: "('a \<Rightarrow> bool) \<Rightarrow> nat \<Rightarrow> nat \<Rightarrow> 'a list \<Rightarrow> 'a list \<times> nat" where
  "erase_loop p r w xs =
     (if r \<ge> length xs then (xs, w)
      else if \<not> p (xs ! r) then erase_loop p (Suc r) (Suc w) (if r \<noteq> w then xs[r := xs ! w, w := xs ! r] else xs)
      else erase_loop p (Suc r) w xs)"
  by pat_completeness auto
termination
  by (relation "measure (\<lambda>(p, r, w, xs). length xs - r)") auto

declare erase_loop.simps [simp del]

definition EraseIf :: "'a list \<Rightarrow> ('a \<Rightarrow> bool) \<Rightarrow> 'a list" where
  "EraseIf c p = (let (c, w) = erase_loop p 0 0 c in take w c)"

text \<open>\<open>EraseIf\<close> for the others: they are erased one at a time.\<close>

function erase_each :: "nat \<Rightarrow> 'a list \<Rightarrow> ('a \<Rightarrow> bool) \<Rightarrow> 'a list" where
  "erase_each it c p =
     (if it \<ge> length c then c
      else if p (c ! it) then erase_each it (take it c @ drop (Suc it) c) p
      else erase_each (Suc it) c p)"
  by pat_completeness auto
termination
  by (relation "measure (\<lambda>(it, c, p). length c - it)") auto

declare erase_each.simps [simp del]

definition EraseIf_fixed :: "'a list \<Rightarrow> ('a \<Rightarrow> bool) \<Rightarrow> 'a list" where
  "EraseIf_fixed c p = erase_each 0 c p"

subsection \<open>Choosing elements at random\<close>

fun choose_from :: "(nat \<Rightarrow> nat) \<Rightarrow> nat \<Rightarrow> nat \<Rightarrow> 'a list \<Rightarrow> 'a list" where
  "choose_from roll cur k [] = []"
| "choose_from roll cur k (x # xs) =
     (if roll cur \<le> k then x # choose_from roll (Suc cur) (k - 1) xs else choose_from roll (Suc cur) k xs)"

lemma resize_loop_eq:
  assumes "keep \<le> cur" and "cur + n = length xs"
  shows "let (ys, w) = resize_loop roll keep cur k n xs in take w ys = take keep xs @ choose_from roll cur k (drop cur xs)"
  using assms
proof (induction n arbitrary: keep cur k xs)
  case (Suc n)
  have d: "drop cur xs = xs ! cur # drop (Suc cur) xs" using Suc.prems by (simp add: Cons_nth_drop_Suc)
  let ?xs = "if keep \<noteq> cur then xs[keep := xs ! cur] else xs"
  have "take (Suc keep) ?xs = take keep xs @ [xs ! cur]" "drop (Suc cur) ?xs = drop (Suc cur) xs" "length ?xs = length xs"
    using Suc.prems by (auto simp: take_Suc_conv_app_nth)
  then show ?case
    using Suc.IH [of "Suc keep" "Suc cur" ?xs "k - 1"] Suc.IH [of keep "Suc cur" xs k] Suc.prems d
    by (auto simp: Let_def case_prod_beta)
qed simp

definition rolls_ok :: "(nat \<Rightarrow> nat) \<Rightarrow> nat \<Rightarrow> nat \<Rightarrow> bool" where
  "rolls_ok roll cur n \<longleftrightarrow> (\<forall>i < n. 1 \<le> roll (cur + i) \<and> roll (cur + i) \<le> n - i)"

lemma rolls_ok_Suc: "rolls_ok roll cur (Suc n) \<longleftrightarrow> 1 \<le> roll cur \<and> roll cur \<le> Suc n \<and> rolls_ok roll (Suc cur) n"
  by (simp add: rolls_ok_def All_less_Suc2)

lemma choose_from_subseq: "subseq (choose_from roll cur k xs) xs"
  by (induction roll cur k xs rule: choose_from.induct) auto

lemma length_choose_from:
  "rolls_ok roll cur (length xs) \<Longrightarrow> k \<le> length xs \<Longrightarrow> length (choose_from roll cur k xs) = k"
  by (induction roll cur k xs rule: choose_from.induct) (auto simp: rolls_ok_Suc)

lemma choose_from_cong:
  "(\<And>i. cur \<le> i \<Longrightarrow> roll i = roll' i) \<Longrightarrow> choose_from roll cur k xs = choose_from roll' cur k xs"
  by (induction roll cur k xs rule: choose_from.induct) auto

lemma roll_first:
  obtains roll' where "roll' cur = v" "\<And>k xs. choose_from roll' (Suc cur) k xs = choose_from roll (Suc cur) k xs"
    "\<And>n. rolls_ok roll' (Suc cur) n = rolls_ok roll (Suc cur) n"
  by (rule that [of "roll(cur := v)"]) (auto simp: rolls_ok_def intro: choose_from_cong)

lemma choose_any:
  fixes xs :: "'a list"
  shows "subseq ys xs \<Longrightarrow> \<exists>roll. rolls_ok roll cur (length xs) \<and> choose_from roll cur (length ys) xs = ys"
proof (induction xs arbitrary: ys cur rule: list.induct)
  case (Cons x xs)
  show ?case
  proof (cases "\<exists>zs. ys = x # zs \<and> subseq zs xs")
    case True
    then obtain zs where zs: "ys = x # zs" "subseq zs xs" by blast
    obtain roll where "rolls_ok roll (Suc cur) (length xs)" "choose_from roll (Suc cur) (length zs) xs = zs" using Cons.IH [OF zs(2)] by blast
    moreover obtain roll' where "roll' cur = 1" "\<And>k (xs :: 'a list). choose_from roll' (Suc cur) k xs = choose_from roll (Suc cur) k xs"
      "\<And>n. rolls_ok roll' (Suc cur) n = rolls_ok roll (Suc cur) n" using roll_first by blast
    ultimately show ?thesis using zs(1) by (intro exI [of _ roll']) (simp add: rolls_ok_Suc)
  next
    case False
    then have ys: "subseq ys xs" using Cons.prems by (cases ys) (auto split: if_splits)
    obtain roll where "rolls_ok roll (Suc cur) (length xs)" "choose_from roll (Suc cur) (length ys) xs = ys" using Cons.IH [OF ys] by blast
    moreover obtain roll' where "roll' cur = Suc (length xs)" "\<And>k (xs :: 'a list). choose_from roll' (Suc cur) k xs = choose_from roll (Suc cur) k xs"
      "\<And>n. rolls_ok roll' (Suc cur) n = rolls_ok roll (Suc cur) n" using roll_first by blast
    ultimately show ?thesis using list_emb_length [OF ys] by (intro exI [of _ roll']) (simp add: rolls_ok_Suc)
  qed
qed (auto simp: rolls_ok_def dest: list_emb_length)

lemma RandomResize_eq:
  assumes "length xs < 2 ^ 32"
  shows "RandomResize roll n xs = (if length xs \<le> n then xs else choose_from roll 0 n xs)"
  using assms resize_loop_eq [of 0 0 "length xs" xs roll n] by (auto simp: RandomResize_def Let_def case_prod_beta)

text \<open>
  C38: \<open>RandomResize\<close> keeps exactly as many elements as were asked for, or all when there are fewer, in their order, and
  whatever the random numbers are; every choice of that many elements is the result of some random numbers.
\<close>

theorem random_resize:
  assumes "length xs < 2 ^ 32"
  shows "(\<forall>roll. rolls_ok roll 0 (length xs) \<longrightarrow>
      subseq (RandomResize roll n xs) xs \<and> length (RandomResize roll n xs) = min n (length xs))
    \<and> (\<forall>ys. subseq ys xs \<and> length ys = min n (length xs) \<longrightarrow> (\<exists>roll. rolls_ok roll 0 (length xs) \<and> RandomResize roll n xs = ys))"
proof (intro conjI allI impI)
  fix roll assume ok: "rolls_ok roll 0 (length xs)"
  show "subseq (RandomResize roll n xs) xs" by (simp add: RandomResize_eq [OF assms] choose_from_subseq)
  show "length (RandomResize roll n xs) = min n (length xs)"
    using length_choose_from [OF ok, of n] by (simp add: RandomResize_eq [OF assms])
next
  fix ys assume ys: "subseq ys xs \<and> length ys = min n (length xs)"
  then obtain roll where r: "rolls_ok roll 0 (length xs)" "choose_from roll 0 (length ys) xs = ys" using choose_any [of ys xs 0] by blast
  moreover have "ys = xs" if "length xs \<le> n" using ys that by (simp add: subseq_same_length)
  ultimately show "\<exists>roll. rolls_ok roll 0 (length xs) \<and> RandomResize roll n xs = ys"
    using ys by (intro exI [of _ roll]) (auto simp: RandomResize_eq [OF assms] min_def split: if_splits)
qed

theorem random_resize_witness:
  "length (RandomResize (\<lambda>k. 1) 2 ''abcde'') = 2 \<and> (\<exists>roll. rolls_ok roll 0 5 \<and> RandomResize roll 2 ''abcde'' = ''bd'')"
proof -
  have "rolls_ok (\<lambda>k. 1) 0 5" "subseq ''bd'' ''abcde''" by (auto simp: rolls_ok_def)
  moreover have "length ''abcde'' = 5" "length ''bd'' = 2" by simp_all
  ultimately show ?thesis using random_resize [of "''abcde''" 2, unfolded \<open>length ''abcde'' = 5\<close>] by simp
qed

subsection \<open>Sets and filters\<close>

text \<open>
  Sorted ranges intersect when they share an element; both variants of \<open>EraseIf\<close> are filters.
\<close>

lemma Intersects_iff: "sorted xs \<Longrightarrow> sorted ys \<Longrightarrow> Intersects xs ys = (set xs \<inter> set ys \<noteq> {})"
  by (induction xs ys rule: Intersects.induct) (auto simp: not_less)

lemma erase_loop_eq:
  assumes "w \<le> r" "r \<le> length xs"
  shows "let (ys, w') = erase_loop p r w xs in take w' ys = take w xs @ filter (\<lambda>x. \<not> p x) (drop r xs)"
  using assms
proof (induction p r w xs rule: erase_loop.induct)
  case (1 p r w xs)
  show ?case
  proof (cases "r < length xs")
    case True
    let ?xs = "if r \<noteq> w then xs[r := xs ! w, w := xs ! r] else xs"
    have d: "drop r xs = xs ! r # drop (Suc r) xs" using True by (simp add: Cons_nth_drop_Suc)
    have x: "take (Suc w) ?xs = take w xs @ [xs ! r]" "drop (Suc r) ?xs = drop (Suc r) xs" "length ?xs = length xs"
      using 1(3) True by (auto simp: take_Suc_conv_app_nth)
    show ?thesis
      using 1(1) [of] 1(2) 1(3) True x d by (subst erase_loop.simps) (auto simp: Let_def case_prod_beta)
  qed (use 1(3,4) in \<open>subst erase_loop.simps, simp\<close>)
qed

lemma erase_each_eq: "it \<le> length c \<Longrightarrow> erase_each it c p = take it c @ filter (\<lambda>x. \<not> p x) (drop it c)"
proof (induction it c p rule: erase_each.induct)
  case (1 it c p)
  show ?case
  proof (cases "it < length c")
    case True
    have "drop it c = c ! it # drop (Suc it) c" using True by (simp add: Cons_nth_drop_Suc)
    then show ?thesis using 1 True by (subst erase_each.simps) (auto simp: take_Suc_conv_app_nth min_def)
  qed (use 1 in \<open>subst erase_each.simps, simp\<close>)
qed

lemma EraseIf_filter: "EraseIf c p = filter (\<lambda>x. \<not> p x) c" "EraseIf_fixed c p = filter (\<lambda>x. \<not> p x) c"
  using erase_loop_eq [of 0 0 c p] erase_each_eq [of 0 c p] by (simp_all add: EraseIf_def EraseIf_fixed_def Let_def case_prod_beta)

lemma erase_pairs_filter: "erase_pairs val m = filter (\<lambda>(k, v). v \<noteq> val) m"
  by (induction val m rule: erase_pairs.induct) auto

lemma MultimapErasePair_filter:
  assumes "sorted (map fst m)"
  shows "MultimapErasePair m key val = filter (\<lambda>kv. kv \<noteq> (key, val)) m"
proof -
  let ?rest = "dropWhile (\<lambda>(k, v). k < key) m"
  let ?B = "takeWhile (\<lambda>(k, v). k < key) m" and ?R = "takeWhile (\<lambda>(k, v). k = key) ?rest" and ?A = "dropWhile (\<lambda>(k, v). k = key) ?rest"
  have m: "m = ?B @ ?R @ ?A" by simp
  have "sorted (map fst ?rest)" using assms by (metis m map_append sorted_append takeWhile_dropWhile_id)
  then have srt: "sorted (map fst ?A)" by (metis map_append sorted_append takeWhile_dropWhile_id)
  have ge: "key \<le> fst kv" if "kv \<in> set ?rest" for kv
  proof (cases ?rest)
    case (Cons y ys)
    then have "\<not> fst y < key" using hd_dropWhile [of "\<lambda>(k, v). k < key" m] by (simp add: case_prod_beta)
    then show ?thesis using that \<open>sorted (map fst ?rest)\<close> Cons by auto
  next
    case Nil
    then show ?thesis using that unfolding Nil by simp
  qed
  have "fst kv \<noteq> key" if "kv \<in> set ?A" for kv
  proof (cases ?A)
    case (Cons y ys)
    then have "fst y \<noteq> key" using hd_dropWhile [of "\<lambda>(k, v). k = key" ?rest] by (simp add: case_prod_beta)
    moreover have "key \<le> fst y" using ge [of y] Cons set_dropWhileD by (metis list.set_intros(1))
    ultimately show ?thesis using that srt Cons by auto
  next
    case Nil
    then show ?thesis using that unfolding Nil by simp
  qed
  then have A: "filter (\<lambda>kv. kv \<noteq> (key, val)) ?A = ?A" by (intro filter_True ballI notI) (metis fst_conv)
  have B: "filter (\<lambda>kv. kv \<noteq> (key, val)) ?B = ?B" by (auto simp: filter_id_conv dest!: set_takeWhileD)
  have R: "filter (\<lambda>kv. kv \<noteq> (key, val)) ?R = erase_pairs val ?R"
    unfolding erase_pairs_filter by (intro filter_cong refl) (auto dest!: set_takeWhileD)
  have "filter (\<lambda>kv. kv \<noteq> (key, val)) m = ?B @ erase_pairs val ?R @ ?A"
    using arg_cong [OF m, of "filter (\<lambda>kv. kv \<noteq> (key, val))"] unfolding filter_append A B R .
  then show ?thesis unfolding MultimapErasePair_def Let_def by (rule sym)
qed

lemma select_random:
  assumes "xs \<noteq> []" and "length xs < 2 ^ 32" and "\<And>n. urand n \<le> n"
  shows "\<exists>x \<in> set xs. SelectRandomContainerElement urand xs = Inr x"
proof -
  obtain y ys where xs: "xs = y # ys" using assms(1) by (cases xs) auto
  have "urand (of_nat (length ys)) \<le> of_nat (length ys)" by (rule assms(3))
  then have "unat (urand (of_nat (length xs) - 1)) \<le> length ys"
    using assms(2) xs by (simp add: word_le_nat_alt unat_of_nat)
  then have i: "unat (urand (of_nat (length xs) - 1)) < length xs" using xs by simp
  then show ?thesis by (intro bexI [OF _ nth_mem [OF i]]) (simp add: SelectRandomContainerElement_def Let_def)
qed

lemma out_write_bounds:
  "out_write x it = Some it' \<Longrightarrow> oi_pos it < length (oi_buf it) \<and> length (oi_buf it') = length (oi_buf it)"
  "(out_write x it = None) = (remaining it = 0)"
  by (auto simp: out_write_def remaining_def split: if_splits)

subsection \<open>Random integers\<close>

text \<open>
  The integer functions of \<^verbatim>\<open>Random.cpp\<close>; \<open>draw\<close> is the uniform distribution of the standard library on the engine, and its contract is
  \<open>draws_between\<close>.  \<open>Milliseconds::period::den\<close> is the 64-bit number 1000, so the products are taken in 64 bits and cut to 32 when they are passed.
\<close>

definition irand :: "(u32 \<Rightarrow> u32 \<Rightarrow> u32) \<Rightarrow> u32 \<Rightarrow> u32 \<Rightarrow> u32 res" where
  "irand draw lo hi = bind_res (assert_res (sint hi \<ge> sint lo)) (\<lambda>_. Inr (draw lo hi))"

definition urand :: "(u32 \<Rightarrow> u32 \<Rightarrow> u32) \<Rightarrow> u32 \<Rightarrow> u32 \<Rightarrow> u32 res" where
  "urand draw lo hi = bind_res (assert_res (hi \<ge> lo)) (\<lambda>_. Inr (draw lo hi))"

definition urandms :: "(u32 \<Rightarrow> u32 \<Rightarrow> u32) \<Rightarrow> u32 \<Rightarrow> u32 \<Rightarrow> u32 res" where
  "urandms draw lo hi =
     bind_res (assert_res ((2 ^ 32 - 1) div 1000 \<ge> uint hi)) (\<lambda>_. urand draw (word_of_int (uint lo * 1000)) (word_of_int (uint hi * 1000)))"

definition randtime :: "(u32 \<Rightarrow> u32 \<Rightarrow> u32) \<Rightarrow> int \<Rightarrow> int \<Rightarrow> int res" where
  "randtime draw lo hi =
     (let diff = hi - lo
      in if diff < - (2 ^ 63) \<or> diff \<ge> 2 ^ 63 then Inl Undefined
         else bind_res (assert_res (diff \<ge> 0)) (\<lambda>_. bind_res (assert_res (diff \<le> 2 ^ 32 - 1)) (\<lambda>_.
              bind_res (urand draw 0 (word_of_int diff)) (\<lambda>r. Inr (lo + uint r)))))"

definition draws_between :: "(u32 \<Rightarrow> u32 \<Rightarrow> u32) \<Rightarrow> bool" where
  "draws_between draw \<longleftrightarrow> (\<forall>lo hi. lo \<le> hi \<longrightarrow> lo \<le> draw lo hi \<and> draw lo hi \<le> hi)"

lemma urand_bounds:
  assumes "draws_between draw"
  shows "lo \<le> hi \<Longrightarrow> \<exists>r. urand draw lo hi = Inr r \<and> lo \<le> r \<and> r \<le> hi" "\<not> lo \<le> hi \<Longrightarrow> urand draw lo hi = Inl AssertFailure"
  using assms by (auto simp: urand_def draws_between_def assert_res_def)

lemma uint_in_range: "0 \<le> i \<Longrightarrow> i < 2 ^ 32 \<Longrightarrow> uint (word_of_int i :: u32) = i"
  by (simp add: uint_word_of_int_eq take_bit_int_eq_self)

lemma urandms_bounds:
  assumes d: "draws_between draw" and "lo \<le> hi" and hi: "uint hi \<le> 4294967"
  shows "\<exists>r. urandms draw lo hi = Inr r \<and> uint lo * 1000 \<le> uint r \<and> uint r \<le> uint hi * 1000"
proof -
  have lo: "uint lo \<le> uint hi" "0 \<le> uint lo" using assms(2) by (simp_all add: word_le_def)
  have w: "uint (word_of_int (uint v * 1000) :: u32) = uint v * 1000" if "uint v \<le> 4294967" for v :: u32
    by (rule uint_in_range) (use that in auto)
  have le: "(word_of_int (uint lo * 1000) :: u32) \<le> word_of_int (uint hi * 1000)"
    using lo hi w [of lo] w [of hi] by (simp add: word_le_def del: of_int_mult)
  obtain r where "urand draw (word_of_int (uint lo * 1000)) (word_of_int (uint hi * 1000)) = Inr r"
      "(word_of_int (uint lo * 1000) :: u32) \<le> r" "r \<le> word_of_int (uint hi * 1000)"
    using urand_bounds(1) [OF d le] by blast
  then show ?thesis using lo hi w [of lo] w [of hi] by (simp add: urandms_def word_le_def del: of_int_mult)
qed

text \<open>Only the upper bound is checked against the range, so a lower bound above it can pass by wrapping around.\<close>

lemma urandms_wraps: "urandms draw 4294968 1 = Inr (draw 704 1000)"
proof -
  have "uint (4294968 :: u32) * 1000 = 4294968000" "word_of_int 4294968000 = (704 :: u32)"
    "word_of_int (uint (1 :: u32) * 1000) = (1000 :: u32)" "uint (1 :: u32) \<le> (2 ^ 32 - 1) div 1000" "(704 :: u32) \<le> 1000" by code_simp+
  then show ?thesis unfolding urandms_def urand_def by (simp only: assert_res_def if_True bind_res.simps)
qed

lemma randtime_bounds:
  assumes d: "draws_between draw" and "lo \<le> hi" "hi - lo < 2 ^ 32"
  shows "\<exists>r. randtime draw lo hi = Inr r \<and> lo \<le> r \<and> r \<le> hi"
proof -
  have w: "uint (word_of_int (hi - lo) :: u32) = hi - lo" by (rule uint_in_range) (use assms in auto)
  obtain r where r: "urand draw 0 (word_of_int (hi - lo)) = Inr r" "r \<le> word_of_int (hi - lo)"
    using urand_bounds(1) [OF d, of 0 "word_of_int (hi - lo)"] by auto
  then have "uint r \<le> hi - lo" using w by (simp add: word_le_def del: of_int_diff)
  then show ?thesis using assms(2,3) r(1) by (simp add: randtime_def Let_def del: of_int_diff)
qed

end
