(* ===== verification/Spec2Isabelle.thy ===== *)
theory Spec2Isabelle
  imports Prelude Interfaces StrUtil Scheduler Updater PCQueue MPSCQueue Config LogChannel Logging Statement Connection Transaction WorkerPool Callbacks Utf8 Embed Texts Bot DiscordDatabase DBUpdater DatabaseMgr DbField QueryResult TimeString IntrusiveQueue BigNumber SRP6 HashContext Ciphers Containers
begin

text \<open>
  This library verifies the WarheadCore Discord bot: a C++ program that keeps a connection to
  Discord through the library D++, stores the players of its guilds in a MySQL database, and brings its own
  framework for configuration, logging, scheduling, queues and asynchronous database access.

  \<^bold>\<open>The program.\<close>  \<^verbatim>\<open>src/src/app\<close> starts the parts and runs the update loop.  \<^verbatim>\<open>src/src/common\<close> holds
  the framework: string utilities, the configuration, the loggers and their channels, the task
  scheduler, two queues and the callback processor.  \<^verbatim>\<open>src/src/server/database\<close> holds the database layer: prepared
  statements, connections, transactions, results and their fields, the pool with its workers, query holders and
  callbacks, the manager that opens the pools, and the updater that creates databases and applies SQL files.  \<^verbatim>\<open>src/src/server/bot\<close> holds the bot: commands, buttons, forms and the messages it composes.
  A command of a user makes the bot queue a statement in the pool; a worker thread takes it from the
  queue, executes it on its connection and sets a promise; the update loop finds the future ready
  and calls the callback, which answers in Discord.

  \<^bold>\<open>Theories.\<close>  Each opens with a text that names the files it models.
    \<^item> \<open>Prelude\<close>: integer types, the result type of code that may stop the process or be undefined, string
      searches, hash maps as lists of bindings.  \<open>Interfaces\<close>: the contracts between components as
      locales (FIFO queue, queue ordered by a key, keyed store), interpreted by the theories that provide
      them.
    \<^item> \<open>StrUtil\<close>: \<^verbatim>\<open>Tokenize.cpp\<close>, \<^verbatim>\<open>StringFormat.cpp\<close>, \<^verbatim>\<open>StringConvert.h\<close>, \<^verbatim>\<open>Util.cpp\<close>: tokens, trimming, numbers to and from
      text, hexadecimal strings.  \<open>TimeString\<close>: durations as text (\<^verbatim>\<open>Timer.cpp\<close>).  \<open>Utf8\<close>: the bundled UTF8-CPP, the wide strings and their case mapping.
    \<^item> \<open>Scheduler\<close>: \<^verbatim>\<open>TaskScheduler.h\<close> and \<^verbatim>\<open>.cpp\<close>.  \<open>PCQueue\<close>: \<^verbatim>\<open>PCQueue.h\<close> and the worker threads of
      \<^verbatim>\<open>DatabaseAsyncQueueWorker.cpp\<close>, as a step relation over the positions of the workers in their loop.
      \<open>MPSCQueue\<close> and \<open>IntrusiveQueue\<close>: the two queues of \<^verbatim>\<open>MPSCQueue.h\<close>, as step relations over the atomic accesses to their nodes.
    \<^item> \<open>Config\<close>: \<^verbatim>\<open>Config.cpp\<close>.  \<open>LogChannel\<close> and \<open>Logging\<close>: the patterns, channels and loggers of \<^verbatim>\<open>src/src/common/Logging\<close>.
    \<^item> \<open>Statement\<close>, \<open>Connection\<close>, \<open>Transaction\<close>, \<open>WorkerPool\<close>, \<open>Callbacks\<close>: the files of \<^verbatim>\<open>src/src/server/database/Database\<close>.
      \<open>DbField\<close> and \<open>QueryResult\<close>: \<^verbatim>\<open>Field.cpp\<close> and \<^verbatim>\<open>QueryResult.cpp\<close>, the rows of a result in the memory of the program.
      \<open>Updater\<close>: \<^verbatim>\<open>UpdateFetcher.cpp\<close>.  \<open>DBUpdater\<close>: \<^verbatim>\<open>DBUpdater.cpp\<close>, on top of the fetcher and the pool.  \<open>DatabaseMgr\<close>:
      \<^verbatim>\<open>DatabaseMgr.cpp\<close>, on top of the updater; the four queues of its tasks share one locale.
    \<^item> \<open>BigNumber\<close>, \<open>SRP6\<close>, \<open>HashContext\<close>, \<open>Ciphers\<close>: the files of \<^verbatim>\<open>src/src/common/Cryptography\<close>: big numbers, the authentication by password,
      hash objects and the contexts they own,
      one-time tokens, session keys, authenticated messages and the stream cipher.  \<open>Containers\<close>: \<^verbatim>\<open>Containers.h\<close> and the random integers of \<^verbatim>\<open>Random.cpp\<close>.
    \<^item> \<open>Embed\<close>, \<open>Texts\<close>, \<open>Bot\<close>: the files of \<^verbatim>\<open>src/src/server/bot/Discord\<close>.  \<open>DiscordDatabase\<close>: the statements of the
      bot's database, and the property that spans the bot, the pool, the statements and the connections.

  \<^bold>\<open>State and effects.\<close>  A class with data is a record, its operations are functions that return the
  record updated.  A failed \<^verbatim>\<open>ASSERT\<close>, an \<^verbatim>\<open>ABORT\<close> and undefined behaviour are values of the type \<open>fault\<close>, so a
  theorem that an operation returns \<open>Inr\<close> also says that none of them happens.  Threads are interleavings of steps
  (\<open>PCQueue\<close>, \<open>MPSCQueue\<close>, \<open>IntrusiveQueue\<close>); the memory model is the sequentially consistent one.  Actions on the outside are
  recorded: the calls of a connection to the client library, the statements of the updater, the
  messages of the bot.  Integers keep their width where they can wrap (the counters of the pool and of the
  bot, the indices of statements, attempts to connect); sizes are natural numbers.

  \<^bold>\<open>What is assumed.\<close>  Code outside the repository is a parameter, and what is assumed of it is a named hypothesis of
  the theorems that need it, each with an instance in a witness.  The MySQL client library answers
  each call from the history of calls (\<open>client\<close>); \<open>stays_connected\<close> says that no call reports a lost
  connection, \<open>reports_errors\<close> and \<open>control_succeeds\<close> that a failed call leaves an error code and that the control
  statements succeed, \<open>mysql_transactions\<close> what the server does with statements, commits and rollbacks, and
  \<open>clock_advances\<close> that time passes.  For the updater the database and the hash function are parameters
  (\<open>mysql_updates\<close>, no collisions among the files at hand); for the
  updater of a pool the file system, the configuration, the exit codes of the processes it starts and the answer on the terminal
  are the record \<open>updater_world\<close>.  For the results \<open>well_behaved\<close> says that the client library stores, binds and fetches the
  rows as its manual says, and arithmetic on floating-point numbers is a parameter.  OpenSSL is a parameter: \<open>bn_laws\<close>, \<open>gcm_laws\<close>
  and \<open>rc4_laws\<close> say what its manual says of big numbers, of the authenticated cipher and of the stream cipher, hash functions are any functions with
  digests of the right length, and random bytes are arguments.  The callables of tasks and of callbacks are
  parameters too: functions that give the list of their operations.

  \<^bold>\<open>What is shown.\<close>  For the database: a transaction is carried out completely or not at all and its task
  ends, connecting again is bounded, statement objects hold what was bound, the pool keeps its connections and
  finds a free one, every asynchronous result is delivered once; the rows of a result come back as they were sent and no buffer is
  left; loading the databases comes to an end and closes what it opened when it fails; an update of a database runs the
  scripts of the fetcher and stops at the first that fails, and an empty database is filled from the base scripts.  For the queues: no wake-up and no operation
  is lost while the workers run, the order is kept, and no thread touches a node that was deleted.  For the scheduler: an update leaves no task due, runs tasks in the order of
  their times and ends.  For the updater: files are applied in order, those that need it and no others, a failed
  file leaves no row, a second update does nothing.  For configuration and logging: layers override as intended,
  files are read back, messages are written exactly when the levels ask for it.  For the bot: roles are deleted only as confirmed by the
  author of the request, every statement binds, names are normalized in a stable way, messages keep
  the limits of Discord.  For the cryptographic classes: a client that knows the password shares a session key with the server,
  tokens are those of the standard, what was encrypted is decrypted, and hash objects use no freed context.  The lemmas on errors show where the code does not do what it means to: a lost
  connection splits a transaction, an error of a statement is reported as success, a callable that cancels all
  asynchronous tasks pops an empty queue, a destroyed worker drops an operation, a second renamed file leaves no
  row, players after the twenty-fourth are not listed, a failed result is freed twice, reading a sum of floating-point numbers
  never returns, a pool that is opened half-way stays open, a message too short to be decrypted stops the process,
  a hash object that is assigned by moving loses its context.

  \<^bold>\<open>Bounds and termination.\<close>  Loops over data are recursive functions.  \<open>HandleMySQLError\<close> ends because its 8-bit
  counter reaches zero.  Loops that may run forever are partial functions in the option type: the repeated statement
  of \<open>Execute\<close> and \<open>Query\<close>, the retries of a deadlocked transaction, the search for a free connection, the typed access
  to a field and the dispatch loop of the scheduler.  The theorems prove that they return: under hypotheses on the client and its
  clock, and for tasks whose repetitions lie in the future.  Fuel is used in the destructors of the two lock-free queues: one more than the number of
  enqueued values is shown to be enough; six steps of the consumer are shown to be a \<open>Dequeue\<close>.

  \<^bold>\<open>Not modelled.\<close>  The start-up code, signal handlers and thread pools (calls of Boost.Asio and the operating system);
  the keyed hash objects, the generators of random numbers and the random floating-point numbers, which wrap OpenSSL, SFMT and the standard library; process starting, progress bars and console colours (terminal output); D++,
  fmt, zlib and the other bundled libraries except for the two headers of UTF8-CPP; reading and writing of
  files, where the model has the lines or the list of files instead.
\<close>

section \<open>The two views of a result\<close>

text \<open>
  Connections, holders and callbacks know a result by its numbers of rows and columns and by the position of its cursor;
  \<open>QueryResult\<close> has the rows.  The first is an abstraction of the second.
\<close>

definition cursor :: "adhoc_result \<Rightarrow> result_set \<times> nat" where
  "cursor rs = ((rs_rowCount rs, length (rs_fields rs)),
     rs_rowCount rs - (case rs_result rs of None \<Rightarrow> 0 | Some rows \<Rightarrow> length rows))"

definition in_result :: "adhoc_result \<Rightarrow> bool" where
  "in_result rs = (\<forall>rows. rs_result rs = Some rows \<longrightarrow> length rows \<le> rs_rowCount rs)"

lemma cursor_step:
  assumes "in_result rs" and "ResultSet_NextRow True rs = (ok, rs')"
  shows "in_result rs'" and "cursor_NextRow (cursor rs) = (ok, cursor rs')"
  using assms
  by (auto simp: in_result_def cursor_def cursor_NextRow_def ResultSet_NextRow_def ResultSet_CleanUp_def
      split: option.splits list.splits)

text \<open>
  However often \<open>NextRow\<close> is called on a result, its answers are those of the cursor.
\<close>

theorem result_refines_cursor:
  fixes flds :: "mysql_field list" and rows :: "string option list list"
  defines "rs k \<equiv> ((\<lambda>rs. snd (ResultSet_NextRow True rs)) ^^ k) (ResultSet flds rows)"
    and "cur k \<equiv> ((\<lambda>c. snd (cursor_NextRow c)) ^^ k) ((length rows, length flds), 0)"
  shows "cursor (rs k) = cur k \<and> fst (ResultSet_NextRow True (rs k)) = fst (cursor_NextRow (cur k))"
proof -
  have start: "in_result (rs 0)" "cursor (rs 0) = cur 0"
    by (simp_all add: rs_def cur_def ResultSet_def in_result_def cursor_def)
  have "in_result (rs k) \<and> cursor (rs k) = cur k" for k
  proof (induction k)
    case (Suc k)
    obtain ok rs' where n: "ResultSet_NextRow True (rs k) = (ok, rs')" by fastforce
    then show ?case using Suc cursor_step [OF _ n] by (metis comp_apply cur_def funpow.simps(2) rs_def snd_conv)
  qed (use start in simp)
  then show ?thesis by (metis cursor_step(2) fst_conv prod.collapse)
qed

end
